(* ===== verification/KGI_Prelude.thy ===== *)
theory KGI_Prelude
  imports Main "HOL-Library.Word" "HOL-Library.Finite_Map" "HOL-Library.Monad_Syntax"
    "HOL-Library.Code_Target_Nat"
begin

text \<open>
  Shared vocabulary of the development: Rust's fixed-width integers and checked arithmetic,
  panics as the value \<open>None\<close>, hash maps and hash sets as finite maps and finite sets, the
  \<open>entry\<close> idioms of \<open>std::collections\<close>, and the interface of a bucket index (a map from keys
  to non-empty sets) on which the graph view, the orphan topology and the VSPC processor rest.

  A Rust \<open>HashMap\<close> or \<open>BTreeMap\<close> is an \<open>fmap\<close>, a \<open>HashSet\<close> an \<open>fset\<close>. A loop over one of
  them visits the entries in ascending key order: that is the order of a \<open>BTreeMap\<close>, and one of
  the orders a \<open>HashMap\<close> may choose.
\<close>

section \<open>Collections of facts\<close>

named_theorems rust_arith \<open>checked and saturating arithmetic on words\<close>
named_theorems entry_simps \<open>lookups after an entry operation on a map\<close>

section \<open>Machine integers\<close>

type_synonym u8 = "8 word"
type_synonym u16 = "16 word"
type_synonym u32 = "32 word"
type_synonym u64 = "64 word"

definition checked_add :: "'a::len word \<Rightarrow> 'a word \<Rightarrow> 'a word option" where
  "checked_add a b = (if unat a + unat b < 2 ^ LENGTH('a) then Some (a + b) else None)"

definition checked_sub :: "'a::len word \<Rightarrow> 'a word \<Rightarrow> 'a word option" where
  "checked_sub a b = (if b \<le> a then Some (a - b) else None)"

definition checked_mul :: "'a::len word \<Rightarrow> 'a word \<Rightarrow> 'a word option" where
  "checked_mul a b = (if unat a * unat b < 2 ^ LENGTH('a) then Some (a * b) else None)"

definition saturating_sub :: "'a::len word \<Rightarrow> 'a word \<Rightarrow> 'a word" where
  "saturating_sub a b = (if b \<le> a then a - b else 0)"

text \<open>Truncation to a width, bit by bit: evaluation then takes as many steps as the number has
  bits, however wide the word is.\<close>

lemma take_bit_int_steps [code]:
  "take_bit n (k :: int) = (if k = 0 \<or> n = 0 then 0 else take_bit (n - 1) (k div 2) * 2 + k mod 2)"
  by (simp add: take_bit_rec[of n k])

text \<open>\<open>u64::try_from(n: usize)\<close>: a length that does not fit panics at its \<open>expect\<close>.\<close>

definition u64_try_from :: "nat \<Rightarrow> u64 option" where
  "u64_try_from n = (if n < 2 ^ 64 then Some (word_of_nat n) else None)"

lemma unat_checked_add: "checked_add a b = Some c \<Longrightarrow> unat c = unat a + unat b"
  by (auto simp: checked_add_def unat_word_ariths split: if_splits)

lemma unat_checked_sub: "checked_sub a b = Some c \<Longrightarrow> unat c = unat a - unat b"
  by (auto simp: checked_sub_def unat_sub split: if_splits)

lemma unat_checked_mul: "checked_mul a b = Some c \<Longrightarrow> unat c = unat a * unat b"
  by (auto simp: checked_mul_def unat_word_ariths split: if_splits)

lemma unat_saturating_sub [rust_arith]: "unat (saturating_sub a b) = unat a - unat b"
  by (auto simp: saturating_sub_def unat_sub word_le_nat_alt)

lemma checked_add_Some_iff [rust_arith]:
  "checked_add a b = Some c \<longleftrightarrow> unat c = unat a + unat b"
  for a :: "'a::len word"
proof
  assume "unat c = unat a + unat b"
  moreover from this have "unat a + unat b < 2 ^ LENGTH('a)"
    using unsigned_less[of c, where 'a = nat] by simp
  ultimately show "checked_add a b = Some c"
    by (auto simp: checked_add_def unat_word_ariths word_unat_eq_iff)
qed (rule unat_checked_add)

lemma checked_sub_Some_iff [rust_arith]:
  "checked_sub a b = Some c \<longleftrightarrow> unat b \<le> unat a \<and> unat c = unat a - unat b"
  by (auto simp: checked_sub_def word_le_nat_alt unat_sub word_unat_eq_iff)

lemma checked_add_1_total: "unat (a :: 'a::len word) + 1 < 2 ^ LENGTH('a) \<Longrightarrow> \<exists>c. checked_add a 1 = Some c"
  by (simp add: checked_add_def)

section \<open>Collecting options\<close>

text \<open>Collecting an iterator of options into an option of a vector.\<close>

primrec collect_options :: "'a option list \<Rightarrow> 'a list option" where
  "collect_options [] = Some []"
| "collect_options (x # xs) =
     (case x of None \<Rightarrow> None | Some y \<Rightarrow> map_option (Cons y) (collect_options xs))"

lemma collect_options_map:
  "collect_options (map f xs) = (if \<forall>x\<in>set xs. f x \<noteq> None then Some (map (the \<circ> f) xs) else None)"
  by (induction xs) (auto split: option.splits)

lemma collect_options_total: "(\<And>x. x \<in> set xs \<Longrightarrow> f x \<noteq> None) \<Longrightarrow> \<exists>ys. collect_options (map f xs) = Some ys"
  by (simp add: collect_options_map)

section \<open>Loops whose body may panic\<close>

primrec fold_opt :: "('s \<Rightarrow> 'x \<Rightarrow> 's option) \<Rightarrow> 's \<Rightarrow> 'x list \<Rightarrow> 's option" where
  "fold_opt f s [] = Some s"
| "fold_opt f s (x # xs) = (case f s x of None \<Rightarrow> None | Some s' \<Rightarrow> fold_opt f s' xs)"

lemma fold_opt_append:
  "fold_opt f s (xs @ ys) = (case fold_opt f s xs of None \<Rightarrow> None | Some s' \<Rightarrow> fold_opt f s' ys)"
  by (induction xs arbitrary: s) (auto split: option.splits)

text \<open>An invariant of the body, kept along the list, is an invariant of the loop; a body that
  never panics under it makes a loop that never panics.\<close>

lemma fold_opt_invariant:
  assumes "fold_opt f s xs = Some s'" and "P s"
    and "\<And>s x t. P s \<Longrightarrow> x \<in> set xs \<Longrightarrow> f s x = Some t \<Longrightarrow> P t"
  shows "P s'"
  using assms
proof (induction xs arbitrary: s)
  case (Cons x xs)
  from Cons.prems(1) obtain t where t: "f s x = Some t" "fold_opt f t xs = Some s'"
    by (auto split: option.splits)
  have "P t" by (rule Cons.prems(3)[OF Cons.prems(2) _ t(1)]) simp
  show ?case
    by (rule Cons.IH[OF t(2) \<open>P t\<close>]) (rule Cons.prems(3), auto)
qed simp

lemma fold_opt_total:
  assumes "P s" and "\<And>s x. P s \<Longrightarrow> x \<in> set xs \<Longrightarrow> \<exists>t. f s x = Some t \<and> P t"
  shows "\<exists>s'. fold_opt f s xs = Some s' \<and> P s'"
  using assms
proof (induction xs arbitrary: s)
  case (Cons x xs)
  obtain t where t: "f s x = Some t" "P t"
    using Cons.prems(2)[OF Cons.prems(1), of x] by auto
  have "\<exists>s'. fold_opt f t xs = Some s' \<and> P s'"
    by (rule Cons.IH[OF t(2)]) (rule Cons.prems(2), auto)
  with t show ?case by auto
qed simp

section \<open>Entry operations on maps\<close>

text \<open>\<open>map.entry(k).or_insert(v)\<close>: the first value stays.\<close>

definition or_insert :: "'k \<Rightarrow> 'v \<Rightarrow> ('k, 'v) fmap \<Rightarrow> ('k, 'v) fmap" where
  "or_insert k v m = (case fmlookup m k of None \<Rightarrow> fmupd k v m | Some _ \<Rightarrow> m)"

lemma fmlookup_or_insert [simp, entry_simps]:
  "fmlookup (or_insert k v m) k' =
     (if k = k' then (case fmlookup m k of None \<Rightarrow> Some v | Some w \<Rightarrow> Some w) else fmlookup m k')"
  by (auto simp: or_insert_def split: option.splits)

text \<open>\<open>into_iter().filter_map(f).collect()\<close> from a map into a map with the same keys.\<close>

definition fm_filter_map :: "('k::linorder \<Rightarrow> 'v \<Rightarrow> 'w option) \<Rightarrow> ('k, 'v) fmap \<Rightarrow> ('k, 'w) fmap" where
  "fm_filter_map f m =
     fmap_of_list (List.map_filter (\<lambda>(k, v). map_option (Pair k) (f k v)) (sorted_list_of_fmap m))"

lemma map_of_map_filter_keys:
  "distinct (map fst xs) \<Longrightarrow>
   map_of (List.map_filter (\<lambda>(k, v). map_option (Pair k) (f k v)) xs) k =
     (case map_of xs k of None \<Rightarrow> None | Some v \<Rightarrow> f k v)"
proof (induction xs)
  case (Cons x xs)
  obtain a b where x: "x = (a, b)" by (cases x)
  have "k = a \<Longrightarrow> map_of xs k = None"
    using Cons.prems x by (auto simp: map_of_eq_None_iff)
  then show ?case
    using Cons x by (auto simp: List.map_filter_simps split: option.splits)
qed (simp add: List.map_filter_simps)

lemma distinct_sorted_list_of_fmap [simp]: "distinct (map fst (sorted_list_of_fmap m))"
  by (simp add: sorted_list_of_fmap_def comp_def sorted_list_of_fset.rep_eq)

lemma set_sorted_list_of_fmap: "(k, v) \<in> set (sorted_list_of_fmap m) \<longleftrightarrow> fmlookup m k = Some v"
  by (metis distinct_sorted_list_of_fmap map_of_eq_Some_iff map_of_sorted_list)

lemma fmlookup_fm_filter_map [simp, entry_simps]:
  "fmlookup (fm_filter_map f m) k = (case fmlookup m k of None \<Rightarrow> None | Some v \<Rightarrow> f k v)"
  by (simp add: fm_filter_map_def fmlookup_of_list map_of_map_filter_keys)

text \<open>A map changed by a set of absolute changes: \<open>Some v\<close> installs \<open>v\<close>, \<open>None\<close> removes the key,
  an absent key keeps its value. This is the specification of every delta application.\<close>

definition patched :: "('k \<Rightarrow> 'v option) \<Rightarrow> ('k \<Rightarrow> 'v option option) \<Rightarrow> 'k \<Rightarrow> 'v option" where
  "patched m ch k = (case ch k of None \<Rightarrow> m k | Some c \<Rightarrow> c)"

lemma patched_simps [simp]:
  "ch k = None \<Longrightarrow> patched m ch k = m k"
  "ch k = Some c \<Longrightarrow> patched m ch k = c"
  by (simp_all add: patched_def)

section \<open>Buckets\<close>

text \<open>\<open>map.entry(k).or_default().insert(x)\<close>, and the removal idiom that drops a bucket when its
  last element goes.\<close>

definition bucket :: "('k, 'x fset) fmap \<Rightarrow> 'k \<Rightarrow> 'x fset" where
  "bucket m k = (case fmlookup m k of None \<Rightarrow> {||} | Some s \<Rightarrow> s)"

definition bucket_insert :: "'k \<Rightarrow> 'x \<Rightarrow> ('k, 'x fset) fmap \<Rightarrow> ('k, 'x fset) fmap" where
  "bucket_insert k x m = fmupd k (finsert x (bucket m k)) m"

definition bucket_remove :: "'k \<Rightarrow> 'x \<Rightarrow> ('k, 'x fset) fmap \<Rightarrow> ('k, 'x fset) fmap" where
  "bucket_remove k x m =
     (case fmlookup m k of
        None \<Rightarrow> m
      | Some s \<Rightarrow> let s' = s |-| {|x|} in if s' = {||} then fmdrop k m else fmupd k s' m)"

definition no_empty_bucket :: "('k, 'x fset) fmap \<Rightarrow> bool" where
  "no_empty_bucket m = fmpred (\<lambda>_ s. s \<noteq> {||}) m"

lemma bucket_empty [simp]: "bucket fmempty k = {||}"
  by (simp add: bucket_def)

lemma bucket_bucket_insert [simp]:
  "bucket (bucket_insert k x m) k' = (if k = k' then finsert x (bucket m k') else bucket m k')"
  by (simp add: bucket_def bucket_insert_def)

lemma bucket_bucket_remove [simp]:
  "bucket (bucket_remove k x m) k' = (if k = k' then bucket m k' |-| {|x|} else bucket m k')"
  by (auto simp: bucket_def bucket_remove_def Let_def split: option.splits)

lemma no_empty_bucket_empty [simp]: "no_empty_bucket fmempty"
  by (simp add: no_empty_bucket_def)

lemma no_empty_bucketD: "no_empty_bucket m \<Longrightarrow> fmlookup m k = Some s \<Longrightarrow> s \<noteq> {||}"
  by (auto simp: no_empty_bucket_def fmpred_iff)

lemma no_empty_bucket_insert [simp]: "no_empty_bucket m \<Longrightarrow> no_empty_bucket (bucket_insert k x m)"
  by (auto simp: no_empty_bucket_def fmpred_iff bucket_insert_def split: if_splits)

lemma no_empty_bucket_remove [simp]: "no_empty_bucket m \<Longrightarrow> no_empty_bucket (bucket_remove k x m)"
  by (auto simp: no_empty_bucket_def fmpred_iff bucket_remove_def Let_def
           split: if_splits option.splits)

lemma no_empty_bucket_drop [simp]: "no_empty_bucket m \<Longrightarrow> no_empty_bucket (fmdrop k m)"
  by (auto simp: no_empty_bucket_def fmpred_iff split: if_splits)

lemma bucket_fmdrop [simp]: "bucket (fmdrop k m) k' = (if k = k' then {||} else bucket m k')"
  by (simp add: bucket_def)

lemma bucket_lookup_iff:
  "no_empty_bucket m \<Longrightarrow> fmlookup m k = (if bucket m k = {||} then None else Some (bucket m k))"
  by (auto simp: bucket_def split: option.splits dest: no_empty_bucketD)

lemma no_empty_bucket_ext:
  assumes "no_empty_bucket m" "no_empty_bucket m'" "\<And>k. bucket m k = bucket m' k"
  shows "m = m'"
  by (rule fmap_ext) (simp add: assms bucket_lookup_iff)

text \<open>The nested index of the span map: an outer key, an inner key, a bucket. Both levels drop an
  entry that becomes empty.\<close>

type_synonym ('a, 'b, 'x) span_map = "('a, ('b, 'x fset) fmap) fmap"

definition span_row :: "('a, 'b, 'x) span_map \<Rightarrow> 'a \<Rightarrow> ('b, 'x fset) fmap" where
  "span_row m a = (case fmlookup m a of None \<Rightarrow> fmempty | Some r \<Rightarrow> r)"

definition span_bucket :: "('a, 'b, 'x) span_map \<Rightarrow> 'a \<times> 'b \<Rightarrow> 'x fset" where
  "span_bucket m k = bucket (span_row m (fst k)) (snd k)"

definition span_insert :: "'a \<times> 'b \<Rightarrow> 'x \<Rightarrow> ('a, 'b, 'x) span_map \<Rightarrow> ('a, 'b, 'x) span_map" where
  "span_insert k x m = fmupd (fst k) (bucket_insert (snd k) x (span_row m (fst k))) m"

definition span_remove :: "'a \<times> 'b \<Rightarrow> 'x \<Rightarrow> ('a, 'b, 'x) span_map \<Rightarrow> ('a, 'b, 'x) span_map" where
  "span_remove k x m =
     (case fmlookup m (fst k) of
        None \<Rightarrow> m
      | Some r \<Rightarrow> let r' = bucket_remove (snd k) x r
                  in if r' = fmempty then fmdrop (fst k) m else fmupd (fst k) r' m)"

definition span_ok :: "('a, 'b, 'x) span_map \<Rightarrow> bool" where
  "span_ok m = fmpred (\<lambda>_ r. r \<noteq> fmempty \<and> no_empty_bucket r) m"

lemma span_row_simps [simp]:
  "span_row fmempty a = fmempty"
  "span_row (fmupd a r m) a' = (if a = a' then r else span_row m a')"
  "span_row (fmdrop a m) a' = (if a = a' then fmempty else span_row m a')"
  by (simp_all add: span_row_def)

lemma span_row_no_empty [simp]: "span_ok m \<Longrightarrow> no_empty_bucket (span_row m a)"
  by (auto simp: span_ok_def span_row_def fmpred_iff split: option.splits)

lemma bucket_insert_nonempty [simp]: "bucket_insert k x m \<noteq> fmempty"
  by (metis bucket_insert_def fmempty_lookup fmupd_lookup option.distinct(1))

lemma span_row_lookup:
  "span_ok m \<Longrightarrow> fmlookup m a = (if span_row m a = fmempty then None else Some (span_row m a))"
  by (auto simp: span_ok_def span_row_def fmpred_iff split: option.splits)

lemma span_bucket_remove_gen:
  "span_bucket (span_remove k x m) k' =
     (if k = k' then span_bucket m k' |-| {|x|} else span_bucket m k')"
proof (cases "fmlookup m (fst k)")
  case None
  then show ?thesis
    by (auto simp: span_remove_def span_bucket_def span_row_def)
next
  case (Some r)
  then have row: "span_row m (fst k) = r" by (simp add: span_row_def)
  have "span_row (span_remove k x m) (fst k') =
      (if fst k' = fst k then bucket_remove (snd k) x r else span_row m (fst k'))"
    using Some by (auto simp: span_remove_def Let_def)
  then show ?thesis
    using row by (cases k; cases k') (auto simp: span_bucket_def)
qed

section \<open>The interface of a bucket index\<close>

text \<open>
  What a component relies on when it keeps a secondary index beside its primary data: a
  key-to-set lookup, insertion and removal of one pair, and extensionality on well-formed
  indexes. The provider promises the laws; clients obtain that any incrementally maintained index
  equals the one rebuilt from scratch.
\<close>

locale bucket_index =
  fixes emp :: 'i
    and ins :: "'k \<Rightarrow> 'x \<Rightarrow> 'i \<Rightarrow> 'i"
    and del :: "'k \<Rightarrow> 'x \<Rightarrow> 'i \<Rightarrow> 'i"
    and look :: "'i \<Rightarrow> 'k \<Rightarrow> 'x fset"
    and ok :: "'i \<Rightarrow> bool"
  assumes look_emp: "look emp k = {||}"
    and look_ins: "ok i \<Longrightarrow> look (ins k x i) k' = (if k = k' then finsert x (look i k') else look i k')"
    and look_del: "ok i \<Longrightarrow> look (del k x i) k' = (if k = k' then look i k' |-| {|x|} else look i k')"
    and ok_emp: "ok emp"
    and ok_ins: "ok i \<Longrightarrow> ok (ins k x i)"
    and ok_del: "ok i \<Longrightarrow> ok (del k x i)"
    and ok_ext: "ok i \<Longrightarrow> ok j \<Longrightarrow> (\<And>k. look i k = look j k) \<Longrightarrow> i = j"
begin

lemma ok_build: "ok i \<Longrightarrow> ok (fold (\<lambda>(k, x). ins k x) ps i)"
  by (induction ps arbitrary: i) (auto simp: ok_ins)

lemma look_build:
  "ok i \<Longrightarrow> x |\<in>| look (fold (\<lambda>(k, x). ins k x) ps i) k \<longleftrightarrow> x |\<in>| look i k \<or> (k, x) \<in> set ps"
proof (induction ps arbitrary: i)
  case (Cons p ps)
  then show ?case by (cases p) (auto simp: ok_ins look_ins)
qed simp

text \<open>The set of indexed pairs is all an index is: building from two lists with the same pairs
  gives the same index.\<close>

lemma build_cong:
  assumes "set ps = set qs"
  shows "fold (\<lambda>(k, x). ins k x) ps emp = fold (\<lambda>(k, x). ins k x) qs emp"
  by (rule ok_ext) (auto simp: ok_build ok_emp look_build assms intro!: fset_eqI)

lemma build_insert:
  assumes "set qs = insert (k, x) (set ps)"
  shows "fold (\<lambda>(k, x). ins k x) qs emp = ins k x (fold (\<lambda>(k, x). ins k x) ps emp)"
proof (rule ok_ext)
  fix k' show "look (fold (\<lambda>(k, x). ins k x) qs emp) k' =
      look (ins k x (fold (\<lambda>(k, x). ins k x) ps emp)) k'"
    by (rule fset_eqI) (auto simp: look_build look_ins ok_build ok_emp assms)
qed (auto simp: ok_build ok_emp ok_ins)

lemma build_remove:
  assumes "set qs = set ps - {(k, x)}"
  shows "fold (\<lambda>(k, x). ins k x) qs emp = del k x (fold (\<lambda>(k, x). ins k x) ps emp)"
proof (rule ok_ext)
  fix k' show "look (fold (\<lambda>(k, x). ins k x) qs emp) k' =
      look (del k x (fold (\<lambda>(k, x). ins k x) ps emp)) k'"
    by (rule fset_eqI) (auto simp: look_build look_del ok_build ok_emp look_emp assms)
qed (auto simp: ok_build ok_emp ok_del)

text \<open>The index of a primary map: every entry contributes one pair, and the pair determines the
  entry's key. Updating and dropping an entry correspond to one insertion and one removal.\<close>

lemma look_index:
  "x |\<in>| look (fold (\<lambda>(k, x). ins k x) (map f (sorted_list_of_fmap m)) emp) k \<longleftrightarrow>
     (\<exists>a v. fmlookup m a = Some v \<and> f (a, v) = (k, x))"
proof -
  have "(k, x) \<in> set (map f (sorted_list_of_fmap m)) \<longleftrightarrow>
      (\<exists>a v. fmlookup m a = Some v \<and> f (a, v) = (k, x))"
    by (simp add: image_iff) (metis set_sorted_list_of_fmap surj_pair)
  then show ?thesis
    using look_build[OF ok_emp, of x "map f (sorted_list_of_fmap m)" k] look_emp by simp
qed

lemma index_upd_new:
  assumes "fmlookup m a = None"
  shows "fold (\<lambda>(k, x). ins k x) (map f (sorted_list_of_fmap (fmupd a v m))) emp =
         ins (fst (f (a, v))) (snd (f (a, v))) (fold (\<lambda>(k, x). ins k x) (map f (sorted_list_of_fmap m)) emp)"
proof (rule build_insert)
  have "set (sorted_list_of_fmap (fmupd a v m)) = insert (a, v) (set (sorted_list_of_fmap m))"
    using assms by (auto simp: set_sorted_list_of_fmap split: if_splits)
  then show "set (map f (sorted_list_of_fmap (fmupd a v m))) =
      insert (fst (f (a, v)), snd (f (a, v))) (set (map f (sorted_list_of_fmap m)))" by simp
qed

lemma index_drop:
  assumes "fmlookup m a = Some v" and inj: "\<And>a v b w. f (a, v) = f (b, w) \<Longrightarrow> a = b"
  shows "fold (\<lambda>(k, x). ins k x) (map f (sorted_list_of_fmap (fmdrop a m))) emp =
         del (fst (f (a, v))) (snd (f (a, v))) (fold (\<lambda>(k, x). ins k x) (map f (sorted_list_of_fmap m)) emp)"
proof (rule build_remove)
  have "set (sorted_list_of_fmap (fmdrop a m)) = set (sorted_list_of_fmap m) - {(a, v)}"
    using assms(1) by (auto simp: set_sorted_list_of_fmap split: if_splits)
  moreover have "f ` (set (sorted_list_of_fmap m) - {(a, v)}) = f ` set (sorted_list_of_fmap m) - {f (a, v)}"
    using inj assms(1) by (force simp: set_sorted_list_of_fmap)
  ultimately show "set (map f (sorted_list_of_fmap (fmdrop a m))) =
      set (map f (sorted_list_of_fmap m)) - {(fst (f (a, v)), snd (f (a, v)))}" by simp
qed

lemma ins_after_del: "ok i \<Longrightarrow> ins k x (del k x i) = ins k x i"
  by (rule ok_ext) (auto simp: ok_ins ok_del look_ins look_del)

end

interpretation flat: bucket_index fmempty bucket_insert bucket_remove bucket no_empty_bucket
  by unfold_locales (auto intro: no_empty_bucket_ext)

interpretation span: bucket_index fmempty span_insert span_remove span_bucket span_ok
proof
  fix m :: "('a, 'b, 'c) span_map" and k k' :: "'a \<times> 'b" and x :: 'c
  show "span_bucket (fmempty :: ('a, 'b, 'c) span_map) k = {||}" by (simp add: span_bucket_def)
  show "span_bucket (span_insert k x m) k' =
      (if k = k' then finsert x (span_bucket m k') else span_bucket m k')"
    by (cases k; cases k') (auto simp: span_bucket_def span_insert_def)
  show "span_bucket (span_remove k x m) k' =
      (if k = k' then span_bucket m k' |-| {|x|} else span_bucket m k')"
    by (rule span_bucket_remove_gen)
  show "span_ok (fmempty :: ('a, 'b, 'c) span_map)" by (simp add: span_ok_def)
  show "span_ok m \<Longrightarrow> span_ok (span_insert k x m)"
    by (auto simp: span_ok_def span_insert_def fmpred_iff span_row_def split: if_splits option.splits)
  show "span_ok m \<Longrightarrow> span_ok (span_remove k x m)"
    by (auto simp: span_ok_def span_remove_def fmpred_iff Let_def split: if_splits option.splits)
next
  fix i j :: "('a, 'b, 'c) span_map"
  assume ok: "span_ok i" "span_ok j" and eq: "\<And>k. span_bucket i k = span_bucket j k"
  have "span_row i a = span_row j a" for a
  proof (rule no_empty_bucket_ext)
    fix b show "bucket (span_row i a) b = bucket (span_row j a) b"
      using eq[of "(a, b)"] by (simp add: span_bucket_def)
  qed (simp_all add: ok)
  then show "i = j" by (intro fmap_ext) (simp add: ok span_row_lookup)
qed

end
