(* ===== verification/KGI_Model.thy ===== *)
theory KGI_Model
  imports KGI_Prelude
begin

text \<open>
  The shared data model, \<open>crates/kgi-model\<close>: block identities and positions (\<open>block.rs\<close>), the
  committed projections that storage hands to the API (\<open>graph_update.rs\<close>), VSPC transitions
  (\<open>vspc.rs\<close>) and the lifecycle and fault vocabulary (\<open>lifecycle.rs\<close>).

  \<open>BlockHash\<close> is a 32-byte value of the \<open>kaspa_hashes\<close> crate and \<open>BlueWork\<close> a 192-bit integer of
  \<open>kaspa_math\<close>. The program only compares them for equality and order, so they are words of the
  same width. A signed database identifier is an \<open>int\<close>: nothing here does arithmetic on it.
\<close>

section \<open>Blocks\<close>

type_synonym block_hash = "256 word"
type_synonym blue_work = "192 word"
type_synonym timestamp = u64

definition MAX_DAA_SCORE :: u64 where "MAX_DAA_SCORE = 2 ^ 63 - 1 - 1"
definition MAX_BLUE_SCORE :: u64 where "MAX_BLUE_SCORE = 2 ^ 63 - 1"
definition MAX_LEVEL_SIZE :: u16 where "MAX_LEVEL_SIZE = 65535"
definition MAX_LEVEL_SLOT :: u16 where "MAX_LEVEL_SLOT = MAX_LEVEL_SIZE - 1"

datatype compact_id = CompactId (compact_id_get: int)

definition compact_id_new :: "int \<Rightarrow> compact_id option" where
  "compact_id_new value = (if 0 < value then Some (CompactId value) else None)"

datatype invalid_compact_id = InvalidCompactId int

definition compact_id_try_from :: "int \<Rightarrow> invalid_compact_id + compact_id" where
  "compact_id_try_from value =
     (case compact_id_new value of None \<Rightarrow> Inl (InvalidCompactId value) | Some i \<Rightarrow> Inr i)"

instantiation compact_id :: linorder
begin

definition less_eq_compact_id :: "compact_id \<Rightarrow> compact_id \<Rightarrow> bool" where
  "less_eq_compact_id a b \<longleftrightarrow> compact_id_get a \<le> compact_id_get b"

definition less_compact_id :: "compact_id \<Rightarrow> compact_id \<Rightarrow> bool" where
  "less_compact_id a b \<longleftrightarrow> compact_id_get a < compact_id_get b"

instance
  by standard (auto simp: less_eq_compact_id_def less_compact_id_def compact_id.expand)

end

datatype block_color = Gray | Blue | Red

record validated_node_block =
  vnb_hash :: block_hash
  vnb_selected_parent :: block_hash
  vnb_direct_parents :: "block_hash list"
  vnb_blue_merge_set :: "block_hash list"
  vnb_red_merge_set :: "block_hash list"
  vnb_timestamp :: timestamp
  vnb_daa_score :: u64
  vnb_blue_score :: u64
  vnb_blue_work :: blue_work

text \<open>\<open>#[derive(Ord)]\<close> on \<open>ConsensusOrder\<close> compares the fields in declaration order.\<close>

datatype consensus_order = ConsensusOrder (co_blue_work: blue_work) (co_hash: block_hash)

instantiation consensus_order :: linorder
begin

definition less_consensus_order :: "consensus_order \<Rightarrow> consensus_order \<Rightarrow> bool" where
  "less_consensus_order a b \<longleftrightarrow>
     co_blue_work a < co_blue_work b \<or> co_blue_work a = co_blue_work b \<and> co_hash a < co_hash b"

definition less_eq_consensus_order :: "consensus_order \<Rightarrow> consensus_order \<Rightarrow> bool" where
  "less_eq_consensus_order a b \<longleftrightarrow>
     co_blue_work a < co_blue_work b \<or> co_blue_work a = co_blue_work b \<and> co_hash a \<le> co_hash b"

instance
  by standard
    (auto simp: less_consensus_order_def less_eq_consensus_order_def consensus_order.expand)

end

datatype vspc_point = VspcPoint (vp_order: consensus_order) (vp_id: compact_id)

definition vp_hash :: "vspc_point \<Rightarrow> block_hash" where
  "vp_hash p = co_hash (vp_order p)"

datatype block_coordinate = BlockCoordinate (bc_level: u32) (bc_slot: u16)

definition block_coordinate_new :: "u32 \<Rightarrow> u16 \<Rightarrow> block_coordinate option" where
  "block_coordinate_new level slot =
     (if 0 < level \<and> slot \<le> MAX_LEVEL_SLOT then Some (BlockCoordinate level slot) else None)"

record materialized_sync_anchor =
  msa_point :: vspc_point
  msa_selected_parent :: block_hash
  msa_blue_score :: u64

datatype block_presence =
    Absent
  | BoundaryIdentity compact_id
  | Materialized compact_id block_coordinate

record persisted_block =
  pb_point :: vspc_point
  pb_selected_parent :: block_hash

section \<open>Committed projections\<close>

record parent_committed =
  pc_hash :: block_hash
  pc_coordinate :: "block_coordinate option"

record level_committed =
  lc_level :: u32
  lc_size :: u16
  lc_daa_score :: "u64 option"

record block_committed =
  bk_id :: compact_id
  bk_hash :: block_hash
  bk_coordinate :: block_coordinate
  bk_timestamp :: timestamp
  bk_daa_score :: u64
  bk_selected_parent_index :: "u32 option"
  bk_direct_parents :: "parent_committed list"
  bk_blue_merge_set :: "block_hash list"
  bk_red_merge_set :: "block_hash list"
  bk_color :: block_color
  bk_is_in_vspc :: bool
  bk_level_snapshots :: "level_committed list"

record vspc_committed =
  vc_source :: block_hash
  vc_destination :: block_hash
  vc_removed :: "block_hash list"
  vc_added :: "block_hash list"
  vc_level_snapshots :: "level_committed list"

datatype graph_update =
    GuCatchup
  | GuBlockCommitted block_committed
  | GuVspcCommitted vspc_committed
  | GuLive

section \<open>VSPC transitions\<close>

record vspc_change =
  vch_removed :: "block_hash list"
  vch_added :: "block_hash list"

record ready_vspc_change =
  rvc_source :: vspc_point
  rvc_destination :: vspc_point
  rvc_removed :: "compact_id list"
  rvc_added :: "compact_id list"

section \<open>Lifecycle and faults\<close>

datatype recovery_mode = Resync | Rebuild

instantiation recovery_mode :: linorder
begin

definition less_eq_recovery_mode :: "recovery_mode \<Rightarrow> recovery_mode \<Rightarrow> bool" where
  "less_eq_recovery_mode a b \<longleftrightarrow> a = Resync \<or> b = Rebuild"

definition less_recovery_mode :: "recovery_mode \<Rightarrow> recovery_mode \<Rightarrow> bool" where
  "less_recovery_mode a b \<longleftrightarrow> a = Resync \<and> b = Rebuild"

instance
proof
  fix x y z :: recovery_mode
  show "(x < y) = (x \<le> y \<and> \<not> y \<le> x)"
    by (cases x; cases y) (auto simp: less_eq_recovery_mode_def less_recovery_mode_def)
  show "x \<le> x" by (cases x) (auto simp: less_eq_recovery_mode_def)
  show "x \<le> y \<Longrightarrow> y \<le> z \<Longrightarrow> x \<le> z" by (auto simp: less_eq_recovery_mode_def)
  show "x \<le> y \<Longrightarrow> y \<le> x \<Longrightarrow> x = y" by (auto simp: less_eq_recovery_mode_def)
  show "x \<le> y \<or> y \<le> x" by (cases x; cases y) (auto simp: less_eq_recovery_mode_def)
qed

end

datatype fault_disposition = Retry | Require recovery_mode | Fatal

datatype component =
    Supervisor | NodeService | StorageService | ResyncEngine | BlockProcessor
  | OrphanManager | DependencyResolver | VspcProcessor | ApiService

datatype service_kind = ServiceNode | ServiceStorage

datatype malformed_vspc_notification_reason =
    NRemovedChainWithoutAddedPath | NResolvedSourceDiscontinuity | NSelectedParentPathDiscontinuity
  | NDuplicatePendingTransition | NContradictoryDestination | NCompetingNextMove

datatype notification_input_kind =
    MalformedBlockAdded
  | MalformedVspcChange malformed_vspc_notification_reason

datatype malformed_vspc_response_reason =
    RRemovedChainWithoutAddedPath | RNonAdvancingAddedCursor | RRemovedSourceMismatch
  | RResolvedSourceDiscontinuity | RSelectedParentPathDiscontinuity

datatype recovery_input_kind =
    MalformedPruningPointResponse | MalformedCatchupSinkResponse | MalformedGetBlock
  | MalformedGetBlocks | MalformedVspcResponse malformed_vspc_response_reason

datatype persistence_fault = DefiniteFailure | RetryExhausted | AmbiguousCommit

datatype score_range_fault = SrDaaScore | SrBlueScore | SrBoundarySealThreshold

datatype bounded_processing_state = Orphans | VspcPending

datatype ownership_fault =
    SessionDataEndpointLost | ManagedComponentUnavailable | InternalControlPathLost
  | UnexpectedWorkerTermination | InvalidLifecycleControl

datatype fault_kind =
    ServiceGenerationLost service_kind | RpcRequestFailed | StorageQueryFailed
  | StorageInvariantViolation | SubscriptionControlFailed | SessionContinuityLost
  | NotificationInputInvalid notification_input_kind | RecoveryInputInvalid recovery_input_kind
  | ReconciliationFailed | MaterialityViolation | DependencyUnavailable
  | BoundedStateExhausted bounded_processing_state | ScoreOutOfRange score_range_fault
  | Persistence persistence_fault | Ownership ownership_fault

text \<open>The \<open>diagnostic\<close> string of a fault is for the log only and is not modelled.\<close>

record component_fault =
  cf_source :: component
  cf_disposition :: fault_disposition
  cf_kind :: fault_kind

section \<open>The domains of the constructors\<close>

lemma compact_id_new_Some [simp]: "compact_id_new n = Some i \<longleftrightarrow> 0 < n \<and> i = CompactId n"
  by (auto simp: compact_id_new_def)

lemma block_coordinate_new_level:
  "block_coordinate_new l s = Some c \<Longrightarrow> 0 < bc_level c \<and> bc_slot c \<le> MAX_LEVEL_SLOT"
  by (auto simp: block_coordinate_new_def split: if_splits)

end
