(* ===== verification/Graph_Types.thy ===== *)
theory Graph_Types
  imports KGI_Model
begin

text \<open>
  The values of the canonical graph, \<open>crates/kgi-api-model\<close>: level extents, levels, edges and
  blocks (the data types of \<open>graph.rs\<close>), and the graph delta with its composition (\<open>delta.rs\<close>).
  The lemmas fix the arithmetic of extents and what a composed delta contains for every key.
\<close>

section \<open>Level extents\<close>

definition MAX_CACHE_DEPTH :: u32 where "MAX_CACHE_DEPTH = 1000"

datatype level_extent_error = InvalidBounds u32 u32

datatype level_extent = LevelExtent (low_level: u32) (high_level: u32)

definition level_extent_new :: "u32 \<Rightarrow> u32 \<Rightarrow> level_extent_error + level_extent" where
  "level_extent_new low high =
     (if low = 0 \<or> low > high then Inl (InvalidBounds low high) else Inr (LevelExtent low high))"

definition extent_depth :: "level_extent \<Rightarrow> u32" where
  "extent_depth e = high_level e - low_level e + 1"

definition contains_level :: "level_extent \<Rightarrow> u32 \<Rightarrow> bool" where
  "contains_level e level \<longleftrightarrow> low_level e \<le> level \<and> level \<le> high_level e"

definition contains_extent :: "level_extent \<Rightarrow> level_extent \<Rightarrow> bool" where
  "contains_extent e other \<longleftrightarrow> low_level e \<le> low_level other \<and> high_level other \<le> high_level e"

definition overlaps :: "level_extent \<Rightarrow> level_extent \<Rightarrow> bool" where
  "overlaps e other \<longleftrightarrow> low_level e \<le> high_level other \<and> low_level other \<le> high_level e"

definition intersects_span :: "level_extent \<Rightarrow> u32 \<Rightarrow> u32 \<Rightarrow> bool" where
  "intersects_span e parent_level child_level \<longleftrightarrow>
     child_level \<ge> low_level e \<and> parent_level \<le> high_level e"

section \<open>Levels, edges and blocks\<close>

datatype tracking_policy = Head | Fixed | Frozen

record level =
  lv_size :: u16
  lv_daa_score :: "u64 option"

datatype edge_id = EdgeId (ei_parent: block_hash) (ei_child: block_hash)

text \<open>An order on edge identities, so that a map keyed by them can be enumerated.\<close>

instantiation edge_id :: linorder
begin

definition less_edge_id :: "edge_id \<Rightarrow> edge_id \<Rightarrow> bool" where
  "less_edge_id a b \<longleftrightarrow>
     ei_parent a < ei_parent b \<or> ei_parent a = ei_parent b \<and> ei_child a < ei_child b"

definition less_eq_edge_id :: "edge_id \<Rightarrow> edge_id \<Rightarrow> bool" where
  "less_eq_edge_id a b \<longleftrightarrow>
     ei_parent a < ei_parent b \<or> ei_parent a = ei_parent b \<and> ei_child a \<le> ei_child b"

instance
  by standard (auto simp: less_edge_id_def less_eq_edge_id_def edge_id.expand)

end

record graph_edge =
  ge_id :: edge_id
  ge_parent_coordinate :: block_coordinate
  ge_child_coordinate :: block_coordinate

abbreviation parent_level :: "graph_edge \<Rightarrow> u32" where
  "parent_level e \<equiv> bc_level (ge_parent_coordinate e)"

abbreviation child_level :: "graph_edge \<Rightarrow> u32" where
  "child_level e \<equiv> bc_level (ge_child_coordinate e)"

record graph_block =
  gb_hash :: block_hash
  gb_coordinate :: block_coordinate
  gb_timestamp :: timestamp
  gb_daa_score :: u64
  gb_selected_parent_index :: "u32 option"
  gb_direct_parents :: "block_hash list"
  gb_blue_merge_set :: "block_hash list"
  gb_red_merge_set :: "block_hash list"
  gb_color :: block_color
  gb_is_in_vspc :: bool

abbreviation block_level :: "graph_block \<Rightarrow> u32" where
  "block_level b \<equiv> bc_level (gb_coordinate b)"

section \<open>Graph deltas\<close>

record level_change =
  lch_level :: u32
  lch_before :: "level option"
  lch_after :: "level option"

datatype 'a field_change = FieldChange (fc_before: 'a) (fc_after: 'a)

datatype graph_delta_creation_error = NonForwardRevision u64 u64 | ZeroHeadLevel

datatype graph_delta_composition_error = CompositionRevisionMismatch u64 u64

record graph_delta =
  gd_from_revision_id :: u64
  gd_to_revision_id :: u64
  gd_revision_timestamp_ms :: u64
  gd_head_level :: u32
  gd_block_changes :: "(block_hash, graph_block option) fmap"
  gd_edge_changes :: "(edge_id, graph_edge option) fmap"
  gd_level_changes :: "level_change list"
  gd_is_in_vspc_changes :: "(block_hash, bool field_change) fmap"
  gd_color_changes :: "(block_hash, block_color field_change) fmap"

definition graph_delta_new ::
  "u64 \<Rightarrow> u64 \<Rightarrow> u64 \<Rightarrow> u32 \<Rightarrow> (block_hash, graph_block option) fmap \<Rightarrow>
   (edge_id, graph_edge option) fmap \<Rightarrow> level_change list \<Rightarrow>
   (block_hash, bool field_change) fmap \<Rightarrow> (block_hash, block_color field_change) fmap \<Rightarrow>
   graph_delta_creation_error + graph_delta" where
  "graph_delta_new from to ts head blocks edges levels vspc colors =
     (if to \<le> from then Inl (NonForwardRevision from to)
      else if head = 0 then Inl ZeroHeadLevel
      else Inr \<lparr>gd_from_revision_id = from, gd_to_revision_id = to,
                gd_revision_timestamp_ms = ts, gd_head_level = head,
                gd_block_changes = blocks, gd_edge_changes = edges, gd_level_changes = levels,
                gd_is_in_vspc_changes = vspc, gd_color_changes = colors\<rparr>)"

text \<open>Composition. \<open>and_modify(|c| c.after = \<dots>).or_insert(change)\<close> keeps the first \<open>before\<close> and
  the last \<open>after\<close>; a change that cancels out is dropped.\<close>

definition merge_field_change ::
  "block_hash \<Rightarrow> 'a field_change \<Rightarrow> (block_hash, 'a field_change) fmap \<Rightarrow>
   (block_hash, 'a field_change) fmap" where
  "merge_field_change hash change composed =
     (case fmlookup composed hash of
        Some current \<Rightarrow> fmupd hash (FieldChange (fc_before current) (fc_after change)) composed
      | None \<Rightarrow> fmupd hash change composed)"

definition compose_field_changes ::
  "(block_hash, 'a field_change) fmap \<Rightarrow> (block_hash, 'a field_change) fmap \<Rightarrow>
   (block_hash, 'a field_change) fmap" where
  "compose_field_changes left right =
     fm_filter_map (\<lambda>_ change. if fc_before change \<noteq> fc_after change then Some change else None)
       (fold (\<lambda>(hash, change). merge_field_change hash change) (sorted_list_of_fmap right) left)"

definition merge_level_change ::
  "level_change \<Rightarrow> (u32, level option \<times> level option) fmap \<Rightarrow>
   (u32, level option \<times> level option) fmap" where
  "merge_level_change change m =
     (case fmlookup m (lch_level change) of
        Some (before, _) \<Rightarrow> fmupd (lch_level change) (before, lch_after change) m
      | None \<Rightarrow> fmupd (lch_level change) (lch_before change, lch_after change) m)"

fun changed_level :: "u32 \<times> level option \<times> level option \<Rightarrow> level_change option" where
  "changed_level (level, before, after) =
     (if before \<noteq> after then Some \<lparr>lch_level = level, lch_before = before, lch_after = after\<rparr>
      else None)"

definition compose_level_changes :: "level_change list \<Rightarrow> level_change list \<Rightarrow> level_change list" where
  "compose_level_changes left right =
     (let m0 = fold (\<lambda>c. fmupd (lch_level c) (lch_before c, lch_after c)) left fmempty;
          m = fold merge_level_change right m0
      in List.map_filter changed_level (sorted_list_of_fmap m))"

definition compose :: "graph_delta \<Rightarrow> graph_delta \<Rightarrow> (graph_delta_composition_error + graph_delta) option" where
  "compose self next =
     (if gd_to_revision_id self \<noteq> gd_from_revision_id next
      then Some (Inl (CompositionRevisionMismatch (gd_to_revision_id self) (gd_from_revision_id next)))
      else case graph_delta_new (gd_from_revision_id self) (gd_to_revision_id next)
                  (gd_revision_timestamp_ms next) (gd_head_level next)
                  (gd_block_changes self ++\<^sub>f gd_block_changes next)
                  (gd_edge_changes self ++\<^sub>f gd_edge_changes next)
                  (compose_level_changes (gd_level_changes self) (gd_level_changes next))
                  (compose_field_changes (gd_is_in_vspc_changes self) (gd_is_in_vspc_changes next))
                  (compose_field_changes (gd_color_changes self) (gd_color_changes next))
           of Inl _ \<Rightarrow> None | Inr d \<Rightarrow> Some (Inr d))"

text \<open>What \<open>GraphDelta::new\<close> guarantees of every delta in the program.\<close>

definition delta_valid :: "graph_delta \<Rightarrow> bool" where
  "delta_valid d \<longleftrightarrow> gd_from_revision_id d < gd_to_revision_id d \<and> gd_head_level d \<noteq> 0"

section \<open>Extents\<close>

definition extent_valid :: "level_extent \<Rightarrow> bool" where
  "extent_valid e \<longleftrightarrow> low_level e \<noteq> 0 \<and> low_level e \<le> high_level e"

lemma level_extent_new_Inr [simp]:
  "level_extent_new l h = Inr e \<longleftrightarrow> e = LevelExtent l h \<and> extent_valid e"
  by (auto simp: level_extent_new_def extent_valid_def)

lemma extent_depth_valid:
  assumes "extent_valid e"
  shows "unat (extent_depth e) = unat (high_level e) - unat (low_level e) + 1"
proof -
  have le: "low_level e \<le> high_level e" and nz: "low_level e \<noteq> 0"
    using assms by (auto simp: extent_valid_def)
  have "unat (high_level e - low_level e) = unat (high_level e) - unat (low_level e)"
    using le by (simp add: unat_sub word_le_nat_alt)
  moreover have "0 < unat (low_level e)" using nz by (simp add: unat_gt_0)
  moreover have "unat (high_level e) < 2 ^ 32"
    using unsigned_less[of "high_level e", where 'a = nat] by simp
  ultimately show ?thesis
    by (simp add: extent_depth_def unat_word_ariths)
qed

text \<open>The levels of an extent, as the loop \<open>for level in low..=high\<close> visits them.\<close>

definition extent_levels :: "level_extent \<Rightarrow> u32 list" where
  "extent_levels e = map word_of_nat [unat (low_level e)..<Suc (unat (high_level e))]"

lemma set_extent_levels: "set (extent_levels e) = {l. contains_level e l}"
proof -
  have "l \<in> set (extent_levels e)" if "contains_level e l" for l
  proof -
    have "unat l \<in> {unat (low_level e)..<Suc (unat (high_level e))}" and "l = word_of_nat (unat l)"
      using that by (auto simp: contains_level_def word_le_nat_alt)
    then show ?thesis unfolding extent_levels_def set_map by (metis imageI set_upt)
  qed
  moreover have "contains_level e (word_of_nat n)"
    if "unat (low_level e) \<le> n" "n \<le> unat (high_level e)" for n
  proof -
    have "n < 2 ^ 32" using that unsigned_less[of "high_level e", where 'a = nat] by simp
    then have "unat (word_of_nat n :: u32) = n" by (simp add: unat_of_nat)
    then show ?thesis using that by (simp add: contains_level_def word_le_nat_alt)
  qed
  ultimately show ?thesis by (auto simp: extent_levels_def)
qed

section \<open>What a composed delta contains\<close>

lemma fmlookup_merge_field_changes:
  "distinct (map fst xs) \<Longrightarrow>
   fmlookup (fold (\<lambda>(h, c). merge_field_change h c) xs m) h =
     (case map_of xs h of
        None \<Rightarrow> fmlookup m h
      | Some c \<Rightarrow> Some (case fmlookup m h of None \<Rightarrow> c | Some b \<Rightarrow> FieldChange (fc_before b) (fc_after c)))"
proof (induction xs arbitrary: m)
  case (Cons x xs)
  obtain k c where x: "x = (k, c)" by (cases x)
  have "map_of xs k = None" using Cons.prems x by (auto simp: map_of_eq_None_iff)
  then show ?case using Cons x
    by (auto simp: merge_field_change_def split: option.splits)
qed simp

definition field_change_composed :: "'a field_change option \<Rightarrow> 'a field_change option \<Rightarrow> 'a field_change option" where
  "field_change_composed l r =
     (let c = (case r of None \<Rightarrow> l
               | Some c \<Rightarrow> Some (case l of None \<Rightarrow> c | Some b \<Rightarrow> FieldChange (fc_before b) (fc_after c)))
      in case c of None \<Rightarrow> None | Some c \<Rightarrow> if fc_before c \<noteq> fc_after c then Some c else None)"

lemma fmlookup_compose_field_changes [simp]:
  "fmlookup (compose_field_changes l r) h = field_change_composed (fmlookup l h) (fmlookup r h)"
  by (simp add: compose_field_changes_def field_change_composed_def fmlookup_merge_field_changes)

definition level_changes_map :: "level_change list \<Rightarrow> u32 \<Rightarrow> (level option \<times> level option) option" where
  "level_changes_map cs l = map_of (map (\<lambda>c. (lch_level c, lch_before c, lch_after c)) cs) l"

lemma fold_fmupd_levels:
  "distinct (map lch_level cs) \<Longrightarrow>
   fmlookup (fold (\<lambda>c. fmupd (lch_level c) (lch_before c, lch_after c)) cs m) l =
     (case level_changes_map cs l of None \<Rightarrow> fmlookup m l | Some p \<Rightarrow> Some p)"
proof (induction cs arbitrary: m)
  case (Cons c cs)
  have "level_changes_map cs (lch_level c) = None"
    using Cons.prems by (auto simp: level_changes_map_def map_of_eq_None_iff)
  then show ?case using Cons by (auto simp: level_changes_map_def split: option.splits)
qed (simp add: level_changes_map_def)

lemma fold_merge_levels:
  "distinct (map lch_level cs) \<Longrightarrow>
   fmlookup (fold merge_level_change cs m) l =
     (case level_changes_map cs l of
        None \<Rightarrow> fmlookup m l
      | Some (b, a) \<Rightarrow> Some (case fmlookup m l of None \<Rightarrow> (b, a) | Some (b', _) \<Rightarrow> (b', a)))"
proof (induction cs arbitrary: m)
  case (Cons c cs)
  have "level_changes_map cs (lch_level c) = None"
    using Cons.prems by (auto simp: level_changes_map_def map_of_eq_None_iff)
  then show ?case using Cons
    by (auto simp: level_changes_map_def merge_level_change_def split: option.splits)
qed (simp add: level_changes_map_def)

lemma levels_of_changed_levels:
  "map lch_level (List.map_filter changed_level xs) = map fst (filter (\<lambda>(_, b, a). b \<noteq> a) xs)"
  by (induction xs) (auto simp: List.map_filter_simps)

lemma distinct_changed_levels:
  "distinct (map fst xs) \<Longrightarrow> distinct (map lch_level (List.map_filter changed_level xs))"
  by (simp add: levels_of_changed_levels distinct_map_filter)

lemma compose_level_changes_distinct: "distinct (map lch_level (compose_level_changes l r))"
  by (simp add: compose_level_changes_def Let_def distinct_changed_levels)

lemma level_changes_map_changed:
  "distinct (map fst xs) \<Longrightarrow>
   level_changes_map (List.map_filter changed_level xs) l =
     (case map_of xs l of None \<Rightarrow> None | Some (b, a) \<Rightarrow> if b \<noteq> a then Some (b, a) else None)"
proof (induction xs)
  case (Cons x xs)
  obtain k b a where x: "x = (k, b, a)" by (cases x)
  have "map_of xs k = None" using Cons.prems x by (auto simp: map_of_eq_None_iff)
  then show ?case using Cons x
    by (auto simp: level_changes_map_def List.map_filter_simps split: option.splits)
qed (simp add: level_changes_map_def List.map_filter_simps)

definition level_change_composed ::
  "(level option \<times> level option) option \<Rightarrow> (level option \<times> level option) option \<Rightarrow>
   (level option \<times> level option) option" where
  "level_change_composed l r =
     (let c = (case r of None \<Rightarrow> l
               | Some (b, a) \<Rightarrow> Some (case l of None \<Rightarrow> (b, a) | Some (b', _) \<Rightarrow> (b', a)))
      in case c of None \<Rightarrow> None | Some (b, a) \<Rightarrow> if b \<noteq> a then Some (b, a) else None)"

lemma level_changes_map_compose:
  assumes "distinct (map lch_level l)" "distinct (map lch_level r)"
  shows "level_changes_map (compose_level_changes l r) k =
           level_change_composed (level_changes_map l k) (level_changes_map r k)"
  using assms
  by (auto simp: compose_level_changes_def Let_def level_changes_map_changed fold_merge_levels
      fold_fmupd_levels level_change_composed_def split: option.splits)

text \<open>Composing two gapless valid deltas never panics.\<close>

lemma compose_valid:
  assumes "delta_valid a" "delta_valid b" "gd_to_revision_id a = gd_from_revision_id b"
  shows "\<exists>d. compose a b = Some (Inr d) \<and> delta_valid d \<and>
      gd_from_revision_id d = gd_from_revision_id a \<and> gd_to_revision_id d = gd_to_revision_id b \<and>
      gd_revision_timestamp_ms d = gd_revision_timestamp_ms b \<and> gd_head_level d = gd_head_level b \<and>
      gd_block_changes d = gd_block_changes a ++\<^sub>f gd_block_changes b \<and>
      gd_edge_changes d = gd_edge_changes a ++\<^sub>f gd_edge_changes b \<and>
      gd_level_changes d = compose_level_changes (gd_level_changes a) (gd_level_changes b) \<and>
      gd_is_in_vspc_changes d = compose_field_changes (gd_is_in_vspc_changes a) (gd_is_in_vspc_changes b) \<and>
      gd_color_changes d = compose_field_changes (gd_color_changes a) (gd_color_changes b)"
  using assms by (auto simp: compose_def graph_delta_new_def delta_valid_def)

end
