(* ===== verification/Graph_View.thy ===== *)
theory Graph_View
  imports Graph_Types
begin

text \<open>
  The canonical graph view, \<open>GraphView\<close> of \<open>crates/kgi-api-model/src/graph.rs\<close>: its state, its
  secondary indexes, the capture of before-images during a mutation, and every operation on it.
  A \<open>&mut self\<close> method takes the view and returns the new one; \<open>None\<close> is a panic (\<open>expect\<close>,
  \<open>assert!\<close>, \<open>panic!\<close>), an \<open>Err\<close> is the left side of a sum. Lemmas about these definitions are in
  \<open>Graph_View_Inv\<close> and \<open>Graph_Replay\<close>.
\<close>

section \<open>State\<close>

record stored_level =
  sl_value :: level
  sl_usage_count :: u64

datatype graph_view_extract_error = OutsideSourceExtent

datatype graph_view_update_error = UpdateFrozen

datatype graph_delta_apply_error = ApplyFrozen | RevisionMismatch u64 u64

record graph_view =
  gv_max_depth :: u32
  gv_extent :: level_extent
  gv_current_revision_id :: u64
  gv_current_revision_timestamp_ms :: u64
  gv_tracking_policy :: tracking_policy
  gv_levels :: "(u32, stored_level) fmap"
  gv_blocks :: "(block_hash, graph_block) fmap"
  gv_edges :: "(edge_id, graph_edge) fmap"
  gv_block_hashes_by_level :: "(u32, block_hash fset) fmap"
  gv_edge_parents_by_child :: "(block_hash, block_hash fset) fmap"
  gv_edge_ids_by_span :: "(u32, u32, edge_id) span_map"

definition gv_low_level :: "graph_view \<Rightarrow> u32" where
  "gv_low_level v = low_level (gv_extent v)"

definition gv_high_level :: "graph_view \<Rightarrow> u32" where
  "gv_high_level v = high_level (gv_extent v)"

definition gv_level :: "graph_view \<Rightarrow> u32 \<Rightarrow> level option" where
  "gv_level v l = map_option sl_value (fmlookup (gv_levels v) l)"

section \<open>Indexes and usage counts\<close>

definition index_blocks_by_level :: "(block_hash, graph_block) fmap \<Rightarrow> (u32, block_hash fset) fmap" where
  "index_blocks_by_level blocks =
     fold (\<lambda>(hash, block). bucket_insert (block_level block) hash) (sorted_list_of_fmap blocks) fmempty"

definition index_edge_parents_by_child ::
  "(edge_id, graph_edge) fmap \<Rightarrow> (block_hash, block_hash fset) fmap" where
  "index_edge_parents_by_child edges =
     fold (\<lambda>(i, _). bucket_insert (ei_child i) (ei_parent i)) (sorted_list_of_fmap edges) fmempty"

definition index_edges_by_span :: "(edge_id, graph_edge) fmap \<Rightarrow> (u32, u32, edge_id) span_map" where
  "index_edges_by_span edges =
     fold (\<lambda>(i, edge). span_insert (child_level edge, parent_level edge) i)
       (sorted_list_of_fmap edges) fmempty"

definition increment_parent_usage :: "graph_view \<Rightarrow> u32 \<Rightarrow> graph_view option" where
  "increment_parent_usage v l = do {
     stored \<leftarrow> fmlookup (gv_levels v) l;
     count \<leftarrow> checked_add (sl_usage_count stored) 1;
     Some (v\<lparr>gv_levels := fmupd l (stored\<lparr>sl_usage_count := count\<rparr>) (gv_levels v)\<rparr>) }"

definition decrement_parent_usage :: "graph_view \<Rightarrow> u32 \<Rightarrow> graph_view option" where
  "decrement_parent_usage v l = do {
     stored \<leftarrow> fmlookup (gv_levels v) l;
     count \<leftarrow> checked_sub (sl_usage_count stored) 1;
     Some (v\<lparr>gv_levels := fmupd l (stored\<lparr>sl_usage_count := count\<rparr>) (gv_levels v)\<rparr>) }"

definition index_edge :: "graph_view \<Rightarrow> graph_edge \<Rightarrow> graph_view" where
  "index_edge v edge =
     v\<lparr>gv_edge_parents_by_child :=
          bucket_insert (ei_child (ge_id edge)) (ei_parent (ge_id edge)) (gv_edge_parents_by_child v),
       gv_edge_ids_by_span :=
          span_insert (child_level edge, parent_level edge) (ge_id edge) (gv_edge_ids_by_span v)\<rparr>"

definition unindex_edge :: "graph_view \<Rightarrow> graph_edge \<Rightarrow> graph_view" where
  "unindex_edge v edge =
     v\<lparr>gv_edge_parents_by_child :=
          bucket_remove (ei_child (ge_id edge)) (ei_parent (ge_id edge)) (gv_edge_parents_by_child v),
       gv_edge_ids_by_span :=
          span_remove (child_level edge, parent_level edge) (ge_id edge) (gv_edge_ids_by_span v)\<rparr>"

section \<open>Construction\<close>

definition from_database_projection ::
  "u32 \<Rightarrow> level_extent \<Rightarrow> tracking_policy \<Rightarrow> (u32, level) fmap \<Rightarrow>
   (block_hash, graph_block) fmap \<Rightarrow> (edge_id, graph_edge) fmap \<Rightarrow> graph_view option" where
  "from_database_projection max_depth extent policy levels blocks edges =
     (if \<not> 0 < max_depth then None
      else if \<not> extent_depth extent \<le> max_depth then None
      else fold_opt increment_parent_usage
        \<lparr>gv_max_depth = max_depth, gv_extent = extent,
         gv_current_revision_id = 0, gv_current_revision_timestamp_ms = 0,
         gv_tracking_policy = policy,
         gv_levels = fmmap (\<lambda>value. \<lparr>sl_value = value, sl_usage_count = 0\<rparr>) levels,
         gv_blocks = blocks, gv_edges = edges,
         gv_block_hashes_by_level = index_blocks_by_level blocks,
         gv_edge_parents_by_child = index_edge_parents_by_child edges,
         gv_edge_ids_by_span = index_edges_by_span edges\<rparr>
        (map (\<lambda>(_, edge). parent_level edge) (sorted_list_of_fmap edges)))"

section \<open>Applying a delta\<close>

definition apply_block_upsert :: "graph_view \<Rightarrow> block_hash \<Rightarrow> graph_block \<Rightarrow> graph_view" where
  "apply_block_upsert v hash block =
     (let level = block_level block;
          index = (case fmlookup (gv_blocks v) hash of
                     None \<Rightarrow> gv_block_hashes_by_level v
                   | Some previous \<Rightarrow>
                       if block_level previous \<noteq> level
                       then bucket_remove (block_level previous) hash (gv_block_hashes_by_level v)
                       else gv_block_hashes_by_level v)
      in v\<lparr>gv_blocks := fmupd hash block (gv_blocks v),
           gv_block_hashes_by_level := bucket_insert level hash index\<rparr>)"

definition apply_block_removal :: "graph_view \<Rightarrow> block_hash \<Rightarrow> graph_view" where
  "apply_block_removal v hash =
     (case fmlookup (gv_blocks v) hash of
        None \<Rightarrow> v
      | Some block \<Rightarrow>
          v\<lparr>gv_blocks := fmdrop hash (gv_blocks v),
            gv_block_hashes_by_level :=
              bucket_remove (block_level block) hash (gv_block_hashes_by_level v)\<rparr>)"

fun apply_block_change :: "block_hash \<times> graph_block option \<Rightarrow> graph_view \<Rightarrow> graph_view" where
  "apply_block_change (hash, Some block) v = apply_block_upsert v hash block"
| "apply_block_change (hash, None) v = apply_block_removal v hash"

definition put_edge :: "edge_id \<Rightarrow> graph_edge option \<Rightarrow> graph_view \<Rightarrow> graph_view" where
  "put_edge i change v =
     v\<lparr>gv_edges := (case change of Some edge \<Rightarrow> fmupd i edge (gv_edges v)
                                  | None \<Rightarrow> fmdrop i (gv_edges v))\<rparr>"

text \<open>The loop over \<open>edge_changes\<close>: the view and the two lists of parent levels whose usage is
  adjusted afterwards.\<close>

fun apply_edge_change ::
  "edge_id \<times> graph_edge option \<Rightarrow> graph_view \<times> u32 list \<times> u32 list \<Rightarrow> graph_view \<times> u32 list \<times> u32 list" where
  "apply_edge_change (i, change) (v, decrements, increments) =
     (let previous = fmlookup (gv_edges v) i;
          v1 = put_edge i change v
      in if previous = change then (v1, decrements, increments)
         else
           let (v2, decrements') =
                 (case previous of
                    None \<Rightarrow> (v1, decrements)
                  | Some p \<Rightarrow> (unindex_edge v1 p, decrements @ [parent_level p]));
               (v3, increments') =
                 (case change of
                    None \<Rightarrow> (v2, increments)
                  | Some edge \<Rightarrow> (index_edge v2 edge, increments @ [parent_level edge]))
           in (v3, decrements', increments'))"

definition apply_level_change :: "level_change \<Rightarrow> graph_view \<Rightarrow> graph_view" where
  "apply_level_change change v =
     v\<lparr>gv_levels :=
        (case lch_after change of
           Some value \<Rightarrow>
             (case fmlookup (gv_levels v) (lch_level change) of
                Some stored \<Rightarrow> fmupd (lch_level change) (stored\<lparr>sl_value := value\<rparr>) (gv_levels v)
              | None \<Rightarrow>
                  fmupd (lch_level change) \<lparr>sl_value = value, sl_usage_count = 0\<rparr> (gv_levels v))
         | None \<Rightarrow> fmdrop (lch_level change) (gv_levels v))\<rparr>"

definition apply_usage_decrement :: "graph_view \<Rightarrow> u32 \<Rightarrow> graph_view option" where
  "apply_usage_decrement v l =
     (case fmlookup (gv_levels v) l of
        None \<Rightarrow> Some v
      | Some stored \<Rightarrow> do {
          count \<leftarrow> checked_sub (sl_usage_count stored) 1;
          Some (v\<lparr>gv_levels := fmupd l (stored\<lparr>sl_usage_count := count\<rparr>) (gv_levels v)\<rparr>) })"

definition update_block :: "block_hash \<Rightarrow> (graph_block \<Rightarrow> graph_block) \<Rightarrow> graph_view \<Rightarrow> graph_view" where
  "update_block hash f v =
     (case fmlookup (gv_blocks v) hash of
        None \<Rightarrow> v
      | Some block \<Rightarrow> v\<lparr>gv_blocks := fmupd hash (f block) (gv_blocks v)\<rparr>)"

text \<open>The lower bound of a Head extent ending at \<open>high\<close>, as written in \<open>apply_delta\<close> and in
  \<open>apply_head_block_committed\<close>.\<close>

definition head_target_low :: "graph_view \<Rightarrow> u32 \<Rightarrow> u32" where
  "head_target_low v high = max (saturating_sub high (gv_max_depth v - 1)) 1"

definition apply_delta ::
  "graph_view \<Rightarrow> graph_delta \<Rightarrow> (graph_view \<times> (graph_delta_apply_error + unit)) option" where
  "apply_delta v delta =
     (if gv_tracking_policy v = Frozen then Some (v, Inl ApplyFrozen)
      else if gv_current_revision_id v \<noteq> gd_from_revision_id delta then
        Some (if gv_tracking_policy v = Fixed then v\<lparr>gv_tracking_policy := Frozen\<rparr> else v,
              Inl (RevisionMismatch (gv_current_revision_id v) (gd_from_revision_id delta)))
      else
        let v1 = fold apply_block_change (sorted_list_of_fmap (gd_block_changes delta)) v;
            (v2, decrements, increments) =
              fold apply_edge_change (sorted_list_of_fmap (gd_edge_changes delta)) (v1, [], []);
            v3 = fold apply_level_change (gd_level_changes delta) v2
        in do {
          v4 \<leftarrow> fold_opt apply_usage_decrement v3 decrements;
          v5 \<leftarrow> fold_opt increment_parent_usage v4 increments;
          let v6 = fold (\<lambda>(hash, change). update_block hash (\<lambda>b. b\<lparr>gb_is_in_vspc := fc_after change\<rparr>))
                     (sorted_list_of_fmap (gd_is_in_vspc_changes delta)) v5;
          let v7 = fold (\<lambda>(hash, change). update_block hash (\<lambda>b. b\<lparr>gb_color := fc_after change\<rparr>))
                     (sorted_list_of_fmap (gd_color_changes delta)) v6;
          v8 \<leftarrow> (if gv_tracking_policy v7 = Head then
                   case level_extent_new (head_target_low v7 (gd_head_level delta)) (gd_head_level delta) of
                     Inl _ \<Rightarrow> None
                   | Inr extent \<Rightarrow> Some (v7\<lparr>gv_extent := extent\<rparr>)
                 else Some v7);
          Some (v8\<lparr>gv_current_revision_id := gd_to_revision_id delta,
                   gv_current_revision_timestamp_ms := gd_revision_timestamp_ms delta\<rparr>, Inr ()) })"

section \<open>Before-images of a mutation\<close>

record graph_mutation =
  gm_blocks :: "(block_hash, graph_block option) fmap"
  gm_edges :: "(edge_id, graph_edge option) fmap"
  gm_levels :: "(u32, level option) fmap"
  gm_is_in_vspc :: "(block_hash, bool) fmap"
  gm_colors :: "(block_hash, block_color) fmap"

definition mutation_default :: graph_mutation where
  "mutation_default =
     \<lparr>gm_blocks = fmempty, gm_edges = fmempty, gm_levels = fmempty,
      gm_is_in_vspc = fmempty, gm_colors = fmempty\<rparr>"

definition capture_block ::
  "(block_hash, graph_block) fmap \<Rightarrow> block_hash \<Rightarrow> graph_mutation \<Rightarrow> graph_mutation" where
  "capture_block blocks hash m = m\<lparr>gm_blocks := or_insert hash (fmlookup blocks hash) (gm_blocks m)\<rparr>"

definition capture_removed_block :: "block_hash \<Rightarrow> graph_block \<Rightarrow> graph_mutation \<Rightarrow> graph_mutation" where
  "capture_removed_block hash block m = m\<lparr>gm_blocks := or_insert hash (Some block) (gm_blocks m)\<rparr>"

definition capture_edge ::
  "(edge_id, graph_edge) fmap \<Rightarrow> edge_id \<Rightarrow> graph_mutation \<Rightarrow> graph_mutation" where
  "capture_edge edges i m = m\<lparr>gm_edges := or_insert i (fmlookup edges i) (gm_edges m)\<rparr>"

definition capture_removed_edge :: "edge_id \<Rightarrow> graph_edge \<Rightarrow> graph_mutation \<Rightarrow> graph_mutation" where
  "capture_removed_edge i edge m = m\<lparr>gm_edges := or_insert i (Some edge) (gm_edges m)\<rparr>"

definition capture_level ::
  "(u32, stored_level) fmap \<Rightarrow> u32 \<Rightarrow> graph_mutation \<Rightarrow> graph_mutation" where
  "capture_level levels l m =
     m\<lparr>gm_levels := or_insert l (map_option sl_value (fmlookup levels l)) (gm_levels m)\<rparr>"

definition capture_removed_level :: "u32 \<Rightarrow> level \<Rightarrow> graph_mutation \<Rightarrow> graph_mutation" where
  "capture_removed_level l value m = m\<lparr>gm_levels := or_insert l (Some value) (gm_levels m)\<rparr>"

definition capture_level_value :: "u32 \<Rightarrow> level \<Rightarrow> graph_mutation \<Rightarrow> graph_mutation" where
  "capture_level_value l value m = m\<lparr>gm_levels := or_insert l (Some value) (gm_levels m)\<rparr>"

definition capture_membership :: "block_hash \<Rightarrow> bool \<Rightarrow> graph_mutation \<Rightarrow> graph_mutation" where
  "capture_membership hash is_in_vspc m =
     m\<lparr>gm_is_in_vspc := or_insert hash is_in_vspc (gm_is_in_vspc m)\<rparr>"

definition capture_color :: "block_hash \<Rightarrow> block_color \<Rightarrow> graph_mutation \<Rightarrow> graph_mutation" where
  "capture_color hash color m = m\<lparr>gm_colors := or_insert hash color (gm_colors m)\<rparr>"

record graph_changes =
  gc_blocks :: "(block_hash, graph_block option) fmap"
  gc_edges :: "(edge_id, graph_edge option) fmap"
  gc_levels :: "level_change list"
  gc_is_in_vspc :: "(block_hash, bool field_change) fmap"
  gc_colors :: "(block_hash, block_color field_change) fmap"

definition changed :: "'a \<Rightarrow> 'a \<Rightarrow> 'a option" where
  "changed before after = (if before \<noteq> after then Some after else None)"

definition changed_field :: "(graph_block \<Rightarrow> 'a) \<Rightarrow> graph_view \<Rightarrow> block_hash \<Rightarrow> 'a \<Rightarrow> 'a field_change option" where
  "changed_field f v hash before =
     (case fmlookup (gv_blocks v) hash of
        None \<Rightarrow> None
      | Some b \<Rightarrow> if before \<noteq> f b then Some (FieldChange before (f b)) else None)"

definition mutation_finish :: "graph_mutation \<Rightarrow> graph_view \<Rightarrow> graph_changes" where
  "mutation_finish m v =
     \<lparr>gc_blocks = fm_filter_map (\<lambda>hash before. changed before (fmlookup (gv_blocks v) hash)) (gm_blocks m),
      gc_edges = fm_filter_map (\<lambda>i before. changed before (fmlookup (gv_edges v) i)) (gm_edges m),
      gc_levels = List.map_filter (\<lambda>(l, before). changed_level (l, before, gv_level v l))
                    (sorted_list_of_fmap (gm_levels m)),
      gc_is_in_vspc = fm_filter_map (changed_field gb_is_in_vspc v) (gm_is_in_vspc m),
      gc_colors = fm_filter_map (changed_field gb_color v) (gm_colors m)\<rparr>"

definition changes_empty :: "graph_changes \<Rightarrow> bool" where
  "changes_empty c \<longleftrightarrow>
     gc_blocks c = fmempty \<and> gc_edges c = fmempty \<and> gc_levels c = [] \<and>
     gc_is_in_vspc c = fmempty \<and> gc_colors c = fmempty"

definition finish_mutation ::
  "graph_view \<Rightarrow> graph_mutation \<Rightarrow> u64 \<Rightarrow> (graph_view \<times> graph_delta option) option" where
  "finish_mutation v m ts =
     (let changes = mutation_finish m v
      in if changes_empty changes then Some (v, None)
         else do {
           next_revision \<leftarrow> checked_add (gv_current_revision_id v) 1;
           case graph_delta_new (gv_current_revision_id v) next_revision ts (gv_high_level v)
                  (gc_blocks changes) (gc_edges changes) (gc_levels changes)
                  (gc_is_in_vspc changes) (gc_colors changes) of
             Inl _ \<Rightarrow> None
           | Inr delta \<Rightarrow>
               Some (v\<lparr>gv_current_revision_id := next_revision,
                       gv_current_revision_timestamp_ms := ts\<rparr>, Some delta) })"

section \<open>Committed blocks\<close>

definition graph_block_from_committed :: "block_committed \<Rightarrow> graph_block" where
  "graph_block_from_committed c =
     \<lparr>gb_hash = bk_hash c, gb_coordinate = bk_coordinate c, gb_timestamp = bk_timestamp c,
      gb_daa_score = bk_daa_score c, gb_selected_parent_index = bk_selected_parent_index c,
      gb_direct_parents = map pc_hash (bk_direct_parents c),
      gb_blue_merge_set = bk_blue_merge_set c, gb_red_merge_set = bk_red_merge_set c,
      gb_color = bk_color c, gb_is_in_vspc = bk_is_in_vspc c\<rparr>"

definition insert_block :: "graph_view \<Rightarrow> graph_block \<Rightarrow> graph_view option" where
  "insert_block v block =
     (case fmlookup (gv_blocks v) (gb_hash block) of
        Some _ \<Rightarrow> None
      | None \<Rightarrow>
          Some (v\<lparr>gv_blocks := fmupd (gb_hash block) block (gv_blocks v),
                  gv_block_hashes_by_level :=
                    bucket_insert (block_level block) (gb_hash block) (gv_block_hashes_by_level v)\<rparr>))"

definition apply_materialization_snapshot :: "graph_view \<Rightarrow> level_committed \<Rightarrow> graph_view" where
  "apply_materialization_snapshot v snapshot =
     v\<lparr>gv_levels :=
        (case fmlookup (gv_levels v) (lc_level snapshot) of
           Some stored \<Rightarrow>
             fmupd (lc_level snapshot)
               (stored\<lparr>sl_value := (sl_value stored)\<lparr>lv_size := lc_size snapshot\<rparr>\<rparr>) (gv_levels v)
         | None \<Rightarrow>
             fmupd (lc_level snapshot)
               \<lparr>sl_value = \<lparr>lv_size = lc_size snapshot, lv_daa_score = lc_daa_score snapshot\<rparr>,
                sl_usage_count = 0\<rparr> (gv_levels v))\<rparr>"

definition retained_edges :: "block_committed \<Rightarrow> level_extent \<Rightarrow> graph_edge list" where
  "retained_edges c extent =
     filter (\<lambda>edge. intersects_span extent (parent_level edge) (child_level edge))
       (List.map_filter
          (\<lambda>parent. map_option
             (\<lambda>coordinate. \<lparr>ge_id = EdgeId (pc_hash parent) (bk_hash c),
                            ge_parent_coordinate = coordinate,
                            ge_child_coordinate = bk_coordinate c\<rparr>)
             (pc_coordinate parent))
          (bk_direct_parents c))"

definition project_snapshot ::
  "level_extent \<Rightarrow> u32 fset \<Rightarrow> level_committed \<Rightarrow> graph_view \<times> graph_mutation \<Rightarrow> graph_view \<times> graph_mutation" where
  "project_snapshot extent endpoint_levels snapshot s =
     (let (v, m) = s;
          retained_external = (case fmlookup (gv_levels v) (lc_level snapshot) of
                                 None \<Rightarrow> False | Some stored \<Rightarrow> 0 < sl_usage_count stored)
      in if contains_level extent (lc_level snapshot) \<or> retained_external
            \<or> lc_level snapshot |\<in>| endpoint_levels
         then (apply_materialization_snapshot v snapshot, capture_level (gv_levels v) (lc_level snapshot) m)
         else (v, m))"

definition project_edge ::
  "graph_view \<times> graph_mutation \<Rightarrow> graph_edge \<Rightarrow> (graph_view \<times> graph_mutation) option" where
  "project_edge s edge =
     (let (v, m) = s; m' = capture_edge (gv_edges v) (ge_id edge) m
      in case fmlookup (gv_edges v) (ge_id edge) of
           Some existing \<Rightarrow> if existing = edge then Some (v, m') else None
         | None \<Rightarrow> do {
             v' \<leftarrow> increment_parent_usage
                     (index_edge (v\<lparr>gv_edges := fmupd (ge_id edge) edge (gv_edges v)\<rparr>) edge)
                     (parent_level edge);
             Some (v', m') })"

definition apply_block_projection ::
  "graph_view \<Rightarrow> block_committed \<Rightarrow> level_extent \<Rightarrow> graph_mutation \<Rightarrow> (graph_view \<times> graph_mutation) option" where
  "apply_block_projection v c target_extent m =
     (let block = graph_block_from_committed c in do {
        (v1, m1) \<leftarrow> (if contains_level target_extent (block_level block)
                     then do { v' \<leftarrow> insert_block v block;
                               Some (v', capture_block (gv_blocks v) (gb_hash block) m) }
                     else Some (v, m));
        let edges = retained_edges c target_extent;
        let endpoint_levels = fset_of_list (concat (map (\<lambda>e. [parent_level e, child_level e]) edges));
        let s2 = fold (project_snapshot target_extent endpoint_levels) (bk_level_snapshots c) (v1, m1);
        fold_opt project_edge s2 edges })"

text \<open>Pruning below the new lower bound: block buckets, blocks, their edges, unused levels.\<close>

definition take_block_level ::
  "graph_view \<times> block_hash list \<Rightarrow> u32 \<Rightarrow> (graph_view \<times> block_hash list) option" where
  "take_block_level s l =
     (let (v, hashes) = s
      in case fmlookup (gv_block_hashes_by_level v) l of
           None \<Rightarrow> None
         | Some removed \<Rightarrow>
             Some (v\<lparr>gv_block_hashes_by_level := fmdrop l (gv_block_hashes_by_level v)\<rparr>,
                   hashes @ sorted_list_of_fset removed))"

definition prune_block ::
  "graph_view \<times> graph_mutation \<Rightarrow> block_hash \<Rightarrow> (graph_view \<times> graph_mutation) option" where
  "prune_block s hash =
     (let (v, m) = s
      in case fmlookup (gv_blocks v) hash of
           None \<Rightarrow> None
         | Some block \<Rightarrow>
             Some (v\<lparr>gv_blocks := fmdrop hash (gv_blocks v)\<rparr>, capture_removed_block hash block m))"

definition edges_of_children :: "graph_view \<Rightarrow> block_hash list \<Rightarrow> edge_id list" where
  "edges_of_children v children =
     concat (map (\<lambda>child. case fmlookup (gv_edge_parents_by_child v) child of
                            None \<Rightarrow> []
                          | Some parents \<Rightarrow> map (\<lambda>parent. EdgeId parent child) (sorted_list_of_fset parents))
              children)"

definition prune_edge ::
  "graph_view \<times> graph_mutation \<Rightarrow> edge_id \<Rightarrow> (graph_view \<times> graph_mutation) option" where
  "prune_edge s i =
     (let (v, m) = s
      in case fmlookup (gv_edges v) i of
           None \<Rightarrow> None
         | Some edge \<Rightarrow> do {
             v' \<leftarrow> decrement_parent_usage
                     (unindex_edge (v\<lparr>gv_edges := fmdrop i (gv_edges v)\<rparr>) edge) (parent_level edge);
             Some (v', capture_removed_edge i edge m) })"

definition prune_level ::
  "graph_view \<times> graph_mutation \<Rightarrow> u32 \<Rightarrow> (graph_view \<times> graph_mutation) option" where
  "prune_level s l =
     (let (v, m) = s
      in case fmlookup (gv_levels v) l of
           None \<Rightarrow> None
         | Some stored \<Rightarrow>
             Some (v\<lparr>gv_levels := fmdrop l (gv_levels v)\<rparr>, capture_removed_level l (sl_value stored) m))"

definition apply_head_block_committed ::
  "graph_view \<Rightarrow> block_committed \<Rightarrow> u64 \<Rightarrow>
   (graph_view \<times> (graph_view_update_error + graph_delta option)) option" where
  "apply_head_block_committed v c ts =
     (if gv_tracking_policy v = Frozen then Some (v, Inl UpdateFrozen)
      else if gv_tracking_policy v \<noteq> Head then None
      else
        let target_high = max (gv_high_level v) (bc_level (bk_coordinate c));
            target_low = head_target_low v target_high
        in case level_extent_new target_low target_high of
             Inl _ \<Rightarrow> None
           | Inr target_extent \<Rightarrow> do {
               (v1, m1) \<leftarrow> apply_block_projection v c target_extent mutation_default;
               (v2, pruned_blocks) \<leftarrow> fold_opt take_block_level (v1, [])
                  (filter (\<lambda>l. l < target_low) (sorted_list_of_fset (fmdom (gv_block_hashes_by_level v1))));
               (v3, m3) \<leftarrow> fold_opt prune_block (v2, m1) pruned_blocks;
               (v4, m4) \<leftarrow> fold_opt prune_edge (v3, m3) (edges_of_children v3 pruned_blocks);
               (v5, m5) \<leftarrow> fold_opt prune_level (v4, m4)
                  (map fst (filter (\<lambda>(l, stored). l < target_low \<and> sl_usage_count stored = 0)
                     (sorted_list_of_fmap (gv_levels v4))));
               (v6, delta) \<leftarrow> finish_mutation (v5\<lparr>gv_extent := target_extent\<rparr>) m5 ts;
               Some (v6, Inr delta) })"

definition apply_fixed_block_committed ::
  "graph_view \<Rightarrow> block_committed \<Rightarrow> graph_view \<Rightarrow> u64 \<Rightarrow>
   (graph_view \<times> (graph_view_update_error + graph_delta option)) option" where
  "apply_fixed_block_committed v c head ts =
     (if gv_tracking_policy v = Frozen then Some (v, Inl UpdateFrozen)
      else if gv_tracking_policy v \<noteq> Fixed then None
      else if gv_tracking_policy head \<noteq> Head then None
      else if \<not> overlaps (gv_extent v) (gv_extent head)
      then Some (v\<lparr>gv_tracking_policy := Frozen\<rparr>, Inr None)
      else do {
        (v1, m1) \<leftarrow> apply_block_projection v c (gv_extent v) mutation_default;
        (v2, delta) \<leftarrow> finish_mutation v1 m1 ts;
        Some (v2, Inr delta) })"

section \<open>Committed VSPC transitions\<close>

record vspc_projection_metadata =
  vpm_blue_merge_set :: "block_hash list"
  vpm_red_merge_set :: "block_hash list"

definition metadata_from_block :: "graph_block \<Rightarrow> vspc_projection_metadata" where
  "metadata_from_block b =
     \<lparr>vpm_blue_merge_set = gb_blue_merge_set b, vpm_red_merge_set = gb_red_merge_set b\<rparr>"

definition vspc_remove_step ::
  "block_hash \<Rightarrow> graph_view \<times> graph_mutation \<Rightarrow> graph_view \<times> graph_mutation" where
  "vspc_remove_step hash s =
     (let (v, m) = s
      in case fmlookup (gv_blocks v) hash of
           None \<Rightarrow> s
         | Some b \<Rightarrow>
             (update_block hash (\<lambda>b. b\<lparr>gb_is_in_vspc := False, gb_color := Gray\<rparr>) v,
              capture_color hash (gb_color b) (capture_membership hash (gb_is_in_vspc b) m)))"

definition vspc_add_step ::
  "block_hash \<Rightarrow> graph_view \<times> graph_mutation \<Rightarrow> graph_view \<times> graph_mutation" where
  "vspc_add_step hash s =
     (let (v, m) = s
      in case fmlookup (gv_blocks v) hash of
           None \<Rightarrow> s
         | Some b \<Rightarrow>
             (update_block hash (\<lambda>b. b\<lparr>gb_is_in_vspc := True\<rparr>) v,
              capture_membership hash (gb_is_in_vspc b) m))"

definition vspc_color_step ::
  "block_color \<Rightarrow> block_hash \<Rightarrow> graph_view \<times> graph_mutation \<Rightarrow> graph_view \<times> graph_mutation" where
  "vspc_color_step color hash s =
     (let (v, m) = s
      in case fmlookup (gv_blocks v) hash of
           None \<Rightarrow> s
         | Some b \<Rightarrow>
             (update_block hash (\<lambda>b. b\<lparr>gb_color := color\<rparr>) v, capture_color hash (gb_color b) m))"

definition vspc_metadata_step ::
  "vspc_projection_metadata \<Rightarrow> graph_view \<times> graph_mutation \<Rightarrow> graph_view \<times> graph_mutation" where
  "vspc_metadata_step md s =
     fold (vspc_color_step Red) (vpm_red_merge_set md)
       (fold (vspc_color_step Blue) (vpm_blue_merge_set md) s)"

definition vspc_level_step ::
  "level_committed \<Rightarrow> graph_view \<times> graph_mutation \<Rightarrow> graph_view \<times> graph_mutation" where
  "vspc_level_step snapshot s =
     (let (v, m) = s
      in case fmlookup (gv_levels v) (lc_level snapshot) of
           None \<Rightarrow> s
         | Some stored \<Rightarrow>
             (v\<lparr>gv_levels := fmupd (lc_level snapshot)
                  (stored\<lparr>sl_value := (sl_value stored)\<lparr>lv_daa_score := lc_daa_score snapshot\<rparr>\<rparr>)
                  (gv_levels v)\<rparr>,
              capture_level_value (lc_level snapshot) (sl_value stored) m))"

definition apply_vspc_projection ::
  "graph_view \<Rightarrow> vspc_committed \<Rightarrow> vspc_projection_metadata list \<Rightarrow> u64 \<Rightarrow>
   (graph_view \<times> graph_delta option) option" where
  "apply_vspc_projection v c added_metadata ts =
     (let s1 = fold vspc_remove_step (vc_removed c) (v, mutation_default);
          s2 = fold vspc_add_step (vc_added c) s1;
          s3 = fold vspc_metadata_step added_metadata s2;
          (v4, m4) = fold vspc_level_step (vc_level_snapshots c) s3
      in finish_mutation v4 m4 ts)"

definition apply_head_vspc_committed ::
  "graph_view \<Rightarrow> vspc_committed \<Rightarrow> u64 \<Rightarrow>
   (graph_view \<times> (graph_view_update_error + graph_delta option)) option" where
  "apply_head_vspc_committed v c ts =
     (if gv_tracking_policy v = Frozen then Some (v, Inl UpdateFrozen)
      else if gv_tracking_policy v \<noteq> Head then None
      else
        let added_metadata =
              map metadata_from_block (List.map_filter (fmlookup (gv_blocks v)) (vc_added c))
        in do {
          (v1, delta) \<leftarrow> apply_vspc_projection v c added_metadata ts;
          Some (v1, Inr delta) })"

definition apply_fixed_vspc_committed ::
  "graph_view \<Rightarrow> vspc_committed \<Rightarrow> graph_view \<Rightarrow> u64 \<Rightarrow>
   (graph_view \<times> (graph_view_update_error + graph_delta option)) option" where
  "apply_fixed_vspc_committed v c head ts =
     (if gv_tracking_policy v = Frozen then Some (v, Inl UpdateFrozen)
      else if gv_tracking_policy v \<noteq> Fixed then None
      else if gv_tracking_policy head \<noteq> Head then None
      else if \<not> overlaps (gv_extent v) (gv_extent head)
      then Some (v\<lparr>gv_tracking_policy := Frozen\<rparr>, Inr None)
      else
        case collect_options
               (map (\<lambda>hash. map_option metadata_from_block
                       (case fmlookup (gv_blocks v) hash of
                          Some b \<Rightarrow> Some b | None \<Rightarrow> fmlookup (gv_blocks head) hash))
                  (vc_added c)) of
          None \<Rightarrow> Some (v\<lparr>gv_tracking_policy := Frozen\<rparr>, Inr None)
        | Some added_metadata \<Rightarrow> do {
            (v1, delta) \<leftarrow> apply_vspc_projection v c added_metadata ts;
            Some (v1, Inr delta) })"

section \<open>Extraction of a frozen subview\<close>

definition collect_block ::
  "graph_view \<Rightarrow> (block_hash, graph_block) fmap \<Rightarrow> block_hash \<Rightarrow> (block_hash, graph_block) fmap option" where
  "collect_block v blocks hash =
     (case fmlookup (gv_blocks v) hash of None \<Rightarrow> None | Some b \<Rightarrow> Some (fmupd hash b blocks))"

definition collect_edge ::
  "graph_view \<Rightarrow> (edge_id, graph_edge) fmap \<Rightarrow> edge_id \<Rightarrow> (edge_id, graph_edge) fmap option" where
  "collect_edge v edges i =
     (case fmlookup (gv_edges v) i of None \<Rightarrow> None | Some e \<Rightarrow> Some (fmupd i e edges))"

definition select_subview_graph ::
  "graph_view \<Rightarrow> level_extent \<Rightarrow>
   ((block_hash, graph_block) fmap \<times> (edge_id, graph_edge) fmap) option" where
  "select_subview_graph v extent = do {
     blocks \<leftarrow> fold_opt (collect_block v) fmempty
        (concat (map (\<lambda>(_, hashes). sorted_list_of_fset hashes)
           (filter (\<lambda>(l, _). low_level extent \<le> l \<and> l \<le> high_level extent)
              (sorted_list_of_fmap (gv_block_hashes_by_level v)))));
     edges \<leftarrow> fold_opt (collect_edge v) fmempty
        (concat (map (\<lambda>(_, parents).
             concat (map (\<lambda>(_, ids). sorted_list_of_fset ids)
               (filter (\<lambda>(l, _). l \<le> high_level extent) (sorted_list_of_fmap parents))))
           (filter (\<lambda>(l, _). low_level extent \<le> l) (sorted_list_of_fmap (gv_edge_ids_by_span v)))));
     Some (blocks, edges) }"

definition insert_source_level ::
  "graph_view \<Rightarrow> (u32, stored_level) fmap \<Rightarrow> u32 \<Rightarrow> (u32, stored_level) fmap option" where
  "insert_source_level v target l =
     (case fmlookup target l of
        Some _ \<Rightarrow> Some target
      | None \<Rightarrow>
          (case fmlookup (gv_levels v) l of
             None \<Rightarrow> None
           | Some stored \<Rightarrow> Some (fmupd l \<lparr>sl_value = sl_value stored, sl_usage_count = 0\<rparr> target)))"

definition extract_subview ::
  "graph_view \<Rightarrow> level_extent \<Rightarrow> (graph_view_extract_error + graph_view) option" where
  "extract_subview v extent =
     (if \<not> contains_extent (gv_extent v) extent then Some (Inl OutsideSourceExtent)
      else do {
        (blocks, edges) \<leftarrow> select_subview_graph v extent;
        nominal \<leftarrow> fold_opt (insert_source_level v) fmempty (extent_levels extent);
        selected_levels \<leftarrow> fold_opt (insert_source_level v) nominal
           (concat (map (\<lambda>(_, e). [parent_level e, child_level e]) (sorted_list_of_fmap edges)));
        extracted \<leftarrow> fold_opt increment_parent_usage
          \<lparr>gv_max_depth = extent_depth extent, gv_extent = extent,
           gv_current_revision_id = gv_current_revision_id v,
           gv_current_revision_timestamp_ms = gv_current_revision_timestamp_ms v,
           gv_tracking_policy = Frozen,
           gv_levels = selected_levels, gv_blocks = blocks, gv_edges = edges,
           gv_block_hashes_by_level = index_blocks_by_level blocks,
           gv_edge_parents_by_child = index_edge_parents_by_child edges,
           gv_edge_ids_by_span = index_edges_by_span edges\<rparr>
          (map (\<lambda>(_, e). parent_level e) (sorted_list_of_fmap edges));
        Some (Inr extracted) })"

end
