(* ===== verification/Graph_View_Inv.thy ===== *)
theory Graph_View_Inv
  imports Graph_View
begin

text \<open>
  The invariant of \<open>GraphView\<close> and its preservation. The secondary indexes and the usage counts are
  a function of the blocks, the edges and the levels (\<open>view_inv\<close>), so two views with the same
  primary data are equal (\<open>view_inv_ext\<close>). Every single step of the mutating operations (inserting
  a block, adding or removing an edge, refreshing or dropping a level) keeps the invariant and does
  not panic under its guard; the index lemmas come from the \<open>flat\<close> and \<open>span\<close> instances of
  \<open>bucket_index\<close>.
\<close>

section \<open>The invariant\<close>

definition usage_of :: "(edge_id, graph_edge) fmap \<Rightarrow> u32 \<Rightarrow> nat" where
  "usage_of edges l = length (filter (\<lambda>(_, e). parent_level e = l) (sorted_list_of_fmap edges))"

definition edges_keyed :: "(edge_id, graph_edge) fmap \<Rightarrow> bool" where
  "edges_keyed edges = fmpred (\<lambda>i e. ge_id e = i) edges"

definition usage_exact :: "(edge_id, graph_edge) fmap \<Rightarrow> (u32, stored_level) fmap \<Rightarrow> bool" where
  "usage_exact edges levels = fmpred (\<lambda>l s. unat (sl_usage_count s) = usage_of edges l) levels"

definition parents_retained :: "(edge_id, graph_edge) fmap \<Rightarrow> (u32, stored_level) fmap \<Rightarrow> bool" where
  "parents_retained edges levels = fmpred (\<lambda>_ e. parent_level e |\<in>| fmdom levels) edges"

definition view_inv :: "graph_view \<Rightarrow> bool" where
  "view_inv v \<longleftrightarrow>
     0 < gv_max_depth v \<and> extent_valid (gv_extent v) \<and>
     edges_keyed (gv_edges v) \<and>
     gv_block_hashes_by_level v = index_blocks_by_level (gv_blocks v) \<and>
     gv_edge_parents_by_child v = index_edge_parents_by_child (gv_edges v) \<and>
     gv_edge_ids_by_span v = index_edges_by_span (gv_edges v) \<and>
     usage_exact (gv_edges v) (gv_levels v) \<and>
     parents_retained (gv_edges v) (gv_levels v)"

lemma usage_of_card: "usage_of edges l = card {i. \<exists>e. fmlookup edges i = Some e \<and> parent_level e = l}"
proof -
  let ?xs = "filter (\<lambda>(_, e). parent_level e = l) (sorted_list_of_fmap edges)"
  have "distinct (map fst ?xs)" by (simp add: distinct_map_filter)
  then have "length ?xs = card (fst ` set ?xs)"
    using distinct_card[of "map fst ?xs"] by simp
  moreover have "fst ` set ?xs = {i. \<exists>e. fmlookup edges i = Some e \<and> parent_level e = l}"
    by (force simp: image_iff set_sorted_list_of_fmap)
  ultimately show ?thesis by (simp add: usage_of_def)
qed

lemma finite_edges_at: "finite {i. \<exists>e. fmlookup edges i = Some e \<and> P i e}"
  by (rule finite_subset[of _ "fmdom' edges"]) (auto intro: fmdom'I)

lemma usage_of_upd_new:
  assumes "fmlookup edges i = None"
  shows "usage_of (fmupd i e edges) l = usage_of edges l + (if parent_level e = l then 1 else 0)"
proof -
  let ?A = "{i. \<exists>e. fmlookup edges i = Some e \<and> parent_level e = l}"
  have "{j. \<exists>e'. fmlookup (fmupd i e edges) j = Some e' \<and> parent_level e' = l} =
      (if parent_level e = l then insert i ?A else ?A)"
    using assms by auto
  moreover have "i \<notin> ?A" using assms by simp
  ultimately show ?thesis using finite_edges_at[of edges "\<lambda>_ e. parent_level e = l"]
    by (simp add: usage_of_card)
qed

lemma usage_of_drop:
  assumes "fmlookup edges i = Some e"
  shows "usage_of edges l = usage_of (fmdrop i edges) l + (if parent_level e = l then 1 else 0)"
proof -
  have "edges = fmupd i e (fmdrop i edges)"
    using assms by (intro fmap_ext) auto
  then show ?thesis using usage_of_upd_new[of "fmdrop i edges" i e l] by simp
qed

lemma usage_of_eq_0: "usage_of edges l = 0 \<longleftrightarrow> (\<forall>i e. fmlookup edges i = Some e \<longrightarrow> parent_level e \<noteq> l)"
  by (auto simp: usage_of_card finite_edges_at)

lemma usage_of_le: "usage_of edges l \<le> fcard (fmdom edges)"
proof -
  have "usage_of edges l \<le> card (fmdom' edges)"
    unfolding usage_of_card by (rule card_mono) (auto intro: fmdom'I)
  then show ?thesis by (simp add: fcard.rep_eq fmdom'_alt_def)
qed

section \<open>Indexes follow single-entry updates\<close>

lemma index_blocks_alt:
  "index_blocks_by_level blocks =
     fold (\<lambda>(k, x). bucket_insert k x) (map (\<lambda>(h, b). (block_level b, h)) (sorted_list_of_fmap blocks)) fmempty"
  by (simp add: index_blocks_by_level_def fold_map comp_def split_def)

lemma index_parents_alt:
  "index_edge_parents_by_child edges =
     fold (\<lambda>(k, x). bucket_insert k x) (map (\<lambda>(i, e). (ei_child i, ei_parent i)) (sorted_list_of_fmap edges)) fmempty"
  by (simp add: index_edge_parents_by_child_def fold_map comp_def split_def)

lemma index_span_alt:
  "index_edges_by_span edges =
     fold (\<lambda>(k, x). span_insert k x) (map (\<lambda>(i, e). ((child_level e, parent_level e), i)) (sorted_list_of_fmap edges)) fmempty"
  by (simp add: index_edges_by_span_def fold_map comp_def split_def)

lemma no_empty_index_blocks [simp]: "no_empty_bucket (index_blocks_by_level blocks)"
  unfolding index_blocks_alt by (rule flat.ok_build) simp

lemma no_empty_index_parents [simp]: "no_empty_bucket (index_edge_parents_by_child edges)"
  unfolding index_parents_alt by (rule flat.ok_build) simp

lemma bucket_index_blocks:
  "h |\<in>| bucket (index_blocks_by_level blocks) l \<longleftrightarrow> (\<exists>b. fmlookup blocks h = Some b \<and> block_level b = l)"
  unfolding index_blocks_alt flat.look_index by auto

lemma bucket_index_parents:
  "p |\<in>| bucket (index_edge_parents_by_child edges) c \<longleftrightarrow> (\<exists>e. fmlookup edges (EdgeId p c) = Some e)"
  unfolding index_parents_alt flat.look_index by (auto simp: edge_id.expand)

lemma bucket_index_span:
  "i |\<in>| span_bucket (index_edges_by_span edges) (c, p) \<longleftrightarrow>
     (\<exists>e. fmlookup edges i = Some e \<and> child_level e = c \<and> parent_level e = p)"
  unfolding index_span_alt span.look_index by auto

lemma index_blocks_upd_new:
  "fmlookup blocks h = None \<Longrightarrow>
   index_blocks_by_level (fmupd h b blocks) = bucket_insert (block_level b) h (index_blocks_by_level blocks)"
  unfolding index_blocks_alt by (subst flat.index_upd_new) auto

lemma index_blocks_drop:
  "fmlookup blocks h = Some b \<Longrightarrow>
   index_blocks_by_level (fmdrop h blocks) = bucket_remove (block_level b) h (index_blocks_by_level blocks)"
  unfolding index_blocks_alt by (subst flat.index_drop) auto

lemma index_parents_upd_new:
  "fmlookup edges i = None \<Longrightarrow>
   index_edge_parents_by_child (fmupd i e edges) =
     bucket_insert (ei_child i) (ei_parent i) (index_edge_parents_by_child edges)"
  unfolding index_parents_alt by (subst flat.index_upd_new) auto

lemma index_parents_drop:
  "fmlookup edges i = Some e \<Longrightarrow>
   index_edge_parents_by_child (fmdrop i edges) =
     bucket_remove (ei_child i) (ei_parent i) (index_edge_parents_by_child edges)"
  unfolding index_parents_alt by (subst flat.index_drop) (auto simp: edge_id.expand)

lemma index_span_upd_new:
  "fmlookup edges i = None \<Longrightarrow>
   index_edges_by_span (fmupd i e edges) =
     span_insert (child_level e, parent_level e) i (index_edges_by_span edges)"
  unfolding index_span_alt by (subst span.index_upd_new) auto

lemma index_span_drop:
  "fmlookup edges i = Some e \<Longrightarrow>
   index_edges_by_span (fmdrop i edges) =
     span_remove (child_level e, parent_level e) i (index_edges_by_span edges)"
  unfolding index_span_alt by (subst span.index_drop) auto

lemma fmupd_fmdrop: "fmupd k v m = fmupd k v (fmdrop k m)"
  by (rule fmap_ext) simp

lemma index_blocks_upd_any:
  assumes "fmlookup blocks h = Some p"
  shows "index_blocks_by_level (fmupd h b blocks) =
    bucket_insert (block_level b) h
      (if block_level p \<noteq> block_level b
       then bucket_remove (block_level p) h (index_blocks_by_level blocks)
       else index_blocks_by_level blocks)"
proof -
  have "index_blocks_by_level (fmupd h b blocks) =
      bucket_insert (block_level b) h (bucket_remove (block_level p) h (index_blocks_by_level blocks))"
    using index_blocks_drop[OF assms] index_blocks_upd_new[of "fmdrop h blocks" h b]
    by (simp flip: fmupd_fmdrop)
  then show ?thesis by (simp add: flat.ins_after_del)
qed


section \<open>The primary data determine the view\<close>

lemma usage_exactD:
  "usage_exact edges levels \<Longrightarrow> fmlookup levels l = Some s \<Longrightarrow> unat (sl_usage_count s) = usage_of edges l"
  by (auto simp: usage_exact_def fmpred_iff)

lemma parents_retainedD:
  "parents_retained edges levels \<Longrightarrow> fmlookup edges i = Some e \<Longrightarrow> \<exists>s. fmlookup levels (parent_level e) = Some s"
  by (auto simp: parents_retained_def fmpred_iff fmlookup_dom_iff)

lemma edges_keyedD: "edges_keyed edges \<Longrightarrow> fmlookup edges i = Some e \<Longrightarrow> ge_id e = i"
  by (auto simp: edges_keyed_def fmpred_iff)

lemma view_inv_usage:
  "view_inv v \<Longrightarrow> fmlookup (gv_levels v) l = Some s \<Longrightarrow> unat (sl_usage_count s) = usage_of (gv_edges v) l"
  by (auto simp: view_inv_def intro: usage_exactD)

lemma view_inv_keyed: "view_inv v \<Longrightarrow> fmlookup (gv_edges v) i = Some e \<Longrightarrow> ge_id e = i"
  by (auto simp: view_inv_def intro: edges_keyedD)

lemma view_inv_parents:
  "view_inv v \<Longrightarrow> fmlookup (gv_edges v) i = Some e \<Longrightarrow> \<exists>s. fmlookup (gv_levels v) (parent_level e) = Some s"
  by (auto simp: view_inv_def intro: parents_retainedD)

definition view_frame :: "graph_view \<Rightarrow> u32 \<times> level_extent \<times> u64 \<times> u64 \<times> tracking_policy" where
  "view_frame v = (gv_max_depth v, gv_extent v, gv_current_revision_id v,
                   gv_current_revision_timestamp_ms v, gv_tracking_policy v)"

text \<open>Two views that satisfy the invariant and agree on the frame, the blocks, the edges and the
  level values are equal: the indexes and usage counts carry no information of their own.\<close>

lemma view_inv_ext:
  assumes inv: "view_inv v" "view_inv w" and frame: "view_frame v = view_frame w"
    and blocks: "gv_blocks v = gv_blocks w" and edges: "gv_edges v = gv_edges w"
    and levels: "\<And>l. gv_level v l = gv_level w l"
  shows "v = w"
proof -
  have "gv_levels v = gv_levels w"
  proof (rule fmap_ext)
    fix l
    show "fmlookup (gv_levels v) l = fmlookup (gv_levels w) l"
    proof (cases "fmlookup (gv_levels v) l")
      case None
      then show ?thesis using levels[of l] by (simp add: gv_level_def)
    next
      case (Some s)
      then obtain t where t: "fmlookup (gv_levels w) l = Some t" "sl_value t = sl_value s"
        using levels[of l] by (cases "fmlookup (gv_levels w) l") (auto simp: gv_level_def)
      have "unat (sl_usage_count s) = unat (sl_usage_count t)"
        using inv Some t edges by (auto simp: view_inv_def dest!: usage_exactD)
      then show ?thesis using Some t by (cases s; cases t) (simp add: word_unat_eq_iff)
    qed
  qed
  then show ?thesis
    using inv frame blocks edges by (simp add: view_inv_def view_frame_def)
qed

section \<open>Single steps preserve the invariant\<close>

lemma insert_block_inv:
  assumes "view_inv v" "fmlookup (gv_blocks v) (gb_hash b) = None"
  shows "\<exists>v'. insert_block v b = Some v' \<and> view_inv v' \<and> view_frame v' = view_frame v \<and>
      gv_blocks v' = fmupd (gb_hash b) b (gv_blocks v) \<and> gv_edges v' = gv_edges v \<and> gv_levels v' = gv_levels v"
  using assms by (simp add: insert_block_def view_inv_def view_frame_def index_blocks_upd_new)

lemma usage_exact_upd_level:
  assumes "usage_exact edges levels" "unat (sl_usage_count s) = usage_of edges l"
  shows "usage_exact edges (fmupd l s levels)"
  using assms by (auto simp: usage_exact_def fmpred_iff)

lemma parents_retained_upd_level:
  "parents_retained edges levels \<Longrightarrow> parents_retained edges (fmupd l s levels)"
  by (auto simp: parents_retained_def fmpred_iff)

lemma usage_of_absent_level:
  "parents_retained edges levels \<Longrightarrow> fmlookup levels l = None \<Longrightarrow> usage_of edges l = 0"
  by (auto simp: usage_of_eq_0 dest!: parents_retainedD)

lemma apply_materialization_snapshot_inv:
  assumes "view_inv v"
  shows "view_inv (apply_materialization_snapshot v sn)"
  using assms
  by (auto simp: view_inv_def apply_materialization_snapshot_def usage_exactD usage_of_absent_level
      split: option.splits intro!: usage_exact_upd_level parents_retained_upd_level)

text \<open>Adding an edge under a fresh identity: the edge map, both edge indexes and the usage count of
  the parent level move together.\<close>

lemma increment_parent_usage_Some:
  assumes "fmlookup (gv_levels v) l = Some s" "unat (sl_usage_count s) + 1 < 2 ^ 64"
  shows "\<exists>v'. increment_parent_usage v l = Some v' \<and>
      v' = v\<lparr>gv_levels := fmupd l (s\<lparr>sl_usage_count := sl_usage_count s + 1\<rparr>) (gv_levels v)\<rparr> \<and>
      unat (sl_usage_count s + 1) = unat (sl_usage_count s) + 1"
  using assms by (simp add: increment_parent_usage_def checked_add_def unat_word_ariths)

lemma add_edge_inv:
  assumes inv: "view_inv v" and new: "fmlookup (gv_edges v) (ge_id e) = None"
    and lev: "fmlookup (gv_levels v) (parent_level e) = Some s"
    and room: "fcard (fmdom (gv_edges v)) + 1 < 2 ^ 64"
  shows "\<exists>v'. increment_parent_usage (index_edge (v\<lparr>gv_edges := fmupd (ge_id e) e (gv_edges v)\<rparr>) e) (parent_level e) = Some v' \<and>
      view_inv v' \<and> view_frame v' = view_frame v \<and> gv_blocks v' = gv_blocks v \<and>
      gv_edges v' = fmupd (ge_id e) e (gv_edges v) \<and> (\<forall>l. gv_level v' l = gv_level v l) \<and>
      fmdom (gv_levels v') = fmdom (gv_levels v)"
proof -
  let ?w = "index_edge (v\<lparr>gv_edges := fmupd (ge_id e) e (gv_edges v)\<rparr>) e"
  let ?E = "fmupd (ge_id e) e (gv_edges v)"
  have wl: "gv_levels ?w = gv_levels v" by (simp add: index_edge_def)
  have us: "unat (sl_usage_count s) = usage_of (gv_edges v) (parent_level e)"
    using inv lev by (rule view_inv_usage)
  then have "unat (sl_usage_count s) + 1 < 2 ^ 64"
    using usage_of_le[of "gv_edges v" "parent_level e"] room by simp
  then obtain v' where v': "increment_parent_usage ?w (parent_level e) = Some v'"
      "v' = ?w\<lparr>gv_levels := fmupd (parent_level e) (s\<lparr>sl_usage_count := sl_usage_count s + 1\<rparr>) (gv_levels v)\<rparr>"
      "unat (sl_usage_count s + 1) = unat (sl_usage_count s) + 1"
    using increment_parent_usage_Some[of ?w "parent_level e" s] lev by (simp add: wl)
  have ue: "usage_exact ?E (gv_levels v')"
    using inv us v'(3) by (auto simp: v'(2) usage_exact_def view_inv_def fmpred_iff usage_of_upd_new[OF new])
  have pr: "parents_retained ?E (gv_levels v')"
    using inv by (auto simp: v'(2) parents_retained_def view_inv_def fmpred_iff)
  have ek: "edges_keyed ?E" using inv by (auto simp: edges_keyed_def view_inv_def fmpred_iff)
  have "gv_levels v' = fmupd (parent_level e) (s\<lparr>sl_usage_count := sl_usage_count s + 1\<rparr>) (gv_levels v)"
    by (simp add: v'(2))
  then have lvl: "gv_level v' l = gv_level v l" for l using lev by (auto simp: gv_level_def)
  have dom: "fmdom (gv_levels v') = fmdom (gv_levels v)"
    using lev by (auto simp: v'(2) fmlookup_dom_iff)
  have "view_inv v'"
    using inv ue pr ek
    by (simp add: view_inv_def v'(2) index_edge_def index_parents_upd_new[OF new] index_span_upd_new[OF new])
  then show ?thesis using v'(1) lvl dom by (auto simp: v'(2) index_edge_def view_frame_def)
qed

text \<open>Removing a retained edge.\<close>

lemma remove_edge_inv:
  assumes inv: "view_inv v" and old: "fmlookup (gv_edges v) i = Some e"
  shows "\<exists>v'. decrement_parent_usage (unindex_edge (v\<lparr>gv_edges := fmdrop i (gv_edges v)\<rparr>) e) (parent_level e) = Some v' \<and>
      view_inv v' \<and> view_frame v' = view_frame v \<and> gv_blocks v' = gv_blocks v \<and>
      gv_edges v' = fmdrop i (gv_edges v) \<and> (\<forall>l. gv_level v' l = gv_level v l) \<and>
      fmdom (gv_levels v') = fmdom (gv_levels v)"
proof -
  let ?w = "unindex_edge (v\<lparr>gv_edges := fmdrop i (gv_edges v)\<rparr>) e"
  let ?E = "fmdrop i (gv_edges v)"
  have i: "ge_id e = i" using inv old by (rule view_inv_keyed)
  obtain s where lev: "fmlookup (gv_levels v) (parent_level e) = Some s"
    using view_inv_parents[OF inv old] by blast
  have us: "unat (sl_usage_count s) = usage_of ?E (parent_level e) + 1"
    using view_inv_usage[OF inv lev] usage_of_drop[OF old, of "parent_level e"] by simp
  have "checked_sub (sl_usage_count s) 1 = Some (sl_usage_count s - 1)"
    and un: "unat (sl_usage_count s - 1) = usage_of ?E (parent_level e)"
    using us by (auto simp: checked_sub_def word_le_nat_alt unat_sub)
  then obtain v' where v': "decrement_parent_usage ?w (parent_level e) = Some v'"
      "v' = ?w\<lparr>gv_levels := fmupd (parent_level e) (s\<lparr>sl_usage_count := sl_usage_count s - 1\<rparr>) (gv_levels v)\<rparr>"
    using lev by (simp add: decrement_parent_usage_def unindex_edge_def)
  have ue: "usage_exact ?E (gv_levels v')"
    using inv un by (auto simp: v'(2) usage_exact_def view_inv_def fmpred_iff usage_of_drop[OF old])
  have pr: "parents_retained ?E (gv_levels v')"
    using inv by (auto simp: v'(2) parents_retained_def view_inv_def fmpred_iff)
  have ek: "edges_keyed ?E" using inv by (auto simp: edges_keyed_def view_inv_def fmpred_iff)
  have "gv_levels v' = fmupd (parent_level e) (s\<lparr>sl_usage_count := sl_usage_count s - 1\<rparr>) (gv_levels v)"
    by (simp add: v'(2))
  then have lvl: "gv_level v' l = gv_level v l" for l using lev by (auto simp: gv_level_def)
  have dom: "fmdom (gv_levels v') = fmdom (gv_levels v)"
    using lev by (auto simp: v'(2) fmlookup_dom_iff)
  have "view_inv v'"
    using inv ue pr ek
    by (simp add: view_inv_def v'(2) unindex_edge_def i index_parents_drop[OF old] index_span_drop[OF old])
  then show ?thesis using v'(1) lvl dom by (auto simp: v'(2) unindex_edge_def view_frame_def)
qed

lemma drop_level_inv:
  assumes "view_inv v" "fmlookup (gv_levels v) l = Some s" "sl_usage_count s = 0"
  shows "view_inv (v\<lparr>gv_levels := fmdrop l (gv_levels v)\<rparr>)"
proof -
  have "usage_of (gv_edges v) l = 0"
    using view_inv_usage[OF assms(1,2)] assms(3) by simp
  then show ?thesis
    using assms(1)
    by (auto simp: view_inv_def usage_exact_def parents_retained_def fmpred_iff usage_of_eq_0)
qed

end
