(* ===== verification/Graph_Delta_Apply.thy ===== *)
theory Graph_Delta_Apply
  imports Graph_View_Inv
begin

text \<open>
  \<open>GraphView::apply_delta\<close> characterised: each of its loops has a closed form, and on an applicable
  delta of the right revision the whole operation succeeds, keeps the invariant and yields exactly
  the patched graph (\<open>apply_delta_patches\<close>). The usage counts are adjusted from two lists of parent
  levels; the lemmas show that they never underflow, never overflow and end at the exact counts.
\<close>

section \<open>Usage loops\<close>

lemma increment_loop:
  assumes "\<And>l. l \<in> set ls \<Longrightarrow> \<exists>s. fmlookup (gv_levels v) l = Some s \<and> unat (sl_usage_count s) + count_list ls l < 2 ^ 64"
  shows "\<exists>w. fold_opt increment_parent_usage v ls = Some w \<and> w = v\<lparr>gv_levels := gv_levels w\<rparr> \<and>
      (\<forall>l. fmlookup (gv_levels w) l =
        map_option (\<lambda>s. s\<lparr>sl_usage_count := sl_usage_count s + word_of_nat (count_list ls l)\<rparr>) (fmlookup (gv_levels v) l))"
  using assms
proof (induction ls arbitrary: v)
  case Nil
  then show ?case by (auto simp: option.map_ident)
next
  case (Cons a ls)
  obtain s where s: "fmlookup (gv_levels v) a = Some s" "unat (sl_usage_count s) + count_list (a # ls) a < 2 ^ 64"
    using Cons.prems[of a] by auto
  then obtain v1 where v1: "increment_parent_usage v a = Some v1"
      "v1 = v\<lparr>gv_levels := fmupd a (s\<lparr>sl_usage_count := sl_usage_count s + 1\<rparr>) (gv_levels v)\<rparr>"
      "unat (sl_usage_count s + 1) = unat (sl_usage_count s) + 1"
    using increment_parent_usage_Some[of v a s] by auto
  have "\<exists>t. fmlookup (gv_levels v1) l = Some t \<and> unat (sl_usage_count t) + count_list ls l < 2 ^ 64"
    if "l \<in> set ls" for l
    using that s v1(2,3) Cons.prems[of l] by auto
  from Cons.IH[OF this] obtain w where w: "fold_opt increment_parent_usage v1 ls = Some w"
      "w = v1\<lparr>gv_levels := gv_levels w\<rparr>"
      "\<forall>l. fmlookup (gv_levels w) l =
        map_option (\<lambda>s. s\<lparr>sl_usage_count := sl_usage_count s + word_of_nat (count_list ls l)\<rparr>) (fmlookup (gv_levels v1) l)"
    by auto
  have "w = v\<lparr>gv_levels := gv_levels w\<rparr>"
    by (subst w(2)) (simp add: v1(2))
  then show ?case using s(1) w(1,3) v1(1) by (auto simp: v1(2) algebra_simps)
qed

lemma decrement_loop:
  assumes "\<And>l s. fmlookup (gv_levels v) l = Some s \<Longrightarrow> count_list ls l \<le> unat (sl_usage_count s)"
  shows "\<exists>w. fold_opt apply_usage_decrement v ls = Some w \<and> w = v\<lparr>gv_levels := gv_levels w\<rparr> \<and>
      (\<forall>l. fmlookup (gv_levels w) l =
        map_option (\<lambda>s. s\<lparr>sl_usage_count := sl_usage_count s - word_of_nat (count_list ls l)\<rparr>) (fmlookup (gv_levels v) l))"
  using assms
proof (induction ls arbitrary: v)
  case Nil
  then show ?case by (auto simp: option.map_ident)
next
  case (Cons a ls)
  show ?case
  proof (cases "fmlookup (gv_levels v) a")
    case None
    then have step: "apply_usage_decrement v a = Some v" by (simp add: apply_usage_decrement_def)
    have "count_list ls l \<le> unat (sl_usage_count s)" if "fmlookup (gv_levels v) l = Some s" for l s
      using that Cons.prems[of l s] None by (auto split: if_splits)
    from Cons.IH[OF this] obtain w where "fold_opt apply_usage_decrement v ls = Some w"
        "w = v\<lparr>gv_levels := gv_levels w\<rparr>"
        "\<forall>l. fmlookup (gv_levels w) l =
          map_option (\<lambda>s. s\<lparr>sl_usage_count := sl_usage_count s - word_of_nat (count_list ls l)\<rparr>) (fmlookup (gv_levels v) l)"
      by auto
    then show ?thesis using step None by auto
  next
    case (Some s)
    have le: "Suc (count_list ls a) \<le> unat (sl_usage_count s)" using Cons.prems[OF Some] by simp
    define v1 where "v1 = v\<lparr>gv_levels := fmupd a (s\<lparr>sl_usage_count := sl_usage_count s - 1\<rparr>) (gv_levels v)\<rparr>"
    have u1: "unat (sl_usage_count s - 1) = unat (sl_usage_count s) - 1"
      using le by (simp add: unat_sub word_le_nat_alt)
    have step: "apply_usage_decrement v a = Some v1"
      using Some le by (simp add: apply_usage_decrement_def checked_sub_def v1_def word_le_nat_alt)
    have "count_list ls l \<le> unat (sl_usage_count t)" if "fmlookup (gv_levels v1) l = Some t" for l t
      using that Cons.prems[of l t] le u1 by (auto simp: v1_def split: if_splits)
    from Cons.IH[OF this] obtain w where w: "fold_opt apply_usage_decrement v1 ls = Some w"
        "w = v1\<lparr>gv_levels := gv_levels w\<rparr>"
        "\<forall>l. fmlookup (gv_levels w) l =
          map_option (\<lambda>s. s\<lparr>sl_usage_count := sl_usage_count s - word_of_nat (count_list ls l)\<rparr>) (fmlookup (gv_levels v1) l)"
      by auto
    have "w = v\<lparr>gv_levels := gv_levels w\<rparr>"
      by (subst w(2)) (simp add: v1_def)
    then show ?thesis using Some w(1,3) step by (auto simp: v1_def algebra_simps)
  qed
qed

section \<open>The block, edge and level loops of a delta\<close>

lemma index_blocks_cong:
  assumes "\<And>h. map_option block_level (fmlookup a h) = map_option block_level (fmlookup b h)"
  shows "index_blocks_by_level a = index_blocks_by_level b"
proof (rule no_empty_bucket_ext)
  fix k
  have "(\<exists>x. fmlookup a h = Some x \<and> block_level x = k) \<longleftrightarrow> (\<exists>x. fmlookup b h = Some x \<and> block_level x = k)" for h
    using assms[of h] by (cases "fmlookup a h"; cases "fmlookup b h") auto
  then show "bucket (index_blocks_by_level a) k = bucket (index_blocks_by_level b) k"
    by (auto simp: bucket_index_blocks intro!: fset_eqI)
qed simp_all

lemma block_changes_loop:
  assumes "distinct (map fst xs)" "gv_block_hashes_by_level v = index_blocks_by_level (gv_blocks v)"
  shows "let w = fold apply_block_change xs v in
      gv_block_hashes_by_level w = index_blocks_by_level (gv_blocks w) \<and>
      (\<forall>h. fmlookup (gv_blocks w) h = patched (fmlookup (gv_blocks v)) (map_of xs) h) \<and>
      w = v\<lparr>gv_blocks := gv_blocks w, gv_block_hashes_by_level := gv_block_hashes_by_level w\<rparr>"
  using assms
proof (induction xs arbitrary: v)
  case (Cons x xs)
  obtain h c where x: "x = (h, c)" by (cases x)
  let ?v1 = "apply_block_change x v"
  have idx: "gv_block_hashes_by_level ?v1 = index_blocks_by_level (gv_blocks ?v1)"
    using Cons.prems(2) unfolding x
    by (cases c; cases "fmlookup (gv_blocks v) h")
       (auto simp: apply_block_upsert_def apply_block_removal_def Let_def index_blocks_upd_new
         index_blocks_upd_any index_blocks_drop)
  have look: "fmlookup (gv_blocks ?v1) k = (if k = h then c else fmlookup (gv_blocks v) k)" for k
    unfolding x by (cases c) (auto simp: apply_block_upsert_def apply_block_removal_def Let_def split: option.splits)
  have frame: "?v1 = v\<lparr>gv_blocks := gv_blocks ?v1, gv_block_hashes_by_level := gv_block_hashes_by_level ?v1\<rparr>"
    unfolding x by (cases c) (auto simp: apply_block_upsert_def apply_block_removal_def Let_def split: option.splits)
  have none: "map_of xs h = None" using Cons.prems(1) x by (auto simp: map_of_eq_None_iff)
  define w where "w = fold apply_block_change xs ?v1"
  have w: "gv_block_hashes_by_level w = index_blocks_by_level (gv_blocks w)"
      "\<And>k. fmlookup (gv_blocks w) k = patched (fmlookup (gv_blocks ?v1)) (map_of xs) k"
      "w = ?v1\<lparr>gv_blocks := gv_blocks w, gv_block_hashes_by_level := gv_block_hashes_by_level w\<rparr>"
    using Cons.IH[OF _ idx] Cons.prems(1) by (auto simp: Let_def w_def)
  have hit: "map_of (x # xs) k = (if k = h then Some c else map_of xs k)" for k by (simp add: x)
  have "fmlookup (gv_blocks w) k = patched (fmlookup (gv_blocks v)) (map_of (x # xs)) k" for k
    unfolding w(2) patched_def hit using none by (auto simp: look split: option.splits)
  moreover have "w = v\<lparr>gv_blocks := gv_blocks w, gv_block_hashes_by_level := gv_block_hashes_by_level w\<rparr>"
    by (subst w(3), subst frame) simp
  moreover have "fold apply_block_change (x # xs) v = w" by (simp add: w_def)
  ultimately show ?case using w(1) unfolding Let_def by simp
qed simp

lemma level_changes_loop:
  assumes "distinct (map lch_level cs)"
  shows "let w = fold apply_level_change cs v in w = v\<lparr>gv_levels := gv_levels w\<rparr> \<and>
    (\<forall>l. fmlookup (gv_levels w) l =
      (case level_changes_map cs l of
         None \<Rightarrow> fmlookup (gv_levels v) l
       | Some (_, None) \<Rightarrow> None
       | Some (_, Some val) \<Rightarrow>
           Some (case fmlookup (gv_levels v) l of
                   None \<Rightarrow> \<lparr>sl_value = val, sl_usage_count = 0\<rparr> | Some s \<Rightarrow> s\<lparr>sl_value := val\<rparr>)))"
  using assms
proof (induction cs arbitrary: v)
  case (Cons c cs)
  define v1 where "v1 = apply_level_change c v"
  define w where "w = fold apply_level_change cs v1"
  have w: "w = v1\<lparr>gv_levels := gv_levels w\<rparr>"
    "\<And>l. fmlookup (gv_levels w) l =
      (case level_changes_map cs l of
         None \<Rightarrow> fmlookup (gv_levels v1) l
       | Some (_, None) \<Rightarrow> None
       | Some (_, Some val) \<Rightarrow>
           Some (case fmlookup (gv_levels v1) l of
                   None \<Rightarrow> \<lparr>sl_value = val, sl_usage_count = 0\<rparr> | Some s \<Rightarrow> s\<lparr>sl_value := val\<rparr>))"
    using Cons.IH[of v1] Cons.prems by (auto simp: Let_def w_def)
  have none: "level_changes_map cs (lch_level c) = None"
    using Cons.prems by (auto simp: level_changes_map_def map_of_eq_None_iff)
  have "w = v\<lparr>gv_levels := gv_levels w\<rparr>" by (subst w(1)) (simp add: v1_def apply_level_change_def)
  moreover have look: "fmlookup (gv_levels v1) l =
      (if l = lch_level c then
         (case lch_after c of None \<Rightarrow> None
          | Some val \<Rightarrow> Some (case fmlookup (gv_levels v) l of
                None \<Rightarrow> \<lparr>sl_value = val, sl_usage_count = 0\<rparr> | Some s \<Rightarrow> s\<lparr>sl_value := val\<rparr>))
       else fmlookup (gv_levels v) l)" for l
    by (auto simp: v1_def apply_level_change_def split: option.splits)
  have hit: "level_changes_map (c # cs) l =
      (if l = lch_level c then Some (lch_before c, lch_after c) else level_changes_map cs l)" for l
    by (simp add: level_changes_map_def)
  have "fmlookup (gv_levels w) l =
      (case level_changes_map (c # cs) l of
         None \<Rightarrow> fmlookup (gv_levels v) l
       | Some (_, None) \<Rightarrow> None
       | Some (_, Some val) \<Rightarrow>
           Some (case fmlookup (gv_levels v) l of
                   None \<Rightarrow> \<lparr>sl_value = val, sl_usage_count = 0\<rparr> | Some s \<Rightarrow> s\<lparr>sl_value := val\<rparr>))" for l
    using none by (simp add: w(2) look hit split: option.splits)
  ultimately show ?case by (simp add: Let_def w_def v1_def)
qed (simp add: level_changes_map_def)


text \<open>One edge change: the edge map is patched, both edge indexes follow it, and the two usage
  lists account for the difference.\<close>

definition edge_indexes_ok :: "graph_view \<Rightarrow> bool" where
  "edge_indexes_ok v \<longleftrightarrow> edges_keyed (gv_edges v) \<and>
     gv_edge_parents_by_child v = index_edge_parents_by_child (gv_edges v) \<and>
     gv_edge_ids_by_span v = index_edges_by_span (gv_edges v)"

definition same_but_edges :: "graph_view \<Rightarrow> graph_view \<Rightarrow> bool" where
  "same_but_edges w v \<longleftrightarrow>
     w = v\<lparr>gv_edges := gv_edges w, gv_edge_parents_by_child := gv_edge_parents_by_child w,
           gv_edge_ids_by_span := gv_edge_ids_by_span w\<rparr>"

lemma same_but_edges_refl: "same_but_edges v v"
  by (simp add: same_but_edges_def)

lemma same_but_edges_trans: "same_but_edges u w \<Longrightarrow> same_but_edges w v \<Longrightarrow> same_but_edges u v"
  unfolding same_but_edges_def by (cases u; cases w; cases v) simp

abbreviation weight :: "graph_edge option \<Rightarrow> u32 \<Rightarrow> nat" where
  "weight e l \<equiv> (case e of None \<Rightarrow> 0 | Some x \<Rightarrow> if parent_level x = l then 1 else 0)"

lemma usage_of_upd_any:
  "usage_of (fmupd i e edges) l + weight (fmlookup edges i) l = usage_of edges l + weight (Some e) l"
proof (cases "fmlookup edges i")
  case None
  then show ?thesis by (simp add: usage_of_upd_new)
next
  case (Some p)
  have "fmupd i e edges = fmupd i e (fmdrop i edges)" by (rule fmupd_fmdrop)
  then show ?thesis using usage_of_upd_new[of "fmdrop i edges" i e l] usage_of_drop[OF Some, of l] Some by simp
qed

lemma index_parents_upd_any:
  assumes "fmlookup edges i = Some p"
  shows "index_edge_parents_by_child (fmupd i e edges) =
    bucket_insert (ei_child i) (ei_parent i) (bucket_remove (ei_child i) (ei_parent i) (index_edge_parents_by_child edges))"
  using index_parents_drop[OF assms] index_parents_upd_new[of "fmdrop i edges" i e] by (simp flip: fmupd_fmdrop)

lemma index_span_upd_any:
  assumes "fmlookup edges i = Some p"
  shows "index_edges_by_span (fmupd i e edges) =
    span_insert (child_level e, parent_level e) i (span_remove (child_level p, parent_level p) i (index_edges_by_span edges))"
  using index_span_drop[OF assms] index_span_upd_new[of "fmdrop i edges" i e] by (simp flip: fmupd_fmdrop)

lemma edge_change_step:
  assumes ok: "edge_indexes_ok v" and keyed: "\<And>e. c = Some e \<Longrightarrow> ge_id e = i"
    and step: "apply_edge_change (i, c) (v, ds, is) = (w, ds', is')"
  shows "edge_indexes_ok w \<and> same_but_edges w v \<and>
      (\<forall>j. fmlookup (gv_edges w) j = (if j = i then c else fmlookup (gv_edges v) j)) \<and>
      (\<exists>d a. ds' = ds @ d \<and> is' = is @ a \<and>
        (\<forall>l. count_list d l \<le> weight (fmlookup (gv_edges v) i) l) \<and>
        (\<forall>l\<in>set a. \<exists>e. c = Some e \<and> parent_level e = l) \<and>
        (\<forall>l. usage_of (gv_edges w) l + count_list d l = usage_of (gv_edges v) l + count_list a l))"
proof (cases "fmlookup (gv_edges v) i = c")
  case True
  then have w: "w = put_edge i c v" "ds' = ds" "is' = is" using step by (auto simp: Let_def)
  have "gv_edges w = gv_edges v" using True by (auto simp: w put_edge_def split: option.splits intro!: fmap_ext)
  then have "w = v" by (simp add: w put_edge_def)
  then show ?thesis using ok True w by (auto simp: same_but_edges_refl)
next
  case False
  then show ?thesis
  proof (cases "fmlookup (gv_edges v) i")
    case None
    then obtain e where c: "c = Some e" using False by (cases c) auto
    have w: "w = index_edge (put_edge i c v) e" "ds' = ds" "is' = is @ [parent_level e]"
      using step None c by (auto simp: Let_def)
    have "edge_indexes_ok w"
      using ok keyed[OF c] by (auto simp: w c edge_indexes_ok_def index_edge_def put_edge_def edges_keyed_def
          fmpred_iff index_parents_upd_new[OF None] index_span_upd_new[OF None])
    moreover have "same_but_edges w v" by (simp add: w same_but_edges_def index_edge_def put_edge_def)
    moreover have "gv_edges w = fmupd i e (gv_edges v)" by (simp add: w c index_edge_def put_edge_def)
    ultimately show ?thesis using w c usage_of_upd_new[OF None, of e] by (auto simp: None)
  next
    case (Some p)
    have pk: "ge_id p = i" using ok Some by (auto simp: edge_indexes_ok_def intro: edges_keyedD)
    show ?thesis
    proof (cases c)
      case None
      then have w: "w = unindex_edge (put_edge i c v) p" "ds' = ds @ [parent_level p]" "is' = is"
        using step Some by (auto simp: Let_def)
      have "edge_indexes_ok w"
        using ok pk None by (auto simp: w edge_indexes_ok_def unindex_edge_def put_edge_def edges_keyed_def
            fmpred_iff index_parents_drop[OF Some] index_span_drop[OF Some])
      moreover have "same_but_edges w v" by (simp add: w same_but_edges_def unindex_edge_def put_edge_def)
      moreover have "gv_edges w = fmdrop i (gv_edges v)" by (simp add: w None unindex_edge_def put_edge_def)
      ultimately show ?thesis using w None usage_of_drop[OF Some] by (auto simp: Some)
    next
      case c: (Some e)
      then have w: "w = index_edge (unindex_edge (put_edge i c v) p) e" "ds' = ds @ [parent_level p]"
          "is' = is @ [parent_level e]"
        using step Some False by (auto simp: Let_def)
      have "edge_indexes_ok w"
        using ok pk keyed[OF c] c by (auto simp: w edge_indexes_ok_def unindex_edge_def index_edge_def put_edge_def
            edges_keyed_def fmpred_iff index_parents_upd_any[OF Some] index_span_upd_any[OF Some])
      moreover have "same_but_edges w v" by (simp add: w same_but_edges_def unindex_edge_def index_edge_def put_edge_def)
      moreover have ew: "gv_edges w = fmupd i e (gv_edges v)" by (simp add: w c unindex_edge_def index_edge_def put_edge_def)
      moreover have "usage_of (gv_edges w) l + count_list [parent_level p] l = usage_of (gv_edges v) l + count_list [parent_level e] l" for l
        using usage_of_upd_any[of i e "gv_edges v" l] Some by (simp add: ew split: if_splits)
      ultimately show ?thesis using w c by (auto simp: Some)
    qed
  qed
qed


lemma usage_of_filter_insert:
  assumes "i \<notin> K"
  shows "usage_of (fmfilter (\<lambda>j. j \<in> insert i K) edges) l =
           usage_of (fmfilter (\<lambda>j. j \<in> K) edges) l + weight (fmlookup edges i) l"
proof (cases "fmlookup edges i")
  case None
  then have "fmfilter (\<lambda>j. j \<in> insert i K) edges = fmfilter (\<lambda>j. j \<in> K) edges"
    by (intro fmap_ext) auto
  then show ?thesis using None by simp
next
  case (Some p)
  then have "fmfilter (\<lambda>j. j \<in> insert i K) edges = fmupd i p (fmfilter (\<lambda>j. j \<in> K) edges)"
    by (intro fmap_ext) auto
  then show ?thesis using Some usage_of_upd_new[of "fmfilter (\<lambda>j. j \<in> K) edges" i p l] assms by simp
qed

lemma usage_of_filter_le: "usage_of (fmfilter P edges) l \<le> usage_of edges l"
  unfolding usage_of_card
  by (rule card_mono[OF finite_edges_at[of edges "\<lambda>_ e. parent_level e = l"]]) (auto split: if_splits)

lemma edge_changes_loop:
  assumes "distinct (map fst xs)" "edge_indexes_ok v" "\<And>i e. (i, Some e) \<in> set xs \<Longrightarrow> ge_id e = i"
    and "fold apply_edge_change xs (v, ds, is) = (w, ds', is')"
  shows "edge_indexes_ok w \<and> same_but_edges w v \<and>
      (\<forall>j. fmlookup (gv_edges w) j = patched (fmlookup (gv_edges v)) (map_of xs) j) \<and>
      (\<exists>d a. ds' = ds @ d \<and> is' = is @ a \<and>
        (\<forall>l. count_list d l \<le> usage_of (fmfilter (\<lambda>i. i \<in> fst ` set xs) (gv_edges v)) l) \<and>
        (\<forall>l\<in>set a. \<exists>i e. (i, Some e) \<in> set xs \<and> parent_level e = l) \<and>
        (\<forall>l. usage_of (gv_edges w) l + count_list d l = usage_of (gv_edges v) l + count_list a l))"
  using assms
proof (induction xs arbitrary: v ds "is")
  case Nil
  then show ?case by (auto simp: same_but_edges_refl patched_def)
next
  case (Cons x xs)
  obtain i c where x: "x = (i, c)" by (cases x)
  obtain v1 ds1 is1 where s1: "apply_edge_change (i, c) (v, ds, is) = (v1, ds1, is1)"
    using prod_cases3 by blast
  have "\<And>e. c = Some e \<Longrightarrow> ge_id e = i" using Cons.prems(3) x by simp
  from edge_change_step[OF Cons.prems(2) this s1] obtain d1 a1 where
    one: "edge_indexes_ok v1" "same_but_edges v1 v"
      "\<And>j. fmlookup (gv_edges v1) j = (if j = i then c else fmlookup (gv_edges v) j)"
      "ds1 = ds @ d1" "is1 = is @ a1" "\<And>l. count_list d1 l \<le> weight (fmlookup (gv_edges v) i) l"
      "\<And>l. l \<in> set a1 \<Longrightarrow> \<exists>e. c = Some e \<and> parent_level e = l"
      "\<And>l. usage_of (gv_edges v1) l + count_list d1 l = usage_of (gv_edges v) l + count_list a1 l"
    by blast
  have rest: "fold apply_edge_change xs (v1, ds1, is1) = (w, ds', is')"
    using Cons.prems(4) s1 x by simp
  have dist: "distinct (map fst xs)" and key: "\<And>i e. (i, Some e) \<in> set xs \<Longrightarrow> ge_id e = i"
    using Cons.prems(1,3) by auto
  from Cons.IH[OF dist one(1) key rest] obtain d2 a2 where
    two: "edge_indexes_ok w" "same_but_edges w v1"
      "\<And>j. fmlookup (gv_edges w) j = patched (fmlookup (gv_edges v1)) (map_of xs) j"
      "ds' = ds1 @ d2" "is' = is1 @ a2"
      "\<And>l. count_list d2 l \<le> usage_of (fmfilter (\<lambda>i. i \<in> fst ` set xs) (gv_edges v1)) l"
      "\<And>l. l \<in> set a2 \<Longrightarrow> \<exists>i e. (i, Some e) \<in> set xs \<and> parent_level e = l"
      "\<And>l. usage_of (gv_edges w) l + count_list d2 l = usage_of (gv_edges v1) l + count_list a2 l"
    by blast
  have i: "i \<notin> fst ` set xs" using Cons.prems(1) x by (auto simp: image_iff)
  then have none: "map_of xs i = None" by (simp add: map_of_eq_None_iff)
  have look: "fmlookup (gv_edges w) j = patched (fmlookup (gv_edges v)) (map_of (x # xs)) j" for j
    unfolding two(3) patched_def using none by (auto simp: x one(3) split: option.splits)
  have filt: "fmfilter (\<lambda>i. i \<in> fst ` set xs) (gv_edges v1) = fmfilter (\<lambda>i. i \<in> fst ` set xs) (gv_edges v)"
    using i by (intro fmap_ext) (auto simp: one(3))
  have cnt: "count_list (d1 @ d2) l \<le> usage_of (fmfilter (\<lambda>i. i \<in> fst ` set (x # xs)) (gv_edges v)) l" for l
  proof -
    have "fst ` set (x # xs) = insert i (fst ` set xs)" by (simp add: x)
    then show ?thesis
      using one(6)[of l] two(6)[of l] usage_of_filter_insert[OF i, of "gv_edges v" l] filt
      by (simp only: count_list_append)
  qed
  have acc: "usage_of (gv_edges w) l + count_list (d1 @ d2) l = usage_of (gv_edges v) l + count_list (a1 @ a2) l" for l
    using one(8)[of l] two(8)[of l] by simp
  have mem: "\<exists>i e. (i, Some e) \<in> set (x # xs) \<and> parent_level e = l" if "l \<in> set (a1 @ a2)" for l
    using that one(7)[of l] two(7)[of l] x by auto
  have app: "ds' = ds @ (d1 @ d2)" "is' = is @ (a1 @ a2)" using two(4,5) one(4,5) by simp_all
  have "\<exists>d a. ds' = ds @ d \<and> is' = is @ a \<and>
        (\<forall>l. count_list d l \<le> usage_of (fmfilter (\<lambda>i. i \<in> fst ` set (x # xs)) (gv_edges v)) l) \<and>
        (\<forall>l\<in>set a. \<exists>i e. (i, Some e) \<in> set (x # xs) \<and> parent_level e = l) \<and>
        (\<forall>l. usage_of (gv_edges w) l + count_list d l = usage_of (gv_edges v) l + count_list a l)"
    using app cnt acc mem by blast
  then show ?case using two(1) same_but_edges_trans[OF two(2) one(2)] look by blast
qed

lemma update_blocks_loop:
  assumes "distinct (map fst xs)"
  shows "let w = fold (\<lambda>(h, c). update_block h (g c)) xs v in w = v\<lparr>gv_blocks := gv_blocks w\<rparr> \<and>
      (\<forall>h. fmlookup (gv_blocks w) h =
        (case map_of xs h of None \<Rightarrow> fmlookup (gv_blocks v) h | Some c \<Rightarrow> map_option (g c) (fmlookup (gv_blocks v) h)))"
  using assms
proof (induction xs arbitrary: v)
  case (Cons x xs)
  obtain k c where x: "x = (k, c)" by (cases x)
  define v1 where "v1 = update_block k (g c) v"
  define w where "w = fold (\<lambda>(h, c). update_block h (g c)) xs v1"
  have w: "w = v1\<lparr>gv_blocks := gv_blocks w\<rparr>" "\<And>h. fmlookup (gv_blocks w) h =
        (case map_of xs h of None \<Rightarrow> fmlookup (gv_blocks v1) h | Some c \<Rightarrow> map_option (g c) (fmlookup (gv_blocks v1) h))"
    using Cons.IH[of v1] Cons.prems by (auto simp: Let_def w_def)
  have "map_of xs k = None" using Cons.prems x by (auto simp: map_of_eq_None_iff)
  moreover have "fmlookup (gv_blocks v1) h = (if h = k then map_option (g c) (fmlookup (gv_blocks v) h) else fmlookup (gv_blocks v) h)" for h
    by (auto simp: v1_def update_block_def split: option.splits)
  moreover have "w = v\<lparr>gv_blocks := gv_blocks w\<rparr>"
    by (subst w(1)) (simp add: v1_def update_block_def split: option.splits)
  moreover have "fold (\<lambda>(h, c). update_block h (g c)) (x # xs) v = w" by (simp add: w_def v1_def x)
  ultimately show ?case unfolding Let_def by (auto simp: w(2) x split: option.splits)
qed simp


section \<open>Applying a delta computes the patched graph\<close>

definition patch_fm :: "('k::linorder, 'v) fmap \<Rightarrow> ('k, 'v option) fmap \<Rightarrow> ('k, 'v) fmap" where
  "patch_fm m ch = fm_filter_map (\<lambda>_ c. c) (fmmap Some m ++\<^sub>f ch)"

lemma fmlookup_patch_fm [simp]: "fmlookup (patch_fm m ch) k = patched (fmlookup m) (fmlookup ch) k"
  by (auto simp: patch_fm_def patched_def fmlookup_dom_iff split: option.splits)

definition level_values :: "graph_view \<Rightarrow> (u32, level) fmap" where
  "level_values v = fmmap sl_value (gv_levels v)"

lemma fmlookup_level_values [simp]: "fmlookup (level_values v) l = gv_level v l"
  by (simp add: level_values_def gv_level_def)

definition level_patch :: "level_change list \<Rightarrow> (u32, level option) fmap" where
  "level_patch cs = fmap_of_list (map (\<lambda>c. (lch_level c, lch_after c)) cs)"

lemma fmlookup_level_patch: "fmlookup (level_patch cs) l = map_option snd (level_changes_map cs l)"
  by (induction cs) (auto simp: level_patch_def level_changes_map_def fmlookup_of_list)

text \<open>The graph a delta describes: absolute block, edge and level values, then the changed fields
  of the surviving blocks.\<close>

definition field_after :: "'a field_change option \<Rightarrow> 'a \<Rightarrow> 'a" where
  "field_after c x = (case c of None \<Rightarrow> x | Some c \<Rightarrow> fc_after c)"

definition delta_blocks :: "graph_view \<Rightarrow> graph_delta \<Rightarrow> (block_hash, graph_block) fmap" where
  "delta_blocks v d =
     fmmap_keys (\<lambda>h b. b\<lparr>gb_is_in_vspc := field_after (fmlookup (gd_is_in_vspc_changes d) h) (gb_is_in_vspc b),
                       gb_color := field_after (fmlookup (gd_color_changes d) h) (gb_color b)\<rparr>)
       (patch_fm (gv_blocks v) (gd_block_changes d))"

definition delta_edges :: "graph_view \<Rightarrow> graph_delta \<Rightarrow> (edge_id, graph_edge) fmap" where
  "delta_edges v d = patch_fm (gv_edges v) (gd_edge_changes d)"

definition delta_levels :: "graph_view \<Rightarrow> graph_delta \<Rightarrow> (u32, level) fmap" where
  "delta_levels v d = patch_fm (level_values v) (level_patch (gd_level_changes d))"

definition delta_extent :: "graph_view \<Rightarrow> graph_delta \<Rightarrow> level_extent" where
  "delta_extent v d =
     (if gv_tracking_policy v = Head then LevelExtent (head_target_low v (gd_head_level d)) (gd_head_level d)
      else gv_extent v)"

text \<open>What makes a delta applicable: its edges are stored under their own identity, a level changes
  at most once, and the resulting graph retains every parent level and counts its edges in 64 bits.\<close>

definition delta_applicable :: "graph_view \<Rightarrow> graph_delta \<Rightarrow> bool" where
  "delta_applicable v d \<longleftrightarrow>
     gd_head_level d \<noteq> 0 \<and>
     fmpred (\<lambda>i c. case c of None \<Rightarrow> True | Some e \<Rightarrow> ge_id e = i) (gd_edge_changes d) \<and>
     distinct (map lch_level (gd_level_changes d)) \<and>
     fcard (fmdom (delta_edges v d)) < 2 ^ 64 \<and>
     fmpred (\<lambda>_ e. parent_level e |\<in>| fmdom (delta_levels v d)) (delta_edges v d)"

lemma head_extent_valid:
  "high \<noteq> 0 \<Longrightarrow> extent_valid (LevelExtent (head_target_low v high) high)"
  by (auto simp: extent_valid_def head_target_low_def max_def saturating_sub_def word_le_nat_alt
      word_unat_eq_iff unat_sub split: if_splits)

lemma head_target_low_nonzero [simp]: "head_target_low v high \<noteq> 0"
  by (auto simp: head_target_low_def max_def word_le_nat_alt)

text \<open>After the three loops of changes: everything but the usage counts is in place.\<close>

lemma delta_loops:
  assumes inv: "view_inv v" and app: "delta_applicable v d"
    and v1: "v1 = fold apply_block_change (sorted_list_of_fmap (gd_block_changes d)) v"
    and v2: "fold apply_edge_change (sorted_list_of_fmap (gd_edge_changes d)) (v1, [], []) = (v2, ds, is)"
    and v3: "v3 = fold apply_level_change (gd_level_changes d) v2"
  shows "edge_indexes_ok v3 \<and> view_frame v3 = view_frame v \<and>
      gv_block_hashes_by_level v3 = index_blocks_by_level (gv_blocks v3) \<and>
      gv_blocks v3 = patch_fm (gv_blocks v) (gd_block_changes d) \<and> gv_edges v3 = delta_edges v d \<and>
      (\<forall>l. gv_level v3 l = fmlookup (delta_levels v d) l) \<and>
      (\<forall>l s. fmlookup (gv_levels v3) l = Some s \<longrightarrow> unat (sl_usage_count s) = usage_of (gv_edges v) l) \<and>
      (\<forall>l. count_list ds l \<le> usage_of (gv_edges v) l) \<and>
      (\<forall>l\<in>set is. l |\<in>| fmdom (gv_levels v3)) \<and>
      (\<forall>l. usage_of (delta_edges v d) l + count_list ds l = usage_of (gv_edges v) l + count_list is l)"
proof -
  let ?xs = "sorted_list_of_fmap (gd_edge_changes d)"
  have b: "gv_block_hashes_by_level v1 = index_blocks_by_level (gv_blocks v1)"
      "\<And>h. fmlookup (gv_blocks v1) h = patched (fmlookup (gv_blocks v)) (fmlookup (gd_block_changes d)) h"
      "v1 = v\<lparr>gv_blocks := gv_blocks v1, gv_block_hashes_by_level := gv_block_hashes_by_level v1\<rparr>"
    using block_changes_loop[of "sorted_list_of_fmap (gd_block_changes d)" v] inv
    by (auto simp: view_inv_def Let_def v1)
  have rest1: "gv_edges v1 = gv_edges v" "gv_levels v1 = gv_levels v" "view_frame v1 = view_frame v"
      "gv_edge_parents_by_child v1 = gv_edge_parents_by_child v" "gv_edge_ids_by_span v1 = gv_edge_ids_by_span v"
    by (subst b(3), simp add: view_frame_def)+
  have ok1: "edge_indexes_ok v1" using inv by (simp add: edge_indexes_ok_def view_inv_def rest1)
  have key: "ge_id e = i" if "(i, Some e) \<in> set ?xs" for i e
    using app that by (fastforce simp: delta_applicable_def fmpred_iff set_sorted_list_of_fmap)
  from edge_changes_loop[OF distinct_sorted_list_of_fmap ok1 key v2]
  have e: "edge_indexes_ok v2" "same_but_edges v2 v1"
      "\<And>j. fmlookup (gv_edges v2) j = patched (fmlookup (gv_edges v1)) (fmlookup (gd_edge_changes d)) j"
      "\<And>l. count_list ds l \<le> usage_of (fmfilter (\<lambda>i. i \<in> fst ` set ?xs) (gv_edges v1)) l"
      "\<And>l. l \<in> set is \<Longrightarrow> \<exists>i e. (i, Some e) \<in> set ?xs \<and> parent_level e = l"
      "\<And>l. usage_of (gv_edges v2) l + count_list ds l = usage_of (gv_edges v1) l + count_list is l"
    by auto
  have rest2: "gv_blocks v2 = gv_blocks v1" "gv_levels v2 = gv_levels v1" "view_frame v2 = view_frame v1"
      "gv_block_hashes_by_level v2 = gv_block_hashes_by_level v1"
    by (subst e(2)[unfolded same_but_edges_def], simp add: view_frame_def)+
  have l: "v3 = v2\<lparr>gv_levels := gv_levels v3\<rparr>"
      "\<And>l. fmlookup (gv_levels v3) l =
      (case level_changes_map (gd_level_changes d) l of
         None \<Rightarrow> fmlookup (gv_levels v2) l
       | Some (_, None) \<Rightarrow> None
       | Some (_, Some val) \<Rightarrow>
           Some (case fmlookup (gv_levels v2) l of
                   None \<Rightarrow> \<lparr>sl_value = val, sl_usage_count = 0\<rparr> | Some s \<Rightarrow> s\<lparr>sl_value := val\<rparr>))"
    using level_changes_loop[of "gd_level_changes d" v2] app by (auto simp: delta_applicable_def Let_def v3)
  have rest3: "gv_blocks v3 = gv_blocks v2" "gv_edges v3 = gv_edges v2" "view_frame v3 = view_frame v2"
      "gv_block_hashes_by_level v3 = gv_block_hashes_by_level v2"
      "gv_edge_parents_by_child v3 = gv_edge_parents_by_child v2" "gv_edge_ids_by_span v3 = gv_edge_ids_by_span v2"
    by (subst l(1), simp add: view_frame_def)+
  have blocks: "gv_blocks v3 = patch_fm (gv_blocks v) (gd_block_changes d)"
    by (rule fmap_ext) (simp add: rest3 rest2 b(2))
  have edges: "gv_edges v3 = delta_edges v d"
    by (rule fmap_ext) (simp add: rest3 e(3) rest1 delta_edges_def)
  have lvl: "gv_level v3 k = fmlookup (delta_levels v d) k" for k
    by (auto simp: gv_level_def l(2) rest2 rest1 delta_levels_def patched_def fmlookup_level_patch
        level_values_def split: option.splits prod.splits)
  have us: "unat (sl_usage_count s) = usage_of (gv_edges v) k" if "fmlookup (gv_levels v3) k = Some s" for k s
    using that view_inv_usage[OF inv] usage_of_absent_level[of "gv_edges v" "gv_levels v" k] inv
    by (auto simp: l(2) rest2 rest1 view_inv_def split: option.splits prod.splits)
  have ds: "count_list ds k \<le> usage_of (gv_edges v) k" for k
    using e(4)[of k] usage_of_filter_le[of "\<lambda>i. i \<in> fst ` set ?xs" "gv_edges v" k] unfolding rest1
    by (rule order_trans)
  have "is": "k |\<in>| fmdom (gv_levels v3)" if mem: "k \<in> set is" for k
  proof -
    obtain i x where x: "fmlookup (gd_edge_changes d) i = Some (Some x)" "parent_level x = k"
      using e(5)[OF mem] by (auto simp: set_sorted_list_of_fmap)
    then have "fmlookup (delta_edges v d) i = Some x" by (simp add: delta_edges_def)
    then have "k |\<in>| fmdom (delta_levels v d)" using app x(2) by (fastforce simp: delta_applicable_def fmpred_iff)
    then show ?thesis using lvl[of k] by (auto simp: fmlookup_dom_iff gv_level_def)
  qed
  have ok3: "edge_indexes_ok v3" using e(1) by (simp add: edge_indexes_ok_def rest3)
  have acc: "usage_of (delta_edges v d) k + count_list ds k = usage_of (gv_edges v) k + count_list is k" for k
    using e(6)[of k] edges by (simp add: rest1 rest3)
  show ?thesis using ok3 blocks edges lvl us ds "is" acc by (simp add: rest1 rest2 rest3 b(1))
qed


text \<open>The two usage loops restore the exact counts and cannot panic.\<close>

lemma delta_usage_loops:
  assumes usage: "\<And>l s. fmlookup (gv_levels v) l = Some s \<Longrightarrow> unat (sl_usage_count s) = old l"
    and ds: "\<And>l. count_list ds l \<le> old l" and "is": "\<And>l. l \<in> set is \<Longrightarrow> l |\<in>| fmdom (gv_levels v)"
    and acc: "\<And>l. new l + count_list ds l = old l + count_list is l" and bound: "\<And>l. new l < 2 ^ 64"
  shows "\<exists>w x. fold_opt apply_usage_decrement v ds = Some w \<and> fold_opt increment_parent_usage w is = Some x \<and>
      x = v\<lparr>gv_levels := gv_levels x\<rparr> \<and> (\<forall>l. gv_level x l = gv_level v l) \<and>
      (\<forall>l s. fmlookup (gv_levels x) l = Some s \<longrightarrow> unat (sl_usage_count s) = new l)"
proof -
  have "count_list ds l \<le> unat (sl_usage_count s)" if "fmlookup (gv_levels v) l = Some s" for l s
    using usage[OF that] ds[of l] by simp
  from decrement_loop[OF this] obtain w where w: "fold_opt apply_usage_decrement v ds = Some w"
      "w = v\<lparr>gv_levels := gv_levels w\<rparr>"
      "\<And>l. fmlookup (gv_levels w) l =
        map_option (\<lambda>s. s\<lparr>sl_usage_count := sl_usage_count s - word_of_nat (count_list ds l)\<rparr>) (fmlookup (gv_levels v) l)"
    by auto
  have uw: "unat (sl_usage_count s) = old l - count_list ds l" if look: "fmlookup (gv_levels w) l = Some s" for l s
  proof -
    obtain t where t: "fmlookup (gv_levels v) l = Some t"
        "s = t\<lparr>sl_usage_count := sl_usage_count t - word_of_nat (count_list ds l)\<rparr>"
      using look by (auto simp: w(3))
    have "count_list ds l \<le> unat (sl_usage_count t)" using usage[OF t(1)] ds[of l] by simp
    moreover from this have "count_list ds l < 2 ^ 64"
      using unsigned_less[of "sl_usage_count t", where 'a = nat] by simp
    ultimately show ?thesis using usage[OF t(1)] by (simp add: t(2) unat_sub word_le_nat_alt unat_of_nat)
  qed
  have fit: "\<exists>s. fmlookup (gv_levels w) l = Some s \<and> unat (sl_usage_count s) + count_list is l < 2 ^ 64"
    if mem: "l \<in> set is" for l
  proof -
    obtain s where s: "fmlookup (gv_levels w) l = Some s" using "is"[OF mem] by (auto simp: w(3) fmlookup_dom_iff)
    have "unat (sl_usage_count s) + count_list is l = new l" using uw[OF s] ds[of l] acc[of l] by simp
    then show ?thesis using s bound[of l] by auto
  qed
  from increment_loop[OF fit] obtain x where x: "fold_opt increment_parent_usage w is = Some x"
      "x = w\<lparr>gv_levels := gv_levels x\<rparr>"
      "\<And>l. fmlookup (gv_levels x) l =
        map_option (\<lambda>s. s\<lparr>sl_usage_count := sl_usage_count s + word_of_nat (count_list is l)\<rparr>) (fmlookup (gv_levels w) l)"
    by auto
  have "unat (sl_usage_count s) = new l" if look: "fmlookup (gv_levels x) l = Some s" for l s
  proof -
    obtain t where t: "fmlookup (gv_levels w) l = Some t"
        "s = t\<lparr>sl_usage_count := sl_usage_count t + word_of_nat (count_list is l)\<rparr>"
      using look by (auto simp: x(3))
    have "unat (sl_usage_count t) + count_list is l = new l" using uw[OF t(1)] ds[of l] acc[of l] by simp
    then show ?thesis using bound[of l] by (simp add: t(2) unat_word_ariths unat_of_nat mod_add_right_eq)
  qed
  moreover have "x = v\<lparr>gv_levels := gv_levels x\<rparr>" by (subst x(2), subst w(2)) simp
  moreover have "gv_level x l = gv_level v l" for l
    by (simp add: gv_level_def x(3) w(3) option.map_comp comp_def)
  ultimately show ?thesis using w(1) x(1) by blast
qed

lemma apply_delta_patches:
  assumes inv: "view_inv v" and live: "gv_tracking_policy v \<noteq> Frozen"
    and rev: "gv_current_revision_id v = gd_from_revision_id d" and app: "delta_applicable v d"
  shows "\<exists>v'. apply_delta v d = Some (v', Inr ()) \<and> view_inv v' \<and>
      gv_blocks v' = delta_blocks v d \<and> gv_edges v' = delta_edges v d \<and> level_values v' = delta_levels v d \<and>
      view_frame v' = (gv_max_depth v, delta_extent v d, gd_to_revision_id d, gd_revision_timestamp_ms d,
                       gv_tracking_policy v)"
proof -
  define v1 where v1: "v1 = fold apply_block_change (sorted_list_of_fmap (gd_block_changes d)) v"
  obtain v2 ds "is" where v2: "fold apply_edge_change (sorted_list_of_fmap (gd_edge_changes d)) (v1, [], []) = (v2, ds, is)"
    using prod_cases3 by blast
  define v3 where v3: "v3 = fold apply_level_change (gd_level_changes d) v2"
  note L = delta_loops[OF inv app v1 v2 v3]
  have bound: "usage_of (delta_edges v d) l < 2 ^ 64" for l
    using usage_of_le[of "delta_edges v d" l] app by (simp add: delta_applicable_def)
  have "\<exists>w x. fold_opt apply_usage_decrement v3 ds = Some w \<and> fold_opt increment_parent_usage w is = Some x \<and>
      x = v3\<lparr>gv_levels := gv_levels x\<rparr> \<and> (\<forall>l. gv_level x l = gv_level v3 l) \<and>
      (\<forall>l s. fmlookup (gv_levels x) l = Some s \<longrightarrow> unat (sl_usage_count s) = usage_of (delta_edges v d) l)"
    by (rule delta_usage_loops[where old = "usage_of (gv_edges v)"]) (use L bound in auto)
  then obtain v4 v5 where v5: "fold_opt apply_usage_decrement v3 ds = Some v4" "fold_opt increment_parent_usage v4 is = Some v5"
      "v5 = v3\<lparr>gv_levels := gv_levels v5\<rparr>" "\<And>l. gv_level v5 l = gv_level v3 l"
      "\<And>l s. fmlookup (gv_levels v5) l = Some s \<Longrightarrow> unat (sl_usage_count s) = usage_of (delta_edges v d) l"
    by blast
  define v6 where v6: "v6 = fold (\<lambda>(hash, change). update_block hash (\<lambda>b. b\<lparr>gb_is_in_vspc := fc_after change\<rparr>))
                     (sorted_list_of_fmap (gd_is_in_vspc_changes d)) v5"
  define v7 where v7: "v7 = fold (\<lambda>(hash, change). update_block hash (\<lambda>b. b\<lparr>gb_color := fc_after change\<rparr>))
                     (sorted_list_of_fmap (gd_color_changes d)) v6"
  have u6: "v6 = v5\<lparr>gv_blocks := gv_blocks v6\<rparr>" "\<And>h. fmlookup (gv_blocks v6) h =
      (case fmlookup (gd_is_in_vspc_changes d) h of None \<Rightarrow> fmlookup (gv_blocks v5) h
       | Some c \<Rightarrow> map_option (\<lambda>b. b\<lparr>gb_is_in_vspc := fc_after c\<rparr>) (fmlookup (gv_blocks v5) h))"
    using update_blocks_loop[OF distinct_sorted_list_of_fmap, of "\<lambda>c b. b\<lparr>gb_is_in_vspc := fc_after c\<rparr>" "gd_is_in_vspc_changes d" v5]
    by (auto simp: Let_def v6)
  have u7: "v7 = v6\<lparr>gv_blocks := gv_blocks v7\<rparr>" "\<And>h. fmlookup (gv_blocks v7) h =
      (case fmlookup (gd_color_changes d) h of None \<Rightarrow> fmlookup (gv_blocks v6) h
       | Some c \<Rightarrow> map_option (\<lambda>b. b\<lparr>gb_color := fc_after c\<rparr>) (fmlookup (gv_blocks v6) h))"
    using update_blocks_loop[OF distinct_sorted_list_of_fmap, of "\<lambda>c b. b\<lparr>gb_color := fc_after c\<rparr>" "gd_color_changes d" v6]
    by (auto simp: Let_def v7)
  have frame: "v7 = v3\<lparr>gv_levels := gv_levels v5, gv_blocks := gv_blocks v7\<rparr>"
    by (subst u7(1), subst u6(1), subst v5(3)) simp
  have f7: "gv_edges v7 = gv_edges v3" "gv_levels v7 = gv_levels v5" "view_frame v7 = view_frame v3"
      "gv_block_hashes_by_level v7 = gv_block_hashes_by_level v3"
      "gv_edge_parents_by_child v7 = gv_edge_parents_by_child v3" "gv_edge_ids_by_span v7 = gv_edge_ids_by_span v3"
    by (subst frame, simp add: view_frame_def)+
  have b5: "gv_blocks v5 = gv_blocks v3" by (subst v5(3)) simp
  have blocks: "gv_blocks v7 = delta_blocks v d"
    using L by (intro fmap_ext) (auto simp: u7(2) u6(2) b5 delta_blocks_def field_after_def option.map_comp comp_def
        option.map_ident split: option.splits)
  have idx: "gv_block_hashes_by_level v7 = index_blocks_by_level (gv_blocks v7)"
  proof -
    have "map_option block_level (fmlookup (gv_blocks v7) h) = map_option block_level (fmlookup (gv_blocks v3) h)" for h
      using L by (simp add: blocks delta_blocks_def option.map_comp comp_def)
    from index_blocks_cong[OF this] show ?thesis using L by (simp add: f7)
  qed
  have lv: "gv_level v7 l = fmlookup (delta_levels v d) l" for l
    using L v5(4) by (simp add: gv_level_def f7)
  have pr: "parents_retained (gv_edges v7) (gv_levels v7)"
  proof -
    have "l |\<in>| fmdom (gv_levels v7) \<longleftrightarrow> l |\<in>| fmdom (delta_levels v d)" for l
      by (auto simp: fmlookup_dom_iff gv_level_def simp flip: lv)
    then show ?thesis using app L by (simp add: parents_retained_def delta_applicable_def f7)
  qed
  have f3: "view_frame v7 = view_frame v" using L f7 by simp
  let ?v' = "v7\<lparr>gv_extent := delta_extent v d, gv_current_revision_id := gd_to_revision_id d,
                gv_current_revision_timestamp_ms := gd_revision_timestamp_ms d\<rparr>"
  have head: "extent_valid (LevelExtent (head_target_low v (gd_head_level d)) (gd_head_level d))"
    using app by (intro head_extent_valid) (simp add: delta_applicable_def)
  have pol: "gv_tracking_policy v7 = gv_tracking_policy v" "gv_max_depth v7 = gv_max_depth v" "gv_extent v7 = gv_extent v"
    using f3 by (simp_all add: view_frame_def)
  have htl: "head_target_low v7 x = head_target_low v x" for x by (simp add: head_target_low_def pol)
  have len: "level_extent_new (head_target_low v7 (gd_head_level d)) (gd_head_level d) =
      Inr (LevelExtent (head_target_low v (gd_head_level d)) (gd_head_level d))"
    using head by (simp add: htl)
  have same: "v7\<lparr>gv_extent := gv_extent v\<rparr> = v7" by (simp flip: pol(3))
  have run: "apply_delta v d = Some (?v', Inr ())"
  proof (cases "gv_tracking_policy v = Head")
    case True
    then show ?thesis
      using rev by (simp add: apply_delta_def Let_def v2 v5(1,2) len pol delta_extent_def flip: v1 v3 v6 v7)
  next
    case False
    then show ?thesis
      using live rev by (simp add: apply_delta_def Let_def v2 v5(1,2) pol delta_extent_def same flip: v1 v3 v6 v7)
  qed
  have ue: "usage_exact (gv_edges v7) (gv_levels v7)"
    using v5(5) L by (auto simp: usage_exact_def fmpred_iff f7)
  have ext: "extent_valid (delta_extent v d)" using head inv by (auto simp: delta_extent_def view_inv_def)
  have "edge_indexes_ok v3" using L by blast
  then have ok: "edge_indexes_ok v7" by (simp add: edge_indexes_ok_def f7)
  have "view_inv ?v'"
    using inv ue pr idx ext ok by (simp add: view_inv_def edge_indexes_ok_def pol)
  moreover have "level_values ?v' = delta_levels v d" using lv by (intro fmap_ext) (simp add: gv_level_def)
  ultimately show ?thesis using run blocks L by (auto simp: view_frame_def f7 pol)
qed

end
