(* ===== verification/Graph_Capture.thy ===== *)
theory Graph_Capture
  imports Graph_Delta_Apply
begin

text \<open>
  The before-images of a mutation (\<open>GraphMutation\<close>) and what \<open>finish_mutation\<close> makes of them. When
  every captured key holds the value from before the mutation and every key that changed is
  captured, the finished delta is the exact difference: it is applicable to the old view and
  applying it yields the new one (\<open>finish_replay\<close>); an empty difference means the retained graph
  did not change (\<open>changes_empty_same\<close>).
\<close>

section \<open>Sound captures\<close>

definition captures :: "('k \<Rightarrow> 'v option) \<Rightarrow> ('k \<Rightarrow> 'v option) \<Rightarrow> ('k, 'v option) fmap \<Rightarrow> bool" where
  "captures before after m \<longleftrightarrow>
     (\<forall>k. case fmlookup m k of None \<Rightarrow> after k = before k | Some b \<Rightarrow> b = before k)"

lemma captures_init: "captures f f fmempty"
  by (simp add: captures_def)

text \<open>Capturing the current value of a key before changing only that key.\<close>

lemma captures_step:
  assumes "captures before now m" "\<And>k'. k' \<noteq> k \<Longrightarrow> next k' = now k'"
  shows "captures before next (or_insert k (now k) m)"
  unfolding captures_def
proof
  fix k'
  have "case fmlookup m k' of None \<Rightarrow> now k' = before k' | Some b \<Rightarrow> b = before k'"
    using assms(1) by (simp add: captures_def)
  then show "case fmlookup (or_insert k (now k) m) k' of None \<Rightarrow> next k' = before k' | Some b \<Rightarrow> b = before k'"
    using assms(2)[of k'] by (auto split: option.splits)
qed

lemma captures_patch:
  assumes "captures before after m"
  shows "patched before (\<lambda>k. case fmlookup m k of None \<Rightarrow> None | Some b \<Rightarrow> changed b (after k)) k = after k"
  using assms by (auto simp: captures_def patched_def changed_def split: option.splits if_splits dest!: spec[of _ k])

definition field_captured :: "(graph_block \<Rightarrow> 'a) \<Rightarrow> graph_block \<Rightarrow> graph_block \<Rightarrow> 'a option \<Rightarrow> bool" where
  "field_captured f before after x = (case x of None \<Rightarrow> f after = f before | Some y \<Rightarrow> y = f before)"

text \<open>A block either is captured as a whole, or differs from its before-image in the two VSPC fields
  only, each captured where it changed.\<close>

definition block_captured ::
  "graph_mutation \<Rightarrow> block_hash \<Rightarrow> graph_block option \<Rightarrow> graph_block option \<Rightarrow> bool" where
  "block_captured m h before after =
     (case fmlookup (gm_blocks m) h of
        Some b \<Rightarrow> b = before \<and> fmlookup (gm_is_in_vspc m) h = None \<and> fmlookup (gm_colors m) h = None
      | None \<Rightarrow>
          (case before of
             None \<Rightarrow> after = None
           | Some b \<Rightarrow>
               (case after of
                  None \<Rightarrow> False
                | Some a \<Rightarrow> a = b\<lparr>gb_is_in_vspc := gb_is_in_vspc a, gb_color := gb_color a\<rparr> \<and>
                    field_captured gb_is_in_vspc b a (fmlookup (gm_is_in_vspc m) h) \<and>
                    field_captured gb_color b a (fmlookup (gm_colors m) h))))"

definition mutation_captures :: "graph_view \<Rightarrow> graph_view \<Rightarrow> graph_mutation \<Rightarrow> bool" where
  "mutation_captures v w m \<longleftrightarrow>
     (\<forall>h. block_captured m h (fmlookup (gv_blocks v) h) (fmlookup (gv_blocks w) h)) \<and>
     captures (fmlookup (gv_edges v)) (fmlookup (gv_edges w)) (gm_edges m) \<and>
     captures (gv_level v) (gv_level w) (gm_levels m)"

lemma mutation_captures_init: "mutation_captures v v mutation_default"
  by (simp add: mutation_captures_def captures_init mutation_default_def block_captured_def field_captured_def
      split: option.splits)

section \<open>The finished mutation is the exact difference\<close>

lemma map_of_pairs: "map_of (map (\<lambda>(k, b). (k, f k b)) xs) k = map_option (f k) (map_of xs k)"
  by (induction xs) auto

lemma map_filter_pairs:
  "List.map_filter (\<lambda>(k, b). g (k, b, f k)) xs = List.map_filter g (map (\<lambda>(k, b). (k, b, f k)) xs)"
  by (induction xs) (auto simp: List.map_filter_simps split: option.splits)

lemma level_changes_finish:
  "level_changes_map (gc_levels (mutation_finish m w)) l =
     (case fmlookup (gm_levels m) l of
        None \<Rightarrow> None | Some b \<Rightarrow> if b \<noteq> gv_level w l then Some (b, gv_level w l) else None)"
proof -
  let ?ms = "sorted_list_of_fmap (gm_levels m)"
  let ?xs = "map (\<lambda>(l, b). (l, b, gv_level w l)) ?ms"
  have alt: "gc_levels (mutation_finish m w) = List.map_filter changed_level ?xs"
    by (simp add: mutation_finish_def map_filter_pairs del: changed_level.simps)
  have "map fst ?xs = map fst ?ms" by (simp add: comp_def split_def)
  then have dist: "distinct (map fst ?xs)" by (metis distinct_sorted_list_of_fmap)
  have "map_of ?xs l = map_option (\<lambda>b. (b, gv_level w l)) (fmlookup (gm_levels m) l)"
    by (simp add: map_of_pairs)
  then show ?thesis
    unfolding alt level_changes_map_changed[OF dist] by (simp split: option.splits)
qed


lemma distinct_finish_levels: "distinct (map lch_level (gc_levels (mutation_finish m w)))"
proof -
  let ?xs = "map (\<lambda>(l, b). (l, b, gv_level w l)) (sorted_list_of_fmap (gm_levels m))"
  have "map fst ?xs = map fst (sorted_list_of_fmap (gm_levels m))" by (simp add: comp_def split_def)
  then have "distinct (map fst ?xs)" by (metis distinct_sorted_list_of_fmap)
  then show ?thesis by (simp add: mutation_finish_def map_filter_pairs distinct_changed_levels del: changed_level.simps)
qed

definition delta_of :: "graph_view \<Rightarrow> graph_mutation \<Rightarrow> u64 \<Rightarrow> graph_delta" where
  "delta_of w m ts =
     (let c = mutation_finish m w
      in \<lparr>gd_from_revision_id = gv_current_revision_id w, gd_to_revision_id = gv_current_revision_id w + 1,
          gd_revision_timestamp_ms = ts, gd_head_level = gv_high_level w,
          gd_block_changes = gc_blocks c, gd_edge_changes = gc_edges c, gd_level_changes = gc_levels c,
          gd_is_in_vspc_changes = gc_is_in_vspc c, gd_color_changes = gc_colors c\<rparr>)"

definition advanced :: "graph_view \<Rightarrow> u64 \<Rightarrow> graph_view" where
  "advanced w ts = w\<lparr>gv_current_revision_id := gv_current_revision_id w + 1, gv_current_revision_timestamp_ms := ts\<rparr>"

lemma finish_mutation_total:
  assumes "view_inv w" "unat (gv_current_revision_id w) + 1 < 2 ^ 64"
  shows "finish_mutation w m ts =
    Some (if changes_empty (mutation_finish m w) then (w, None) else (advanced w ts, Some (delta_of w m ts)))"
proof -
  have ca: "checked_add (gv_current_revision_id w) 1 = Some (gv_current_revision_id w + 1)"
    using assms(2) by (simp add: checked_add_def)
  then have "unat (gv_current_revision_id w + 1) = unat (gv_current_revision_id w) + 1"
    by (simp add: unat_checked_add)
  then have lt: "\<not> gv_current_revision_id w + 1 \<le> gv_current_revision_id w" by (simp add: word_le_nat_alt)
  have "gv_high_level w \<noteq> 0"
    using assms(1) by (auto simp: view_inv_def extent_valid_def gv_high_level_def)
  then show ?thesis using ca lt
    by (simp add: finish_mutation_def Let_def graph_delta_new_def delta_of_def advanced_def)
qed

lemma field_after_changed:
  "field_captured f b a x \<Longrightarrow> fmlookup (gv_blocks w) h = Some a \<Longrightarrow>
   field_after (case x of None \<Rightarrow> None | Some y \<Rightarrow> changed_field f w h y) (f b) = f a"
  by (auto simp: field_captured_def field_after_def changed_field_def split: option.splits)

lemma delta_of_core:
  assumes cap: "mutation_captures v w m"
  shows "delta_blocks v (delta_of w m ts) = gv_blocks w"
    and "delta_edges v (delta_of w m ts) = gv_edges w"
    and "delta_levels v (delta_of w m ts) = level_values w"
proof -
  show "delta_edges v (delta_of w m ts) = gv_edges w"
    using cap captures_patch[of "fmlookup (gv_edges v)" "fmlookup (gv_edges w)" "gm_edges m"]
    by (intro fmap_ext) (simp add: delta_edges_def delta_of_def mutation_finish_def mutation_captures_def
        patched_def Let_def)
  show "delta_levels v (delta_of w m ts) = level_values w"
  proof (rule fmap_ext)
    fix l
    have "case fmlookup (gm_levels m) l of None \<Rightarrow> gv_level w l = gv_level v l | Some b \<Rightarrow> b = gv_level v l"
      using cap by (simp add: mutation_captures_def captures_def)
    then show "fmlookup (delta_levels v (delta_of w m ts)) l = fmlookup (level_values w) l"
      by (auto simp: delta_levels_def delta_of_def Let_def patched_def fmlookup_level_patch level_changes_finish
          split: option.splits)
  qed
  show "delta_blocks v (delta_of w m ts) = gv_blocks w"
  proof (rule fmap_ext)
    fix h
    have cap: "block_captured m h (fmlookup (gv_blocks v) h) (fmlookup (gv_blocks w) h)"
      using cap by (simp add: mutation_captures_def)
    show "fmlookup (delta_blocks v (delta_of w m ts)) h = fmlookup (gv_blocks w) h"
    proof (cases "fmlookup (gm_blocks m) h")
      case None
      show ?thesis
      proof (cases "fmlookup (gv_blocks v) h")
        case None
        then show ?thesis using cap \<open>fmlookup (gm_blocks m) h = None\<close>
          by (simp add: block_captured_def delta_blocks_def delta_of_def Let_def mutation_finish_def patched_def)
      next
        case (Some b)
        then obtain a where a: "fmlookup (gv_blocks w) h = Some a"
            "b\<lparr>gb_is_in_vspc := gb_is_in_vspc a, gb_color := gb_color a\<rparr> = a"
            "field_captured gb_is_in_vspc b a (fmlookup (gm_is_in_vspc m) h)"
            "field_captured gb_color b a (fmlookup (gm_colors m) h)"
          using cap None by (auto simp: block_captured_def split: option.splits)
        have "fmlookup (delta_blocks v (delta_of w m ts)) h =
            Some (b\<lparr>gb_is_in_vspc := gb_is_in_vspc a, gb_color := gb_color a\<rparr>)"
          using None Some field_after_changed[OF a(3,1)] field_after_changed[OF a(4,1)]
          by (simp add: delta_blocks_def delta_of_def Let_def mutation_finish_def patched_def)
        then show ?thesis using a(1,2) by simp
      qed
    next
      case (Some b)
      then show ?thesis using cap
        by (auto simp: delta_blocks_def delta_of_def Let_def mutation_finish_def patched_def block_captured_def
            changed_def field_after_def option.map_ident split: option.splits if_splits)
    qed
  qed
qed


lemma changes_empty_same:
  assumes cap: "mutation_captures v w m" and empty: "changes_empty (mutation_finish m w)"
  shows "gv_blocks w = gv_blocks v" "gv_edges w = gv_edges v" "level_values w = level_values v"
proof -
  let ?d = "delta_of w m 0"
  have e: "gd_block_changes ?d = fmempty" "gd_edge_changes ?d = fmempty" "gd_level_changes ?d = []"
      "gd_is_in_vspc_changes ?d = fmempty" "gd_color_changes ?d = fmempty"
    using empty by (simp_all add: changes_empty_def delta_of_def Let_def)
  show "gv_blocks w = gv_blocks v"
    unfolding delta_of_core(1)[OF cap, of 0, symmetric]
    by (rule fmap_ext) (simp add: delta_blocks_def e field_after_def patched_def option.map_ident)
  show "gv_edges w = gv_edges v"
    unfolding delta_of_core(2)[OF cap, of 0, symmetric]
    by (rule fmap_ext) (simp add: delta_edges_def e patched_def)
  show "level_values w = level_values v"
    unfolding delta_of_core(3)[OF cap, of 0, symmetric]
    by (rule fmap_ext) (simp add: delta_levels_def e patched_def level_patch_def)
qed

lemma fmdom_level_values [simp]: "fmdom (level_values v) = fmdom (gv_levels v)"
  by (simp add: level_values_def)

lemma delta_of_applicable:
  assumes cap: "mutation_captures v w m" and inv: "view_inv w" and size: "fcard (fmdom (gv_edges w)) < 2 ^ 64"
  shows "delta_applicable v (delta_of w m ts)"
proof -
  have "gv_high_level w \<noteq> 0" using inv by (auto simp: view_inv_def extent_valid_def gv_high_level_def)
  moreover have "case c of None \<Rightarrow> True | Some e \<Rightarrow> ge_id e = i"
    if "fmlookup (gd_edge_changes (delta_of w m ts)) i = Some c" for i c
    using that view_inv_keyed[OF inv, of i]
    by (auto simp: delta_of_def Let_def mutation_finish_def changed_def split: option.splits if_splits)
  moreover have "distinct (map lch_level (gd_level_changes (delta_of w m ts)))"
    using distinct_finish_levels[of m w] by (simp add: delta_of_def Let_def)
  moreover have "gd_head_level (delta_of w m ts) = gv_high_level w" by (simp add: delta_of_def Let_def)
  ultimately show ?thesis
    using size inv
    by (auto simp: delta_applicable_def delta_of_core[OF cap] fmpred_iff view_inv_def parents_retained_def)
qed

text \<open>A mutation that was soundly captured is replayed exactly: applying the delta it produced to the
  view it started from gives the view it ended with.\<close>

lemma finish_replay:
  assumes v: "view_inv v" "gv_tracking_policy v \<noteq> Frozen" and w: "view_inv w"
    and cap: "mutation_captures v w m" and size: "fcard (fmdom (gv_edges w)) < 2 ^ 64"
    and rev: "unat (gv_current_revision_id v) + 1 < 2 ^ 64"
    and same: "gv_max_depth w = gv_max_depth v" "gv_current_revision_id w = gv_current_revision_id v"
      "gv_tracking_policy w = gv_tracking_policy v"
    and extent: "gv_extent w = (if gv_tracking_policy v = Head
        then LevelExtent (head_target_low v (gv_high_level w)) (gv_high_level w) else gv_extent v)"
    and fin: "finish_mutation w m ts = Some (w', Some d)"
  shows "apply_delta v d = Some (w', Inr ())"
proof -
  have w': "w' = advanced w ts" and d: "d = delta_of w m ts"
    using fin finish_mutation_total[OF w, of m ts] rev same by (auto split: if_splits)
  have "gv_current_revision_id v = gd_from_revision_id d" by (simp add: d delta_of_def Let_def same)
  from apply_delta_patches[OF v this delta_of_applicable[OF cap w size, of ts, folded d]]
  obtain x where x: "apply_delta v d = Some (x, Inr ())" "view_inv x" "gv_blocks x = delta_blocks v d"
      "gv_edges x = delta_edges v d" "level_values x = delta_levels v d"
      "view_frame x = (gv_max_depth v, delta_extent v d, gd_to_revision_id d, gd_revision_timestamp_ms d,
                       gv_tracking_policy v)"
    by blast
  have "x = w'"
  proof (rule view_inv_ext)
    show "view_inv x" by (rule x(2))
    show "view_inv w'" using w by (simp add: w' advanced_def view_inv_def)
    show "view_frame x = view_frame w'"
      unfolding x(6) using extent by (simp add: w' advanced_def view_frame_def d delta_of_def Let_def delta_extent_def same)
    show "gv_blocks x = gv_blocks w'" "gv_edges x = gv_edges w'"
      using delta_of_core[OF cap, of ts] by (simp_all add: x(3,4) w' advanced_def d)
    have "level_values x = level_values w'"
      unfolding x(5) d delta_of_core(3)[OF cap] by (simp add: w' advanced_def level_values_def)
    then show "gv_level x l = gv_level w' l" for l by (simp flip: fmlookup_level_values)
  qed
  then show ?thesis using x(1) by simp
qed

end
