(* ===== verification/Graph_Compose.thy ===== *)
theory Graph_Compose
  imports Graph_Capture
begin

text \<open>
  \<open>GraphDelta::compose\<close>. A delta is truthful for a view when its recorded \<open>before\<close> values are the
  values it replaces; every finished mutation is truthful. Composing two truthful consecutive deltas
  never fails and applying the result is applying the two in turn (\<open>compose_steps\<close>): the changes that
  composition drops because they cancel out are exactly the ones that change nothing.
\<close>

section \<open>Truthful deltas\<close>

text \<open>A delta is truthful for a view when each recorded \<open>before\<close> is the value it replaces: that of
  the level in the view, and that of the field in the block after the block changes.\<close>

definition field_truthful ::
  "(graph_block \<Rightarrow> 'a) \<Rightarrow> (block_hash, graph_block) fmap \<Rightarrow> (block_hash, 'a field_change) fmap \<Rightarrow> bool" where
  "field_truthful f blocks changes =
     fmpred (\<lambda>h c. case fmlookup blocks h of None \<Rightarrow> True | Some b \<Rightarrow> fc_before c = f b) changes"

definition delta_truthful :: "graph_view \<Rightarrow> graph_delta \<Rightarrow> bool" where
  "delta_truthful v d \<longleftrightarrow>
     list_all (\<lambda>c. lch_before c = gv_level v (lch_level c)) (gd_level_changes d) \<and>
     field_truthful gb_is_in_vspc (patch_fm (gv_blocks v) (gd_block_changes d)) (gd_is_in_vspc_changes d) \<and>
     field_truthful gb_color (patch_fm (gv_blocks v) (gd_block_changes d)) (gd_color_changes d)"

text \<open>A later delta does not reinsert a block whose fields an earlier one changed: a block is
  committed once.\<close>

definition no_reinsert :: "graph_delta \<Rightarrow> graph_delta \<Rightarrow> bool" where
  "no_reinsert a b =
     fmpred (\<lambda>h c. c = None \<or> fmlookup (gd_is_in_vspc_changes a) h = None \<and> fmlookup (gd_color_changes a) h = None)
       (gd_block_changes b)"

lemma no_reinsertD:
  "no_reinsert a b \<Longrightarrow> fmlookup (gd_block_changes b) h = Some (Some x) \<Longrightarrow>
   fmlookup (gd_is_in_vspc_changes a) h = None \<and> fmlookup (gd_color_changes a) h = None"
  by (auto simp: no_reinsert_def fmpred_iff)

lemma field_truthfulD:
  "field_truthful f blocks changes \<Longrightarrow> fmlookup changes h = Some c \<Longrightarrow> fmlookup blocks h = Some b \<Longrightarrow> fc_before c = f b"
  by (force simp: field_truthful_def fmpred_iff split: option.splits)

lemma level_truthfulD:
  "list_all (\<lambda>c. lch_before c = gv_level v (lch_level c)) cs \<Longrightarrow> level_changes_map cs l = Some (b, a) \<Longrightarrow> b = gv_level v l"
  by (induction cs) (auto simp: level_changes_map_def split: if_splits)

section \<open>A composed delta describes the second graph\<close>

lemma patched_patched:
  "patched (patched m c) d k = patched m (\<lambda>k. case d k of None \<Rightarrow> c k | Some x \<Rightarrow> Some x) k"
  by (auto simp: patched_def split: option.splits)

lemma compose_edges:
  assumes "gv_edges v1 = delta_edges v a" "gd_edge_changes d = gd_edge_changes a ++\<^sub>f gd_edge_changes b"
  shows "delta_edges v d = delta_edges v1 b"
  by (rule fmap_ext) (auto simp: delta_edges_def assms patched_def fmlookup_dom_iff split: option.splits)

lemma fmlookup_delta_levels:
  "fmlookup (delta_levels v d) l =
     (case level_changes_map (gd_level_changes d) l of None \<Rightarrow> gv_level v l | Some (_, x) \<Rightarrow> x)"
  by (auto simp: delta_levels_def fmlookup_level_patch patched_def split: option.splits)

lemma compose_levels:
  assumes v1: "level_values v1 = delta_levels v a"
    and d: "gd_level_changes d = compose_level_changes (gd_level_changes a) (gd_level_changes b)"
    and dist: "distinct (map lch_level (gd_level_changes a))" "distinct (map lch_level (gd_level_changes b))"
    and ta: "list_all (\<lambda>c. lch_before c = gv_level v (lch_level c)) (gd_level_changes a)"
    and tb: "list_all (\<lambda>c. lch_before c = gv_level v1 (lch_level c)) (gd_level_changes b)"
  shows "delta_levels v d = delta_levels v1 b"
proof (rule fmap_ext)
  fix l
  have "gv_level v1 l = fmlookup (delta_levels v a) l" by (simp flip: v1)
  then show "fmlookup (delta_levels v d) l = fmlookup (delta_levels v1 b) l"
    using level_truthfulD[OF ta, of l] level_truthfulD[OF tb, of l]
    by (auto simp: fmlookup_delta_levels d level_changes_map_compose[OF dist] level_change_composed_def
        split: option.splits prod.splits if_splits)
qed

lemma field_after_composed:
  assumes "\<And>c. x = Some c \<Longrightarrow> fc_before c = f0" "\<And>c. y = Some c \<Longrightarrow> fc_before c = field_after x f0"
  shows "field_after (field_change_composed x y) f0 = field_after y (field_after x f0)"
  using assms by (auto simp: field_after_def field_change_composed_def split: option.splits)


lemma compose_blocks:
  assumes v1: "gv_blocks v1 = delta_blocks v a"
    and d: "gd_block_changes d = gd_block_changes a ++\<^sub>f gd_block_changes b"
      "gd_is_in_vspc_changes d = compose_field_changes (gd_is_in_vspc_changes a) (gd_is_in_vspc_changes b)"
      "gd_color_changes d = compose_field_changes (gd_color_changes a) (gd_color_changes b)"
    and ta: "delta_truthful v a" and tb: "delta_truthful v1 b" and fresh: "no_reinsert a b"
  shows "delta_blocks v d = delta_blocks v1 b"
proof (rule fmap_ext)
  fix h
  let ?pa = "fmlookup (patch_fm (gv_blocks v) (gd_block_changes a)) h"
  let ?fa = "\<lambda>x. x\<lparr>gb_is_in_vspc := field_after (fmlookup (gd_is_in_vspc_changes a) h) (gb_is_in_vspc x),
      gb_color := field_after (fmlookup (gd_color_changes a) h) (gb_color x)\<rparr>"
  have v1h: "fmlookup (gv_blocks v1) h = map_option ?fa ?pa" by (simp add: v1 delta_blocks_def)
  have pd: "fmlookup (patch_fm (gv_blocks v) (gd_block_changes d)) h =
      (case fmlookup (gd_block_changes b) h of None \<Rightarrow> ?pa | Some c \<Rightarrow> c)"
    by (auto simp: d patched_def fmlookup_dom_iff split: option.splits)
  have pb: "fmlookup (patch_fm (gv_blocks v1) (gd_block_changes b)) h =
      (case fmlookup (gd_block_changes b) h of None \<Rightarrow> map_option ?fa ?pa | Some c \<Rightarrow> c)"
    unfolding v1h[symmetric] by (simp add: patched_def)
  have fta: "field_truthful gb_is_in_vspc (patch_fm (gv_blocks v) (gd_block_changes a)) (gd_is_in_vspc_changes a)"
      "field_truthful gb_color (patch_fm (gv_blocks v) (gd_block_changes a)) (gd_color_changes a)"
    and ftb: "field_truthful gb_is_in_vspc (patch_fm (gv_blocks v1) (gd_block_changes b)) (gd_is_in_vspc_changes b)"
      "field_truthful gb_color (patch_fm (gv_blocks v1) (gd_block_changes b)) (gd_color_changes b)"
    using ta tb by (auto simp: delta_truthful_def)
  show "fmlookup (delta_blocks v d) h = fmlookup (delta_blocks v1 b) h"
  proof (cases "fmlookup (gd_block_changes b) h")
    case None
    show ?thesis
    proof (cases ?pa)
      case none: None
      then show ?thesis unfolding delta_blocks_def fmlookup_fmmap_keys pd pb using None by simp
    next
      case (Some x)
      have "field_after (field_change_composed (fmlookup (gd_is_in_vspc_changes a) h) (fmlookup (gd_is_in_vspc_changes b) h)) (gb_is_in_vspc x) =
          field_after (fmlookup (gd_is_in_vspc_changes b) h) (field_after (fmlookup (gd_is_in_vspc_changes a) h) (gb_is_in_vspc x))"
        by (rule field_after_composed)
           (use field_truthfulD[OF fta(1) _ Some] field_truthfulD[OF ftb(1), of h _ "?fa x"] pb None Some in auto)
      moreover have "field_after (field_change_composed (fmlookup (gd_color_changes a) h) (fmlookup (gd_color_changes b) h)) (gb_color x) =
          field_after (fmlookup (gd_color_changes b) h) (field_after (fmlookup (gd_color_changes a) h) (gb_color x))"
        by (rule field_after_composed)
           (use field_truthfulD[OF fta(2) _ Some] field_truthfulD[OF ftb(2), of h _ "?fa x"] pb None Some in auto)
      ultimately show ?thesis unfolding delta_blocks_def fmlookup_fmmap_keys pd pb using None Some by (simp add: d)
    qed
  next
    case (Some c)
    show ?thesis
    proof (cases c)
      case None
      then show ?thesis unfolding delta_blocks_def fmlookup_fmmap_keys pd pb using Some by simp
    next
      case x: (Some x)
      have "fmlookup (gd_is_in_vspc_changes a) h = None" "fmlookup (gd_color_changes a) h = None"
        using no_reinsertD[OF fresh] Some x by auto
      moreover have px: "fmlookup (patch_fm (gv_blocks v1) (gd_block_changes b)) h = Some x" using pb Some x by simp
      moreover have "field_after (field_change_composed None (fmlookup (gd_is_in_vspc_changes b) h)) (gb_is_in_vspc x) =
          field_after (fmlookup (gd_is_in_vspc_changes b) h) (gb_is_in_vspc x)"
        using field_truthfulD[OF ftb(1) _ px] by (subst field_after_composed) (auto simp: field_after_def)
      moreover have "field_after (field_change_composed None (fmlookup (gd_color_changes b) h)) (gb_color x) =
          field_after (fmlookup (gd_color_changes b) h) (gb_color x)"
        using field_truthfulD[OF ftb(2) _ px] by (subst field_after_composed) (auto simp: field_after_def)
      ultimately show ?thesis unfolding delta_blocks_def fmlookup_fmmap_keys pd pb using Some x by (simp add: d)
    qed
  qed
qed


section \<open>Composition is sequential application\<close>

definition delta_steps :: "graph_view \<Rightarrow> graph_delta \<Rightarrow> bool" where
  "delta_steps v d \<longleftrightarrow>
     gd_from_revision_id d = gv_current_revision_id v \<and> delta_valid d \<and> delta_applicable v d \<and> delta_truthful v d"

lemma delta_steps_apply:
  assumes "view_inv v" "gv_tracking_policy v \<noteq> Frozen" "delta_steps v d"
  shows "\<exists>v'. apply_delta v d = Some (v', Inr ()) \<and> view_inv v' \<and> gv_blocks v' = delta_blocks v d \<and>
      gv_edges v' = delta_edges v d \<and> level_values v' = delta_levels v d \<and>
      view_frame v' = (gv_max_depth v, delta_extent v d, gd_to_revision_id d, gd_revision_timestamp_ms d, gv_tracking_policy v)"
  using assms by (intro apply_delta_patches) (auto simp: delta_steps_def)

lemma compose_keyed:
  assumes "delta_applicable v a" "delta_applicable v1 b"
  shows "fmpred (\<lambda>i c. case c of None \<Rightarrow> True | Some e \<Rightarrow> ge_id e = i) (gd_edge_changes a ++\<^sub>f gd_edge_changes b)"
  using assms by (auto simp: delta_applicable_def intro!: fmpred_add)

lemma compose_field_truthful:
  assumes d: "gd_block_changes d = gd_block_changes a ++\<^sub>f gd_block_changes b"
    and fa: "field_truthful f (patch_fm (gv_blocks v) (gd_block_changes a)) ca"
    and fb: "field_truthful f (patch_fm (gv_blocks v1) (gd_block_changes b)) cb"
    and look: "\<And>h x. fmlookup (patch_fm (gv_blocks v) (gd_block_changes a)) h = Some x \<Longrightarrow>
      \<exists>y. fmlookup (gv_blocks v1) h = Some y \<and> f y = field_after (fmlookup ca h) (f x)"
    and new: "\<And>h x. fmlookup (gd_block_changes b) h = Some (Some x) \<Longrightarrow> fmlookup ca h = None"
  shows "field_truthful f (patch_fm (gv_blocks v) (gd_block_changes d)) (compose_field_changes ca cb)"
  unfolding field_truthful_def fmpred_iff
proof (intro allI impI)
  fix h c assume c: "fmlookup (compose_field_changes ca cb) h = Some c"
  show "case fmlookup (patch_fm (gv_blocks v) (gd_block_changes d)) h of None \<Rightarrow> True | Some x \<Rightarrow> fc_before c = f x"
  proof (cases "fmlookup (patch_fm (gv_blocks v) (gd_block_changes d)) h")
    case (Some x)
    show ?thesis
    proof (cases "fmlookup (gd_block_changes b) h")
      case None
      then have pa: "fmlookup (patch_fm (gv_blocks v) (gd_block_changes a)) h = Some x"
        using Some by (simp add: d patched_def fmlookup_dom_iff split: option.splits)
      obtain y where y: "fmlookup (gv_blocks v1) h = Some y" "f y = field_after (fmlookup ca h) (f x)"
        using look[OF pa] by blast
      have "fmlookup (patch_fm (gv_blocks v1) (gd_block_changes b)) h = Some y" using y None by (simp add: patched_def)
      then show ?thesis
        using c Some field_truthfulD[OF fa _ pa] field_truthfulD[OF fb, of h _ y] y
        by (auto simp: field_change_composed_def field_after_def split: option.splits if_splits)
    next
      case (Some z)
      then have z: "z = Some x"
        using \<open>fmlookup (patch_fm (gv_blocks v) (gd_block_changes d)) h = Some x\<close>
        by (simp add: d patched_def fmlookup_dom_iff)
      have "fmlookup ca h = None" using new Some z by blast
      moreover have "fmlookup (patch_fm (gv_blocks v1) (gd_block_changes b)) h = Some x" using Some z by (simp add: patched_def)
      ultimately show ?thesis
        using c field_truthfulD[OF fb, of h _ x] \<open>fmlookup (patch_fm (gv_blocks v) (gd_block_changes d)) h = Some x\<close>
        by (auto simp: field_change_composed_def split: option.splits if_splits)
    qed
  qed simp
qed

lemma compose_truthful:
  assumes v1: "gv_blocks v1 = delta_blocks v a" "level_values v1 = delta_levels v a"
    and d: "gd_block_changes d = gd_block_changes a ++\<^sub>f gd_block_changes b"
      "gd_level_changes d = compose_level_changes (gd_level_changes a) (gd_level_changes b)"
      "gd_is_in_vspc_changes d = compose_field_changes (gd_is_in_vspc_changes a) (gd_is_in_vspc_changes b)"
      "gd_color_changes d = compose_field_changes (gd_color_changes a) (gd_color_changes b)"
    and ta: "delta_truthful v a" and tb: "delta_truthful v1 b" and fresh: "no_reinsert a b"
    and dist: "distinct (map lch_level (gd_level_changes a))" "distinct (map lch_level (gd_level_changes b))"
  shows "delta_truthful v d"
proof -
  have ft: "field_truthful gb_is_in_vspc (patch_fm (gv_blocks v) (gd_block_changes a)) (gd_is_in_vspc_changes a)"
      "field_truthful gb_color (patch_fm (gv_blocks v) (gd_block_changes a)) (gd_color_changes a)"
      "field_truthful gb_is_in_vspc (patch_fm (gv_blocks v1) (gd_block_changes b)) (gd_is_in_vspc_changes b)"
      "field_truthful gb_color (patch_fm (gv_blocks v1) (gd_block_changes b)) (gd_color_changes b)"
    using ta tb by (auto simp: delta_truthful_def)
  have "lch_before c = gv_level v (lch_level c)" if c: "c \<in> set (gd_level_changes d)" for c
  proof -
    let ?l = "lch_level c"
    have "level_changes_map (gd_level_changes d) ?l = Some (lch_before c, lch_after c)"
      using c compose_level_changes_distinct[of "gd_level_changes a" "gd_level_changes b"]
      unfolding level_changes_map_def d(2) by (auto simp: comp_def intro!: map_of_is_SomeI)
    then have "level_change_composed (level_changes_map (gd_level_changes a) ?l) (level_changes_map (gd_level_changes b) ?l)
        = Some (lch_before c, lch_after c)"
      by (simp add: d(2) level_changes_map_compose[OF dist])
    moreover have "gv_level v1 ?l = fmlookup (delta_levels v a) ?l" by (simp flip: v1(2))
    moreover have "\<And>x y. level_changes_map (gd_level_changes a) ?l = Some (x, y) \<Longrightarrow> x = gv_level v ?l"
        "\<And>x y. level_changes_map (gd_level_changes b) ?l = Some (x, y) \<Longrightarrow> x = gv_level v1 ?l"
      using ta tb level_truthfulD unfolding delta_truthful_def by blast+
    ultimately show ?thesis
      by (auto simp: level_change_composed_def fmlookup_delta_levels split: option.splits prod.splits if_splits)
  qed
  moreover have "field_truthful gb_is_in_vspc (patch_fm (gv_blocks v) (gd_block_changes d)) (gd_is_in_vspc_changes d)"
    unfolding d(3)
    by (rule compose_field_truthful[OF d(1) ft(1,3)]) (use no_reinsertD[OF fresh] in \<open>auto simp: v1(1) delta_blocks_def\<close>)
  moreover have "field_truthful gb_color (patch_fm (gv_blocks v) (gd_block_changes d)) (gd_color_changes d)"
    unfolding d(4)
    by (rule compose_field_truthful[OF d(1) ft(2,4)]) (use no_reinsertD[OF fresh] in \<open>auto simp: v1(1) delta_blocks_def\<close>)
  ultimately show ?thesis by (auto simp: delta_truthful_def list_all_iff)
qed

lemma compose_steps:
  assumes inv: "view_inv v" and live: "gv_tracking_policy v \<noteq> Frozen"
    and a: "delta_steps v a" and run: "apply_delta v a = Some (v1, Inr ())" and b: "delta_steps v1 b"
    and fresh: "no_reinsert a b"
  shows "\<exists>d. compose a b = Some (Inr d) \<and> delta_steps v d \<and> apply_delta v d = apply_delta v1 b"
proof -
  from delta_steps_apply[OF inv live a] run have
    v1: "view_inv v1" "gv_blocks v1 = delta_blocks v a" "gv_edges v1 = delta_edges v a" "level_values v1 = delta_levels v a"
    and f1: "view_frame v1 = (gv_max_depth v, delta_extent v a, gd_to_revision_id a, gd_revision_timestamp_ms a, gv_tracking_policy v)"
    by auto
  have g1: "gv_max_depth v1 = gv_max_depth v" "gv_current_revision_id v1 = gd_to_revision_id a"
      "gv_tracking_policy v1 = gv_tracking_policy v" "gv_extent v1 = delta_extent v a"
    using f1 by (simp_all add: view_frame_def)
  have "gd_to_revision_id a = gd_from_revision_id b" using b g1 by (simp add: delta_steps_def)
  from compose_valid[OF _ _ this] a b obtain d where
    d: "compose a b = Some (Inr d)" "delta_valid d" "gd_from_revision_id d = gd_from_revision_id a"
      "gd_to_revision_id d = gd_to_revision_id b" "gd_revision_timestamp_ms d = gd_revision_timestamp_ms b"
      "gd_head_level d = gd_head_level b"
      "gd_block_changes d = gd_block_changes a ++\<^sub>f gd_block_changes b"
      "gd_edge_changes d = gd_edge_changes a ++\<^sub>f gd_edge_changes b"
      "gd_level_changes d = compose_level_changes (gd_level_changes a) (gd_level_changes b)"
      "gd_is_in_vspc_changes d = compose_field_changes (gd_is_in_vspc_changes a) (gd_is_in_vspc_changes b)"
      "gd_color_changes d = compose_field_changes (gd_color_changes a) (gd_color_changes b)"
    by (auto simp: delta_steps_def)
  have ta: "delta_truthful v a" and tb: "delta_truthful v1 b" and aa: "delta_applicable v a" and ab: "delta_applicable v1 b"
    using a b by (auto simp: delta_steps_def)
  have E: "delta_edges v d = delta_edges v1 b" by (rule compose_edges[OF v1(3) d(8)])
  have L: "delta_levels v d = delta_levels v1 b"
    by (rule compose_levels[OF v1(4) d(9)]) (use aa ab ta tb in \<open>auto simp: delta_applicable_def delta_truthful_def\<close>)
  have B: "delta_blocks v d = delta_blocks v1 b" by (rule compose_blocks[OF v1(2) d(7,10,11) ta tb fresh])
  have app: "delta_applicable v d"
    using ab compose_keyed[OF aa ab] compose_level_changes_distinct[of "gd_level_changes a" "gd_level_changes b"]
    by (simp add: delta_applicable_def E L d)
  have ext: "delta_extent v d = delta_extent v1 b"
    by (simp add: delta_extent_def d g1 head_target_low_def)
  have tr: "delta_truthful v d" by (rule compose_truthful[OF v1(2,4) d(7,9,10,11) ta tb fresh _ _]) (use aa ab in \<open>auto simp: delta_applicable_def\<close>)
  have steps: "delta_steps v d" using a d app tr by (simp add: delta_steps_def)
  from delta_steps_apply[OF inv live steps] obtain x where
    x: "apply_delta v d = Some (x, Inr ())" "view_inv x" "gv_blocks x = delta_blocks v d" "gv_edges x = delta_edges v d"
      "level_values x = delta_levels v d"
      "view_frame x = (gv_max_depth v, delta_extent v d, gd_to_revision_id d, gd_revision_timestamp_ms d, gv_tracking_policy v)"
    by blast
  from delta_steps_apply[OF v1(1) _ b] live obtain y where
    y: "apply_delta v1 b = Some (y, Inr ())" "view_inv y" "gv_blocks y = delta_blocks v1 b" "gv_edges y = delta_edges v1 b"
      "level_values y = delta_levels v1 b"
      "view_frame y = (gv_max_depth v1, delta_extent v1 b, gd_to_revision_id b, gd_revision_timestamp_ms b, gv_tracking_policy v1)"
    by (auto simp: g1)
  have "x = y"
  proof (rule view_inv_ext[OF x(2) y(2)])
    show "gv_level x l = gv_level y l" for l
      using x(5) y(5) L by (metis fmlookup_level_values)
  qed (simp_all add: x y B E d ext g1)
  then show ?thesis using d(1) steps x(1) y(1) by auto
qed


section \<open>Deltas of mutations are truthful\<close>

lemma finish_field_truthful:
  assumes cap: "\<And>h. fmlookup g h \<noteq> None \<Longrightarrow> fmlookup (gv_blocks w) h \<noteq> None \<Longrightarrow> fmlookup (gm_blocks m) h = None \<and>
      (\<exists>x. fmlookup (gv_blocks v) h = Some x \<and>
        (\<forall>a. fmlookup (gv_blocks w) h = Some a \<longrightarrow> field_captured f x a (fmlookup g h)))"
  shows "field_truthful f (patch_fm (gv_blocks v) (gc_blocks (mutation_finish m w))) (fm_filter_map (changed_field f w) g)"
  unfolding field_truthful_def fmpred_iff
proof (intro allI impI)
  fix h c assume c: "fmlookup (fm_filter_map (changed_field f w) g) h = Some c"
  then obtain y a where y: "fmlookup g h = Some y" "fmlookup (gv_blocks w) h = Some a" "fc_before c = y"
    by (auto simp: changed_field_def split: option.splits if_splits)
  with cap[of h] obtain x where x: "fmlookup (gm_blocks m) h = None" "fmlookup (gv_blocks v) h = Some x"
      "field_captured f x a (Some y)"
    by auto
  then show "case fmlookup (patch_fm (gv_blocks v) (gc_blocks (mutation_finish m w))) h of None \<Rightarrow> True
      | Some b \<Rightarrow> fc_before c = f b"
    using y(3) by (simp add: mutation_finish_def patched_def field_captured_def)
qed

lemma delta_of_truthful:
  assumes cap: "mutation_captures v w m"
  shows "delta_truthful v (delta_of w m ts)"
proof -
  let ?d = "delta_of w m ts"
  have "lch_before c = gv_level v (lch_level c)" if c: "c \<in> set (gd_level_changes ?d)" for c
  proof -
    have "level_changes_map (gd_level_changes ?d) (lch_level c) = Some (lch_before c, lch_after c)"
      using c distinct_finish_levels[of m w] unfolding level_changes_map_def
      by (auto simp: delta_of_def Let_def comp_def intro!: map_of_is_SomeI)
    then obtain b where "fmlookup (gm_levels m) (lch_level c) = Some b" "lch_before c = b"
      by (auto simp: delta_of_def Let_def level_changes_finish split: option.splits if_splits)
    moreover have "case fmlookup (gm_levels m) (lch_level c) of
        None \<Rightarrow> gv_level w (lch_level c) = gv_level v (lch_level c) | Some b \<Rightarrow> b = gv_level v (lch_level c)"
      using cap by (simp add: mutation_captures_def captures_def)
    ultimately show ?thesis by simp
  qed
  moreover have cap_at: "fmlookup (gm_blocks m) h = None \<and>
      (\<exists>x. fmlookup (gv_blocks v) h = Some x \<and> (\<forall>a. fmlookup (gv_blocks w) h = Some a \<longrightarrow>
        field_captured gb_is_in_vspc x a (fmlookup (gm_is_in_vspc m) h) \<and>
        field_captured gb_color x a (fmlookup (gm_colors m) h)))"
    if "fmlookup (gm_is_in_vspc m) h \<noteq> None \<or> fmlookup (gm_colors m) h \<noteq> None" "fmlookup (gv_blocks w) h \<noteq> None" for h
  proof -
    have "block_captured m h (fmlookup (gv_blocks v) h) (fmlookup (gv_blocks w) h)"
      using cap by (simp add: mutation_captures_def)
    then show ?thesis using that by (auto simp: block_captured_def split: option.splits)
  qed
  moreover have "field_truthful gb_is_in_vspc (patch_fm (gv_blocks v) (gd_block_changes ?d)) (gd_is_in_vspc_changes ?d)"
    using finish_field_truthful[of "gm_is_in_vspc m" w m v gb_is_in_vspc] cap_at
    by (simp add: delta_of_def Let_def mutation_finish_def) blast
  moreover have "field_truthful gb_color (patch_fm (gv_blocks v) (gd_block_changes ?d)) (gd_color_changes ?d)"
    using finish_field_truthful[of "gm_colors m" w m v gb_color] cap_at
    by (simp add: delta_of_def Let_def mutation_finish_def) blast
  ultimately show ?thesis by (auto simp: delta_truthful_def list_all_iff)
qed


lemma delta_of_steps:
  assumes cap: "mutation_captures v w m" and inv: "view_inv w" and size: "fcard (fmdom (gv_edges w)) < 2 ^ 64"
    and rev: "unat (gv_current_revision_id v) + 1 < 2 ^ 64" and same: "gv_current_revision_id w = gv_current_revision_id v"
  shows "delta_steps v (delta_of w m ts)"
proof -
  have "unat (gv_current_revision_id v + 1) = unat (gv_current_revision_id v) + 1"
    using rev by (simp add: unat_word_ariths)
  moreover have "gv_high_level w \<noteq> 0" using inv by (auto simp: view_inv_def extent_valid_def gv_high_level_def)
  ultimately have "delta_valid (delta_of w m ts)"
    by (simp add: delta_valid_def delta_of_def Let_def same word_less_nat_alt)
  then show ?thesis
    using delta_of_truthful[OF cap] delta_of_applicable[OF cap inv size]
    by (simp add: delta_steps_def) (simp add: delta_of_def Let_def same)
qed

end
