(* ===== verification/Graph_Commit.thy ===== *)
theory Graph_Commit
  imports Graph_Compose
begin

text \<open>
  The projection of a committed block onto a view, \<open>apply_block_projection\<close>: its three stages (the
  block, the level snapshots, the edges) each keep the invariant and capture what they change, and
  for a coherent commit the whole projection never panics and yields exactly the declared blocks,
  edges and level values (\<open>apply_block_projection_spec\<close>).
\<close>

section \<open>Captures during a block commit\<close>

definition commit_captures :: "graph_view \<Rightarrow> graph_view \<Rightarrow> graph_mutation \<Rightarrow> bool" where
  "commit_captures v w m \<longleftrightarrow>
     captures (fmlookup (gv_blocks v)) (fmlookup (gv_blocks w)) (gm_blocks m) \<and>
     captures (fmlookup (gv_edges v)) (fmlookup (gv_edges w)) (gm_edges m) \<and>
     captures (gv_level v) (gv_level w) (gm_levels m) \<and>
     gm_is_in_vspc m = fmempty \<and> gm_colors m = fmempty"

lemma commit_captures_init: "commit_captures v v mutation_default"
  by (simp add: commit_captures_def captures_init mutation_default_def)

lemma commit_captures_sound:
  assumes "commit_captures v w m"
  shows "mutation_captures v w m"
proof -
  have "block_captured m h (fmlookup (gv_blocks v) h) (fmlookup (gv_blocks w) h)" for h
  proof -
    have "case fmlookup (gm_blocks m) h of None \<Rightarrow> fmlookup (gv_blocks w) h = fmlookup (gv_blocks v) h
        | Some b \<Rightarrow> b = fmlookup (gv_blocks v) h"
      using assms by (simp add: commit_captures_def captures_def)
    then show ?thesis
      using assms by (auto simp: commit_captures_def block_captured_def field_captured_def split: option.splits)
  qed
  then show ?thesis using assms by (simp add: commit_captures_def mutation_captures_def)
qed

lemma commit_captures_extent [simp]:
  "commit_captures v (w\<lparr>gv_extent := e\<rparr>) m = commit_captures v w m"
  "commit_captures v (w\<lparr>gv_block_hashes_by_level := b\<rparr>) m = commit_captures v w m"
  by (simp_all add: commit_captures_def gv_level_def[abs_def])

lemma commit_captures_block:
  assumes "commit_captures v w m" "\<And>h'. h' \<noteq> h \<Longrightarrow> fmlookup (gv_blocks w') h' = fmlookup (gv_blocks w) h'"
    "gv_edges w' = gv_edges w" "\<And>l. gv_level w' l = gv_level w l"
  shows "commit_captures v w' (m\<lparr>gm_blocks := or_insert h (fmlookup (gv_blocks w) h) (gm_blocks m)\<rparr>)"
proof -
  have "gv_level w' = gv_level w" using assms(4) by (rule ext)
  then show ?thesis using assms captures_step[of _ "fmlookup (gv_blocks w)" "gm_blocks m" h "fmlookup (gv_blocks w')"]
    by (simp add: commit_captures_def)
qed

lemma commit_captures_edge:
  assumes "commit_captures v w m" "\<And>i'. i' \<noteq> i \<Longrightarrow> fmlookup (gv_edges w') i' = fmlookup (gv_edges w) i'"
    "gv_blocks w' = gv_blocks w" "\<And>l. gv_level w' l = gv_level w l"
  shows "commit_captures v w' (m\<lparr>gm_edges := or_insert i (fmlookup (gv_edges w) i) (gm_edges m)\<rparr>)"
proof -
  have "gv_level w' = gv_level w" using assms(4) by (rule ext)
  then show ?thesis using assms captures_step[of _ "fmlookup (gv_edges w)" "gm_edges m" i "fmlookup (gv_edges w')"]
    by (simp add: commit_captures_def)
qed

lemma commit_captures_level:
  assumes "commit_captures v w m" "\<And>l'. l' \<noteq> l \<Longrightarrow> gv_level w' l' = gv_level w l'"
    "gv_blocks w' = gv_blocks w" "gv_edges w' = gv_edges w"
  shows "commit_captures v w' (m\<lparr>gm_levels := or_insert l (gv_level w l) (gm_levels m)\<rparr>)"
  using assms captures_step[of _ "gv_level w" "gm_levels m" l "gv_level w'"] by (simp add: commit_captures_def)

section \<open>Projecting level snapshots\<close>

definition snap_value :: "level option \<Rightarrow> level_committed \<Rightarrow> level" where
  "snap_value old s =
     (case old of Some x \<Rightarrow> x\<lparr>lv_size := lc_size s\<rparr>
      | None \<Rightarrow> \<lparr>lv_size = lc_size s, lv_daa_score = lc_daa_score s\<rparr>)"

definition snap_retained :: "level_extent \<Rightarrow> u32 fset \<Rightarrow> (edge_id, graph_edge) fmap \<Rightarrow> u32 \<Rightarrow> bool" where
  "snap_retained extent endpoints edges l \<longleftrightarrow>
     contains_level extent l \<or> 0 < usage_of edges l \<or> l |\<in>| endpoints"

lemma gv_level_snapshot:
  "gv_level (apply_materialization_snapshot v s) l =
     (if l = lc_level s then Some (snap_value (gv_level v l) s) else gv_level v l)"
  by (auto simp: gv_level_def apply_materialization_snapshot_def snap_value_def split: option.splits)

lemma project_snapshot_step:
  assumes inv: "view_inv v"
  shows "project_snapshot extent endpoints s (v, m) =
    (if snap_retained extent endpoints (gv_edges v) (lc_level s)
     then (apply_materialization_snapshot v s, capture_level (gv_levels v) (lc_level s) m) else (v, m))"
proof -
  let ?l = "lc_level s"
  have "(case fmlookup (gv_levels v) ?l of None \<Rightarrow> False | Some stored \<Rightarrow> 0 < sl_usage_count stored) \<longleftrightarrow>
      0 < usage_of (gv_edges v) ?l"
    using view_inv_usage[OF inv, of ?l] usage_of_absent_level[of "gv_edges v" "gv_levels v" ?l] inv
    by (auto simp: view_inv_def word_neq_0_conv[symmetric] unat_eq_0[symmetric] split: option.splits)
  then show ?thesis by (simp add: project_snapshot_def snap_retained_def)
qed

lemma snapshots_loop:
  assumes "distinct (map lc_level ss)" "view_inv w" "commit_captures v w m"
    and "fold (project_snapshot extent endpoints) ss (w, m) = (w', m')"
  shows "view_inv w' \<and> commit_captures v w' m' \<and> view_frame w' = view_frame w \<and>
      gv_blocks w' = gv_blocks w \<and> gv_edges w' = gv_edges w \<and>
      (\<forall>l. gv_level w' l = (case List.find (\<lambda>s. lc_level s = l) ss of
         None \<Rightarrow> gv_level w l
       | Some s \<Rightarrow> if snap_retained extent endpoints (gv_edges w) l then Some (snap_value (gv_level w l) s) else gv_level w l))"
  using assms
proof (induction ss arbitrary: w m)
  case (Cons s ss)
  let ?l = "lc_level s"
  have nofind: "List.find (\<lambda>s. lc_level s = ?l) ss = None"
    using Cons.prems(1) by (force simp: find_None_iff image_iff)
  show ?case
  proof (cases "snap_retained extent endpoints (gv_edges w) ?l")
    case True
    define w1 where "w1 = apply_materialization_snapshot w s"
    define m1 where "m1 = capture_level (gv_levels w) ?l m"
    have "fold (project_snapshot extent endpoints) ss (w1, m1) = (w', m')"
      using Cons.prems(4) True by (simp add: project_snapshot_step[OF Cons.prems(2)] w1_def m1_def)
    moreover have lev: "gv_level w1 l = (if l = ?l then Some (snap_value (gv_level w l) s) else gv_level w l)" for l
      by (simp add: w1_def gv_level_snapshot)
    moreover have same: "gv_blocks w1 = gv_blocks w" "gv_edges w1 = gv_edges w" "view_frame w1 = view_frame w"
      by (simp_all add: w1_def apply_materialization_snapshot_def view_frame_def)
    moreover have "commit_captures v w1 m1"
      unfolding m1_def capture_level_def gv_level_def[symmetric]
      by (rule commit_captures_level[OF Cons.prems(3)]) (simp_all add: lev same)
    moreover have "view_inv w1"
      unfolding w1_def by (rule apply_materialization_snapshot_inv[OF Cons.prems(2)])
    ultimately show ?thesis
      using Cons.IH[of w1 m1] Cons.prems(1) True nofind by (auto split: option.splits)
  next
    case False
    then show ?thesis
      using Cons.IH[of w m] Cons.prems nofind by (auto simp: project_snapshot_step split: option.splits)
  qed
qed (simp add: option.map_ident)

section \<open>Projecting edges\<close>

lemma project_edges_loop:
  assumes "distinct (map ge_id es)" "view_inv w" "commit_captures v w m"
    and "\<And>e. e \<in> set es \<Longrightarrow> fmlookup (gv_edges w) (ge_id e) = None \<and> parent_level e |\<in>| fmdom (gv_levels w)"
    and "fcard (fmdom (gv_edges w)) + length es < 2 ^ 64"
  shows "\<exists>w' m'. fold_opt project_edge (w, m) es = Some (w', m') \<and> view_inv w' \<and> commit_captures v w' m' \<and>
      view_frame w' = view_frame w \<and> gv_blocks w' = gv_blocks w \<and>
      gv_edges w' = fold (\<lambda>e. fmupd (ge_id e) e) es (gv_edges w) \<and> (\<forall>l. gv_level w' l = gv_level w l)"
  using assms
proof (induction es arbitrary: w m)
  case (Cons e es)
  have new: "fmlookup (gv_edges w) (ge_id e) = None" using Cons.prems(4) by simp
  obtain s where s: "fmlookup (gv_levels w) (parent_level e) = Some s"
    using Cons.prems(4)[of e] by (auto simp: fmlookup_dom_iff)
  have room: "fcard (fmdom (gv_edges w)) + 1 < 2 ^ 64" using Cons.prems(5) by simp
  from add_edge_inv[OF Cons.prems(2) new s room] obtain w1 where
    inc: "increment_parent_usage (index_edge (w\<lparr>gv_edges := fmupd (ge_id e) e (gv_edges w)\<rparr>) e) (parent_level e) = Some w1"
    and w1: "view_inv w1" "view_frame w1 = view_frame w" "gv_blocks w1 = gv_blocks w"
      "gv_edges w1 = fmupd (ge_id e) e (gv_edges w)" "\<And>l. gv_level w1 l = gv_level w l"
      "fmdom (gv_levels w1) = fmdom (gv_levels w)"
    by blast
  define m1 where "m1 = capture_edge (gv_edges w) (ge_id e) m"
  have cap: "commit_captures v w1 m1"
    unfolding m1_def capture_edge_def
    by (rule commit_captures_edge[OF Cons.prems(3)]) (simp_all add: w1)
  have step: "project_edge (w, m) e = Some (w1, m1)"
    using new inc by (simp add: project_edge_def m1_def)
  have card: "fcard (fmdom (gv_edges w1)) = fcard (fmdom (gv_edges w)) + 1"
    using new by (simp add: w1(4) fcard_finsert_disjoint fmdom_notI)
  have "\<exists>w' m'. fold_opt project_edge (w1, m1) es = Some (w', m') \<and> view_inv w' \<and> commit_captures v w' m' \<and>
      view_frame w' = view_frame w1 \<and> gv_blocks w' = gv_blocks w1 \<and>
      gv_edges w' = fold (\<lambda>e. fmupd (ge_id e) e) es (gv_edges w1) \<and> (\<forall>l. gv_level w' l = gv_level w1 l)"
  proof (rule Cons.IH)
    show "distinct (map ge_id es)" using Cons.prems(1) by simp
    show "fmlookup (gv_edges w1) (ge_id e') = None \<and> parent_level e' |\<in>| fmdom (gv_levels w1)" if "e' \<in> set es" for e'
      using that Cons.prems(1) Cons.prems(4)[of e'] by (auto simp: w1 image_iff)
    show "fcard (fmdom (gv_edges w1)) + length es < 2 ^ 64" using Cons.prems(5) card by simp
  qed (fact w1 cap)+
  then show ?case using step w1 by auto
qed simp


lemma fmlookup_fold_edges:
  "distinct (map ge_id es) \<Longrightarrow>
   fmlookup (fold (\<lambda>e. fmupd (ge_id e) e) es m) i =
     (case List.find (\<lambda>e. ge_id e = i) es of None \<Rightarrow> fmlookup m i | Some e \<Rightarrow> Some e)"
proof (induction es arbitrary: m)
  case (Cons e es)
  have "List.find (\<lambda>x. ge_id x = ge_id e) es = None"
    using Cons.prems by (force simp: find_None_iff image_iff)
  then show ?case using Cons by (auto split: option.splits)
qed simp

section \<open>Coherent commits\<close>

text \<open>What Storage guarantees of a \<open>BlockCommitted\<close> relative to a view it has not been applied to:
  a fresh hash, distinct parents, one snapshot per touched level (the block's own level and the
  level of every materialized parent), parents strictly below the block, and room for the new edges
  in the 64-bit usage counts.\<close>

definition snapshot_levels :: "block_committed \<Rightarrow> u32 list" where
  "snapshot_levels c = map lc_level (bk_level_snapshots c)"

definition committed_level :: "block_committed \<Rightarrow> u32" where
  "committed_level c = bc_level (bk_coordinate c)"

definition parent_coherent :: "block_committed \<Rightarrow> parent_committed \<Rightarrow> bool" where
  "parent_coherent c p =
     (case pc_coordinate p of None \<Rightarrow> True
      | Some x \<Rightarrow> bc_level x \<in> set (snapshot_levels c) \<and> bc_level x < committed_level c)"

definition commit_coherent :: "graph_view \<Rightarrow> block_committed \<Rightarrow> bool" where
  "commit_coherent v c \<longleftrightarrow>
     fmlookup (gv_blocks v) (bk_hash c) = None \<and>
     fmpred (\<lambda>i _. ei_child i \<noteq> bk_hash c) (gv_edges v) \<and>
     distinct (map pc_hash (bk_direct_parents c)) \<and>
     distinct (snapshot_levels c) \<and>
     committed_level c \<in> set (snapshot_levels c) \<and>
     list_all (\<lambda>l. l \<le> committed_level c) (snapshot_levels c) \<and>
     list_all (parent_coherent c) (bk_direct_parents c) \<and>
     committed_level c \<noteq> 0 \<and>
     fcard (fmdom (gv_edges v)) + length (bk_direct_parents c) < 2 ^ 64 \<and>
     unat (gv_current_revision_id v) + 1 < 2 ^ 64"

lemma set_retained_edges:
  "e \<in> set (retained_edges c extent) \<longleftrightarrow>
     (\<exists>p x. p \<in> set (bk_direct_parents c) \<and> pc_coordinate p = Some x \<and>
        e = \<lparr>ge_id = EdgeId (pc_hash p) (bk_hash c), ge_parent_coordinate = x, ge_child_coordinate = bk_coordinate c\<rparr> \<and>
        intersects_span extent (bc_level x) (committed_level c))"
  by (auto simp: retained_edges_def List.map_filter_def committed_level_def image_iff)

lemma length_retained_edges: "length (retained_edges c extent) \<le> length (bk_direct_parents c)"
  unfolding retained_edges_def List.map_filter_def
  by (rule le_trans[OF length_filter_le]) (simp add: length_filter_le)

lemma distinct_edge_ids:
  assumes "distinct (map pc_hash ps)"
  shows "distinct (map ge_id (filter P (List.map_filter
     (\<lambda>p. map_option (\<lambda>x. \<lparr>ge_id = EdgeId (pc_hash p) h, ge_parent_coordinate = x, ge_child_coordinate = y\<rparr>)
        (pc_coordinate p)) ps)))"
  using assms
proof (induction ps)
  case (Cons p ps)
  have "EdgeId (pc_hash p) h \<notin> ge_id ` set (filter P (List.map_filter
     (\<lambda>p. map_option (\<lambda>x. \<lparr>ge_id = EdgeId (pc_hash p) h, ge_parent_coordinate = x, ge_child_coordinate = y\<rparr>)
        (pc_coordinate p)) ps))"
    using Cons.prems by (auto simp: List.map_filter_def image_iff)
  then show ?case using Cons by (auto simp: List.map_filter_simps split: option.splits)
qed (simp add: List.map_filter_simps)

lemma retained_edges_distinct:
  "distinct (map pc_hash (bk_direct_parents c)) \<Longrightarrow> distinct (map ge_id (retained_edges c extent))"
  unfolding retained_edges_def by (rule distinct_edge_ids)

section \<open>The projection of a committed block\<close>

definition projected_blocks :: "graph_view \<Rightarrow> block_committed \<Rightarrow> level_extent \<Rightarrow> (block_hash, graph_block) fmap" where
  "projected_blocks v c extent =
     (if contains_level extent (committed_level c)
      then fmupd (bk_hash c) (graph_block_from_committed c) (gv_blocks v) else gv_blocks v)"

definition projected_edges :: "graph_view \<Rightarrow> block_committed \<Rightarrow> level_extent \<Rightarrow> (edge_id, graph_edge) fmap" where
  "projected_edges v c extent = fold (\<lambda>e. fmupd (ge_id e) e) (retained_edges c extent) (gv_edges v)"

definition endpoint_levels :: "block_committed \<Rightarrow> level_extent \<Rightarrow> u32 fset" where
  "endpoint_levels c extent =
     fset_of_list (concat (map (\<lambda>e. [parent_level e, child_level e]) (retained_edges c extent)))"

definition projected_level :: "graph_view \<Rightarrow> block_committed \<Rightarrow> level_extent \<Rightarrow> u32 \<Rightarrow> level option" where
  "projected_level v c extent l =
     (case List.find (\<lambda>s. lc_level s = l) (bk_level_snapshots c) of
        None \<Rightarrow> gv_level v l
      | Some s \<Rightarrow> if snap_retained extent (endpoint_levels c extent) (gv_edges v) l
                  then Some (snap_value (gv_level v l) s) else gv_level v l)"

lemma endpoint_snapshot:
  assumes "commit_coherent v c" "e \<in> set (retained_edges c extent)"
  shows "projected_level v c extent (parent_level e) \<noteq> None"
proof -
  have "parent_level e \<in> set (snapshot_levels c)"
    using assms by (auto simp: set_retained_edges commit_coherent_def parent_coherent_def list_all_iff split: option.splits)
  then have "List.find (\<lambda>s. lc_level s = parent_level e) (bk_level_snapshots c) \<noteq> None"
    by (auto simp: find_None_iff snapshot_levels_def)
  moreover have "parent_level e |\<in>| endpoint_levels c extent"
    using assms(2) by (force simp: endpoint_levels_def fset_of_list_elem)
  ultimately show ?thesis by (auto simp: projected_level_def snap_retained_def)
qed

lemma apply_block_projection_spec:
  assumes inv: "view_inv v" and coh: "commit_coherent v c"
  shows "\<exists>w m. apply_block_projection v c extent mutation_default = Some (w, m) \<and>
      view_inv w \<and> commit_captures v w m \<and> view_frame w = view_frame v \<and>
      gv_blocks w = projected_blocks v c extent \<and> gv_edges w = projected_edges v c extent \<and>
      (\<forall>l. gv_level w l = projected_level v c extent l)"
proof -
  let ?b = "graph_block_from_committed c"
  have b: "gb_hash ?b = bk_hash c" "block_level ?b = committed_level c"
    by (simp_all add: graph_block_from_committed_def committed_level_def)
  have fresh: "fmlookup (gv_blocks v) (gb_hash ?b) = None" using coh by (simp add: b commit_coherent_def)
  have "\<exists>w m. (if contains_level extent (block_level ?b)
                     then do { v' \<leftarrow> insert_block v ?b;
                               Some (v', capture_block (gv_blocks v) (gb_hash ?b) mutation_default) }
                     else Some (v, mutation_default)) = Some (w, m) \<and>
      view_inv w \<and> commit_captures v w m \<and> view_frame w = view_frame v \<and>
      gv_blocks w = projected_blocks v c extent \<and> gv_edges w = gv_edges v \<and> gv_levels w = gv_levels v"
  proof (cases "contains_level extent (block_level ?b)")
    case True
    obtain w where w: "insert_block v ?b = Some w" "view_inv w" "view_frame w = view_frame v"
        "gv_blocks w = fmupd (gb_hash ?b) ?b (gv_blocks v)" "gv_edges w = gv_edges v" "gv_levels w = gv_levels v"
      using insert_block_inv[OF inv fresh] by blast
    have "commit_captures v w (capture_block (gv_blocks v) (gb_hash ?b) mutation_default)"
      unfolding capture_block_def
      by (rule commit_captures_block[OF commit_captures_init]) (simp_all add: w gv_level_def)
    then show ?thesis using True w by (simp add: projected_blocks_def b)
  next
    case False
    then show ?thesis using inv commit_captures_init by (simp add: projected_blocks_def b)
  qed
  then obtain v1 m1 where s1: "(if contains_level extent (block_level ?b)
                     then do { v' \<leftarrow> insert_block v ?b;
                               Some (v', capture_block (gv_blocks v) (gb_hash ?b) mutation_default) }
                     else Some (v, mutation_default)) = Some (v1, m1)"
      "view_inv v1" "commit_captures v v1 m1" "view_frame v1 = view_frame v"
      "gv_blocks v1 = projected_blocks v c extent" "gv_edges v1 = gv_edges v" "gv_levels v1 = gv_levels v"
    by blast
  obtain v2 m2 where s2: "fold (project_snapshot extent (endpoint_levels c extent)) (bk_level_snapshots c) (v1, m1) = (v2, m2)"
    by fastforce
  have dist: "distinct (map lc_level (bk_level_snapshots c))" using coh by (simp add: commit_coherent_def snapshot_levels_def)
  note p2 = snapshots_loop[OF dist s1(2,3) s2]
  have lv1: "gv_level v1 = gv_level v" by (rule ext) (simp add: gv_level_def s1(7))
  have lev2: "gv_level v2 l = projected_level v c extent l" for l
    using p2 unfolding projected_level_def s1(6) lv1 by blast
  have "\<exists>w m. fold_opt project_edge (v2, m2) (retained_edges c extent) = Some (w, m) \<and> view_inv w \<and> commit_captures v w m \<and>
      view_frame w = view_frame v2 \<and> gv_blocks w = gv_blocks v2 \<and>
      gv_edges w = fold (\<lambda>e. fmupd (ge_id e) e) (retained_edges c extent) (gv_edges v2) \<and> (\<forall>l. gv_level w l = gv_level v2 l)"
  proof (rule project_edges_loop)
    show "distinct (map ge_id (retained_edges c extent))"
      using coh by (intro retained_edges_distinct) (simp add: commit_coherent_def)
    show "view_inv v2" "commit_captures v v2 m2" using p2 by auto
    fix e assume e: "e \<in> set (retained_edges c extent)"
    have "ei_child (ge_id e) = bk_hash c" using e by (auto simp: set_retained_edges)
    then have "fmlookup (gv_edges v) (ge_id e) = None"
      using coh by (cases "fmlookup (gv_edges v) (ge_id e)") (auto simp: commit_coherent_def fmpred_iff)
    moreover have "parent_level e |\<in>| fmdom (gv_levels v2)"
      using endpoint_snapshot[OF coh e] lev2[of "parent_level e"] by (auto simp: gv_level_def fmlookup_dom_iff)
    ultimately show "fmlookup (gv_edges v2) (ge_id e) = None \<and> parent_level e |\<in>| fmdom (gv_levels v2)"
      using p2 s1 by simp
  next
    show "fcard (fmdom (gv_edges v2)) + length (retained_edges c extent) < 2 ^ 64"
      using p2 s1 coh length_retained_edges[of c extent] by (simp add: commit_coherent_def)
  qed
  then obtain w m where w: "fold_opt project_edge (v2, m2) (retained_edges c extent) = Some (w, m)" "view_inv w"
      "commit_captures v w m" "view_frame w = view_frame v2" "gv_blocks w = gv_blocks v2"
      "gv_edges w = fold (\<lambda>e. fmupd (ge_id e) e) (retained_edges c extent) (gv_edges v2)" "\<And>l. gv_level w l = gv_level v2 l"
    by blast
  have "apply_block_projection v c extent mutation_default = Some (w, m)"
    using s1(1) s2 w(1) by (simp add: apply_block_projection_def Let_def endpoint_levels_def)
  then show ?thesis using w p2 s1 lev2 by (auto simp: projected_edges_def)
qed

end
