(* ===== verification/Graph_Prune.thy ===== *)
theory Graph_Prune
  imports Graph_Commit
begin

text \<open>
  The pruning half of \<open>apply_head_block_committed\<close>: the loops over block buckets, blocks, edges and
  levels, and the three stages they make up. Each stage never panics, keeps the invariant, captures
  what it removes, and retains exactly the blocks at or above the bound, the edges whose child is
  at or above it, and the levels at or above it or still used as a parent endpoint.
\<close>

section \<open>Pruning loops\<close>

text \<open>The library's congruence rule keeps the simplifier from rewriting the map under a filter.\<close>

declare fmfilter_cong [cong del]

lemma fmfilter_drop: "fmfilter (\<lambda>k. k \<notin> insert a S) m = fmfilter (\<lambda>k. k \<notin> S) (fmdrop a m)"
  by (rule fmap_ext) auto

lemma take_levels_loop:
  assumes "distinct ls" "\<And>l. l \<in> set ls \<Longrightarrow> l |\<in>| fmdom (gv_block_hashes_by_level v)"
  shows "fold_opt take_block_level (v, hs) ls =
    Some (v\<lparr>gv_block_hashes_by_level := fmfilter (\<lambda>k. k \<notin> set ls) (gv_block_hashes_by_level v)\<rparr>,
          hs @ concat (map (\<lambda>l. sorted_list_of_fset (bucket (gv_block_hashes_by_level v) l)) ls))"
  using assms
proof (induction ls arbitrary: v hs)
  case (Cons a ls)
  obtain s where s: "fmlookup (gv_block_hashes_by_level v) a = Some s"
    using Cons.prems(2)[of a] by (auto simp: fmlookup_dom_iff)
  have eq: "map (\<lambda>l. sorted_list_of_fset (bucket (fmdrop a (gv_block_hashes_by_level v)) l)) ls =
      map (\<lambda>l. sorted_list_of_fset (bucket (gv_block_hashes_by_level v) l)) ls"
    using Cons.prems(1) by (auto intro!: map_cong)
  define v1 where "v1 = v\<lparr>gv_block_hashes_by_level := fmdrop a (gv_block_hashes_by_level v)\<rparr>"
  have step: "take_block_level (v, hs) a = Some (v1, hs @ sorted_list_of_fset s)"
    by (simp add: take_block_level_def s v1_def)
  have dom: "l |\<in>| fmdom (gv_block_hashes_by_level v1)" if "l \<in> set ls" for l
    using that Cons.prems(1,2) by (auto simp: v1_def)
  have idx: "gv_block_hashes_by_level v1 = fmdrop a (gv_block_hashes_by_level v)" by (simp add: v1_def)
  have "fold_opt take_block_level (v1, hs @ sorted_list_of_fset s) ls =
    Some (v1\<lparr>gv_block_hashes_by_level := fmfilter (\<lambda>k. k \<notin> set ls) (gv_block_hashes_by_level v1)\<rparr>,
          (hs @ sorted_list_of_fset s) @ concat (map (\<lambda>l. sorted_list_of_fset (bucket (gv_block_hashes_by_level v1) l)) ls))"
    using Cons.IH[OF _ dom] Cons.prems(1) by simp
  moreover have "bucket (gv_block_hashes_by_level v) a = s" by (simp add: bucket_def s)
  ultimately show ?case
    using step fmfilter_drop[of a "set ls" "gv_block_hashes_by_level v"] unfolding idx eq by (simp add: v1_def)
qed simp

lemma prune_blocks_loop:
  assumes "distinct hs" "\<And>h. h \<in> set hs \<Longrightarrow> h |\<in>| fmdom (gv_blocks w)" "commit_captures v w m"
  shows "\<exists>m'. fold_opt prune_block (w, m) hs =
      Some (w\<lparr>gv_blocks := fmfilter (\<lambda>h. h \<notin> set hs) (gv_blocks w)\<rparr>, m') \<and>
      commit_captures v (w\<lparr>gv_blocks := fmfilter (\<lambda>h. h \<notin> set hs) (gv_blocks w)\<rparr>) m'"
  using assms
proof (induction hs arbitrary: w m)
  case (Cons a hs)
  obtain b where b: "fmlookup (gv_blocks w) a = Some b" using Cons.prems(2)[of a] by (auto simp: fmlookup_dom_iff)
  let ?w = "w\<lparr>gv_blocks := fmdrop a (gv_blocks w)\<rparr>"
  have "commit_captures v ?w (m\<lparr>gm_blocks := or_insert a (fmlookup (gv_blocks w) a) (gm_blocks m)\<rparr>)"
    by (rule commit_captures_block[OF Cons.prems(3)]) (auto simp: gv_level_def)
  then have cap: "commit_captures v ?w (capture_removed_block a b m)" by (simp add: capture_removed_block_def b)
  have dom: "h |\<in>| fmdom (gv_blocks ?w)" if "h \<in> set hs" for h
    using that Cons.prems(1,2) by auto
  have "prune_block (w, m) a = Some (?w, capture_removed_block a b m)" by (simp add: prune_block_def b)
  then show ?case using Cons.IH[OF _ dom cap] Cons.prems(1) fmfilter_drop[of a "set hs" "gv_blocks w"]
    by auto
qed simp

lemma prune_edges_loop:
  assumes "distinct is" "\<And>i. i \<in> set is \<Longrightarrow> i |\<in>| fmdom (gv_edges w)" "commit_captures v w m" "view_inv w"
  shows "\<exists>w' m'. fold_opt prune_edge (w, m) is = Some (w', m') \<and> view_inv w' \<and> commit_captures v w' m' \<and>
      view_frame w' = view_frame w \<and> gv_blocks w' = gv_blocks w \<and>
      gv_edges w' = fmfilter (\<lambda>i. i \<notin> set is) (gv_edges w) \<and> (\<forall>l. gv_level w' l = gv_level w l)"
  using assms
proof (induction "is" arbitrary: w m)
  case (Cons a "is")
  obtain e where e: "fmlookup (gv_edges w) a = Some e" using Cons.prems(2)[of a] by (auto simp: fmlookup_dom_iff)
  from remove_edge_inv[OF Cons.prems(4) e] obtain w1 where
    dec: "decrement_parent_usage (unindex_edge (w\<lparr>gv_edges := fmdrop a (gv_edges w)\<rparr>) e) (parent_level e) = Some w1"
    and w1: "view_inv w1" "view_frame w1 = view_frame w" "gv_blocks w1 = gv_blocks w"
      "gv_edges w1 = fmdrop a (gv_edges w)" "\<And>l. gv_level w1 l = gv_level w l"
    by blast
  have "commit_captures v w1 (m\<lparr>gm_edges := or_insert a (fmlookup (gv_edges w) a) (gm_edges m)\<rparr>)"
    by (rule commit_captures_edge[OF Cons.prems(3)]) (auto simp: w1)
  then have cap: "commit_captures v w1 (capture_removed_edge a e m)" by (simp add: capture_removed_edge_def e)
  have dom: "i |\<in>| fmdom (gv_edges w1)" if "i \<in> set is" for i
    using that Cons.prems(1,2) by (auto simp: w1)
  have "prune_edge (w, m) a = Some (w1, capture_removed_edge a e m)" using e dec by (simp add: prune_edge_def)
  then show ?case using Cons.IH[OF _ dom cap w1(1)] Cons.prems(1) fmfilter_drop[of a "set is" "gv_edges w"]
    by (auto simp: w1)
qed simp

lemma prune_levels_loop:
  assumes "distinct ls" "\<And>l. l \<in> set ls \<Longrightarrow> \<exists>s. fmlookup (gv_levels w) l = Some s \<and> sl_usage_count s = 0"
    "commit_captures v w m" "view_inv w"
  shows "\<exists>m'. fold_opt prune_level (w, m) ls =
      Some (w\<lparr>gv_levels := fmfilter (\<lambda>l. l \<notin> set ls) (gv_levels w)\<rparr>, m') \<and>
      view_inv (w\<lparr>gv_levels := fmfilter (\<lambda>l. l \<notin> set ls) (gv_levels w)\<rparr>) \<and>
      commit_captures v (w\<lparr>gv_levels := fmfilter (\<lambda>l. l \<notin> set ls) (gv_levels w)\<rparr>) m'"
  using assms
proof (induction ls arbitrary: w m)
  case (Cons a ls)
  obtain s where s: "fmlookup (gv_levels w) a = Some s" "sl_usage_count s = 0" using Cons.prems(2)[of a] by auto
  let ?w = "w\<lparr>gv_levels := fmdrop a (gv_levels w)\<rparr>"
  have "commit_captures v ?w (m\<lparr>gm_levels := or_insert a (gv_level w a) (gm_levels m)\<rparr>)"
    by (rule commit_captures_level[OF Cons.prems(3)]) (auto simp: gv_level_def)
  then have cap: "commit_captures v ?w (capture_removed_level a (sl_value s) m)"
    by (simp add: capture_removed_level_def gv_level_def s)
  have dom: "\<exists>s. fmlookup (gv_levels ?w) l = Some s \<and> sl_usage_count s = 0" if "l \<in> set ls" for l
    using that Cons.prems(1) Cons.prems(2)[of l] by auto
  have step: "prune_level (w, m) a = Some (?w, capture_removed_level a (sl_value s) m)"
    using s by (simp add: prune_level_def)
  show ?case using Cons.IH[OF _ dom cap drop_level_inv[OF Cons.prems(4) s]] Cons.prems(1) step
      fmfilter_drop[of a "set ls" "gv_levels w"]
    by auto
qed simp

section \<open>What is pruned\<close>

lemma distinct_buckets:
  assumes "distinct ls" "\<And>k k' h. k \<noteq> k' \<Longrightarrow> h |\<in>| B k \<Longrightarrow> h |\<notin>| B k'"
  shows "distinct (concat (map (\<lambda>l. sorted_list_of_fset (B l)) ls))"
  using assms(1)
proof (induction ls)
  case (Cons a ls)
  have "h |\<notin>| B a" if "l \<in> set ls" "h |\<in>| B l" for l h
    using that Cons.prems assms(2)[of l a h] by auto
  then show ?case using Cons by (auto simp: sorted_list_of_fset.rep_eq)
qed simp

lemma index_blocks_prune:
  assumes "\<And>h. h \<in> H \<longleftrightarrow> (\<exists>b. fmlookup blocks h = Some b \<and> block_level b \<in> L)"
  shows "fmfilter (\<lambda>k. k \<notin> L) (index_blocks_by_level blocks) = index_blocks_by_level (fmfilter (\<lambda>h. h \<notin> H) blocks)"
proof (rule no_empty_bucket_ext)
  show "no_empty_bucket (fmfilter (\<lambda>k. k \<notin> L) (index_blocks_by_level blocks))"
    using no_empty_index_blocks[of blocks] by (auto simp: no_empty_bucket_def fmpred_iff)
  fix k
  have b: "bucket (fmfilter (\<lambda>k. k \<notin> L) (index_blocks_by_level blocks)) k =
      (if k \<in> L then {||} else bucket (index_blocks_by_level blocks) k)"
    by (simp add: bucket_def)
  show "bucket (fmfilter (\<lambda>k. k \<notin> L) (index_blocks_by_level blocks)) k =
        bucket (index_blocks_by_level (fmfilter (\<lambda>h. h \<notin> H) blocks)) k"
  proof (rule fset_eqI)
    fix h
    show "h |\<in>| bucket (fmfilter (\<lambda>k. k \<notin> L) (index_blocks_by_level blocks)) k \<longleftrightarrow>
        h |\<in>| bucket (index_blocks_by_level (fmfilter (\<lambda>h. h \<notin> H) blocks)) k"
      unfolding b using assms[of h] by (auto simp: bucket_index_blocks)
  qed
qed simp

lemma set_edges_of_children:
  assumes "view_inv v"
  shows "set (edges_of_children v hs) = {i. ei_child i \<in> set hs \<and> i |\<in>| fmdom (gv_edges v)}"
proof -
  have idx: "gv_edge_parents_by_child v = index_edge_parents_by_child (gv_edges v)"
    using assms by (simp add: view_inv_def)
  have "(case fmlookup (gv_edge_parents_by_child v) child of None \<Rightarrow> []
       | Some parents \<Rightarrow> map (\<lambda>parent. EdgeId parent child) (sorted_list_of_fset parents)) =
      map (\<lambda>parent. EdgeId parent child) (sorted_list_of_fset (bucket (gv_edge_parents_by_child v) child))" for child
    by (simp add: bucket_def sorted_list_of_fset.rep_eq split: option.splits)
  then have "set (edges_of_children v hs) =
      {EdgeId p c | p c. c \<in> set hs \<and> p |\<in>| bucket (gv_edge_parents_by_child v) c}"
    by (auto simp: edges_of_children_def sorted_list_of_fset.rep_eq)
  also have "\<dots> = {i. ei_child i \<in> set hs \<and> i |\<in>| fmdom (gv_edges v)}"
    unfolding idx bucket_index_parents by (auto simp: fmlookup_dom_iff) (metis edge_id.collapse)
  finally show ?thesis .
qed

lemma distinct_edges_of_children:
  assumes "distinct hs"
  shows "distinct (edges_of_children v hs)"
  using assms
proof (induction hs)
  case (Cons a hs)
  have "i \<in> set (edges_of_children v hs) \<Longrightarrow> ei_child i \<in> set hs" for i
    by (auto simp: edges_of_children_def split: option.splits)
  then show ?case using Cons
    by (fastforce simp: edges_of_children_def distinct_map inj_on_def sorted_list_of_fset.rep_eq split: option.splits)
qed (simp add: edges_of_children_def)


definition fm_keep :: "('v \<Rightarrow> bool) \<Rightarrow> ('k::linorder, 'v) fmap \<Rightarrow> ('k, 'v) fmap" where
  "fm_keep P m = fm_filter_map (\<lambda>_ x. if P x then Some x else None) m"

lemma fmlookup_fm_keep [simp]:
  "fmlookup (fm_keep P m) k = (case fmlookup m k of None \<Rightarrow> None | Some x \<Rightarrow> if P x then Some x else None)"
  by (simp add: fm_keep_def)

definition children_retained :: "graph_view \<Rightarrow> bool" where
  "children_retained v =
     fmpred (\<lambda>i e. case fmlookup (gv_blocks v) (ei_child i) of
                None \<Rightarrow> False | Some b \<Rightarrow> gb_coordinate b = ge_child_coordinate e) (gv_edges v)"

lemma children_retainedD:
  "children_retained v \<Longrightarrow> fmlookup (gv_edges v) i = Some e \<Longrightarrow>
   \<exists>b. fmlookup (gv_blocks v) (ei_child i) = Some b \<and> gb_coordinate b = ge_child_coordinate e"
  by (auto simp: children_retained_def fmpred_iff dest!: spec[of _ i] split: option.splits)

text \<open>The blocks below the new lower bound, as the block index lists them.\<close>

lemma pruned_blocks_stage:
  assumes inv: "view_inv w" and cap: "commit_captures v w m"
  shows "\<exists>v2 hs v3 m3.
      fold_opt take_block_level (w, [])
        (filter (\<lambda>l. l < low) (sorted_list_of_fset (fmdom (gv_block_hashes_by_level w)))) = Some (v2, hs) \<and>
      fold_opt prune_block (v2, m) hs = Some (v3, m3) \<and> distinct hs \<and>
      (\<forall>h. h \<in> set hs \<longleftrightarrow> (\<exists>b. fmlookup (gv_blocks w) h = Some b \<and> block_level b < low)) \<and>
      view_inv v3 \<and> commit_captures v v3 m3 \<and> view_frame v3 = view_frame w \<and>
      gv_blocks v3 = fm_keep (\<lambda>b. low \<le> block_level b) (gv_blocks w) \<and>
      gv_edges v3 = gv_edges w \<and> gv_levels v3 = gv_levels w"
proof -
  let ?idx = "gv_block_hashes_by_level w"
  let ?ls = "filter (\<lambda>l. l < low) (sorted_list_of_fset (fmdom ?idx))"
  let ?hs = "concat (map (\<lambda>l. sorted_list_of_fset (bucket ?idx l)) ?ls)"
  have idx: "?idx = index_blocks_by_level (gv_blocks w)" using inv by (simp add: view_inv_def)
  have ls: "set ?ls = {l. l < low \<and> l |\<in>| fmdom ?idx}" by (auto simp: sorted_list_of_fset.rep_eq)
  have t: "fold_opt take_block_level (w, []) ?ls =
      Some (w\<lparr>gv_block_hashes_by_level := fmfilter (\<lambda>k. k \<notin> set ?ls) ?idx\<rparr>, [] @ ?hs)"
    by (rule take_levels_loop) (auto simp: sorted_list_of_fset.rep_eq)
  define v2 where "v2 = w\<lparr>gv_block_hashes_by_level := fmfilter (\<lambda>k. k \<notin> set ?ls) ?idx\<rparr>"
  have b: "h |\<in>| bucket ?idx l \<longleftrightarrow> (\<exists>b. fmlookup (gv_blocks w) h = Some b \<and> block_level b = l)" for h l
    by (simp add: idx bucket_index_blocks)
  have bdom: "block_level x |\<in>| fmdom ?idx" if "fmlookup (gv_blocks w) h = Some x" for h x
  proof -
    have "h |\<in>| bucket ?idx (block_level x)" using that b by blast
    then show ?thesis by (auto simp: bucket_def fmlookup_dom_iff split: option.splits)
  qed
  have hs: "h \<in> set ?hs \<longleftrightarrow> (\<exists>b. fmlookup (gv_blocks w) h = Some b \<and> block_level b < low)" for h
    using b bdom by (auto simp: sorted_list_of_fset.rep_eq)
  have dist: "distinct ?hs"
    by (rule distinct_buckets) (auto simp: sorted_list_of_fset.rep_eq b)
  have "\<exists>m'. fold_opt prune_block (v2, m) ?hs =
      Some (v2\<lparr>gv_blocks := fmfilter (\<lambda>h. h \<notin> set ?hs) (gv_blocks v2)\<rparr>, m') \<and>
      commit_captures v (v2\<lparr>gv_blocks := fmfilter (\<lambda>h. h \<notin> set ?hs) (gv_blocks v2)\<rparr>) m'"
  proof (rule prune_blocks_loop[OF dist])
    show "h |\<in>| fmdom (gv_blocks v2)" if "h \<in> set ?hs" for h
      using that hs[of h] by (auto simp: v2_def fmlookup_dom_iff)
    show "commit_captures v v2 m" using cap by (simp add: v2_def)
  qed
  then obtain m3 where m3: "fold_opt prune_block (v2, m) ?hs =
        Some (v2\<lparr>gv_blocks := fmfilter (\<lambda>h. h \<notin> set ?hs) (gv_blocks v2)\<rparr>, m3)"
      "commit_captures v (v2\<lparr>gv_blocks := fmfilter (\<lambda>h. h \<notin> set ?hs) (gv_blocks v2)\<rparr>) m3"
    by blast
  let ?v3 = "v2\<lparr>gv_blocks := fmfilter (\<lambda>h. h \<notin> set ?hs) (gv_blocks v2)\<rparr>"
  have "fmfilter (\<lambda>k. k \<notin> set ?ls) (index_blocks_by_level (gv_blocks w)) =
      index_blocks_by_level (fmfilter (\<lambda>h. h \<notin> set ?hs) (gv_blocks w))"
  proof (rule index_blocks_prune)
    show "h \<in> set ?hs \<longleftrightarrow> (\<exists>b. fmlookup (gv_blocks w) h = Some b \<and> block_level b \<in> set ?ls)" for h
      using hs[of h] b bdom ls by auto
  qed
  then have "view_inv ?v3" using inv by (simp add: view_inv_def v2_def idx)
  moreover have "gv_blocks ?v3 = fm_keep (\<lambda>b. low \<le> block_level b) (gv_blocks w)"
  proof (rule fmap_ext)
    fix h
    show "fmlookup (gv_blocks ?v3) h = fmlookup (fm_keep (\<lambda>b. low \<le> block_level b) (gv_blocks w)) h"
      using hs[of h] by (cases "fmlookup (gv_blocks w) h") (auto simp: v2_def not_le simp del: set_concat set_map)
  qed
  moreover have "view_frame ?v3 = view_frame w" "gv_edges ?v3 = gv_edges w" "gv_levels ?v3 = gv_levels w"
    by (simp_all add: v2_def view_frame_def)
  ultimately show ?thesis
    using t m3 hs dist unfolding v2_def[symmetric] append_Nil by blast
qed

text \<open>Their edges: exactly the edges of a child below the bound.\<close>

lemma pruned_edges_stage:
  assumes inv: "view_inv v3" and cap: "commit_captures v v3 m3" and dist: "distinct hs"
    and hs: "\<And>i e. fmlookup (gv_edges v3) i = Some e \<Longrightarrow> ei_child i \<in> set hs \<longleftrightarrow> child_level e < low"
  shows "\<exists>v4 m4. fold_opt prune_edge (v3, m3) (edges_of_children v3 hs) = Some (v4, m4) \<and>
      view_inv v4 \<and> commit_captures v v4 m4 \<and> view_frame v4 = view_frame v3 \<and> gv_blocks v4 = gv_blocks v3 \<and>
      gv_edges v4 = fm_keep (\<lambda>e. low \<le> child_level e) (gv_edges v3) \<and> (\<forall>l. gv_level v4 l = gv_level v3 l)"
proof -
  let ?is = "edges_of_children v3 hs"
  have "\<exists>v4 m4. fold_opt prune_edge (v3, m3) ?is = Some (v4, m4) \<and> view_inv v4 \<and> commit_captures v v4 m4 \<and>
      view_frame v4 = view_frame v3 \<and> gv_blocks v4 = gv_blocks v3 \<and>
      gv_edges v4 = fmfilter (\<lambda>i. i \<notin> set ?is) (gv_edges v3) \<and> (\<forall>l. gv_level v4 l = gv_level v3 l)"
    by (rule prune_edges_loop[OF distinct_edges_of_children[OF dist] _ cap inv]) (simp add: set_edges_of_children[OF inv])
  moreover have "fmfilter (\<lambda>i. i \<notin> set ?is) (gv_edges v3) = fm_keep (\<lambda>e. low \<le> child_level e) (gv_edges v3)"
  proof (rule fmap_ext)
    fix i
    show "fmlookup (fmfilter (\<lambda>i. i \<notin> set ?is) (gv_edges v3)) i = fmlookup (fm_keep (\<lambda>e. low \<le> child_level e) (gv_edges v3)) i"
      using hs[of i] by (cases "fmlookup (gv_edges v3) i") (auto simp: set_edges_of_children[OF inv] not_le fmlookup_dom_iff)
  qed
  ultimately show ?thesis by simp
qed

text \<open>And the levels below the bound that no retained edge refers to.\<close>

lemma pruned_levels_stage:
  assumes inv: "view_inv v4" and cap: "commit_captures v v4 m4"
  shows "\<exists>v5 m5. fold_opt prune_level (v4, m4)
        (map fst (filter (\<lambda>(l, stored). l < low \<and> sl_usage_count stored = 0) (sorted_list_of_fmap (gv_levels v4)))) = Some (v5, m5) \<and>
      view_inv v5 \<and> commit_captures v v5 m5 \<and> view_frame v5 = view_frame v4 \<and> gv_blocks v5 = gv_blocks v4 \<and>
      gv_edges v5 = gv_edges v4 \<and>
      (\<forall>l. gv_level v5 l = (if low \<le> l \<or> 0 < usage_of (gv_edges v4) l then gv_level v4 l else None))"
proof -
  let ?ls = "map fst (filter (\<lambda>(l, stored). l < low \<and> sl_usage_count stored = 0) (sorted_list_of_fmap (gv_levels v4)))"
  have ls: "l \<in> set ?ls \<longleftrightarrow> (\<exists>s. fmlookup (gv_levels v4) l = Some s \<and> l < low \<and> sl_usage_count s = 0)" for l
    by (force simp: image_iff set_sorted_list_of_fmap)
  have "distinct ?ls" by (simp add: distinct_map_filter)
  from prune_levels_loop[OF this _ cap inv] ls obtain m5 where
    m5: "fold_opt prune_level (v4, m4) ?ls = Some (v4\<lparr>gv_levels := fmfilter (\<lambda>l. l \<notin> set ?ls) (gv_levels v4)\<rparr>, m5)"
      "view_inv (v4\<lparr>gv_levels := fmfilter (\<lambda>l. l \<notin> set ?ls) (gv_levels v4)\<rparr>)"
      "commit_captures v (v4\<lparr>gv_levels := fmfilter (\<lambda>l. l \<notin> set ?ls) (gv_levels v4)\<rparr>) m5"
    by blast
  define v5 where "v5 = v4\<lparr>gv_levels := fmfilter (\<lambda>l. l \<notin> set ?ls) (gv_levels v4)\<rparr>"
  have "gv_level v5 l =
      (if low \<le> l \<or> 0 < usage_of (gv_edges v4) l then gv_level v4 l else None)" for l
  proof (cases "fmlookup (gv_levels v4) l")
    case None
    then show ?thesis by (simp add: gv_level_def v5_def)
  next
    case (Some s)
    have "sl_usage_count s = 0 \<longleftrightarrow> usage_of (gv_edges v4) l = 0"
      using view_inv_usage[OF inv Some] by (simp add: unat_eq_0[symmetric])
    then show ?thesis using Some ls[of l] by (auto simp: gv_level_def v5_def not_le simp del: set_map)
  qed
  moreover have "view_frame v5 = view_frame v4" "gv_blocks v5 = gv_blocks v4" "gv_edges v5 = gv_edges v4"
    by (simp_all add: v5_def view_frame_def)
  ultimately show ?thesis using m5[folded v5_def] by blast
qed

end
