(* ===== verification/Graph_Head.thy ===== *)
theory Graph_Head
  imports Graph_Prune
begin

text \<open>
  \<open>apply_head_block_committed\<close> as a whole. \<open>head_inv\<close> is the invariant of a Head view: a canonical
  extent of at most \<open>max_depth\<close> levels, every retained block inside it, every retained edge ending
  in a retained block, a value for every level of the extent and for every used parent level, and
  nothing else. \<open>head_commit_outcome\<close> gives the outcome of a coherent commit: the retention rule,
  the preserved invariant, and the delta that replays it exactly.
\<close>

section \<open>The invariant of a Head view\<close>

definition head_inv :: "graph_view \<Rightarrow> bool" where
  "head_inv v \<longleftrightarrow>
     view_inv v \<and> gv_tracking_policy v = Head \<and>
     gv_low_level v = head_target_low v (gv_high_level v) \<and>
     fmpred (\<lambda>h b. gb_hash b = h \<and> contains_level (gv_extent v) (block_level b)) (gv_blocks v) \<and>
     children_retained v \<and>
     fmpred (\<lambda>_ e. parent_level e < child_level e) (gv_edges v) \<and>
     fmpred (\<lambda>l s. l \<le> gv_high_level v \<and> (gv_low_level v \<le> l \<or> 0 < sl_usage_count s)) (gv_levels v) \<and>
     list_all (\<lambda>l. l |\<in>| fmdom (gv_levels v)) (extent_levels (gv_extent v))"

lemma head_inv_levels:
  "list_all (\<lambda>l. l |\<in>| fmdom (gv_levels v)) (extent_levels (gv_extent v)) \<longleftrightarrow>
     (\<forall>l. gv_low_level v \<le> l \<and> l \<le> gv_high_level v \<longrightarrow> gv_level v l \<noteq> None)"
  by (auto simp: list_all_iff set_extent_levels contains_level_def gv_low_level_def gv_high_level_def gv_level_def
      fmlookup_dom_iff)

lemma head_inv_used:
  assumes "view_inv v"
  shows "fmpred (\<lambda>l s. l \<le> high \<and> (low \<le> l \<or> 0 < sl_usage_count s)) (gv_levels v) \<longleftrightarrow>
     (\<forall>l. gv_level v l \<noteq> None \<longrightarrow> l \<le> high \<and> (low \<le> l \<or> 0 < usage_of (gv_edges v) l))"
proof -
  have "0 < sl_usage_count s \<longleftrightarrow> 0 < usage_of (gv_edges v) l" if "fmlookup (gv_levels v) l = Some s" for l s
    using view_inv_usage[OF assms that] by (simp add: word_neq_0_conv[symmetric] unat_eq_0[symmetric])
  then show ?thesis by (fastforce simp: fmpred_iff gv_level_def)
qed

lemma head_target_low_mono: "high \<le> high' \<Longrightarrow> head_target_low v high \<le> head_target_low v high'"
  by (auto simp: head_target_low_def word_le_nat_alt max_def unat_saturating_sub)

section \<open>The retention rule\<close>

text \<open>What a Head view retains after a committed block: the extent ends at the larger of the old
  upper level and the block's level, and spans at most \<open>max_depth\<close> levels.\<close>

definition head_high :: "graph_view \<Rightarrow> block_committed \<Rightarrow> u32" where
  "head_high v c = max (gv_high_level v) (committed_level c)"

definition head_extent :: "graph_view \<Rightarrow> block_committed \<Rightarrow> level_extent" where
  "head_extent v c = LevelExtent (head_target_low v (head_high v c)) (head_high v c)"

definition head_blocks :: "graph_view \<Rightarrow> block_committed \<Rightarrow> (block_hash, graph_block) fmap" where
  "head_blocks v c =
     fm_keep (\<lambda>b. low_level (head_extent v c) \<le> block_level b) (projected_blocks v c (head_extent v c))"

definition head_edges :: "graph_view \<Rightarrow> block_committed \<Rightarrow> (edge_id, graph_edge) fmap" where
  "head_edges v c =
     fm_keep (\<lambda>e. low_level (head_extent v c) \<le> child_level e) (projected_edges v c (head_extent v c))"

definition head_level_value :: "graph_view \<Rightarrow> block_committed \<Rightarrow> u32 \<Rightarrow> level option" where
  "head_level_value v c l =
     (if low_level (head_extent v c) \<le> l \<or> 0 < usage_of (head_edges v c) l
      then projected_level v c (head_extent v c) l else None)"

text \<open>The level of a block is one more than that of its highest materialized parent, so a commit
  raises the Head by at most one level.\<close>

definition head_coherent :: "graph_view \<Rightarrow> block_committed \<Rightarrow> bool" where
  "head_coherent v c \<longleftrightarrow>
     commit_coherent v c \<and> unat (committed_level c) \<le> unat (gv_high_level v) + 1"

lemma high_nonzero: "view_inv v \<Longrightarrow> gv_high_level v \<noteq> 0"
  by (auto simp: view_inv_def extent_valid_def gv_high_level_def)

lemma head_extent_ok:
  assumes "view_inv v"
  shows "extent_valid (head_extent v c)"
  unfolding head_extent_def
  by (rule head_extent_valid) (use high_nonzero[OF assms] in \<open>auto simp: head_high_def max_def\<close>)

lemma projected_edges_lookup:
  assumes "commit_coherent v c"
  shows "fmlookup (projected_edges v c extent) i = Some e \<longleftrightarrow>
     fmlookup (gv_edges v) i = Some e \<or> e \<in> set (retained_edges c extent) \<and> ge_id e = i"
proof -
  have dist: "distinct (map ge_id (retained_edges c extent))"
    using assms by (intro retained_edges_distinct) (simp add: commit_coherent_def)
  have fresh: "fmlookup (gv_edges v) (ge_id x) = None" if "x \<in> set (retained_edges c extent)" for x
  proof -
    have "ei_child (ge_id x) = bk_hash c" using that by (auto simp: set_retained_edges)
    then show ?thesis using assms by (cases "fmlookup (gv_edges v) (ge_id x)") (auto simp: commit_coherent_def fmpred_iff)
  qed
  show ?thesis
  proof (cases "List.find (\<lambda>e. ge_id e = i) (retained_edges c extent)")
    case None
    then have "\<not> (\<exists>x \<in> set (retained_edges c extent). ge_id x = i)" by (auto simp: find_None_iff)
    then show ?thesis using fmlookup_fold_edges[OF dist, of "gv_edges v" i] None by (auto simp: projected_edges_def)
  next
    case (Some x)
    then have x: "x \<in> set (retained_edges c extent)" "ge_id x = i" by (auto simp: find_Some_iff)
    then have "e \<in> set (retained_edges c extent) \<and> ge_id e = i \<longleftrightarrow> e = x"
      using dist by (auto simp: distinct_map inj_on_def)
    then show ?thesis using fmlookup_fold_edges[OF dist, of "gv_edges v" i] Some fresh[OF x(1)] x(2)
      by (auto simp: projected_edges_def)
  qed
qed

lemma projected_children:
  assumes inv: "view_inv v" "children_retained v" and coh: "commit_coherent v c"
    and blocks: "gv_blocks w = projected_blocks v c (head_extent v c)"
    and edges: "gv_edges w = projected_edges v c (head_extent v c)"
  shows "children_retained w"
  unfolding children_retained_def fmpred_iff
proof (intro allI impI)
  fix i e assume e: "fmlookup (gv_edges w) i = Some e"
  have fresh: "fmlookup (gv_blocks v) (bk_hash c) = None" using coh by (simp add: commit_coherent_def)
  show "case fmlookup (gv_blocks w) (ei_child i) of None \<Rightarrow> False | Some b \<Rightarrow> gb_coordinate b = ge_child_coordinate e"
  proof (cases "fmlookup (gv_edges v) i = Some e")
    case True
    then obtain b where "fmlookup (gv_blocks v) (ei_child i) = Some b" "gb_coordinate b = ge_child_coordinate e"
      using children_retainedD[OF inv(2)] by blast
    then show ?thesis using fresh by (auto simp: blocks projected_blocks_def)
  next
    case False
    then have e: "e \<in> set (retained_edges c (head_extent v c))" "ge_id e = i"
      using e projected_edges_lookup[OF coh] by (auto simp: edges)
    then have "contains_level (head_extent v c) (committed_level c)"
      by (auto simp: set_retained_edges intersects_span_def contains_level_def head_extent_def head_high_def)
    then show ?thesis using e
      by (auto simp: blocks projected_blocks_def set_retained_edges graph_block_from_committed_def)
  qed
qed


section \<open>Applying a committed block to the Head\<close>

lemma head_commit_stages:
  assumes inv: "head_inv v" and coh: "head_coherent v c"
  shows "\<exists>w m. apply_head_block_committed v c ts =
        (case finish_mutation w m ts of None \<Rightarrow> None | Some (v', d) \<Rightarrow> Some (v', Inr d)) \<and>
      view_inv w \<and> commit_captures v w m \<and>
      view_frame w = (gv_max_depth v, head_extent v c, gv_current_revision_id v,
                      gv_current_revision_timestamp_ms v, Head) \<and>
      gv_blocks w = head_blocks v c \<and> gv_edges w = head_edges v c \<and>
      (\<forall>l. gv_level w l = head_level_value v c l)"
proof -
  let ?ext = "head_extent v c" and ?low = "low_level (head_extent v c)"
  have vi: "view_inv v" and ch: "children_retained v" and pol: "gv_tracking_policy v = Head"
    using inv by (simp_all add: head_inv_def)
  have cc: "commit_coherent v c" using coh by (simp add: head_coherent_def)
  from apply_block_projection_spec[OF vi cc, of ?ext] obtain v1 m1 where
    p1: "apply_block_projection v c ?ext mutation_default = Some (v1, m1)" "view_inv v1" "commit_captures v v1 m1"
      "view_frame v1 = view_frame v" "gv_blocks v1 = projected_blocks v c ?ext" "gv_edges v1 = projected_edges v c ?ext"
      "\<And>l. gv_level v1 l = projected_level v c ?ext l"
    by blast
  from pruned_blocks_stage[OF p1(2,3), of ?low] obtain v2 hs v3 m3 where
    p3: "fold_opt take_block_level (v1, [])
        (filter (\<lambda>l. l < ?low) (sorted_list_of_fset (fmdom (gv_block_hashes_by_level v1)))) = Some (v2, hs)"
      "fold_opt prune_block (v2, m1) hs = Some (v3, m3)" "distinct hs"
      "\<And>h. h \<in> set hs \<longleftrightarrow> (\<exists>b. fmlookup (gv_blocks v1) h = Some b \<and> block_level b < ?low)"
      "view_inv v3" "commit_captures v v3 m3" "view_frame v3 = view_frame v1"
      "gv_blocks v3 = fm_keep (\<lambda>b. ?low \<le> block_level b) (gv_blocks v1)"
      "gv_edges v3 = gv_edges v1" "gv_levels v3 = gv_levels v1"
    by blast
  have ch1: "children_retained v1" by (rule projected_children[OF vi ch cc p1(5,6)])
  have "ei_child i \<in> set hs \<longleftrightarrow> child_level e < ?low" if "fmlookup (gv_edges v3) i = Some e" for i e
    using children_retainedD[OF ch1, of i e] that p3(4,9) by auto
  from pruned_edges_stage[OF p3(5,6,3) this] obtain v4 m4 where
    p4: "fold_opt prune_edge (v3, m3) (edges_of_children v3 hs) = Some (v4, m4)" "view_inv v4" "commit_captures v v4 m4"
      "view_frame v4 = view_frame v3" "gv_blocks v4 = gv_blocks v3"
      "gv_edges v4 = fm_keep (\<lambda>e. ?low \<le> child_level e) (gv_edges v3)" "\<And>l. gv_level v4 l = gv_level v3 l"
    by blast
  from pruned_levels_stage[OF p4(2,3), of ?low] obtain v5 m5 where
    p5: "fold_opt prune_level (v4, m4)
        (map fst (filter (\<lambda>(l, stored). l < ?low \<and> sl_usage_count stored = 0) (sorted_list_of_fmap (gv_levels v4)))) = Some (v5, m5)"
      "view_inv v5" "commit_captures v v5 m5" "view_frame v5 = view_frame v4" "gv_blocks v5 = gv_blocks v4"
      "gv_edges v5 = gv_edges v4"
      "\<And>l. gv_level v5 l = (if ?low \<le> l \<or> 0 < usage_of (gv_edges v4) l then gv_level v4 l else None)"
    by blast
  let ?w = "v5\<lparr>gv_extent := ?ext\<rparr>"
  have low: "?low = head_target_low v (max (gv_high_level v) (bc_level (bk_coordinate c)))"
    by (simp add: head_extent_def head_high_def committed_level_def)
  have new: "level_extent_new ?low (max (gv_high_level v) (bc_level (bk_coordinate c))) = Inr ?ext"
    using head_extent_ok[OF vi, of c] by (simp add: head_extent_def head_high_def committed_level_def)
  have "apply_head_block_committed v c ts =
        (case finish_mutation ?w m5 ts of None \<Rightarrow> None | Some (v', d) \<Rightarrow> Some (v', Inr d))"
    unfolding apply_head_block_committed_def Let_def low[symmetric] new
    using pol p1(1) p3(1,2) p4(1) p5(1) by (simp split: option.splits)
  moreover have "view_inv ?w" using p5(2) head_extent_ok[OF vi, of c] by (simp add: view_inv_def)
  moreover have "commit_captures v ?w m5" using p5(3) by simp
  moreover have "view_frame ?w = (gv_max_depth v, ?ext, gv_current_revision_id v, gv_current_revision_timestamp_ms v, Head)"
    using p1(4) p3(7) p4(4) p5(4) pol by (simp add: view_frame_def)
  moreover have "gv_blocks ?w = head_blocks v c" by (simp add: head_blocks_def p5(5) p4(5) p3(8) p1(5))
  moreover have E: "gv_edges v4 = head_edges v c" by (simp add: head_edges_def p4(6) p3(9) p1(6))
  moreover have "gv_level ?w l = head_level_value v c l" for l
  proof -
    have "gv_level ?w l = gv_level v5 l" by (simp add: gv_level_def)
    also have "gv_level v4 l = projected_level v c ?ext l"
      using p4(7)[of l] p1(7)[of l] by (simp add: gv_level_def[of v3] gv_level_def[of v1] p3(10))
    ultimately show ?thesis by (simp add: head_level_value_def p5(7) E)
  qed
  ultimately show ?thesis using p5(6) by (intro exI[of _ ?w] exI[of _ m5]) simp
qed


lemma projected_level_SomeI: "gv_level v l \<noteq> None \<Longrightarrow> projected_level v c extent l \<noteq> None"
  by (auto simp: projected_level_def split: option.splits)

lemma projected_level_bound:
  assumes "commit_coherent v c" "projected_level v c extent l \<noteq> None"
  shows "gv_level v l \<noteq> None \<or> l \<le> committed_level c"
  using assms
  by (auto simp: projected_level_def commit_coherent_def list_all_iff snapshot_levels_def find_Some_iff
      split: option.splits if_splits)

lemma projected_level_own:
  assumes "commit_coherent v c" "contains_level extent (committed_level c)"
  shows "projected_level v c extent (committed_level c) \<noteq> None"
proof -
  have "List.find (\<lambda>s. lc_level s = committed_level c) (bk_level_snapshots c) \<noteq> None"
    using assms(1) by (auto simp: find_None_iff commit_coherent_def snapshot_levels_def)
  then show ?thesis using assms(2) by (auto simp: projected_level_def snap_retained_def)
qed

lemma head_commit_levels:
  assumes inv: "head_inv v" and coh: "head_coherent v c"
  shows "low_level (head_extent v c) \<le> l \<Longrightarrow> l \<le> head_high v c \<Longrightarrow> head_level_value v c l \<noteq> None"
    and "head_level_value v c l \<noteq> None \<Longrightarrow>
      l \<le> head_high v c \<and> (low_level (head_extent v c) \<le> l \<or> 0 < usage_of (head_edges v c) l)"
proof -
  let ?low = "low_level (head_extent v c)"
  have vi: "view_inv v" and low: "gv_low_level v = head_target_low v (gv_high_level v)"
    and used: "\<And>l. gv_level v l \<noteq> None \<Longrightarrow> l \<le> gv_high_level v"
    and full: "\<And>l. gv_low_level v \<le> l \<Longrightarrow> l \<le> gv_high_level v \<Longrightarrow> gv_level v l \<noteq> None"
    using inv head_inv_used[of v] head_inv_levels[of v] by (auto simp: head_inv_def)
  have cc: "commit_coherent v c" and next_level: "unat (committed_level c) \<le> unat (gv_high_level v) + 1"
    using coh by (simp_all add: head_coherent_def)
  have mono: "gv_low_level v \<le> ?low"
    unfolding low by (simp add: head_extent_def head_high_def head_target_low_mono)
  show "head_level_value v c l \<noteq> None" if l: "?low \<le> l" "l \<le> head_high v c"
  proof (cases "l \<le> gv_high_level v")
    case True
    then have "gv_level v l \<noteq> None" using full[of l] mono l(1) by simp
    then show ?thesis using l(1) projected_level_SomeI by (simp add: head_level_value_def)
  next
    case False
    then have "l = committed_level c"
      using l(2) next_level by (auto simp: head_high_def max_def word_le_nat_alt word_unat_eq_iff split: if_splits)
    moreover from this have "contains_level (head_extent v c) (committed_level c)"
      using l by (simp add: contains_level_def head_extent_def)
    ultimately show ?thesis using projected_level_own[OF cc] l(1) by (simp add: head_level_value_def)
  qed
  show "l \<le> head_high v c \<and> (?low \<le> l \<or> 0 < usage_of (head_edges v c) l)" if "head_level_value v c l \<noteq> None"
    using that projected_level_bound[OF cc, of "head_extent v c" l] used[of l]
    by (auto simp: head_level_value_def head_high_def le_max_iff_disj split: if_splits)
qed

lemma head_inv_result:
  assumes inv: "head_inv v" and coh: "head_coherent v c" and w: "view_inv w"
    and pol: "gv_tracking_policy w = Head" "gv_max_depth w = gv_max_depth v" "gv_extent w = head_extent v c"
    and blocks: "gv_blocks w = head_blocks v c" and edges: "gv_edges w = head_edges v c"
    and levels: "\<And>l. gv_level w l = head_level_value v c l"
  shows "head_inv w"
proof -
  let ?low = "low_level (head_extent v c)"
  have cc: "commit_coherent v c" using coh by (simp add: head_coherent_def)
  have ext: "gv_low_level w = ?low" "gv_high_level w = head_high v c"
    by (simp_all add: gv_low_level_def gv_high_level_def pol head_extent_def)
  have "gv_low_level w = head_target_low w (gv_high_level w)"
    unfolding ext by (simp add: head_extent_def head_target_low_def pol)
  moreover have "gb_hash b = h \<and> contains_level (gv_extent w) (block_level b)" if "fmlookup (gv_blocks w) h = Some b" for h b
  proof -
    have pb: "fmlookup (projected_blocks v c (head_extent v c)) h = Some b" and b: "?low \<le> block_level b"
      using that by (auto simp: blocks head_blocks_def split: option.splits if_splits)
    have "fmlookup (gv_blocks v) h = Some b \<or> h = bk_hash c \<and> b = graph_block_from_committed c"
      using pb unfolding projected_blocks_def by (simp split: if_splits)
    then consider "fmlookup (gv_blocks v) h = Some b" | "h = bk_hash c" "b = graph_block_from_committed c"
      by blast
    then have "gb_hash b = h \<and> block_level b \<le> head_high v c"
    proof cases
      case 1
      then have "gb_hash b = h" "block_level b \<le> gv_high_level v"
        using inv by (auto simp: head_inv_def fmpred_iff contains_level_def gv_high_level_def)
      then show ?thesis by (auto simp: head_high_def le_max_iff_disj)
    next
      case 2
      then show ?thesis by (simp add: graph_block_from_committed_def head_high_def committed_level_def)
    qed
    then show ?thesis using b by (simp add: contains_level_def pol head_extent_def)
  qed
  moreover have "children_retained w"
  proof -
    let ?x = "v\<lparr>gv_blocks := projected_blocks v c (head_extent v c), gv_edges := projected_edges v c (head_extent v c)\<rparr>"
    have "children_retained ?x"
      by (rule projected_children[OF _ _ cc]) (use inv in \<open>simp_all add: head_inv_def\<close>)
    from children_retainedD[OF this] show ?thesis
      by (fastforce simp: children_retained_def fmpred_iff blocks edges head_blocks_def head_edges_def
          split: option.splits if_splits)
  qed
  moreover have "parent_level e < child_level e" if e: "fmlookup (gv_edges w) i = Some e" for i e
  proof -
    have "fmlookup (gv_edges v) i = Some e \<or> e \<in> set (retained_edges c (head_extent v c))"
      using e projected_edges_lookup[OF cc] by (auto simp: edges head_edges_def split: option.splits if_splits)
    then show ?thesis
      using inv cc by (auto simp: head_inv_def fmpred_iff set_retained_edges commit_coherent_def list_all_iff
          parent_coherent_def committed_level_def split: option.splits)
  qed
  ultimately show ?thesis
    using w pol(1) head_commit_levels[OF inv coh] head_inv_levels[of w] head_inv_used[OF w]
    by (simp add: head_inv_def fmpred_iff levels ext edges)
qed

lemma fcard_projected_edges:
  assumes coh: "commit_coherent v c"
  shows "fcard (fmdom (projected_edges v c extent)) < 2 ^ 64"
proof -
  let ?R = "ge_id ` set (retained_edges c extent)"
  have "fmdom' (projected_edges v c extent) \<subseteq> fmdom' (gv_edges v) \<union> ?R"
    using projected_edges_lookup[OF coh] by (auto simp: fmlookup_dom'_iff)
  then have "card (fmdom' (projected_edges v c extent)) \<le> card (fmdom' (gv_edges v) \<union> ?R)"
    by (intro card_mono) auto
  also have "\<dots> \<le> card (fmdom' (gv_edges v)) + card ?R" by (rule card_Un_le)
  also have "card ?R \<le> length (bk_direct_parents c)"
    using length_retained_edges[of c extent] card_length[of "map ge_id (retained_edges c extent)"] by simp
  finally show ?thesis using coh by (simp add: commit_coherent_def fcard.rep_eq fmdom'_alt_def)
qed

lemma fcard_head_edges:
  assumes coh: "commit_coherent v c"
  shows "fcard (fmdom (head_edges v c)) < 2 ^ 64"
proof -
  have "fmdom (head_edges v c) |\<subseteq>| fmdom (projected_edges v c (head_extent v c))"
    by (auto simp: head_edges_def fmlookup_dom_iff split: option.splits if_splits)
  from fcard_mono[OF this] show ?thesis using fcard_projected_edges[OF coh, of "head_extent v c"] by simp
qed

text \<open>The outcome of a coherent commit: no panic, the declared graph, the invariant, and either an
  exact delta to the next revision or an unchanged view.\<close>

lemma head_commit_outcome:
  assumes inv: "head_inv v" and coh: "head_coherent v c"
  shows "\<exists>v' d. apply_head_block_committed v c ts = Some (v', Inr d) \<and> head_inv v' \<and>
      gv_max_depth v' = gv_max_depth v \<and> gv_extent v' = head_extent v c \<and>
      gv_blocks v' = head_blocks v c \<and> gv_edges v' = head_edges v c \<and>
      (\<forall>l. gv_level v' l = head_level_value v c l) \<and>
      (case d of
         None \<Rightarrow> v' = v
       | Some delta \<Rightarrow> apply_delta v delta = Some (v', Inr ()) \<and> delta_steps v delta \<and>
           gd_from_revision_id delta = gv_current_revision_id v \<and>
           gd_to_revision_id delta = gv_current_revision_id v + 1 \<and> gd_head_level delta = gv_high_level v' \<and>
           gv_current_revision_id v' = gv_current_revision_id v + 1 \<and> gv_current_revision_timestamp_ms v' = ts)"
proof -
  have vi: "view_inv v" and pol: "gv_tracking_policy v = Head" using inv by (simp_all add: head_inv_def)
  have cc: "commit_coherent v c" using coh by (simp add: head_coherent_def)
  have rev: "unat (gv_current_revision_id v) + 1 < 2 ^ 64" using cc by (simp add: commit_coherent_def)
  from head_commit_stages[OF inv coh, of ts] obtain w m where
    run: "apply_head_block_committed v c ts =
        (case finish_mutation w m ts of None \<Rightarrow> None | Some (v', d) \<Rightarrow> Some (v', Inr d))"
    and w: "view_inv w" "commit_captures v w m"
      "view_frame w = (gv_max_depth v, head_extent v c, gv_current_revision_id v, gv_current_revision_timestamp_ms v, Head)"
      "gv_blocks w = head_blocks v c" "gv_edges w = head_edges v c" "\<And>l. gv_level w l = head_level_value v c l"
    by blast
  have fr: "gv_max_depth w = gv_max_depth v" "gv_extent w = head_extent v c" "gv_tracking_policy w = Head"
      "gv_current_revision_id w = gv_current_revision_id v"
      "gv_current_revision_timestamp_ms w = gv_current_revision_timestamp_ms v"
    using w(3) by (simp_all add: view_frame_def)
  have hw: "head_inv w" by (rule head_inv_result[OF inv coh w(1)]) (simp_all add: fr w)
  have cap: "mutation_captures v w m" by (rule commit_captures_sound[OF w(2)])
  have high: "gv_high_level w = head_high v c" by (simp add: gv_high_level_def fr head_extent_def)
  show ?thesis
  proof (cases "changes_empty (mutation_finish m w)")
    case True
    then have fin: "finish_mutation w m ts = Some (w, None)"
      using finish_mutation_total[OF w(1), of m ts] rev fr by simp
    have lv: "gv_level w l = gv_level v l" for l
      using changes_empty_same(3)[OF cap True] by (metis fmlookup_level_values)
    have "committed_level c \<le> gv_high_level v"
    proof (rule ccontr)
      assume "\<not> committed_level c \<le> gv_high_level v"
      then have c: "committed_level c = head_high v c" by (auto simp: head_high_def max_def)
      have "low_level (head_extent v c) \<le> head_high v c"
        using head_extent_ok[OF vi, of c] by (simp add: extent_valid_def head_extent_def)
      then have "gv_level w (committed_level c) \<noteq> None"
        using head_commit_levels(1)[OF inv coh, of "committed_level c"] c by (simp add: w(6))
      then show False
        using inv head_inv_used[OF vi] \<open>\<not> committed_level c \<le> gv_high_level v\<close> by (auto simp: lv head_inv_def)
    qed
    then have "head_high v c = gv_high_level v" by (auto simp: head_high_def max_def)
    then have "head_extent v c = gv_extent v"
      using inv by (cases "gv_extent v") (simp add: head_extent_def head_inv_def gv_low_level_def gv_high_level_def)
    then have "w = v"
      using changes_empty_same(1,2)[OF cap True] lv fr pol by (intro view_inv_ext w(1) vi) (simp_all add: view_frame_def)
    then show ?thesis using run fin w fr hw by auto
  next
    case False
    let ?d = "delta_of w m ts" and ?v' = "advanced w ts"
    have fin: "finish_mutation w m ts = Some (?v', Some ?d)"
      using finish_mutation_total[OF w(1), of m ts] rev fr False by simp
    have "apply_delta v ?d = Some (?v', Inr ())"
      by (rule finish_replay[OF vi _ w(1) cap _ rev fr(1,4) _ _ fin])
         (use pol fr w fcard_head_edges[OF cc] in \<open>simp_all add: high\<close>, simp add: head_extent_def)
    moreover have "delta_steps v ?d"
      by (rule delta_of_steps[OF cap w(1) _ rev fr(4)]) (use w fcard_head_edges[OF cc] in simp)
    moreover have "head_inv ?v'"
      by (rule head_inv_result[OF inv coh])
         (use w fr in \<open>simp_all add: advanced_def view_inv_def gv_level_def\<close>)
    ultimately show ?thesis using run fin w fr
      by (simp add: delta_of_def Let_def advanced_def gv_level_def gv_high_level_def)
  qed
qed

end
