(* ===== verification/Graph_Vspc.thy ===== *)
theory Graph_Vspc
  imports Graph_Head
begin

text \<open>
  VSPC transitions on Head and Fixed views, and committed blocks on Fixed views. Every step of
  \<open>apply_vspc_projection\<close> touches only the two VSPC fields and level values and captures them first;
  the written values have a closed form (\<open>vspc_stages_writes\<close>), and the produced delta replays the
  transition exactly on both kinds of view.
\<close>

section \<open>Steps of a VSPC projection\<close>

text \<open>A VSPC transition only touches the two VSPC fields of retained blocks and the values of
  retained levels.\<close>

definition vspc_ok :: "graph_view \<Rightarrow> graph_view \<times> graph_mutation \<Rightarrow> bool" where
  "vspc_ok v s \<longleftrightarrow>
     (let (w, m) = s
      in view_inv w \<and> view_frame w = view_frame v \<and> gv_edges w = gv_edges v \<and>
         fmdom (gv_levels w) = fmdom (gv_levels v) \<and> gm_blocks m = fmempty \<and> gm_edges m = fmempty \<and>
         mutation_captures v w m)"

lemma vspc_ok_init: "view_inv v \<Longrightarrow> vspc_ok v (v, mutation_default)"
  by (simp add: vspc_ok_def mutation_captures_init) (simp add: mutation_default_def)

lemma field_captured_insert:
  "field_captured f b0 b x \<Longrightarrow> field_captured f b0 b' (Some (case x of None \<Rightarrow> f b | Some y \<Rightarrow> y))"
  by (auto simp: field_captured_def split: option.splits)

lemma field_captured_same:
  "field_captured f b0 b x \<Longrightarrow> f b' = f b \<Longrightarrow> field_captured f b0 b' x"
  by (auto simp: field_captured_def split: option.splits)

lemma view_inv_fields:
  assumes "view_inv w" "fmlookup (gv_blocks w) h = Some b" "gb_coordinate b' = gb_coordinate b"
  shows "view_inv (w\<lparr>gv_blocks := fmupd h b' (gv_blocks w)\<rparr>)"
proof -
  have "index_blocks_by_level (fmupd h b' (gv_blocks w)) = index_blocks_by_level (gv_blocks w)"
    by (rule index_blocks_cong) (use assms(2,3) in auto)
  then show ?thesis using assms(1) by (simp add: view_inv_def)
qed

lemma block_captured_unfold:
  "gm_blocks m = fmempty \<Longrightarrow> block_captured m h (Some b0) (Some a) \<longleftrightarrow>
     a = b0\<lparr>gb_is_in_vspc := gb_is_in_vspc a, gb_color := gb_color a\<rparr> \<and>
     field_captured gb_is_in_vspc b0 a (fmlookup (gm_is_in_vspc m) h) \<and>
     field_captured gb_color b0 a (fmlookup (gm_colors m) h)"
  by (simp add: block_captured_def)

text \<open>One retained block changes its VSPC fields, each changed field captured first.\<close>

lemma vspc_field_step:
  assumes ok: "vspc_ok v (w, m)" and b: "fmlookup (gv_blocks w) h = Some b"
    and b': "b' = b\<lparr>gb_is_in_vspc := x, gb_color := y\<rparr>"
    and m': "gm_blocks m' = fmempty" "gm_edges m' = fmempty" "gm_levels m' = gm_levels m"
    and vspc: "gm_is_in_vspc m' = or_insert h (gb_is_in_vspc b) (gm_is_in_vspc m) \<or>
      gm_is_in_vspc m' = gm_is_in_vspc m \<and> x = gb_is_in_vspc b"
    and color: "gm_colors m' = or_insert h (gb_color b) (gm_colors m) \<or> gm_colors m' = gm_colors m \<and> y = gb_color b"
  shows "vspc_ok v (w\<lparr>gv_blocks := fmupd h b' (gv_blocks w)\<rparr>, m')"
proof -
  let ?w = "w\<lparr>gv_blocks := fmupd h b' (gv_blocks w)\<rparr>"
  have w: "view_inv w" "mutation_captures v w m" "gm_blocks m = fmempty" using ok by (auto simp: vspc_ok_def)
  have "block_captured m' k (fmlookup (gv_blocks v) k) (fmlookup (gv_blocks ?w) k)" for k
  proof (cases "k = h")
    case True
    have c: "block_captured m h (fmlookup (gv_blocks v) h) (Some b)" using w(2) b by (metis mutation_captures_def)
    then obtain b0 where b0: "fmlookup (gv_blocks v) h = Some b0"
      using w(3) by (cases "fmlookup (gv_blocks v) h") (auto simp: block_captured_def)
    then have f: "b = b0\<lparr>gb_is_in_vspc := gb_is_in_vspc b, gb_color := gb_color b\<rparr>"
        "field_captured gb_is_in_vspc b0 b (fmlookup (gm_is_in_vspc m) h)"
        "field_captured gb_color b0 b (fmlookup (gm_colors m) h)"
      using c block_captured_unfold[OF w(3)] by auto
    have "b' = b0\<lparr>gb_is_in_vspc := gb_is_in_vspc b', gb_color := gb_color b'\<rparr>"
      unfolding b' by (subst f(1)) simp
    moreover have "field_captured gb_is_in_vspc b0 b' (fmlookup (gm_is_in_vspc m') h)"
      using vspc field_captured_insert[OF f(2)] field_captured_same[OF f(2)] by (auto simp: b' split: option.splits)
    moreover have "field_captured gb_color b0 b' (fmlookup (gm_colors m') h)"
      using color field_captured_insert[OF f(3)] field_captured_same[OF f(3)] by (auto simp: b' split: option.splits)
    ultimately show ?thesis using True b0 block_captured_unfold[OF m'(1)] by simp
  next
    case False
    then have "fmlookup (gm_is_in_vspc m') k = fmlookup (gm_is_in_vspc m) k"
        "fmlookup (gm_colors m') k = fmlookup (gm_colors m) k"
      using vspc color by auto
    moreover have "block_captured m k (fmlookup (gv_blocks v) k) (fmlookup (gv_blocks w) k)"
      using w(2) by (simp add: mutation_captures_def)
    ultimately show ?thesis using False w(3) m'(1) by (auto simp: block_captured_def split: option.splits)
  qed
  moreover have "gv_level ?w = gv_level w" by (rule ext) (simp add: gv_level_def)
  moreover have "view_inv ?w" by (rule view_inv_fields[OF w(1) b]) (simp add: b')
  ultimately show ?thesis
    using ok m' by (simp add: vspc_ok_def mutation_captures_def view_frame_def captures_init)
qed

lemma vspc_remove_step_ok:
  assumes ok: "vspc_ok v s"
  shows "vspc_ok v (vspc_remove_step h s)"
proof (cases s)
  case (Pair w m)
  show ?thesis
  proof (cases "fmlookup (gv_blocks w) h")
    case (Some b)
    have "vspc_ok v (w\<lparr>gv_blocks := fmupd h (b\<lparr>gb_is_in_vspc := False, gb_color := Gray\<rparr>) (gv_blocks w)\<rparr>,
        capture_color h (gb_color b) (capture_membership h (gb_is_in_vspc b) m))"
      by (rule vspc_field_step[OF ok[unfolded Pair] Some refl])
         (use ok Pair in \<open>simp_all add: capture_color_def capture_membership_def vspc_ok_def\<close>)
    then show ?thesis using Some Pair by (simp add: vspc_remove_step_def update_block_def)
  qed (use ok Pair in \<open>simp add: vspc_remove_step_def\<close>)
qed

lemma vspc_add_step_ok:
  assumes ok: "vspc_ok v s"
  shows "vspc_ok v (vspc_add_step h s)"
proof (cases s)
  case (Pair w m)
  show ?thesis
  proof (cases "fmlookup (gv_blocks w) h")
    case (Some b)
    have "b\<lparr>gb_is_in_vspc := True\<rparr> = b\<lparr>gb_is_in_vspc := True, gb_color := gb_color b\<rparr>" by simp
    then have "vspc_ok v (w\<lparr>gv_blocks := fmupd h (b\<lparr>gb_is_in_vspc := True\<rparr>) (gv_blocks w)\<rparr>,
        capture_membership h (gb_is_in_vspc b) m)"
      by (rule vspc_field_step[OF ok[unfolded Pair] Some])
         (use ok Pair in \<open>simp_all add: capture_membership_def vspc_ok_def\<close>)
    then show ?thesis using Some Pair by (simp add: vspc_add_step_def update_block_def)
  qed (use ok Pair in \<open>simp add: vspc_add_step_def\<close>)
qed

lemma vspc_color_step_ok:
  assumes ok: "vspc_ok v s"
  shows "vspc_ok v (vspc_color_step color h s)"
proof (cases s)
  case (Pair w m)
  show ?thesis
  proof (cases "fmlookup (gv_blocks w) h")
    case (Some b)
    have "b\<lparr>gb_color := color\<rparr> = b\<lparr>gb_is_in_vspc := gb_is_in_vspc b, gb_color := color\<rparr>" by simp
    then have "vspc_ok v (w\<lparr>gv_blocks := fmupd h (b\<lparr>gb_color := color\<rparr>) (gv_blocks w)\<rparr>, capture_color h (gb_color b) m)"
      by (rule vspc_field_step[OF ok[unfolded Pair] Some])
         (use ok Pair in \<open>simp_all add: capture_color_def vspc_ok_def\<close>)
    then show ?thesis using Some Pair by (simp add: vspc_color_step_def update_block_def)
  qed (use ok Pair in \<open>simp add: vspc_color_step_def\<close>)
qed

lemma block_captured_levels [simp]: "block_captured (m\<lparr>gm_levels := x\<rparr>) h a b = block_captured m h a b"
  by (simp add: block_captured_def cong: option.case_cong)

lemma vspc_level_step_ok:
  assumes ok: "vspc_ok v s"
  shows "vspc_ok v (vspc_level_step sn s)"
proof (cases s)
  case (Pair w m)
  let ?l = "lc_level sn"
  show ?thesis
  proof (cases "fmlookup (gv_levels w) ?l")
    case (Some st)
    let ?st = "st\<lparr>sl_value := (sl_value st)\<lparr>lv_daa_score := lc_daa_score sn\<rparr>\<rparr>"
    let ?w = "w\<lparr>gv_levels := fmupd ?l ?st (gv_levels w)\<rparr>"
    have w: "view_inv w" "mutation_captures v w m" using ok Pair by (auto simp: vspc_ok_def)
    have "captures (gv_level v) (gv_level ?w) (or_insert ?l (gv_level w ?l) (gm_levels m))"
      by (rule captures_step[of _ "gv_level w"]) (use w(2) in \<open>simp_all add: mutation_captures_def gv_level_def\<close>)
    then have "mutation_captures v ?w (capture_level_value ?l (sl_value st) m)"
      using w(2) Some by (simp add: mutation_captures_def capture_level_value_def gv_level_def[of w])
    moreover have "view_inv ?w"
      using w(1) view_inv_usage[OF w(1) Some]
      by (auto simp: view_inv_def intro!: usage_exact_upd_level parents_retained_upd_level)
    moreover have "fmdom (gv_levels ?w) = fmdom (gv_levels w)" using Some by (auto simp: fmlookup_dom_iff)
    ultimately have "vspc_ok v (?w, capture_level_value ?l (sl_value st) m)"
      using ok Pair by (simp add: vspc_ok_def view_frame_def capture_level_value_def)
    then show ?thesis using Some Pair by (simp add: vspc_level_step_def)
  qed (use ok Pair in \<open>simp add: vspc_level_step_def\<close>)
qed

text \<open>An invariant of every step is an invariant of the loop.\<close>

lemma fold_step_invariant:
  assumes "P s" "\<And>x s. P s \<Longrightarrow> P (f x s)"
  shows "P (fold f xs s)"
  using assms(1) by (induction xs arbitrary: s) (auto intro: assms(2))

lemma vspc_metadata_step_ok: "vspc_ok v s \<Longrightarrow> vspc_ok v (vspc_metadata_step md s)"
  unfolding vspc_metadata_step_def
  by (intro fold_step_invariant[where P = "vspc_ok v"] vspc_color_step_ok)

lemma vspc_stages_ok:
  assumes "view_inv v"
  shows "vspc_ok v (fold vspc_level_step snaps (fold vspc_metadata_step mds
           (fold vspc_add_step added (fold vspc_remove_step removed (v, mutation_default)))))"
  by (intro fold_step_invariant[where P = "vspc_ok v"] vspc_level_step_ok vspc_metadata_step_ok vspc_add_step_ok
      vspc_remove_step_ok vspc_ok_init assms)


section \<open>The outcome of a VSPC projection\<close>

definition vspc_stages ::
  "graph_view \<Rightarrow> vspc_committed \<Rightarrow> vspc_projection_metadata list \<Rightarrow> graph_view \<times> graph_mutation" where
  "vspc_stages v c mds =
     fold vspc_level_step (vc_level_snapshots c) (fold vspc_metadata_step mds
       (fold vspc_add_step (vc_added c) (fold vspc_remove_step (vc_removed c) (v, mutation_default))))"

lemma apply_vspc_projection_stages:
  "apply_vspc_projection v c mds ts = (case vspc_stages v c mds of (w, m) \<Rightarrow> finish_mutation w m ts)"
  by (simp add: apply_vspc_projection_def vspc_stages_def Let_def)

text \<open>A revision and the retained edges still fit their 64-bit counters.\<close>

definition counters_fit :: "graph_view \<Rightarrow> bool" where
  "counters_fit v \<longleftrightarrow> unat (gv_current_revision_id v) + 1 < 2 ^ 64 \<and> fcard (fmdom (gv_edges v)) < 2 ^ 64"

lemma vspc_projection_outcome:
  assumes inv: "view_inv v" and live: "gv_tracking_policy v \<noteq> Frozen" and fit: "counters_fit v"
    and canonical: "gv_tracking_policy v = Head \<Longrightarrow> gv_low_level v = head_target_low v (gv_high_level v)"
  shows "\<exists>v' d. apply_vspc_projection v c mds ts = Some (v', d) \<and> view_inv v' \<and>
      gv_blocks v' = gv_blocks (fst (vspc_stages v c mds)) \<and> gv_levels v' = gv_levels (fst (vspc_stages v c mds)) \<and>
      gv_edges v' = gv_edges v \<and> fmdom (gv_levels v') = fmdom (gv_levels v) \<and>
      gv_max_depth v' = gv_max_depth v \<and> gv_extent v' = gv_extent v \<and> gv_tracking_policy v' = gv_tracking_policy v \<and>
      (case d of
         None \<Rightarrow> v' = v
       | Some delta \<Rightarrow> apply_delta v delta = Some (v', Inr ()) \<and> delta_steps v delta \<and>
           gd_from_revision_id delta = gv_current_revision_id v \<and>
           gd_to_revision_id delta = gv_current_revision_id v + 1 \<and> gd_head_level delta = gv_high_level v' \<and>
           gv_current_revision_id v' = gv_current_revision_id v + 1 \<and> gv_current_revision_timestamp_ms v' = ts)"
proof -
  obtain w m where st: "vspc_stages v c mds = (w, m)" by fastforce
  have ok: "vspc_ok v (w, m)"
    using vspc_stages_ok[OF inv] unfolding st[symmetric] vspc_stages_def by blast
  then have w: "view_inv w" "gv_edges w = gv_edges v" "fmdom (gv_levels w) = fmdom (gv_levels v)" "mutation_captures v w m"
    and fr: "gv_max_depth w = gv_max_depth v" "gv_extent w = gv_extent v" "gv_tracking_policy w = gv_tracking_policy v"
      "gv_current_revision_id w = gv_current_revision_id v"
      "gv_current_revision_timestamp_ms w = gv_current_revision_timestamp_ms v"
    by (auto simp: vspc_ok_def view_frame_def)
  have rev: "unat (gv_current_revision_id v) + 1 < 2 ^ 64" and size: "fcard (fmdom (gv_edges w)) < 2 ^ 64"
    using fit by (simp_all add: counters_fit_def w)
  show ?thesis
  proof (cases "changes_empty (mutation_finish m w)")
    case True
    have "w = v"
    proof (rule view_inv_ext[OF w(1) inv])
      show "gv_level w l = gv_level v l" for l
        using changes_empty_same(3)[OF w(4) True] by (metis fmlookup_level_values)
    qed (use changes_empty_same[OF w(4) True] fr in \<open>simp_all add: view_frame_def\<close>)
    moreover have "finish_mutation w m ts = Some (w, None)"
      using finish_mutation_total[OF w(1), of m ts] rev fr True by simp
    ultimately show ?thesis using inv st by (simp add: apply_vspc_projection_stages)
  next
    case False
    let ?d = "delta_of w m ts" and ?v' = "advanced w ts"
    have fin: "finish_mutation w m ts = Some (?v', Some ?d)"
      using finish_mutation_total[OF w(1), of m ts] rev fr False by simp
    have ext: "gv_extent w = (if gv_tracking_policy v = Head
        then LevelExtent (head_target_low v (gv_high_level w)) (gv_high_level w) else gv_extent v)"
      using canonical fr by (cases "gv_extent v") (auto simp: gv_low_level_def gv_high_level_def)
    have "apply_delta v ?d = Some (?v', Inr ())"
      by (rule finish_replay[OF inv live w(1,4) size rev fr(1,4,3) ext fin])
    moreover have "delta_steps v ?d" by (rule delta_of_steps[OF w(4,1) size rev fr(4)])
    ultimately show ?thesis using st fin w fr
      by (simp add: apply_vspc_projection_stages delta_of_def Let_def advanced_def view_inv_def gv_high_level_def)
  qed
qed


section \<open>What a VSPC transition writes\<close>

lemma fold_paint:
  assumes step: "\<And>h s k. fmlookup (gv_blocks (fst (st h s))) k =
      (if k = h then map_option g (fmlookup (gv_blocks (fst s)) k) else fmlookup (gv_blocks (fst s)) k)"
    and idem: "\<And>b. g (g b) = g b"
  shows "fmlookup (gv_blocks (fst (fold st hs s))) k =
      (if k \<in> set hs then map_option g (fmlookup (gv_blocks (fst s)) k) else fmlookup (gv_blocks (fst s)) k)"
  by (induction hs arbitrary: s) (auto simp: step option.map_comp comp_def idem)

lemma vspc_remove_lookup:
  "fmlookup (gv_blocks (fst (fold vspc_remove_step hs s))) k =
     (if k \<in> set hs then map_option (\<lambda>b. b\<lparr>gb_is_in_vspc := False, gb_color := Gray\<rparr>) (fmlookup (gv_blocks (fst s)) k)
      else fmlookup (gv_blocks (fst s)) k)"
  by (rule fold_paint) (auto simp: vspc_remove_step_def update_block_def split: prod.splits option.splits)

lemma vspc_add_lookup:
  "fmlookup (gv_blocks (fst (fold vspc_add_step hs s))) k =
     (if k \<in> set hs then map_option (\<lambda>b. b\<lparr>gb_is_in_vspc := True\<rparr>) (fmlookup (gv_blocks (fst s)) k)
      else fmlookup (gv_blocks (fst s)) k)"
  by (rule fold_paint) (auto simp: vspc_add_step_def update_block_def split: prod.splits option.splits)

lemma vspc_color_lookup:
  "fmlookup (gv_blocks (fst (fold (vspc_color_step color) hs s))) k =
     (if k \<in> set hs then map_option (\<lambda>b. b\<lparr>gb_color := color\<rparr>) (fmlookup (gv_blocks (fst s)) k)
      else fmlookup (gv_blocks (fst s)) k)"
  by (rule fold_paint) (auto simp: vspc_color_step_def update_block_def split: prod.splits option.splits)

text \<open>The colour a merge set gives a block: red wins over blue within one chain block, later chain
  blocks win over earlier ones.\<close>

definition merge_color :: "block_hash \<Rightarrow> vspc_projection_metadata \<Rightarrow> block_color \<Rightarrow> block_color" where
  "merge_color h md color =
     (if h \<in> set (vpm_red_merge_set md) then Red
      else if h \<in> set (vpm_blue_merge_set md) then Blue else color)"

lemma vspc_metadata_lookup:
  "fmlookup (gv_blocks (fst (fold vspc_metadata_step mds s))) k =
     map_option (\<lambda>b. b\<lparr>gb_color := fold (merge_color k) mds (gb_color b)\<rparr>) (fmlookup (gv_blocks (fst s)) k)"
  by (induction mds arbitrary: s)
     (auto simp: option.map_ident vspc_metadata_step_def vspc_color_lookup merge_color_def option.map_comp comp_def)

lemma vspc_level_blocks: "gv_blocks (fst (fold vspc_level_step sns s)) = gv_blocks (fst s)"
  by (induction sns arbitrary: s) (auto simp: vspc_level_step_def split: prod.splits option.splits)

lemma vspc_level_lookup:
  "gv_level (fst (fold vspc_level_step sns s)) l =
     map_option (fold (\<lambda>sn x. if lc_level sn = l then x\<lparr>lv_daa_score := lc_daa_score sn\<rparr> else x) sns)
       (gv_level (fst s) l)"
proof (induction sns arbitrary: s)
  case (Cons a sns)
  have "gv_level (fst (vspc_level_step a s)) l =
      map_option (\<lambda>x. if lc_level a = l then x\<lparr>lv_daa_score := lc_daa_score a\<rparr> else x) (gv_level (fst s) l)"
    by (cases "l = lc_level a")
       (auto simp: vspc_level_step_def gv_level_def option.map_comp comp_def option.map_ident
         split: prod.splits option.splits)
  then show ?case using Cons.IH by (simp add: option.map_comp comp_def)
qed (simp add: option.map_id)

lemma levels_of_metadata:
  "gv_levels (fst (fold vspc_remove_step hs s)) = gv_levels (fst s)"
  "gv_levels (fst (fold vspc_add_step hs s)) = gv_levels (fst s)"
  "gv_levels (fst (fold (vspc_color_step color) hs s)) = gv_levels (fst s)"
  by (induction hs arbitrary: s)
     (auto simp: vspc_remove_step_def vspc_add_step_def vspc_color_step_def update_block_def split: prod.splits option.splits)

lemma levels_of_merges: "gv_levels (fst (fold vspc_metadata_step mds s)) = gv_levels (fst s)"
  by (induction mds arbitrary: s) (auto simp: vspc_metadata_step_def levels_of_metadata)

definition vspc_block :: "vspc_committed \<Rightarrow> vspc_projection_metadata list \<Rightarrow> block_hash \<Rightarrow> graph_block \<Rightarrow> graph_block" where
  "vspc_block c mds h b =
     b\<lparr>gb_is_in_vspc := (h \<in> set (vc_added c) \<or> gb_is_in_vspc b \<and> h \<notin> set (vc_removed c)),
       gb_color := fold (merge_color h) mds (if h \<in> set (vc_removed c) then Gray else gb_color b)\<rparr>"

definition vspc_level :: "vspc_committed \<Rightarrow> u32 \<Rightarrow> level \<Rightarrow> level" where
  "vspc_level c l =
     fold (\<lambda>sn x. if lc_level sn = l then x\<lparr>lv_daa_score := lc_daa_score sn\<rparr> else x) (vc_level_snapshots c)"

lemma vspc_stages_writes:
  "fmlookup (gv_blocks (fst (vspc_stages v c mds))) h = map_option (vspc_block c mds h) (fmlookup (gv_blocks v) h)"
  "gv_level (fst (vspc_stages v c mds)) l = map_option (vspc_level c l) (gv_level v l)"
proof -
  show "fmlookup (gv_blocks (fst (vspc_stages v c mds))) h = map_option (vspc_block c mds h) (fmlookup (gv_blocks v) h)"
    by (cases "fmlookup (gv_blocks v) h")
       (auto simp: vspc_stages_def vspc_level_blocks vspc_metadata_lookup vspc_add_lookup vspc_remove_lookup vspc_block_def)
  show "gv_level (fst (vspc_stages v c mds)) l = map_option (vspc_level c l) (gv_level v l)"
    unfolding vspc_stages_def vspc_level_lookup
    by (simp add: gv_level_def levels_of_metadata levels_of_merges vspc_level_def)
qed

section \<open>Head and Fixed views\<close>

lemma head_inv_vspc:
  assumes inv: "head_inv v" and w: "view_inv w" and same: "gv_edges w = gv_edges v" "gv_extent w = gv_extent v"
      "gv_max_depth w = gv_max_depth v" "gv_tracking_policy w = gv_tracking_policy v"
      "fmdom (gv_levels w) = fmdom (gv_levels v)"
    and blocks: "\<And>h. fmlookup (gv_blocks w) h = map_option (vspc_block c mds h) (fmlookup (gv_blocks v) h)"
  shows "head_inv w"
proof -
  have vi: "view_inv v" using inv by (simp add: head_inv_def)
  have ext: "gv_low_level w = gv_low_level v" "gv_high_level w = gv_high_level v"
    by (simp_all add: gv_low_level_def gv_high_level_def same)
  have coord: "gb_hash (vspc_block c mds h b) = gb_hash b" "gb_coordinate (vspc_block c mds h b) = gb_coordinate b" for h b
    by (simp_all add: vspc_block_def)
  have "children_retained w"
    unfolding children_retained_def fmpred_iff same(1)
  proof (intro allI impI)
    fix i e assume "fmlookup (gv_edges v) i = Some e"
    then obtain b where "fmlookup (gv_blocks v) (ei_child i) = Some b" "gb_coordinate b = ge_child_coordinate e"
      using children_retainedD[of v i e] inv by (auto simp: head_inv_def)
    then show "case fmlookup (gv_blocks w) (ei_child i) of None \<Rightarrow> False
        | Some b \<Rightarrow> gb_coordinate b = ge_child_coordinate e"
      by (simp add: blocks coord)
  qed
  moreover have dom: "gv_level w l = None \<longleftrightarrow> gv_level v l = None" for l
    using same(5) by (metis fmdom_notD fmdom_notI gv_level_def option.map_disc_iff)
  moreover have "fmpred (\<lambda>h b. gb_hash b = h \<and> contains_level (gv_extent w) (block_level b)) (gv_blocks w)"
    using inv by (auto simp: head_inv_def fmpred_iff blocks coord same)
  moreover have "fmpred (\<lambda>l s. l \<le> gv_high_level v \<and> (gv_low_level v \<le> l \<or> 0 < sl_usage_count s)) (gv_levels w)"
  proof -
    have "fmpred (\<lambda>l s. l \<le> gv_high_level v \<and> (gv_low_level v \<le> l \<or> 0 < sl_usage_count s)) (gv_levels v)"
      using inv unfolding head_inv_def by blast
    then show ?thesis unfolding head_inv_used[OF w] head_inv_used[OF vi] by (simp add: same dom)
  qed
  moreover have "head_target_low w x = head_target_low v x" for x by (simp add: head_target_low_def same)
  ultimately show ?thesis using inv w by (simp add: head_inv_def ext same)
qed

definition head_metadata :: "graph_view \<Rightarrow> vspc_committed \<Rightarrow> vspc_projection_metadata list" where
  "head_metadata v c = map metadata_from_block (List.map_filter (fmlookup (gv_blocks v)) (vc_added c))"

lemma head_vspc_outcome:
  assumes inv: "head_inv v" and fit: "counters_fit v"
  shows "\<exists>v' d. apply_head_vspc_committed v c ts = Some (v', Inr d) \<and> head_inv v' \<and>
      (\<forall>h. fmlookup (gv_blocks v') h = map_option (vspc_block c (head_metadata v c) h) (fmlookup (gv_blocks v) h)) \<and>
      (\<forall>l. gv_level v' l = map_option (vspc_level c l) (gv_level v l)) \<and>
      gv_edges v' = gv_edges v \<and> gv_extent v' = gv_extent v \<and>
      (case d of
         None \<Rightarrow> v' = v
       | Some delta \<Rightarrow> apply_delta v delta = Some (v', Inr ()) \<and> delta_steps v delta \<and>
           gd_from_revision_id delta = gv_current_revision_id v \<and>
           gd_to_revision_id delta = gv_current_revision_id v + 1 \<and>
           gv_current_revision_id v' = gv_current_revision_id v + 1 \<and> gv_current_revision_timestamp_ms v' = ts)"
proof -
  have v: "view_inv v" "gv_tracking_policy v = Head" "gv_low_level v = head_target_low v (gv_high_level v)"
    using inv by (auto simp: head_inv_def)
  define mds where "mds = head_metadata v c"
  from vspc_projection_outcome[OF v(1) _ fit, of c mds ts] v obtain v' d where
    o: "apply_vspc_projection v c mds ts = Some (v', d)" "view_inv v'"
      "gv_blocks v' = gv_blocks (fst (vspc_stages v c mds))" "gv_levels v' = gv_levels (fst (vspc_stages v c mds))"
      "gv_edges v' = gv_edges v" "fmdom (gv_levels v') = fmdom (gv_levels v)"
      "gv_max_depth v' = gv_max_depth v" "gv_extent v' = gv_extent v" "gv_tracking_policy v' = gv_tracking_policy v"
    and d: "case d of
         None \<Rightarrow> v' = v
       | Some delta \<Rightarrow> apply_delta v delta = Some (v', Inr ()) \<and> delta_steps v delta \<and>
           gd_from_revision_id delta = gv_current_revision_id v \<and>
           gd_to_revision_id delta = gv_current_revision_id v + 1 \<and> gd_head_level delta = gv_high_level v' \<and>
           gv_current_revision_id v' = gv_current_revision_id v + 1 \<and> gv_current_revision_timestamp_ms v' = ts"
    by auto
  have blocks: "fmlookup (gv_blocks v') h = map_option (vspc_block c (head_metadata v c) h) (fmlookup (gv_blocks v) h)" for h
    by (simp add: o(3) vspc_stages_writes mds_def)
  have levels: "gv_level v' l = map_option (vspc_level c l) (gv_level v l)" for l
    using vspc_stages_writes(2)[of v c mds l] by (simp add: gv_level_def o(4))
  have "head_inv v'" by (rule head_inv_vspc[OF inv o(2,5,8,7,9,6) blocks])
  moreover have "apply_head_vspc_committed v c ts = Some (v', Inr d)"
    using v(2) o(1) by (simp add: apply_head_vspc_committed_def Let_def mds_def head_metadata_def)
  ultimately show ?thesis using blocks levels o d by (auto split: option.splits)
qed


text \<open>A Fixed view takes the metadata of an added block from itself or, failing that, from the Head.\<close>

definition fixed_block_lookup :: "graph_view \<Rightarrow> graph_view \<Rightarrow> block_hash \<Rightarrow> graph_block option" where
  "fixed_block_lookup v head h =
     (case fmlookup (gv_blocks v) h of Some b \<Rightarrow> Some b | None \<Rightarrow> fmlookup (gv_blocks head) h)"

lemma bind_outcome: "Option.bind r (\<lambda>(v', d). Some (v', Inr d)) = map_option (\<lambda>(v', d). (v', Inr d)) r"
  by (cases r) auto

lemma apply_fixed_vspc_alt:
  assumes "gv_tracking_policy v = Fixed" "gv_tracking_policy head = Head" "overlaps (gv_extent v) (gv_extent head)"
  shows "apply_fixed_vspc_committed v c head ts =
    (if \<forall>h\<in>set (vc_added c). fixed_block_lookup v head h \<noteq> None
     then map_option (\<lambda>(v', d). (v', Inr d))
       (apply_vspc_projection v c (map (metadata_from_block \<circ> the \<circ> fixed_block_lookup v head) (vc_added c)) ts)
     else Some (v\<lparr>gv_tracking_policy := Frozen\<rparr>, Inr None))"
proof -
  have eq: "collect_options
      (map (\<lambda>h. map_option metadata_from_block
         (case fmlookup (gv_blocks v) h of Some b \<Rightarrow> Some b | None \<Rightarrow> fmlookup (gv_blocks head) h)) (vc_added c)) =
    (if \<forall>h\<in>set (vc_added c). fixed_block_lookup v head h \<noteq> None
     then Some (map (metadata_from_block \<circ> the \<circ> fixed_block_lookup v head) (vc_added c)) else None)"
    by (auto simp: collect_options_map fixed_block_lookup_def option.map_sel split: option.splits)
  show ?thesis using assms unfolding apply_fixed_vspc_committed_def eq by (auto simp: bind_outcome)
qed

lemma fixed_vspc_outcome:
  assumes inv: "view_inv v" and pol: "gv_tracking_policy v = Fixed" "gv_tracking_policy head = Head"
    and meet: "overlaps (gv_extent v) (gv_extent head)" and fit: "counters_fit v"
    and meta: "\<forall>h\<in>set (vc_added c). fixed_block_lookup v head h \<noteq> None"
  shows "\<exists>v' d. apply_fixed_vspc_committed v c head ts = Some (v', Inr d) \<and> view_inv v' \<and>
      gv_edges v' = gv_edges v \<and> gv_extent v' = gv_extent v \<and> gv_tracking_policy v' = Fixed \<and>
      (case d of None \<Rightarrow> v' = v
       | Some delta \<Rightarrow> apply_delta v delta = Some (v', Inr ()) \<and> delta_steps v delta \<and>
           gd_from_revision_id delta = gv_current_revision_id v \<and>
           gv_current_revision_id v' = gv_current_revision_id v + 1)"
proof -
  let ?mds = "map (metadata_from_block \<circ> the \<circ> fixed_block_lookup v head) (vc_added c)"
  obtain v' d where o: "apply_vspc_projection v c ?mds ts = Some (v', d)" "view_inv v'" "gv_edges v' = gv_edges v"
      "gv_extent v' = gv_extent v" "gv_tracking_policy v' = Fixed"
      "case d of None \<Rightarrow> v' = v
       | Some delta \<Rightarrow> apply_delta v delta = Some (v', Inr ()) \<and> delta_steps v delta \<and>
           gd_from_revision_id delta = gv_current_revision_id v \<and>
           gv_current_revision_id v' = gv_current_revision_id v + 1"
    using vspc_projection_outcome[OF inv _ fit, of c ?mds ts] pol by (auto split: option.splits)
  moreover have "apply_fixed_vspc_committed v c head ts = Some (v', Inr d)"
    unfolding apply_fixed_vspc_alt[OF pol meet] using meta o(1) by simp
  ultimately show ?thesis by blast
qed

lemma fixed_block_outcome:
  assumes inv: "view_inv v" and pol: "gv_tracking_policy v = Fixed" "gv_tracking_policy head = Head"
    and meet: "overlaps (gv_extent v) (gv_extent head)" and coh: "commit_coherent v c"
  shows "\<exists>v' d. apply_fixed_block_committed v c head ts = Some (v', Inr d) \<and> view_inv v' \<and>
      gv_blocks v' = projected_blocks v c (gv_extent v) \<and> gv_edges v' = projected_edges v c (gv_extent v) \<and>
      (\<forall>l. gv_level v' l = projected_level v c (gv_extent v) l) \<and>
      gv_extent v' = gv_extent v \<and> gv_tracking_policy v' = Fixed \<and>
      (case d of None \<Rightarrow> v' = v
       | Some delta \<Rightarrow> apply_delta v delta = Some (v', Inr ()) \<and> delta_steps v delta \<and>
           gd_from_revision_id delta = gv_current_revision_id v \<and>
           gv_current_revision_id v' = gv_current_revision_id v + 1)"
proof -
  let ?e = "gv_extent v"
  from apply_block_projection_spec[OF inv coh, of ?e] obtain w m where
    w: "apply_block_projection v c ?e mutation_default = Some (w, m)" "view_inv w" "commit_captures v w m"
      "view_frame w = view_frame v" "gv_blocks w = projected_blocks v c ?e" "gv_edges w = projected_edges v c ?e"
      "\<And>l. gv_level w l = projected_level v c ?e l"
    by blast
  have fr: "gv_max_depth w = gv_max_depth v" "gv_extent w = gv_extent v" "gv_tracking_policy w = gv_tracking_policy v"
      "gv_current_revision_id w = gv_current_revision_id v"
      "gv_current_revision_timestamp_ms w = gv_current_revision_timestamp_ms v"
    using w(4) by (auto simp: view_frame_def)
  have cap: "mutation_captures v w m" by (rule commit_captures_sound[OF w(3)])
  have rev: "unat (gv_current_revision_id v) + 1 < 2 ^ 64" using coh by (simp add: commit_coherent_def)
  have size: "fcard (fmdom (gv_edges w)) < 2 ^ 64" unfolding w(6) by (rule fcard_projected_edges[OF coh])
  have run: "apply_fixed_block_committed v c head ts = map_option (\<lambda>(v', d). (v', Inr d)) (finish_mutation w m ts)"
    using pol meet w(1) by (simp add: apply_fixed_block_committed_def bind_outcome)
  show ?thesis
  proof (cases "changes_empty (mutation_finish m w)")
    case True
    have "w = v"
    proof (rule view_inv_ext[OF w(2) inv])
      show "gv_level w l = gv_level v l" for l
        using changes_empty_same(3)[OF cap True] by (metis fmlookup_level_values)
    qed (use changes_empty_same[OF cap True] fr in \<open>simp_all add: view_frame_def\<close>)
    moreover have "finish_mutation w m ts = Some (w, None)"
      using finish_mutation_total[OF w(2), of m ts] rev fr True by simp
    ultimately show ?thesis using run w inv pol by simp
  next
    case False
    let ?d = "delta_of w m ts" and ?v' = "advanced w ts"
    have fin: "finish_mutation w m ts = Some (?v', Some ?d)"
      using finish_mutation_total[OF w(2), of m ts] rev fr False by simp
    have "apply_delta v ?d = Some (?v', Inr ())"
      by (rule finish_replay[OF inv _ w(2) cap size rev fr(1,4,3) _ fin]) (simp_all add: pol fr)
    moreover have "delta_steps v ?d" by (rule delta_of_steps[OF cap w(2) size rev fr(4)])
    ultimately show ?thesis using run fin w fr pol
      by (simp add: delta_of_def Let_def advanced_def view_inv_def gv_level_def)
  qed
qed

end
