(* ===== verification/Graph_Build.thy ===== *)
theory Graph_Build
  imports Graph_Vspc
begin

text \<open>
  Building views: \<open>from_database_projection\<close>, which seeds a view from stored rows, and
  \<open>extract_subview\<close>, which copies an extent of a view into a frozen one. Both rebuild the usage
  counts from the edges; the lemmas show that the result satisfies the invariant and is exactly the
  declared selection of blocks, edges and levels.
\<close>

section \<open>Rebuilding usage counts\<close>

definition edge_parent_levels :: "(edge_id, graph_edge) fmap \<Rightarrow> u32 list" where
  "edge_parent_levels edges = map (\<lambda>(_, e). parent_level e) (sorted_list_of_fmap edges)"

lemma count_edge_parent_levels: "count_list (edge_parent_levels edges) l = usage_of edges l"
proof -
  have "count_list (map (\<lambda>(_, e). parent_level e) xs) l = length (filter (\<lambda>(_, e). parent_level e = l) xs)"
    for xs :: "(edge_id \<times> graph_edge) list"
    by (induction xs) auto
  then show ?thesis by (simp add: edge_parent_levels_def usage_of_def)
qed

lemma set_edge_parent_levels: "l \<in> set (edge_parent_levels edges) \<longleftrightarrow> (\<exists>i e. fmlookup edges i = Some e \<and> parent_level e = l)"
  using count_list_0_iff[of "edge_parent_levels edges" l] by (auto simp: count_edge_parent_levels usage_of_eq_0)

lemma rebuild_usage:
  assumes base: "0 < gv_max_depth v" "extent_valid (gv_extent v)" "edges_keyed (gv_edges v)"
      "gv_block_hashes_by_level v = index_blocks_by_level (gv_blocks v)"
      "gv_edge_parents_by_child v = index_edge_parents_by_child (gv_edges v)"
      "gv_edge_ids_by_span v = index_edges_by_span (gv_edges v)"
    and zero: "fmpred (\<lambda>_ s. sl_usage_count s = 0) (gv_levels v)"
    and par: "parents_retained (gv_edges v) (gv_levels v)" and size: "fcard (fmdom (gv_edges v)) < 2 ^ 64"
  shows "\<exists>w. fold_opt increment_parent_usage v (edge_parent_levels (gv_edges v)) = Some w \<and> view_inv w \<and>
      view_frame w = view_frame v \<and> gv_blocks w = gv_blocks v \<and> gv_edges w = gv_edges v \<and>
      (\<forall>l. gv_level w l = gv_level v l)"
proof -
  let ?E = "gv_edges v"
  have bound: "usage_of ?E l < 2 ^ 64" for l using usage_of_le[of ?E l] size by simp
  have "\<exists>s. fmlookup (gv_levels v) l = Some s \<and> unat (sl_usage_count s) + count_list (edge_parent_levels ?E) l < 2 ^ 64"
    if mem: "l \<in> set (edge_parent_levels ?E)" for l
  proof -
    obtain i e where "fmlookup ?E i = Some e" "parent_level e = l" using mem set_edge_parent_levels by blast
    then obtain s where "fmlookup (gv_levels v) l = Some s" using parents_retainedD[OF par] by blast
    moreover from this have "sl_usage_count s = 0" using zero by (auto simp: fmpred_iff)
    ultimately show ?thesis using bound[of l] by (simp add: count_edge_parent_levels)
  qed
  from increment_loop[OF this] obtain w where w: "fold_opt increment_parent_usage v (edge_parent_levels ?E) = Some w"
      "w = v\<lparr>gv_levels := gv_levels w\<rparr>"
      "\<And>l. fmlookup (gv_levels w) l = map_option (\<lambda>s. s\<lparr>sl_usage_count := sl_usage_count s + word_of_nat (usage_of ?E l)\<rparr>)
         (fmlookup (gv_levels v) l)"
    by (auto simp: count_edge_parent_levels)
  have same: "gv_blocks w = gv_blocks v" "gv_edges w = ?E" "view_frame w = view_frame v"
      "gv_block_hashes_by_level w = gv_block_hashes_by_level v" "gv_edge_parents_by_child w = gv_edge_parents_by_child v"
      "gv_edge_ids_by_span w = gv_edge_ids_by_span v" "gv_max_depth w = gv_max_depth v" "gv_extent w = gv_extent v"
    by (subst w(2), simp add: view_frame_def)+
  have "usage_exact ?E (gv_levels w)"
    using zero bound by (auto simp: usage_exact_def fmpred_iff w(3) unat_of_nat)
  moreover have "parents_retained ?E (gv_levels w)"
    using par by (auto simp: parents_retained_def fmpred_iff fmlookup_dom_iff w(3))
  ultimately have "view_inv w" using base by (simp add: view_inv_def same)
  moreover have "gv_level w l = gv_level v l" for l by (simp add: gv_level_def w(3) option.map_comp comp_def)
  ultimately show ?thesis using w(1) same by blast
qed

section \<open>Seeding a view from the database\<close>

lemma from_database_projection_outcome:
  assumes "0 < max_depth" "extent_valid extent" "extent_depth extent \<le> max_depth" "edges_keyed edges"
    and par: "fmpred (\<lambda>_ e. parent_level e |\<in>| fmdom levels) edges" and "fcard (fmdom edges) < 2 ^ 64"
  shows "\<exists>v. from_database_projection max_depth extent policy levels blocks edges = Some v \<and> view_inv v \<and>
      view_frame v = (max_depth, extent, 0, 0, policy) \<and> gv_blocks v = blocks \<and> gv_edges v = edges \<and>
      level_values v = levels"
proof -
  let ?v = "\<lparr>gv_max_depth = max_depth, gv_extent = extent, gv_current_revision_id = 0,
      gv_current_revision_timestamp_ms = 0, gv_tracking_policy = policy,
      gv_levels = fmmap (\<lambda>value. \<lparr>sl_value = value, sl_usage_count = 0\<rparr>) levels,
      gv_blocks = blocks, gv_edges = edges, gv_block_hashes_by_level = index_blocks_by_level blocks,
      gv_edge_parents_by_child = index_edge_parents_by_child edges, gv_edge_ids_by_span = index_edges_by_span edges\<rparr>"
  have "\<exists>w. fold_opt increment_parent_usage ?v (edge_parent_levels (gv_edges ?v)) = Some w \<and> view_inv w \<and>
      view_frame w = view_frame ?v \<and> gv_blocks w = gv_blocks ?v \<and> gv_edges w = gv_edges ?v \<and>
      (\<forall>l. gv_level w l = gv_level ?v l)"
    by (rule rebuild_usage) (use assms in \<open>auto simp: parents_retained_def fmpred_iff\<close>)
  then obtain w where w: "fold_opt increment_parent_usage ?v (edge_parent_levels edges) = Some w" "view_inv w"
      "view_frame w = view_frame ?v" "gv_blocks w = blocks" "gv_edges w = edges" "\<And>l. gv_level w l = gv_level ?v l"
    by auto
  have "level_values w = levels"
    by (rule fmap_ext, unfold fmlookup_level_values w(6)) (simp add: gv_level_def option.map_comp comp_def option.map_ident)
  then show ?thesis using w assms(1,3) by (auto simp: from_database_projection_def edge_parent_levels_def view_frame_def)
qed

section \<open>Collecting parts of a view\<close>

lemma collect_loop:
  assumes "\<And>k. k \<in> set ks \<Longrightarrow> k |\<in>| fmdom m"
  shows "\<exists>r. fold_opt (\<lambda>acc k. case fmlookup m k of None \<Rightarrow> None | Some x \<Rightarrow> Some (fmupd k x acc)) acc ks = Some r \<and>
     (\<forall>k. fmlookup r k = (if k \<in> set ks then fmlookup m k else fmlookup acc k))"
  using assms
proof (induction ks arbitrary: acc)
  case (Cons a ks)
  obtain x where x: "fmlookup m a = Some x" using Cons.prems[of a] by (auto simp: fmlookup_dom_iff)
  then show ?case using Cons.IH[of "fmupd a x acc"] Cons.prems by auto
qed simp

lemmas collect_from_empty = collect_loop[where acc = fmempty, unfolded fmempty_lookup]

lemma insert_levels_loop:
  assumes "\<And>l. l \<in> set ls \<Longrightarrow> l |\<in>| fmdom (gv_levels v)"
    and "\<And>l x. fmlookup acc l = Some x \<Longrightarrow> \<exists>s. fmlookup (gv_levels v) l = Some s \<and> x = \<lparr>sl_value = sl_value s, sl_usage_count = 0\<rparr>"
  shows "\<exists>r. fold_opt (insert_source_level v) acc ls = Some r \<and>
     (\<forall>l. fmlookup r l = (if l \<in> set ls \<or> l |\<in>| fmdom acc
        then map_option (\<lambda>s. \<lparr>sl_value = sl_value s, sl_usage_count = 0\<rparr>) (fmlookup (gv_levels v) l) else None))"
  using assms
proof (induction ls arbitrary: acc)
  case Nil
  then show ?case by (force simp: fmlookup_dom_iff)
next
  case (Cons a ls)
  obtain s where s: "fmlookup (gv_levels v) a = Some s" using Cons.prems(1)[of a] by (auto simp: fmlookup_dom_iff)
  define acc1 where "acc1 = (case fmlookup acc a of Some _ \<Rightarrow> acc
      | None \<Rightarrow> fmupd a \<lparr>sl_value = sl_value s, sl_usage_count = 0\<rparr> acc)"
  have step: "insert_source_level v acc a = Some acc1"
    by (auto simp: insert_source_level_def acc1_def s split: option.splits)
  have "\<exists>r. fold_opt (insert_source_level v) acc1 ls = Some r \<and>
     (\<forall>l. fmlookup r l = (if l \<in> set ls \<or> l |\<in>| fmdom acc1
        then map_option (\<lambda>s. \<lparr>sl_value = sl_value s, sl_usage_count = 0\<rparr>) (fmlookup (gv_levels v) l) else None))"
    by (rule Cons.IH) (use Cons.prems s in \<open>auto simp: acc1_def split: option.splits if_splits\<close>)
  moreover have "l |\<in>| fmdom acc1 \<longleftrightarrow> l = a \<or> l |\<in>| fmdom acc" for l
    by (auto simp: acc1_def fmlookup_dom_iff split: option.splits)
  ultimately show ?case using step by auto
qed


section \<open>Extracting a frozen subview\<close>

definition subview_blocks :: "graph_view \<Rightarrow> level_extent \<Rightarrow> (block_hash, graph_block) fmap" where
  "subview_blocks v e = fm_keep (\<lambda>b. contains_level e (block_level b)) (gv_blocks v)"

definition subview_edges :: "graph_view \<Rightarrow> level_extent \<Rightarrow> (edge_id, graph_edge) fmap" where
  "subview_edges v e = fm_keep (\<lambda>x. intersects_span e (parent_level x) (child_level x)) (gv_edges v)"

text \<open>A level is retained when it lies in the extent or is an endpoint of a retained edge.\<close>

definition endpoint_of :: "(edge_id, graph_edge) fmap \<Rightarrow> u32 \<Rightarrow> bool" where
  "endpoint_of edges l \<longleftrightarrow>
     list_ex (\<lambda>(_, x). parent_level x = l \<or> child_level x = l) (sorted_list_of_fmap edges)"

definition subview_level :: "graph_view \<Rightarrow> level_extent \<Rightarrow> u32 \<Rightarrow> level option" where
  "subview_level v e l =
     (if contains_level e l \<or> endpoint_of (subview_edges v e) l then gv_level v l else None)"

definition child_levels_retained :: "graph_view \<Rightarrow> bool" where
  "child_levels_retained v = fmpred (\<lambda>_ x. child_level x |\<in>| fmdom (gv_levels v)) (gv_edges v)"

lemma endpoint_of_iff:
  "endpoint_of edges l \<longleftrightarrow> (\<exists>i x. fmlookup edges i = Some x \<and> (parent_level x = l \<or> child_level x = l))"
  unfolding endpoint_of_def list_ex_iff by (auto simp: set_sorted_list_of_fmap) blast+

lemma select_subview:
  assumes inv: "view_inv v"
  shows "select_subview_graph v e = Some (subview_blocks v e, subview_edges v e)"
proof -
  let ?bi = "gv_block_hashes_by_level v" and ?ei = "gv_edge_ids_by_span v"
  let ?hs = "concat (map (\<lambda>(_, hashes). sorted_list_of_fset hashes)
           (filter (\<lambda>(l, _). low_level e \<le> l \<and> l \<le> high_level e) (sorted_list_of_fmap ?bi)))"
  let ?is = "concat (map (\<lambda>(_, parents). concat (map (\<lambda>(_, ids). sorted_list_of_fset ids)
               (filter (\<lambda>(l, _). l \<le> high_level e) (sorted_list_of_fmap parents))))
           (filter (\<lambda>(l, _). low_level e \<le> l) (sorted_list_of_fmap ?ei)))"
  have bi: "?bi = index_blocks_by_level (gv_blocks v)" and ei: "?ei = index_edges_by_span (gv_edges v)"
    using inv by (simp_all add: view_inv_def)
  have bb: "(\<exists>S. fmlookup ?bi l = Some S \<and> h |\<in>| S) \<longleftrightarrow> (\<exists>b. fmlookup (gv_blocks v) h = Some b \<and> block_level b = l)" for h l
    using bucket_index_blocks[of h "gv_blocks v" l] by (auto simp: bi bucket_def split: option.splits)
  have ee: "(\<exists>R S. fmlookup ?ei c = Some R \<and> fmlookup R p = Some S \<and> i |\<in>| S) \<longleftrightarrow>
      (\<exists>x. fmlookup (gv_edges v) i = Some x \<and> child_level x = c \<and> parent_level x = p)" for i c p
    using bucket_index_span[of i "gv_edges v" c p]
    by (auto simp: ei span_bucket_def span_row_def bucket_def split: option.splits)
  have hs: "h \<in> set ?hs \<longleftrightarrow> (\<exists>b. fmlookup (gv_blocks v) h = Some b \<and> contains_level e (block_level b))" for h
  proof -
    have "h \<in> set ?hs \<longleftrightarrow> (\<exists>l S. low_level e \<le> l \<and> l \<le> high_level e \<and> fmlookup ?bi l = Some S \<and> h |\<in>| S)"
      by (force simp: set_sorted_list_of_fmap sorted_list_of_fset.rep_eq)
    also have "\<dots> \<longleftrightarrow> (\<exists>b. fmlookup (gv_blocks v) h = Some b \<and> contains_level e (block_level b))"
      using bb[of _ h] by (auto simp: contains_level_def)
    finally show ?thesis .
  qed
  have "is": "i \<in> set ?is \<longleftrightarrow> (\<exists>x. fmlookup (gv_edges v) i = Some x \<and> intersects_span e (parent_level x) (child_level x))" for i
  proof -
    have "i \<in> set ?is \<longleftrightarrow> (\<exists>c p R S. low_level e \<le> c \<and> p \<le> high_level e \<and> fmlookup ?ei c = Some R \<and> fmlookup R p = Some S \<and> i |\<in>| S)"
      by (force simp: set_sorted_list_of_fmap sorted_list_of_fset.rep_eq)
    also have "\<dots> \<longleftrightarrow> (\<exists>x. fmlookup (gv_edges v) i = Some x \<and> intersects_span e (parent_level x) (child_level x))"
      using ee[of _ _ i] by (auto simp: intersects_span_def)
    finally show ?thesis .
  qed
  have "\<exists>r. fold_opt (collect_block v) fmempty ?hs = Some r \<and>
      (\<forall>k. fmlookup r k = (if k \<in> set ?hs then fmlookup (gv_blocks v) k else None))"
    unfolding collect_block_def[abs_def]
    by (rule collect_from_empty) (use hs in \<open>auto simp: fmlookup_dom_iff simp del: set_concat\<close>)
  then obtain bs where bs: "fold_opt (collect_block v) fmempty ?hs = Some bs"
      "\<And>k. fmlookup bs k = (if k \<in> set ?hs then fmlookup (gv_blocks v) k else None)"
    by blast
  have "\<exists>r. fold_opt (collect_edge v) fmempty ?is = Some r \<and>
      (\<forall>k. fmlookup r k = (if k \<in> set ?is then fmlookup (gv_edges v) k else None))"
    unfolding collect_edge_def[abs_def]
    by (rule collect_from_empty) (use "is" in \<open>auto simp: fmlookup_dom_iff simp del: set_concat\<close>)
  then obtain es where es: "fold_opt (collect_edge v) fmempty ?is = Some es"
      "\<And>k. fmlookup es k = (if k \<in> set ?is then fmlookup (gv_edges v) k else None)"
    by blast
  have "bs = subview_blocks v e"
    by (rule fmap_ext) (use hs in \<open>auto simp: bs(2) subview_blocks_def simp del: set_concat split: option.splits\<close>)
  moreover have "es = subview_edges v e"
    by (rule fmap_ext) (use "is" in \<open>auto simp: es(2) subview_edges_def simp del: set_concat split: option.splits\<close>)
  ultimately show ?thesis using bs(1) es(1) unfolding select_subview_graph_def by simp
qed


lemma contains_extent_level: "contains_extent a b \<Longrightarrow> contains_level b l \<Longrightarrow> contains_level a l"
  by (auto simp: contains_extent_def contains_level_def)

lemma extent_depth_positive: "extent_valid e \<Longrightarrow> 0 < extent_depth e"
  using extent_depth_valid[of e] by (simp add: word_neq_0_conv[symmetric] unat_eq_0[symmetric])

lemma extract_subview_outcome:
  assumes inv: "view_inv v" and full: "list_all (\<lambda>l. l |\<in>| fmdom (gv_levels v)) (extent_levels (gv_extent v))"
    and child: "child_levels_retained v" and size: "fcard (fmdom (gv_edges v)) < 2 ^ 64"
    and valid: "extent_valid e" and "sub": "contains_extent (gv_extent v) e"
  shows "\<exists>w. extract_subview v e = Some (Inr w) \<and> view_inv w \<and>
      gv_blocks w = subview_blocks v e \<and> gv_edges w = subview_edges v e \<and> (\<forall>l. gv_level w l = subview_level v e l) \<and>
      view_frame w = (extent_depth e, e, gv_current_revision_id v, gv_current_revision_timestamp_ms v, Frozen)"
proof -
  let ?B = "subview_blocks v e" and ?E = "subview_edges v e"
  let ?ends = "concat (map (\<lambda>(_, x). [parent_level x, child_level x]) (sorted_list_of_fmap ?E))"
  have sube: "fmlookup ?E i = Some x \<Longrightarrow> fmlookup (gv_edges v) i = Some x" for i x
    by (auto simp: subview_edges_def split: option.splits if_splits)
  have ends: "l \<in> set ?ends \<longleftrightarrow> endpoint_of ?E l" for l
    unfolding endpoint_of_def list_ex_iff by force
  have "\<exists>r. fold_opt (insert_source_level v) fmempty (extent_levels e) = Some r \<and>
     (\<forall>l. fmlookup r l = (if l \<in> set (extent_levels e) \<or> l |\<in>| fmdom (fmempty :: (u32, stored_level) fmap)
        then map_option (\<lambda>s. \<lparr>sl_value = sl_value s, sl_usage_count = 0\<rparr>) (fmlookup (gv_levels v) l) else None))"
    by (rule insert_levels_loop)
       (use full contains_extent_level[OF "sub"] in \<open>auto simp: list_all_iff set_extent_levels\<close>)
  then obtain nom where nom: "fold_opt (insert_source_level v) fmempty (extent_levels e) = Some nom"
      "\<And>l. fmlookup nom l = (if contains_level e l
        then map_option (\<lambda>s. \<lparr>sl_value = sl_value s, sl_usage_count = 0\<rparr>) (fmlookup (gv_levels v) l) else None)"
    by (auto simp: set_extent_levels)
  have lev: "l |\<in>| fmdom (gv_levels v)" if end_l: "endpoint_of ?E l" for l
  proof -
    obtain i x where x: "fmlookup (gv_edges v) i = Some x" "parent_level x = l \<or> child_level x = l"
      using end_l sube by (auto simp: endpoint_of_iff)
    then show ?thesis using view_inv_parents[OF inv x(1)] child
      by (auto simp: child_levels_retained_def fmpred_iff fmlookup_dom_iff)
  qed
  have "\<exists>r. fold_opt (insert_source_level v) nom ?ends = Some r \<and>
     (\<forall>l. fmlookup r l = (if l \<in> set ?ends \<or> l |\<in>| fmdom nom
        then map_option (\<lambda>s. \<lparr>sl_value = sl_value s, sl_usage_count = 0\<rparr>) (fmlookup (gv_levels v) l) else None))"
    by (rule insert_levels_loop) (use lev ends nom(2) in \<open>auto simp del: set_concat split: if_splits\<close>)
  then obtain sel where sel: "fold_opt (insert_source_level v) nom ?ends = Some sel"
      "\<And>l. fmlookup sel l = (if endpoint_of ?E l \<or> l |\<in>| fmdom nom
        then map_option (\<lambda>s. \<lparr>sl_value = sl_value s, sl_usage_count = 0\<rparr>) (fmlookup (gv_levels v) l) else None)"
    unfolding ends by blast
  let ?x = "\<lparr>gv_max_depth = extent_depth e, gv_extent = e, gv_current_revision_id = gv_current_revision_id v,
      gv_current_revision_timestamp_ms = gv_current_revision_timestamp_ms v, gv_tracking_policy = Frozen,
      gv_levels = sel, gv_blocks = ?B, gv_edges = ?E, gv_block_hashes_by_level = index_blocks_by_level ?B,
      gv_edge_parents_by_child = index_edge_parents_by_child ?E, gv_edge_ids_by_span = index_edges_by_span ?E\<rparr>"
  have slev: "gv_level ?x l = subview_level v e l" for l
    by (auto simp: gv_level_def sel(2) subview_level_def nom(2) fmlookup_dom_iff option.map_comp comp_def split: if_splits)
  have "fmdom ?E |\<subseteq>| fmdom (gv_edges v)" by (auto simp: fmlookup_dom_iff dest!: sube)
  from fcard_mono[OF this] have small: "fcard (fmdom ?E) < 2 ^ 64" using size by simp
  have par: "parents_retained ?E sel"
    unfolding parents_retained_def fmpred_iff
  proof (intro allI impI)
    fix i x assume x: "fmlookup ?E i = Some x"
    then have "endpoint_of ?E (parent_level x)" by (auto simp: endpoint_of_iff)
    then show "parent_level x |\<in>| fmdom sel" using lev by (auto simp: sel(2) fmlookup_dom_iff)
  qed
  have "\<exists>w. fold_opt increment_parent_usage ?x (edge_parent_levels (gv_edges ?x)) = Some w \<and> view_inv w \<and>
      view_frame w = view_frame ?x \<and> gv_blocks w = gv_blocks ?x \<and> gv_edges w = gv_edges ?x \<and>
      (\<forall>l. gv_level w l = gv_level ?x l)"
  proof (rule rebuild_usage)
    show "edges_keyed (gv_edges ?x)" using view_inv_keyed[OF inv] sube by (auto simp: edges_keyed_def fmpred_iff)
    show "fmpred (\<lambda>_ s. sl_usage_count s = 0) (gv_levels ?x)" by (auto simp: fmpred_iff sel(2) split: if_splits)
  qed (use valid extent_depth_positive[OF valid] par small in simp_all)
  then obtain w where w: "fold_opt increment_parent_usage ?x (edge_parent_levels ?E) = Some w" "view_inv w"
      "view_frame w = view_frame ?x" "gv_blocks w = ?B" "gv_edges w = ?E" "\<And>l. gv_level w l = subview_level v e l"
    by (auto simp: slev)
  have "extract_subview v e = Some (Inr w)"
    using "sub" nom(1) sel(1) w(1) by (simp add: extract_subview_def select_subview[OF inv] edge_parent_levels_def)
  then show ?thesis using w by (auto simp: view_frame_def)
qed

lemma head_child_levels:
  assumes "head_inv v"
  shows "child_levels_retained v"
  unfolding child_levels_retained_def fmpred_iff
proof (intro allI impI)
  fix i x assume x: "fmlookup (gv_edges v) i = Some x"
  obtain b where b: "fmlookup (gv_blocks v) (ei_child i) = Some b" "gb_coordinate b = ge_child_coordinate x"
    using children_retainedD[of v i x] x assms by (auto simp: head_inv_def)
  have "contains_level (gv_extent v) (block_level b)" using assms b(1) by (auto simp: head_inv_def fmpred_iff)
  then have "contains_level (gv_extent v) (child_level x)" by (simp add: b(2))
  then show "child_level x |\<in>| fmdom (gv_levels v)"
    using assms by (auto simp: head_inv_def list_all_iff set_extent_levels)
qed

end
