(* ===== verification/Graph_History.thy ===== *)
theory Graph_History
  imports Graph_Build
begin

text \<open>
  Retained graph history, \<open>GraphHistory\<close> of \<open>crates/kgi-api-model/src/history.rs\<close>: appending atomic
  deltas, replay barriers, pruning, the binary search for a boundary, and the two range selections.
  The invariant says that the entries are atomic, gapless and carry exact cumulative costs; under it
  every operation has a closed form, the search finds exactly the retained boundaries with at most
  logarithmically many inspections, and selection never panics.
\<close>

section \<open>State\<close>

datatype graph_history_append_error =
  HistoryRevisionMismatch u64 u64 | NonAtomicDelta u64 u64

datatype graph_history_replayability = Replayable | ReplayBarrier

datatype graph_history_range_error =
  BackwardTarget u64 u64 | StartBeforeReplayFloor u64 u64 | StartPruned u64 u64 | StartUnavailable u64 u64

record graph_history_entry =
  he_delta :: graph_delta
  he_estimated_raw_bytes :: u64
  he_cumulative_estimated_bytes :: u64

datatype graph_history_range =
  UpToDate (ghr_revision: u64)
| Deltas (ghr_from: u64) (ghr_requested_target: u64) (ghr_actual_target: u64)
    (ghr_entries: "graph_history_entry list")

record graph_history_fitting_range =
  gfr_target_revision :: u64
  gfr_shortened :: bool
  gfr_entries :: "graph_history_entry list"

record graph_history =
  gh_current_revision_id :: u64
  gh_current_cumulative_estimated_bytes :: u64
  gh_replay_floor_revision :: u64
  gh_entries :: "graph_history_entry list"

definition history_new :: graph_history where
  "history_new =
     \<lparr>gh_current_revision_id = 0, gh_current_cumulative_estimated_bytes = 0,
      gh_replay_floor_revision = 0, gh_entries = []\<rparr>"

abbreviation he_from :: "graph_history_entry \<Rightarrow> u64" where
  "he_from e \<equiv> gd_from_revision_id (he_delta e)"

abbreviation he_to :: "graph_history_entry \<Rightarrow> u64" where
  "he_to e \<equiv> gd_to_revision_id (he_delta e)"

section \<open>Operations\<close>

definition history_append ::
  "graph_history \<Rightarrow> graph_delta \<Rightarrow> u64 \<Rightarrow> graph_history_replayability \<Rightarrow>
   (graph_history \<times> (graph_history_append_error + unit)) option" where
  "history_append h delta estimated_raw_bytes replayability =
     (if gh_current_revision_id h \<noteq> gd_from_revision_id delta then
        Some (h, Inl (HistoryRevisionMismatch (gh_current_revision_id h) (gd_from_revision_id delta)))
      else do {
        let target_revision = gd_to_revision_id delta;
        successor \<leftarrow> checked_add (gd_from_revision_id delta) 1;
        if target_revision \<noteq> successor then
          Some (h, Inl (NonAtomicDelta (gd_from_revision_id delta) target_revision))
        else do {
          cumulative \<leftarrow> checked_add (gh_current_cumulative_estimated_bytes h) estimated_raw_bytes;
          let h1 = (case replayability of
                      Replayable \<Rightarrow>
                        h\<lparr>gh_entries := gh_entries h @
                            [\<lparr>he_delta = delta, he_estimated_raw_bytes = estimated_raw_bytes,
                              he_cumulative_estimated_bytes = cumulative\<rparr>]\<rparr>
                    | ReplayBarrier \<Rightarrow> h\<lparr>gh_entries := [], gh_replay_floor_revision := target_revision\<rparr>);
          Some (h1\<lparr>gh_current_revision_id := target_revision,
                   gh_current_cumulative_estimated_bytes := cumulative\<rparr>, Inr ()) } })"

definition history_prune :: "graph_history \<Rightarrow> u32 \<Rightarrow> graph_history" where
  "history_prune h head_low_level =
     h\<lparr>gh_entries := dropWhile (\<lambda>e. gd_head_level (he_delta e) < head_low_level) (gh_entries h)\<rparr>"

definition oldest_available_revision :: "graph_history \<Rightarrow> u64" where
  "oldest_available_revision h =
     (case gh_entries h of [] \<Rightarrow> gh_current_revision_id h | e # _ \<Rightarrow> he_from e)"

text \<open>The binary search. The \<open>inspect\<close> callback is modelled by the number of times it runs.\<close>

function find_boundary ::
  "graph_history_entry list \<Rightarrow> u64 \<Rightarrow> nat \<Rightarrow> nat \<Rightarrow> nat \<Rightarrow> nat option \<times> nat" where
  "find_boundary entries revision_id low high inspected =
     (if low < high then
        let middle = low + (high - low) div 2;
            boundary = he_from (entries ! middle)
        in if boundary < revision_id then find_boundary entries revision_id (middle + 1) high (inspected + 1)
           else if revision_id < boundary then find_boundary entries revision_id low middle (inspected + 1)
           else (Some middle, inspected + 1)
      else (None, inspected))"
  by pat_completeness auto

termination
  by (relation "measure (\<lambda>(_, _, low, high, _). high - low)") auto

declare find_boundary.simps [simp del]

definition find_boundary_index :: "graph_history_entry list \<Rightarrow> u64 \<Rightarrow> nat option" where
  "find_boundary_index entries revision_id = fst (find_boundary entries revision_id 0 (length entries) 0)"

text \<open>The selection loop of \<open>range\<close>: entries up to and including the one that reaches the target.\<close>

fun take_to_target :: "u64 \<Rightarrow> graph_history_entry list \<Rightarrow> graph_history_entry list" where
  "take_to_target target [] = []"
| "take_to_target target (e # es) = (if he_to e = target then [e] else e # take_to_target target es)"

definition history_range ::
  "graph_history \<Rightarrow> u64 \<Rightarrow> u64 \<Rightarrow> graph_history_range_error + graph_history_range" where
  "history_range h from target =
     (if target < from then Inl (BackwardTarget from target)
      else if target = from then Inr (UpToDate from)
      else if from < gh_replay_floor_revision h
        then Inl (StartBeforeReplayFloor from (gh_replay_floor_revision h))
      else if from < oldest_available_revision h
        then Inl (StartPruned from (oldest_available_revision h))
      else if from = gh_current_revision_id h then Inr (UpToDate from)
      else case find_boundary_index (gh_entries h) from of
             None \<Rightarrow> Inl (StartUnavailable from (gh_current_revision_id h))
           | Some start \<Rightarrow>
               let selected = take_to_target target (drop start (gh_entries h))
               in Inr (Deltas from target (if selected = [] then from else he_to (last selected)) selected))"

text \<open>The candidate loop of \<open>fitting_range\<close>; \<open>None\<close> is a panic, \<open>Some None\<close> no fitting target.\<close>

fun fitting_loop ::
  "graph_history_entry list \<Rightarrow> nat \<Rightarrow> u64 \<Rightarrow> u64 \<Rightarrow> u64 \<Rightarrow> (u64 \<Rightarrow> bool) \<Rightarrow> u64 option \<Rightarrow> u64 list \<Rightarrow>
   graph_history_fitting_range option option" where
  "fitting_loop entries start from requested left fits previous [] = Some None"
| "fitting_loop entries start from requested left fits previous (target # targets) =
     (if \<not> (from < target \<and> target \<le> requested) then None
      else if (case previous of None \<Rightarrow> False | Some p \<Rightarrow> \<not> target < p) then None
      else
        let end_index = start + unat (target - from - 1)
        in if \<not> end_index < length entries then None
           else
             let entry = entries ! end_index
             in if he_to entry \<noteq> target then None
                else
                  case checked_sub (he_cumulative_estimated_bytes entry) left of
                    None \<Rightarrow> None
                  | Some estimated \<Rightarrow>
                      if fits estimated then
                        Some (Some \<lparr>gfr_target_revision = target, gfr_shortened = (target \<noteq> requested),
                                    gfr_entries = take (end_index + 1 - start) (drop start entries)\<rparr>)
                      else fitting_loop entries start from requested left fits (Some target) targets)"

definition fitting_range ::
  "graph_history \<Rightarrow> u64 \<Rightarrow> u64 list \<Rightarrow> (u64 \<Rightarrow> bool) \<Rightarrow>
   (graph_history_range_error + graph_history_fitting_range option) option" where
  "fitting_range h from candidates fits =
     (case candidates of
        [] \<Rightarrow> Some (Inr None)
      | requested # rest \<Rightarrow>
          if requested < from then Some (Inl (BackwardTarget from requested))
          else if requested = from then Some (Inr None)
          else if from < gh_replay_floor_revision h
            then Some (Inl (StartBeforeReplayFloor from (gh_replay_floor_revision h)))
          else if from < oldest_available_revision h
            then Some (Inl (StartPruned from (oldest_available_revision h)))
          else if from = gh_current_revision_id h then Some (Inr None)
          else case find_boundary_index (gh_entries h) from of
                 None \<Rightarrow> Some (Inl (StartUnavailable from (gh_current_revision_id h)))
               | Some start \<Rightarrow> do {
                   let first = gh_entries h ! start;
                   left \<leftarrow> checked_sub (he_cumulative_estimated_bytes first) (he_estimated_raw_bytes first);
                   r \<leftarrow> fitting_loop (gh_entries h) start from requested left fits None (requested # rest);
                   Some (Inr r) })"

definition fitting_estimated_raw_bytes :: "graph_history_fitting_range \<Rightarrow> u64 option" where
  "fitting_estimated_raw_bytes r =
     (case gfr_entries r of
        [] \<Rightarrow> None
      | first # _ \<Rightarrow> do {
          left \<leftarrow> checked_sub (he_cumulative_estimated_bytes first) (he_estimated_raw_bytes first);
          checked_sub (he_cumulative_estimated_bytes (last (gfr_entries r))) left })"

section \<open>The invariant\<close>

text \<open>Entries are atomic and gapless from revision \<open>r\<close> with cumulative cost \<open>c\<close> before the first.\<close>

fun chain :: "nat \<Rightarrow> nat \<Rightarrow> graph_history_entry list \<Rightarrow> bool" where
  "chain r c [] = True"
| "chain r c (e # es) \<longleftrightarrow>
     unat (he_from e) = r \<and> unat (he_to e) = r + 1 \<and>
     unat (he_cumulative_estimated_bytes e) = c + unat (he_estimated_raw_bytes e) \<and>
     chain (r + 1) (c + unat (he_estimated_raw_bytes e)) es"

definition entries_cost :: "graph_history_entry list \<Rightarrow> nat" where
  "entries_cost es = (\<Sum>e\<leftarrow>es. unat (he_estimated_raw_bytes e))"

definition base_revision :: "graph_history \<Rightarrow> nat" where
  "base_revision h = unat (gh_current_revision_id h) - length (gh_entries h)"

definition base_cost :: "graph_history \<Rightarrow> nat" where
  "base_cost h = unat (gh_current_cumulative_estimated_bytes h) - entries_cost (gh_entries h)"

definition history_inv :: "graph_history \<Rightarrow> bool" where
  "history_inv h \<longleftrightarrow>
     length (gh_entries h) \<le> unat (gh_current_revision_id h) \<and>
     entries_cost (gh_entries h) \<le> unat (gh_current_cumulative_estimated_bytes h) \<and>
     chain (base_revision h) (base_cost h) (gh_entries h) \<and>
     unat (gh_replay_floor_revision h) \<le> base_revision h"

lemma entries_cost_simps [simp]:
  "entries_cost [] = 0" "entries_cost (e # es) = unat (he_estimated_raw_bytes e) + entries_cost es"
  "entries_cost (xs @ ys) = entries_cost xs + entries_cost ys"
  by (simp_all add: entries_cost_def)

lemma chain_append [simp]:
  "chain r c (xs @ ys) \<longleftrightarrow> chain r c xs \<and> chain (r + length xs) (c + entries_cost xs) ys"
  by (induction xs arbitrary: r c) (auto simp: algebra_simps)

lemma chain_nth:
  assumes "chain r c es" "i < length es"
  shows "unat (he_from (es ! i)) = r + i" "unat (he_to (es ! i)) = r + i + 1"
    "unat (he_cumulative_estimated_bytes (es ! i)) = c + entries_cost (take (i + 1) es)"
  using assms by (induction es arbitrary: r c i) (auto simp: nth_Cons split: nat.splits)

lemma chain_split:
  assumes "chain r c es" "n \<le> length es"
  shows "chain r c (take n es)" "chain (r + n) (c + entries_cost (take n es)) (drop n es)"
  using assms chain_append[of r c "take n es" "drop n es"] by simp_all

lemma entries_cost_split: "entries_cost es = entries_cost (take n es) + entries_cost (drop n es)"
  using entries_cost_simps(3)[of "take n es" "drop n es"] by simp

lemma oldest_available:
  assumes "history_inv h"
  shows "unat (oldest_available_revision h) = base_revision h"
  using assms by (cases "gh_entries h") (auto simp: oldest_available_revision_def history_inv_def base_revision_def)

lemma history_new_inv: "history_inv history_new"
  by (simp add: history_inv_def history_new_def base_revision_def)

section \<open>Appending and pruning\<close>

lemma history_append_outcome:
  assumes inv: "history_inv h" and src: "gh_current_revision_id h = gd_from_revision_id delta"
    and tgt: "unat (gd_to_revision_id delta) = unat (gd_from_revision_id delta) + 1"
    and cost: "unat (gh_current_cumulative_estimated_bytes h) + unat bytes < 2 ^ 64"
  shows "\<exists>h'. history_append h delta bytes rep = Some (h', Inr ()) \<and> history_inv h' \<and>
      gh_current_revision_id h' = gd_to_revision_id delta \<and>
      unat (gh_current_cumulative_estimated_bytes h') = unat (gh_current_cumulative_estimated_bytes h) + unat bytes \<and>
      (case rep of
         Replayable \<Rightarrow> gh_replay_floor_revision h' = gh_replay_floor_revision h \<and> base_revision h' = base_revision h \<and>
           (\<exists>e. gh_entries h' = gh_entries h @ [e] \<and> he_delta e = delta \<and> he_estimated_raw_bytes e = bytes)
       | ReplayBarrier \<Rightarrow> gh_entries h' = [] \<and> gh_replay_floor_revision h' = gd_to_revision_id delta)"
proof -
  have succ: "checked_add (gd_from_revision_id delta) 1 = Some (gd_to_revision_id delta)"
    using tgt by (simp add: checked_add_Some_iff)
  define cum where "cum = gh_current_cumulative_estimated_bytes h + bytes"
  have add: "checked_add (gh_current_cumulative_estimated_bytes h) bytes = Some cum"
    using cost by (simp add: checked_add_def cum_def)
  then have ucum: "unat cum = unat (gh_current_cumulative_estimated_bytes h) + unat bytes" by (rule unat_checked_add)
  show ?thesis
  proof (cases rep)
    case Replayable
    let ?e = "\<lparr>he_delta = delta, he_estimated_raw_bytes = bytes, he_cumulative_estimated_bytes = cum\<rparr>"
    let ?h = "h\<lparr>gh_entries := gh_entries h @ [?e], gh_current_revision_id := gd_to_revision_id delta,
        gh_current_cumulative_estimated_bytes := cum\<rparr>"
    have base: "base_revision ?h = base_revision h" "base_cost ?h = base_cost h"
      using inv src tgt ucum by (simp_all add: base_revision_def base_cost_def history_inv_def)
    have "history_inv ?h"
      using inv src tgt ucum base
      by (auto simp: history_inv_def base_revision_def[of h] base_cost_def[of h])
    then show ?thesis using Replayable src succ add base ucum by (simp add: history_append_def)
  next
    case ReplayBarrier
    then show ?thesis using src succ add ucum tgt
      by (simp add: history_append_def history_inv_def base_revision_def Let_def)
  qed
qed

lemma history_prune_inv:
  assumes inv: "history_inv h"
  shows "history_inv (history_prune h low)"
proof -
  let ?P = "\<lambda>e. gd_head_level (he_delta e) < low"
  define n where "n = length (takeWhile ?P (gh_entries h))"
  have es: "gh_entries (history_prune h low) = drop n (gh_entries h)"
    by (simp add: history_prune_def n_def dropWhile_eq_drop)
  have n: "n \<le> length (gh_entries h)" by (simp add: n_def length_takeWhile_le)
  have "base_revision (history_prune h low) = base_revision h + n"
    using inv n es by (simp add: base_revision_def history_prune_def history_inv_def)
  moreover have "base_cost (history_prune h low) = base_cost h + entries_cost (take n (gh_entries h))"
    using inv es entries_cost_split[of "gh_entries h" n] by (simp add: base_cost_def history_prune_def history_inv_def)
  ultimately show ?thesis
    using inv n es chain_split(2)[of "base_revision h" "base_cost h" "gh_entries h" n] entries_cost_split[of "gh_entries h" n]
    by (simp add: history_inv_def) (auto simp: history_prune_def)
qed

section \<open>Binary search\<close>

definition boundaries_sorted :: "graph_history_entry list \<Rightarrow> bool" where
  "boundaries_sorted es \<longleftrightarrow> (\<forall>i j. i < j \<longrightarrow> j < length es \<longrightarrow> he_from (es ! i) < he_from (es ! j))"

lemma boundaries_sortedD:
  "boundaries_sorted es \<Longrightarrow> i < j \<Longrightarrow> j < length es \<Longrightarrow> he_from (es ! i) < he_from (es ! j)"
  by (simp add: boundaries_sorted_def)

lemma chain_sorted: "chain r c es \<Longrightarrow> boundaries_sorted es"
  by (auto simp: boundaries_sorted_def word_less_nat_alt chain_nth)

lemma find_boundary_correct:
  assumes "boundaries_sorted es" "high \<le> length es"
    and "\<And>i. i < low \<Longrightarrow> he_from (es ! i) < r" "\<And>i. high \<le> i \<Longrightarrow> i < length es \<Longrightarrow> r < he_from (es ! i)"
  shows "case fst (find_boundary es r low high n) of
           None \<Rightarrow> \<forall>i < length es. he_from (es ! i) \<noteq> r
         | Some i \<Rightarrow> i < length es \<and> he_from (es ! i) = r"
  using assms
proof (induction es r low high n rule: find_boundary.induct)
  case (1 es r low high n)
  show ?case
  proof (cases "low < high")
    case False
    then have "he_from (es ! i) \<noteq> r" if "i < length es" for i
      using that "1.prems"(3)[of i] "1.prems"(4)[of i] by (cases "i < low") auto
    then show ?thesis using False by (subst find_boundary.simps) simp
  next
    case True
    define m where "m = low + (high - low) div 2"
    have m: "low \<le> m" "m < high" using True by (auto simp: m_def)
    consider "he_from (es ! m) < r" | "r < he_from (es ! m)" | "he_from (es ! m) = r" by (meson linorder_cases)
    then show ?thesis
    proof cases
      case 1
      have "he_from (es ! i) < r" if "i < m + 1" for i
        using that 1 boundaries_sortedD[OF "1.prems"(1), of i m] "1.prems"(2) m by (cases "i = m") auto
      then show ?thesis
        using "1.IH"(1)[OF True m_def refl] 1 "1.prems" True
        by (subst find_boundary.simps) (simp add: Let_def flip: m_def)
    next
      case 2
      have "r < he_from (es ! i)" if "m \<le> i" "i < length es" for i
        using that 2 boundaries_sortedD[OF "1.prems"(1), of m i] by (cases "i = m") auto
      moreover have "\<not> he_from (es ! m) < r" using 2 by simp
      ultimately show ?thesis
        using "1.IH"(2)[OF True m_def refl] 2 "1.prems" True m
        by (subst find_boundary.simps) (simp add: Let_def flip: m_def)
    next
      case 3
      then show ?thesis using True m "1.prems"(2) by (subst find_boundary.simps) (simp add: Let_def flip: m_def)
    qed
  qed
qed

lemma find_boundary_inspections:
  "high - low < 2 ^ k \<Longrightarrow> snd (find_boundary es r low high n) \<le> n + k"
proof (induction k arbitrary: low high n)
  case 0
  then show ?case by (subst find_boundary.simps) simp
next
  case (Suc k)
  show ?case
  proof (cases "low < high")
    case True
    define m where "m = low + (high - low) div 2"
    have "high - (m + 1) < 2 ^ k" "m - low < 2 ^ k" using Suc.prems True by (auto simp: m_def)
    then have "snd (find_boundary es r (m + 1) high (n + 1)) \<le> n + 1 + k"
        "snd (find_boundary es r low m (n + 1)) \<le> n + 1 + k"
      using Suc.IH by blast+
    then show ?thesis using True by (subst find_boundary.simps) (simp add: Let_def flip: m_def)
  qed (subst find_boundary.simps, simp)
qed

lemma find_boundary_index_chain:
  assumes ch: "chain r c es" and rev: "unat x = r + i" "i < length es"
  shows "find_boundary_index es x = Some i"
proof -
  have fi: "he_from (es ! j) = x \<longleftrightarrow> j = i" if "j < length es" for j
    using chain_nth(1)[OF ch that] rev by (auto simp: word_unat_eq_iff)
  have "case fst (find_boundary es x 0 (length es) 0) of
           None \<Rightarrow> \<forall>i < length es. he_from (es ! i) \<noteq> x | Some i \<Rightarrow> i < length es \<and> he_from (es ! i) = x"
    by (rule find_boundary_correct[OF chain_sorted[OF ch]]) auto
  then show ?thesis using fi rev(2) by (auto simp: find_boundary_index_def split: option.splits)
qed


section \<open>Selecting a range\<close>

lemma take_to_target_chain:
  assumes "chain r c es" "r < unat target"
  shows "take_to_target target es = take (unat target - r) es"
  using assms
proof (induction es arbitrary: r c)
  case (Cons e es)
  have e: "unat (he_to e) = r + 1" "chain (r + 1) (c + unat (he_estimated_raw_bytes e)) es" using Cons.prems(1) by auto
  show ?case
  proof (cases "he_to e = target")
    case True
    then show ?thesis using e(1) by (simp add: Suc_diff_le)
  next
    case False
    then have "r + 1 < unat target" using Cons.prems(2) e(1) by (auto simp: word_unat_eq_iff)
    then show ?thesis using False Cons.IH[OF e(2)] by (simp add: take_Cons')
  qed
qed simp

definition history_slice :: "graph_history \<Rightarrow> nat \<Rightarrow> nat \<Rightarrow> graph_history_entry list" where
  "history_slice h from to = take (to - from) (drop (from - base_revision h) (gh_entries h))"

lemma length_entries: "history_inv h \<Longrightarrow> base_revision h + length (gh_entries h) = unat (gh_current_revision_id h)"
  by (simp add: history_inv_def base_revision_def)

lemma history_range_cases:
  assumes inv: "history_inv h"
  shows "history_range h from target =
    (if target < from then Inl (BackwardTarget from target)
     else if target = from then Inr (UpToDate from)
     else if from < gh_replay_floor_revision h then Inl (StartBeforeReplayFloor from (gh_replay_floor_revision h))
     else if from < oldest_available_revision h then Inl (StartPruned from (oldest_available_revision h))
     else if from = gh_current_revision_id h then Inr (UpToDate from)
     else if gh_current_revision_id h < from then Inl (StartUnavailable from (gh_current_revision_id h))
     else Inr (Deltas from target (min target (gh_current_revision_id h))
            (history_slice h (unat from) (unat (min target (gh_current_revision_id h))))))"
proof -
  let ?b = "base_revision h" and ?es = "gh_entries h" and ?cur = "gh_current_revision_id h"
  have ch: "chain ?b (base_cost h) ?es" using inv by (simp add: history_inv_def)
  have len: "?b + length ?es = unat ?cur" by (rule length_entries[OF inv])
  have old: "from < oldest_available_revision h \<longleftrightarrow> unat from < ?b" by (simp add: word_less_nat_alt oldest_available[OF inv])
  show ?thesis
  proof (cases "from < target \<and> \<not> from < oldest_available_revision h \<and> from \<noteq> ?cur")
    case False
    then show ?thesis by (auto simp: history_range_def)
  next
    case True
    then have lo: "?b \<le> unat from" and ft: "unat from < unat target" and ne: "unat from \<noteq> unat ?cur"
      using old by (auto simp: word_less_nat_alt word_unat_eq_iff)
    show ?thesis
    proof (cases "?cur < from")
      case True
      have "find_boundary_index ?es from = None"
      proof (cases "find_boundary_index ?es from")
        case (Some i)
        have "case fst (find_boundary ?es from 0 (length ?es) 0) of
           None \<Rightarrow> \<forall>i < length ?es. he_from (?es ! i) \<noteq> from | Some i \<Rightarrow> i < length ?es \<and> he_from (?es ! i) = from"
          by (rule find_boundary_correct[OF chain_sorted[OF ch]]) auto
        then have i: "i < length ?es" "he_from (?es ! i) = from" using Some by (auto simp: find_boundary_index_def)
        then show ?thesis using chain_nth(1)[OF ch i(1)] True len by (auto simp: word_less_nat_alt)
      qed
      then show ?thesis using True ft by (auto simp: history_range_def word_less_nat_alt)
    next
      case False
      define n where "n = unat from - ?b"
      have n: "unat from = ?b + n" "n < length ?es"
        using lo False ne len by (auto simp: n_def word_less_nat_alt)
      have idx: "find_boundary_index ?es from = Some n" by (rule find_boundary_index_chain[OF ch n])
      have "chain (unat from) (base_cost h + entries_cost (take n ?es)) (drop n ?es)"
        using chain_split(2)[OF ch, of n] n by simp
      from take_to_target_chain[OF this ft]
      have sel: "take_to_target target (drop n ?es) = take (unat target - unat from) (drop n ?es)" .
      let ?sel = "take (unat target - unat from) (drop n ?es)"
      have mn: "unat (min target ?cur) = min (unat target) (unat ?cur)" by (simp add: min_def word_le_nat_alt)
      have slice: "history_slice h (unat from) (unat (min target ?cur)) = ?sel"
        unfolding history_slice_def n_def[symmetric] mn
      proof (cases "unat target \<le> unat ?cur")
        case False
        then have "length (drop n ?es) \<le> unat target - unat from" "length (drop n ?es) = unat ?cur - unat from"
          using n len by auto
        then show "take (min (unat target) (unat ?cur) - unat from) (drop n ?es) = ?sel" using False by (simp add: min_def)
      qed (simp add: min_def)
      have "?sel \<noteq> []" using ft n by simp
      moreover have "he_to (last ?sel) = min target ?cur"
      proof -
        define k where "k = min (unat target) (unat ?cur) - unat from"
        have k: "0 < k" "n + (k - 1) < length ?es" "length ?sel = k"
          using ft n len ne False by (auto simp: k_def word_less_nat_alt)
        have ne: "?sel \<noteq> []" using k by auto
        have "last ?sel = ?sel ! (k - 1)" using last_conv_nth[OF ne] unfolding k(3) .
        also have "\<dots> = ?es ! (n + (k - 1))" using k n(2) by auto
        finally have "last ?sel = ?es ! (n + (k - 1))" .
        then have "unat (he_to (last ?sel)) = ?b + (n + (k - 1)) + 1" using chain_nth(2)[OF ch k(2)] by simp
        also have "\<dots> = min (unat target) (unat ?cur)" using k(1) n(1) by (simp add: k_def)
        finally show ?thesis by (simp add: word_unat_eq_iff mn)
      qed
      ultimately show ?thesis
        using True False idx sel slice by (auto simp: history_range_def Let_def)
    qed
  qed
qed


section \<open>Fitting a range\<close>

definition slice_cost :: "graph_history \<Rightarrow> u64 \<Rightarrow> u64 \<Rightarrow> u64" where
  "slice_cost h from target = word_of_nat (entries_cost (history_slice h (unat from) (unat target)))"

definition fitting_result ::
  "graph_history \<Rightarrow> u64 \<Rightarrow> u64 \<Rightarrow> u64 \<Rightarrow> graph_history_fitting_range" where
  "fitting_result h from requested target =
     \<lparr>gfr_target_revision = target, gfr_shortened = (target \<noteq> requested),
      gfr_entries = history_slice h (unat from) (unat target)\<rparr>"

lemma left_boundary:
  assumes "chain r c es" "n < length es"
  shows "\<exists>left. checked_sub (he_cumulative_estimated_bytes (es ! n)) (he_estimated_raw_bytes (es ! n)) = Some left \<and>
      unat left = c + entries_cost (take n es)"
proof -
  have cum: "unat (he_cumulative_estimated_bytes (es ! n)) = c + entries_cost (take n es) + unat (he_estimated_raw_bytes (es ! n))"
    using chain_nth(3)[OF assms] assms(2) by (simp add: take_Suc_conv_app_nth)
  then have "he_estimated_raw_bytes (es ! n) \<le> he_cumulative_estimated_bytes (es ! n)" by (simp add: word_le_nat_alt)
  then show ?thesis using cum by (simp add: checked_sub_def unat_sub word_le_nat_alt)
qed

lemma fitting_loop_spec:
  assumes inv: "history_inv h" and src: "unat from = base_revision h + n" "n < length (gh_entries h)"
    and left: "unat left = base_cost h + entries_cost (take n (gh_entries h))"
    and cands: "sorted_wrt (>) ts" "\<And>t. t \<in> set ts \<Longrightarrow> from < t \<and> t \<le> requested \<and> t \<le> gh_current_revision_id h"
    and prev: "\<And>p t. previous = Some p \<Longrightarrow> t \<in> set ts \<Longrightarrow> t < p"
  shows "fitting_loop (gh_entries h) n from requested left fits previous ts =
      Some (map_option (fitting_result h from requested) (List.find (\<lambda>t. fits (slice_cost h from t)) ts))"
  using cands prev
proof (induction ts arbitrary: previous)
  case (Cons t ts)
  let ?es = "gh_entries h" and ?b = "base_revision h"
  have ch: "chain ?b (base_cost h) ?es" using inv by (simp add: history_inv_def)
  have t: "from < t" "t \<le> requested" "t \<le> gh_current_revision_id h" using Cons.prems(2) by auto
  define k where "k = unat t - unat from"
  have "unat (t - from) = k" using t(1) by (simp add: k_def unat_sub word_le_nat_alt word_less_nat_alt)
  moreover have k0: "0 < k" using t(1) by (simp add: k_def word_less_nat_alt)
  ultimately have dist: "unat (t - from - 1) = k - 1"
    by (metis One_nat_def Suc_leI unat_1 unat_sub word_le_nat_alt)
  have len: "n + (k - 1) < length ?es"
    using length_entries[OF inv] t src(1) k0 by (auto simp: k_def word_le_nat_alt)
  have idx: "n + unat (t - from - 1) < length ?es" "n + unat (t - from - 1) = n + (k - 1)" using dist len by auto
  have to_t: "he_to (?es ! (n + (k - 1))) = t"
    using chain_nth(2)[OF ch len] src(1) k0 by (simp add: word_unat_eq_iff k_def)
  have slice: "history_slice h (unat from) (unat t) = take k (drop n ?es)"
    using src(1) by (simp add: history_slice_def k_def)
  have split: "take (n + (k - 1) + 1) ?es = take n ?es @ take k (drop n ?es)"
    using k0 by (simp add: take_add)
  have cum: "unat (he_cumulative_estimated_bytes (?es ! (n + (k - 1)))) = unat left + entries_cost (take k (drop n ?es))"
    using chain_nth(3)[OF ch len] left unfolding split by simp
  then have sub: "checked_sub (he_cumulative_estimated_bytes (?es ! (n + (k - 1)))) left = Some (slice_cost h from t)"
  proof -
    have "entries_cost (take k (drop n ?es)) < 2 ^ 64"
      using cum unsigned_less[of "he_cumulative_estimated_bytes (?es ! (n + (k - 1)))", where 'a = nat] by simp
    then show ?thesis using cum by (simp add: checked_sub_Some_iff slice_cost_def slice unat_of_nat)
  qed
  have rest: "fitting_loop ?es n from requested left fits (Some t) ts =
      Some (map_option (fitting_result h from requested) (List.find (\<lambda>t. fits (slice_cost h from t)) ts))"
    by (rule Cons.IH) (use Cons.prems in auto)
  have prev_ok: "\<not> (case previous of None \<Rightarrow> False | Some p \<Rightarrow> \<not> t < p)"
    using Cons.prems(3) by (auto split: option.splits)
  have ends: "n + (k - 1) + 1 - n = k" using k0 by simp
  show ?case
    using t(1,2) prev_ok idx to_t sub rest ends
    by (simp add: fitting_result_def[of h "from" requested t] slice dist del: One_nat_def)
qed simp

lemma fitting_range_outcome:
  assumes inv: "history_inv h" and lo: "oldest_available_revision h \<le> from" and hi: "from < gh_current_revision_id h"
    and cands: "ts = requested # rest" "sorted_wrt (>) ts" "list_all (\<lambda>t. from < t) ts" "requested \<le> gh_current_revision_id h"
  shows "fitting_range h from ts fits =
    Some (Inr (map_option (fitting_result h from requested) (List.find (\<lambda>t. fits (slice_cost h from t)) ts)))"
proof -
  define n where "n = unat from - base_revision h"
  have ch: "chain (base_revision h) (base_cost h) (gh_entries h)" using inv by (simp add: history_inv_def)
  have n: "unat from = base_revision h + n" "n < length (gh_entries h)"
    using lo hi length_entries[OF inv] oldest_available[OF inv] by (auto simp: n_def word_le_nat_alt word_less_nat_alt)
  have idx: "find_boundary_index (gh_entries h) from = Some n" by (rule find_boundary_index_chain[OF ch n])
  have floor: "\<not> from < gh_replay_floor_revision h"
    using inv lo oldest_available[OF inv] by (auto simp: history_inv_def word_le_nat_alt word_less_nat_alt)
  obtain left where left: "checked_sub (he_cumulative_estimated_bytes (gh_entries h ! n)) (he_estimated_raw_bytes (gh_entries h ! n)) = Some left"
      "unat left = base_cost h + entries_cost (take n (gh_entries h))"
    using left_boundary[OF ch n(2)] by blast
  have "t \<le> requested" if "t \<in> set ts" for t using that cands(1,2) by auto
  then have "fitting_loop (gh_entries h) n from requested left fits None ts =
      Some (map_option (fitting_result h from requested) (List.find (\<lambda>t. fits (slice_cost h from t)) ts))"
    using cands by (intro fitting_loop_spec[OF inv n left(2)]) (auto simp: list_all_iff)
  moreover have "\<not> requested < from" "requested \<noteq> from" "\<not> from < oldest_available_revision h"
      "from \<noteq> gh_current_revision_id h"
    using cands lo hi by auto
  ultimately show ?thesis
    unfolding fitting_range_def using cands(1) floor idx left(1) by (simp add: Let_def del: fitting_loop.simps find.simps)
qed


text \<open>The estimate a fitting range reports is the one its target was accepted with.\<close>

lemma fitting_estimate:
  assumes inv: "history_inv h" and lo: "oldest_available_revision h \<le> from" and t: "from < t" "t \<le> gh_current_revision_id h"
  shows "fitting_estimated_raw_bytes (fitting_result h from requested t) = Some (slice_cost h from t)"
proof -
  let ?b = "base_revision h" and ?es = "gh_entries h"
  define n k where "n = unat from - ?b" and "k = unat t - unat from"
  have ch: "chain ?b (base_cost h) ?es" using inv by (simp add: history_inv_def)
  have n: "unat from = ?b + n" "n < length ?es" "n + k \<le> length ?es" "0 < k"
    using lo t length_entries[OF inv] oldest_available[OF inv]
    by (auto simp: n_def k_def word_le_nat_alt word_less_nat_alt)
  have slice: "history_slice h (unat from) (unat t) = take k (drop n ?es)"
    by (simp add: history_slice_def n_def k_def)
  obtain left where left: "checked_sub (he_cumulative_estimated_bytes (?es ! n)) (he_estimated_raw_bytes (?es ! n)) = Some left"
      "unat left = base_cost h + entries_cost (take n ?es)"
    using left_boundary[OF ch n(2)] by blast
  have hd_sl: "take k (drop n ?es) = ?es ! n # tl (take k (drop n ?es))"
    using n by (cases k) (simp_all add: Cons_nth_drop_Suc[symmetric])
  have ne: "take k (drop n ?es) \<noteq> []" using n by simp
  have lk: "length (take k (drop n ?es)) = k" using n by simp
  have "last (take k (drop n ?es)) = take k (drop n ?es) ! (k - 1)" using last_conv_nth[OF ne] unfolding lk .
  also have "\<dots> = ?es ! (n + (k - 1))" using n by simp
  finally have la: "last (take k (drop n ?es)) = ?es ! (n + (k - 1))" .
  have "n + (k - 1) < length ?es" using n by simp
  moreover have "take (n + (k - 1) + 1) ?es = take n ?es @ take k (drop n ?es)" using n by (simp add: take_add)
  ultimately have cum: "unat (he_cumulative_estimated_bytes (?es ! (n + (k - 1)))) = unat left + entries_cost (take k (drop n ?es))"
    using chain_nth(3)[OF ch, of "n + (k - 1)"] left(2) by simp
  have "entries_cost (take k (drop n ?es)) < 2 ^ 64"
    using cum unsigned_less[of "he_cumulative_estimated_bytes (?es ! (n + (k - 1)))", where 'a = nat] by simp
  then have "checked_sub (he_cumulative_estimated_bytes (?es ! (n + (k - 1)))) left = Some (slice_cost h from t)"
    using cum by (simp add: checked_sub_Some_iff slice_cost_def slice unat_of_nat)
  moreover have ge: "gfr_entries (fitting_result h from requested t) = take k (drop n ?es)"
    by (simp add: fitting_result_def slice)
  ultimately show ?thesis
    unfolding fitting_estimated_raw_bytes_def ge la by (subst hd_sl) (simp add: left(1))
qed

end
