(* ===== verification/Graph_Lineage.thy ===== *)
theory Graph_Lineage
  imports Graph_History
begin

text \<open>
  Replay of retained deltas. A \<open>lineage\<close> is the sequence of views an API lineage went through together
  with the \<open>GraphHistory\<close> kept of it (\<open>kgi-api-model/src/history.rs\<close>); every range the history serves
  takes the view at the range's first revision to the view at its last one. The argument is made once,
  for any revisioned state, and interpreted on \<open>GraphView::apply_delta\<close>.
\<close>

section \<open>Replaying revisioned states\<close>

text \<open>What replay relies on: a step leads from a state at the source revision of a change to a state
  at its target revision.\<close>

locale revisioned =
  fixes step :: "'v \<Rightarrow> 'd \<Rightarrow> 'v option" and revision :: "'v \<Rightarrow> u64"
    and source :: "'d \<Rightarrow> u64" and target :: "'d \<Rightarrow> u64"
  assumes step_source: "step v d = Some v' \<Longrightarrow> source d = revision v"
    and step_target: "step v d = Some v' \<Longrightarrow> revision v' = target d"
begin

lemma replay_slice:
  assumes "\<And>k. i \<le> k \<Longrightarrow> k < j \<Longrightarrow> step (us ! k) (ds ! (k - b)) = Some (us ! (k + 1))"
    and "b \<le> i" "i \<le> j" "j - b \<le> length ds"
  shows "fold_opt step (us ! i) (take (j - i) (drop (i - b) ds)) = Some (us ! j)"
  using assms
proof (induction "j - i" arbitrary: i)
  case (Suc n)
  then have lt: "i < j" by simp
  have "take (j - i) (drop (i - b) ds) = ds ! (i - b) # take (j - (i + 1)) (drop (i + 1 - b) ds)"
    using lt Suc.prems(2,4)
    by (metis Suc_diff_Suc Suc_diff_le Suc_eq_plus1 diff_less_mono drop_drop less_le_trans take_Suc_Cons
        Cons_nth_drop_Suc plus_1_eq_Suc)
  moreover have "fold_opt step (us ! (i + 1)) (take (j - (i + 1)) (drop (i + 1 - b) ds)) = Some (us ! j)"
    by (rule Suc.hyps) (use Suc lt in auto)
  ultimately show ?case using Suc.prems(1)[of i] lt by simp
qed simp

lemma replay_source: "fold_opt step v (d # ds) = Some v' \<Longrightarrow> source d = revision v"
  by (auto split: option.splits dest: step_source)

lemma replay_target: "fold_opt step v ds = Some v' \<Longrightarrow> ds \<noteq> [] \<Longrightarrow> revision v' = target (last ds)"
  by (induction ds arbitrary: v) (auto split: option.splits dest: step_target)

end

definition view_step :: "graph_view \<Rightarrow> graph_delta \<Rightarrow> graph_view option" where
  "view_step v d = (case apply_delta v d of Some (v', Inr _) \<Rightarrow> Some v' | _ \<Rightarrow> None)"

lemma view_step_iff: "view_step v d = Some v' \<longleftrightarrow> apply_delta v d = Some (v', Inr ())"
  by (auto simp: view_step_def split: option.splits sum.splits)

lemma apply_delta_revision:
  assumes "apply_delta v d = Some (v', Inr ())"
  shows "gd_from_revision_id d = gv_current_revision_id v" "gv_current_revision_id v' = gd_to_revision_id d"
proof -
  show eq: "gd_from_revision_id d = gv_current_revision_id v"
  proof (rule ccontr)
    assume "gd_from_revision_id d \<noteq> gv_current_revision_id v"
    then show False using assms by (cases "gv_tracking_policy v = Frozen") (auto simp: apply_delta_def)
  qed
  show "gv_current_revision_id v' = gd_to_revision_id d"
  proof (cases "gv_tracking_policy v = Frozen")
    case False
    then show ?thesis
      using assms eq by (clarsimp simp add: apply_delta_def Let_def case_prod_unfold bind_eq_Some_conv split del: if_split)
  qed (use assms in \<open>simp add: apply_delta_def\<close>)
qed

interpretation views: revisioned view_step gv_current_revision_id gd_from_revision_id gd_to_revision_id
  by unfold_locales (auto simp: view_step_iff apply_delta_revision)

section \<open>A lineage of views and its history\<close>

text \<open>The views a lineage went through, oldest first, and the history kept of it.\<close>

inductive lineage :: "graph_view list \<Rightarrow> graph_history \<Rightarrow> bool" where
  lineage_seed: "gv_current_revision_id v = 0 \<Longrightarrow> lineage [v] history_new"
| lineage_step: "lineage us h \<Longrightarrow> apply_delta (last us) d = Some (v, Inr ()) \<Longrightarrow>
    history_append h d bytes rep = Some (h', Inr ()) \<Longrightarrow> lineage (us @ [v]) h'"
| lineage_prune: "lineage us h \<Longrightarrow> lineage us (history_prune h low)"

lemma history_append_InrD:
  assumes "history_append h d bytes rep = Some (h', Inr ())"
  shows "gh_current_revision_id h = gd_from_revision_id d" "unat (gd_to_revision_id d) = unat (gd_from_revision_id d) + 1"
    "unat (gh_current_cumulative_estimated_bytes h) + unat bytes < 2 ^ 64"
  using assms
  by (auto simp: history_append_def bind_eq_Some_conv Let_def checked_add_def unat_word_ariths split: if_splits)

lemma lineage_inv:
  assumes "lineage us h"
  shows "history_inv h \<and> length us = unat (gh_current_revision_id h) + 1 \<and>
      (\<forall>i < length us. unat (gv_current_revision_id (us ! i)) = i) \<and>
      (\<forall>i. base_revision h \<le> i \<longrightarrow> i < unat (gh_current_revision_id h) \<longrightarrow>
         view_step (us ! i) (he_delta (gh_entries h ! (i - base_revision h))) = Some (us ! (i + 1)))"
  using assms
proof induction
  case (lineage_seed v)
  then show ?case by (simp add: history_new_inv) (simp add: history_new_def)
next
  case (lineage_step us h d v bytes rep h')
  have inv: "history_inv h" and len: "length us = unat (gh_current_revision_id h) + 1"
    and revs: "\<And>i. i < length us \<Longrightarrow> unat (gv_current_revision_id (us ! i)) = i"
    and steps: "\<And>i. base_revision h \<le> i \<Longrightarrow> i < unat (gh_current_revision_id h) \<Longrightarrow>
         view_step (us ! i) (he_delta (gh_entries h ! (i - base_revision h))) = Some (us ! (i + 1))"
    using lineage_step.IH by auto
  note app = history_append_InrD[OF lineage_step.hyps(3)]
  from history_append_outcome[OF inv app, of rep] lineage_step.hyps(3) have
    h': "history_inv h'" "gh_current_revision_id h' = gd_to_revision_id d"
    and rep: "case rep of
         Replayable \<Rightarrow> gh_replay_floor_revision h' = gh_replay_floor_revision h \<and> base_revision h' = base_revision h \<and>
           (\<exists>e. gh_entries h' = gh_entries h @ [e] \<and> he_delta e = d \<and> he_estimated_raw_bytes e = bytes)
       | ReplayBarrier \<Rightarrow> gh_entries h' = [] \<and> gh_replay_floor_revision h' = gd_to_revision_id d"
    by auto
  note vr = apply_delta_revision[OF lineage_step.hyps(2)]
  have cur': "unat (gh_current_revision_id h') = unat (gh_current_revision_id h) + 1" using h'(2) app by simp
  have last: "last us = us ! unat (gh_current_revision_id h)" using len by (metis add_diff_cancel_right' last_conv_nth length_0_conv add_is_0 one_neq_zero)
  have revs': "unat (gv_current_revision_id ((us @ [v]) ! i)) = i" if "i < length (us @ [v])" for i
    using that revs[of i] vr(2) app len by (cases "i < length us") (auto simp: nth_append less_Suc_eq)
  have "view_step ((us @ [v]) ! i) (he_delta (gh_entries h' ! (i - base_revision h'))) = Some ((us @ [v]) ! (i + 1))"
    if i: "base_revision h' \<le> i" "i < unat (gh_current_revision_id h')" for i
  proof (cases rep)
    case Replayable
    then obtain e where e: "gh_entries h' = gh_entries h @ [e]" "he_delta e = d" "base_revision h' = base_revision h"
      using rep by auto
    have nl: "length (gh_entries h) = unat (gh_current_revision_id h) - base_revision h"
        "base_revision h \<le> unat (gh_current_revision_id h)"
      using length_entries[OF inv] by simp_all
    show ?thesis
    proof (cases "i = unat (gh_current_revision_id h)")
      case True
      then show ?thesis using e nl len last lineage_step.hyps(2) by (simp add: nth_append view_step_iff)
    next
      case False
      then have lt: "i < unat (gh_current_revision_id h)" using i cur' by simp
      then have "i - base_revision h < length (gh_entries h)" using i e nl by simp
      then show ?thesis using steps[of i] i e lt len by (simp add: nth_append)
    qed
  next
    case ReplayBarrier
    then have "base_revision h' = unat (gh_current_revision_id h')" using rep by (simp add: base_revision_def)
    then show ?thesis using i by simp
  qed
  then show ?case using h'(1) len cur' revs' by auto
next
  case (lineage_prune us h low)
  define n where "n = length (takeWhile (\<lambda>e. gd_head_level (he_delta e) < low) (gh_entries h))"
  have es: "gh_entries (history_prune h low) = drop n (gh_entries h)"
    by (simp add: history_prune_def n_def dropWhile_eq_drop)
  have n: "n \<le> length (gh_entries h)" by (simp add: n_def length_takeWhile_le)
  have inv: "history_inv h" using lineage_prune.IH by blast
  have cur: "gh_current_revision_id (history_prune h low) = gh_current_revision_id h" by (simp add: history_prune_def)
  have base: "base_revision (history_prune h low) = base_revision h + n"
    using inv n es by (simp add: base_revision_def history_prune_def history_inv_def)
  have "gh_entries (history_prune h low) ! (i - base_revision (history_prune h low)) = gh_entries h ! (i - base_revision h)"
    if "base_revision (history_prune h low) \<le> i" for i
    using that n by (simp add: es base)
  then show ?case using lineage_prune.IH history_prune_inv[OF inv] by (simp add: cur base)
qed

text \<open>What the history serves replays: the deltas of a range, applied to the view at the range's first
  revision, give the view at its last one.\<close>

lemma lineage_slice_replays:
  assumes lin: "lineage us h" and bounds: "base_revision h \<le> i" "i \<le> j" "j \<le> unat (gh_current_revision_id h)"
  shows "fold_opt view_step (us ! i) (map he_delta (history_slice h i j)) = Some (us ! j)"
proof -
  let ?ds = "map he_delta (gh_entries h)"
  note inv = lineage_inv[OF lin]
  have len: "base_revision h + length (gh_entries h) = unat (gh_current_revision_id h)"
    using inv length_entries by blast
  have step: "view_step (us ! k) (?ds ! (k - base_revision h)) = Some (us ! (k + 1))" if "i \<le> k" "k < j" for k
  proof -
    have "k - base_revision h < length (gh_entries h)" using that bounds len by linarith
    then show ?thesis using that bounds inv by simp
  qed
  have "fold_opt view_step (us ! i) (take (j - i) (drop (i - base_revision h) ?ds)) = Some (us ! j)"
    by (rule views.replay_slice[OF step bounds(1,2)]) (use bounds len in auto)
  then show ?thesis by (simp add: history_slice_def take_map drop_map)
qed

lemma lineage_range_replays:
  assumes lin: "lineage us h" and range: "history_range h src tgt = Inr (Deltas src tgt actual es)"
  shows "unat src < unat actual \<and> actual = min tgt (gh_current_revision_id h) \<and>
    fold_opt view_step (us ! unat src) (map he_delta es) = Some (us ! unat actual)"
proof -
  let ?cur = "gh_current_revision_id h"
  have inv: "history_inv h" using lineage_inv[OF lin] by blast
  have facts: "\<not> tgt < src" "tgt \<noteq> src" "\<not> src < oldest_available_revision h" "src \<noteq> ?cur" "\<not> ?cur < src"
    "actual = min tgt ?cur" "es = history_slice h (unat src) (unat (min tgt ?cur))"
    using range by (auto simp: history_range_cases[OF inv] split: if_splits)
  have le: "base_revision h \<le> unat src" using facts(3) by (simp add: word_less_nat_alt oldest_available[OF inv])
  have lt: "unat src < unat (min tgt ?cur)" "unat (min tgt ?cur) \<le> unat ?cur"
    using facts by (auto simp: min_def word_less_nat_alt word_le_nat_alt word_unat_eq_iff)
  show ?thesis using lineage_slice_replays[OF lin le, of "unat (min tgt ?cur)"] lt facts(6,7) by simp
qed

lemma lineage_fitting_replays:
  assumes lin: "lineage us h" and bounds: "base_revision h \<le> unat src" "src \<le> tgt" "tgt \<le> gh_current_revision_id h"
  shows "fold_opt view_step (us ! unat src) (map he_delta (gfr_entries (fitting_result h src requested tgt))) = Some (us ! unat tgt)"
  using lineage_slice_replays[OF lin bounds(1), of "unat tgt"] bounds by (simp add: fitting_result_def word_le_nat_alt)

end
