(* ===== verification/KGI_Samples.thy ===== *)
theory KGI_Samples
  imports Graph_Lineage
begin

text \<open>
  Small concrete graphs and storage events on which the properties are evaluated: a Head view of
  depth two over levels 1 and 2, and the commit of a block at level 3 that moves its window.
\<close>

definition sample_block :: "block_hash \<Rightarrow> u32 \<Rightarrow> block_hash list \<Rightarrow> graph_block" where
  "sample_block h l parents =
     \<lparr>gb_hash = h, gb_coordinate = BlockCoordinate l 0, gb_timestamp = 0, gb_daa_score = 0,
      gb_selected_parent_index = None, gb_direct_parents = parents,
      gb_blue_merge_set = [], gb_red_merge_set = [], gb_color = Gray, gb_is_in_vspc = False\<rparr>"

definition sample_edge :: "block_hash \<Rightarrow> u32 \<Rightarrow> block_hash \<Rightarrow> u32 \<Rightarrow> graph_edge" where
  "sample_edge p pl c cl =
     \<lparr>ge_id = EdgeId p c, ge_parent_coordinate = BlockCoordinate pl 0,
      ge_child_coordinate = BlockCoordinate cl 0\<rparr>"

definition sample_level :: level where
  "sample_level = \<lparr>lv_size = 1, lv_daa_score = None\<rparr>"

definition sample_head :: graph_view where
  "sample_head = the (from_database_projection 2 (LevelExtent 1 2) Head
     (fmap_of_list [(1, sample_level), (2, sample_level)])
     (fmap_of_list [(11, sample_block 11 1 []), (12, sample_block 12 2 [11])])
     (fmap_of_list [(EdgeId 11 12, sample_edge 11 1 12 2)]))"

definition sample_commit :: block_committed where
  "sample_commit =
     \<lparr>bk_id = CompactId 3, bk_hash = 13, bk_coordinate = BlockCoordinate 3 0, bk_timestamp = 0,
      bk_daa_score = 0, bk_selected_parent_index = None,
      bk_direct_parents = [\<lparr>pc_hash = 12, pc_coordinate = Some (BlockCoordinate 2 0)\<rparr>],
      bk_blue_merge_set = [], bk_red_merge_set = [], bk_color = Gray, bk_is_in_vspc = False,
      bk_level_snapshots =
        [\<lparr>lc_level = 2, lc_size = 1, lc_daa_score = None\<rparr>,
         \<lparr>lc_level = 3, lc_size = 1, lc_daa_score = None\<rparr>]\<rparr>"

lemma sample_head_inv: "head_inv sample_head"
  by code_simp

lemma sample_commit_coherent: "head_coherent sample_head sample_commit"
  by code_simp

text \<open>Whether an update produced a delta.\<close>

definition yields_delta :: "(graph_view \<times> (graph_view_update_error + graph_delta option)) option \<Rightarrow> bool" where
  "yields_delta r = (case r of Some (_, Inr (Some _)) \<Rightarrow> True | _ \<Rightarrow> False)"

lemma yields_deltaE:
  assumes "yields_delta r"
  obtains v' delta where "r = Some (v', Inr (Some delta))"
  using assms by (cases r) (auto simp: yields_delta_def split: sum.splits option.splits)

text \<open>The view and the delta of an update that produced one.\<close>

definition delta_step_of :: "(graph_view \<times> (graph_view_update_error + graph_delta option)) option \<Rightarrow> graph_view \<times> graph_delta" where
  "delta_step_of r = (case r of Some (v, Inr (Some d)) \<Rightarrow> (v, d) | _ \<Rightarrow> undefined)"

text \<open>A VSPC transition onto the block at level 2, and the same graph as a Fixed view.\<close>

definition sample_vspc :: vspc_committed where
  "sample_vspc = \<lparr>vc_source = 11, vc_destination = 12, vc_removed = [], vc_added = [12],
     vc_level_snapshots = [\<lparr>lc_level = 2, lc_size = 1, lc_daa_score = Some 9\<rparr>]\<rparr>"

definition sample_fixed :: graph_view where
  "sample_fixed = sample_head\<lparr>gv_tracking_policy := Fixed\<rparr>"

lemma sample_counters_fit: "counters_fit sample_head"
  by code_simp

lemma sample_fixed_inv: "view_inv sample_fixed"
  by code_simp

end
