(* ===== verification/Graph_Properties.thy ===== *)
theory Graph_Properties
  imports KGI_Samples
begin

text \<open>
  The properties of the graph view and its deltas, each with a concrete instance where it has
  hypotheses.
\<close>

section \<open>The Head view\<close>

text \<open>C1. A delta produced by committing a block to the Head view is exact: applying it to the view
  from before the commit gives the view after it, field for field, secondary indexes and usage counts
  included.\<close>

theorem head_block_delta_replays:
  assumes "head_inv v" and "head_coherent v c"
    and "apply_head_block_committed v c ts = Some (v', Inr (Some delta))"
  shows "apply_delta v delta = Some (v', Inr ())"
  using head_commit_outcome[OF assms(1,2), of ts] assms(3) by auto

theorem head_block_delta_replays_witness:
  "\<exists>v' delta. apply_head_block_committed sample_head sample_commit 5 = Some (v', Inr (Some delta)) \<and>
     apply_delta sample_head delta = Some (v', Inr ())"
proof -
  have "yields_delta (apply_head_block_committed sample_head sample_commit 5)" by code_simp
  then obtain v' delta where run: "apply_head_block_committed sample_head sample_commit 5 = Some (v', Inr (Some delta))"
    by (rule yields_deltaE)
  then show ?thesis
    using head_block_delta_replays[OF sample_head_inv sample_commit_coherent run] by blast
qed

text \<open>C11. Committing a coherent block to a well-formed Head view never panics and gives a well-formed
  Head view, whose window has moved to the new head, whose blocks, edges and levels are exactly the
  projected ones that the window retains; the revision moves by one, or the view is unchanged.\<close>

theorem head_block_commit_correct:
  assumes "head_inv v" and "head_coherent v c"
  shows "\<exists>v' d. apply_head_block_committed v c ts = Some (v', Inr d) \<and> head_inv v' \<and>
    gv_extent v' = head_extent v c \<and> gv_blocks v' = head_blocks v c \<and> gv_edges v' = head_edges v c \<and>
    (\<forall>l. gv_level v' l = head_level_value v c l) \<and>
    (if d = None then v' = v else gv_current_revision_id v' = gv_current_revision_id v + 1)"
proof -
  obtain v' d where "apply_head_block_committed v c ts = Some (v', Inr d)" "head_inv v'"
    "gv_extent v' = head_extent v c" "gv_blocks v' = head_blocks v c" "gv_edges v' = head_edges v c"
    "\<forall>l. gv_level v' l = head_level_value v c l"
    "case d of None \<Rightarrow> v' = v | Some delta \<Rightarrow> gv_current_revision_id v' = gv_current_revision_id v + 1"
    using head_commit_outcome[OF assms, of ts] by (force split: option.splits)
  then show ?thesis by (intro exI[of _ v'] exI[of _ d]) (auto split: option.splits)
qed

theorem head_block_commit_correct_witness:
  "\<exists>v' d. apply_head_block_committed sample_head sample_commit 5 = Some (v', Inr d) \<and> head_inv v' \<and>
     gv_extent v' = LevelExtent 2 3"
proof -
  have "head_extent sample_head sample_commit = LevelExtent 2 3" by code_simp
  then show ?thesis
    using head_block_commit_correct[OF sample_head_inv sample_commit_coherent, of 5] by auto
qed

text \<open>C17. Committing a VSPC transition to a well-formed Head view never panics, keeps the view
  well-formed, recolours and relabels exactly the blocks the transition names and sets exactly the
  scores of the levels it snapshots; its delta replays.\<close>

theorem head_vspc_commit_correct:
  assumes "head_inv v" and "counters_fit v"
  shows "\<exists>v' d. apply_head_vspc_committed v c ts = Some (v', Inr d) \<and> head_inv v' \<and>
    (\<forall>h. fmlookup (gv_blocks v') h = map_option (vspc_block c (head_metadata v c) h) (fmlookup (gv_blocks v) h)) \<and>
    (\<forall>l. gv_level v' l = map_option (vspc_level c l) (gv_level v l)) \<and> gv_edges v' = gv_edges v \<and>
    (case d of None \<Rightarrow> v' = v | Some delta \<Rightarrow> apply_delta v delta = Some (v', Inr ()))"
  using head_vspc_outcome[OF assms, of c ts] by (force split: option.splits)

theorem head_vspc_commit_correct_witness:
  "\<exists>v' delta. apply_head_vspc_committed sample_head sample_vspc 7 = Some (v', Inr (Some delta)) \<and> head_inv v' \<and>
     apply_delta sample_head delta = Some (v', Inr ())"
proof -
  have "yields_delta (apply_head_vspc_committed sample_head sample_vspc 7)" by code_simp
  then obtain v' delta where "apply_head_vspc_committed sample_head sample_vspc 7 = Some (v', Inr (Some delta))"
    by (rule yields_deltaE)
  then show ?thesis using head_vspc_commit_correct[OF sample_head_inv sample_counters_fit, of sample_vspc 7] by auto
qed

section \<open>Fixed and frozen views\<close>

text \<open>C22. While a Fixed view overlaps the Head window, committing a coherent block to it keeps it
  well-formed and Fixed with the same extent, projects exactly the retained block, edges and levels,
  and any delta replays.\<close>

theorem fixed_block_commit_correct:
  assumes "view_inv v" and "gv_tracking_policy v = Fixed" and "gv_tracking_policy head = Head"
    and "overlaps (gv_extent v) (gv_extent head)" and "commit_coherent v c"
  shows "\<exists>v' d. apply_fixed_block_committed v c head ts = Some (v', Inr d) \<and> view_inv v' \<and>
    gv_blocks v' = projected_blocks v c (gv_extent v) \<and> gv_edges v' = projected_edges v c (gv_extent v) \<and>
    (\<forall>l. gv_level v' l = projected_level v c (gv_extent v) l) \<and> gv_extent v' = gv_extent v \<and>
    gv_tracking_policy v' = Fixed \<and>
    (case d of None \<Rightarrow> v' = v | Some delta \<Rightarrow> apply_delta v delta = Some (v', Inr ()))"
  using fixed_block_outcome[OF assms, of ts] by (force split: option.splits)

theorem fixed_block_commit_correct_witness:
  "\<exists>v' d. apply_fixed_block_committed sample_fixed sample_commit sample_head 5 = Some (v', Inr d) \<and> view_inv v' \<and>
     gv_extent v' = LevelExtent 1 2"
proof -
  have "gv_tracking_policy sample_fixed = Fixed" "gv_tracking_policy sample_head = Head"
    "overlaps (gv_extent sample_fixed) (gv_extent sample_head)" "commit_coherent sample_fixed sample_commit"
    "gv_extent sample_fixed = LevelExtent 1 2" by code_simp+
  then show ?thesis using fixed_block_commit_correct[OF sample_fixed_inv, of sample_head sample_commit 5] by auto
qed



section \<open>Composition and construction\<close>



text \<open>C31. Building a view from a database projection whose edges are keyed and whose parent levels are
  present never panics and gives a well-formed view at revision zero with exactly the given graph.\<close>

theorem database_projection_well_formed:
  assumes "0 < max_depth" and "extent_valid extent" and "extent_depth extent \<le> max_depth" and "edges_keyed edges"
    and "fmpred (\<lambda>_ e. parent_level e |\<in>| fmdom levels) edges" and "fcard (fmdom edges) < 2 ^ 64"
  shows "\<exists>v. from_database_projection max_depth extent policy levels blocks edges = Some v \<and> view_inv v \<and>
    view_frame v = (max_depth, extent, 0, 0, policy) \<and> gv_blocks v = blocks \<and> gv_edges v = edges \<and> level_values v = levels"
  by (rule from_database_projection_outcome[OF assms])

theorem database_projection_well_formed_witness:
  "\<exists>v. from_database_projection 2 (LevelExtent 1 2) Fixed (fmap_of_list [(1, sample_level), (2, sample_level)])
       (fmap_of_list [(11, sample_block 11 1 [])]) (fmap_of_list [(EdgeId 11 12, sample_edge 11 1 12 2)]) = Some v \<and> view_inv v"
proof -
  have "0 < (2::u32)" "extent_valid (LevelExtent 1 2)" "extent_depth (LevelExtent 1 2) \<le> 2"
    "edges_keyed (fmap_of_list [(EdgeId 11 12, sample_edge 11 1 12 2)])"
    "fmpred (\<lambda>_ e. parent_level e |\<in>| fmdom (fmap_of_list [(1, sample_level), (2, sample_level)]))
       (fmap_of_list [(EdgeId 11 12, sample_edge 11 1 12 2)])"
    "fcard (fmdom (fmap_of_list [(EdgeId 11 12, sample_edge 11 1 12 2)])) < 2 ^ 64" by code_simp+
  from database_projection_well_formed[OF this, of Fixed "fmap_of_list [(11, sample_block 11 1 [])]"]
  show ?thesis by blast
qed

text \<open>C30. Extracting a subview of a view with all its levels: an extent outside the source is refused;
  otherwise the result is a well-formed frozen view of that extent at the source's revision, with
  exactly the blocks inside, the edges that touch it and the levels these need.\<close>

theorem extract_subview_correct:
  assumes "view_inv v" and "list_all (\<lambda>l. l |\<in>| fmdom (gv_levels v)) (extent_levels (gv_extent v))"
    and "child_levels_retained v" and "fcard (fmdom (gv_edges v)) < 2 ^ 64" and "extent_valid e"
  shows "if contains_extent (gv_extent v) e
    then (\<exists>w. extract_subview v e = Some (Inr w) \<and> view_inv w \<and>
           gv_blocks w = subview_blocks v e \<and> gv_edges w = subview_edges v e \<and> (\<forall>l. gv_level w l = subview_level v e l) \<and>
           view_frame w = (extent_depth e, e, gv_current_revision_id v, gv_current_revision_timestamp_ms v, Frozen))
    else extract_subview v e = Some (Inl OutsideSourceExtent)"
proof (cases "contains_extent (gv_extent v) e")
  case True
  then show ?thesis using extract_subview_outcome[OF assms True] by simp
next
  case False
  then show ?thesis by (simp add: extract_subview_def)
qed

theorem extract_subview_correct_witness:
  "\<exists>w. extract_subview sample_head (LevelExtent 2 2) = Some (Inr w) \<and> gv_tracking_policy w = Frozen \<and>
     gv_blocks w = subview_blocks sample_head (LevelExtent 2 2)"
proof -
  have "view_inv sample_head" "list_all (\<lambda>l. l |\<in>| fmdom (gv_levels sample_head)) (extent_levels (gv_extent sample_head))"
    "child_levels_retained sample_head" "fcard (fmdom (gv_edges sample_head)) < 2 ^ 64" "extent_valid (LevelExtent 2 2)"
    by code_simp+
  moreover have "contains_extent (gv_extent sample_head) (LevelExtent 2 2)" by code_simp
  ultimately show ?thesis using extract_subview_correct[of sample_head "LevelExtent 2 2"] by (auto simp: view_frame_def)
qed

end
