(* ===== verification/KGI_Collections.thy ===== *)
theory KGI_Collections
  imports KGI_Model
begin

text \<open>
  Further shared facts on finite sets, maps and bucket indexes, used by the processing components and
  the delta ladder: sorted traversals of sets, folds of bucket insertions and removals, and
  \<open>Iterator::position\<close>.
\<close>

section \<open>Sets in traversal order\<close>

lemma distinct_sorted_fset [simp]: "distinct (sorted_list_of_fset s)"
  by (simp add: sorted_list_of_fset.rep_eq)

lemma fcard_empty [simp]: "fcard {||} = 0"
  by (simp add: fcard.rep_eq)

lemma bucket_fold_insert [simp]:
  "bucket (fold (\<lambda>d. bucket_insert d h) ds m) d = (if d \<in> set ds then finsert h (bucket m d) else bucket m d)"
  by (induction ds arbitrary: m) auto

lemma bucket_fold_remove [simp]:
  "bucket (fold (\<lambda>d. bucket_remove d h) ds m) d = (if d \<in> set ds then bucket m d |-| {|h|} else bucket m d)"
  by (induction ds arbitrary: m) auto

lemma no_empty_fold_insert [simp]: "no_empty_bucket m \<Longrightarrow> no_empty_bucket (fold (\<lambda>d. bucket_insert d h) ds m)"
  by (induction ds arbitrary: m) auto

lemma no_empty_fold_remove [simp]: "no_empty_bucket m \<Longrightarrow> no_empty_bucket (fold (\<lambda>d. bucket_remove d h) ds m)"
  by (induction ds arbitrary: m) auto

lemma no_empty_dom: "no_empty_bucket m \<Longrightarrow> k |\<in>| fmdom m \<longleftrightarrow> bucket m k \<noteq> {||}"
  by (auto simp: bucket_lookup_iff fmlookup_dom_iff)

lemma fset_of_sorted_fset [simp]: "fset_of_list (sorted_list_of_fset s) = s"
  by (simp add: fset_of_list_def sorted_list_of_fset.rep_eq fset_inverse)

lemma sorted_list_of_ffilter: "sorted_list_of_fset (ffilter P s) = filter P (sorted_list_of_fset s)"
proof -
  have "sorted (filter P (sorted_list_of_fset s))" "distinct (filter P (sorted_list_of_fset s))"
    using sorted_filter[of id "sorted_list_of_fset s" P] by (simp_all add: sorted_list_of_fset.rep_eq)
  then show ?thesis
    by (intro sorted_distinct_set_unique) (auto simp: sorted_list_of_fset.rep_eq)
qed

lemma fcard_dom_map:
  assumes "\<And>q. fmlookup m' q = None \<longleftrightarrow> fmlookup m q = None"
  shows "fmdom m' = fmdom m"
  by (intro fset_eqI) (simp add: fmlookup_dom_iff not_None_eq[symmetric] assms del: not_None_eq)

section \<open>Positions\<close>

fun position :: "'a \<Rightarrow> 'a list \<Rightarrow> nat option" where
  "position x [] = None"
| "position x (y # ys) = (if y = x then Some 0 else map_option Suc (position x ys))"

lemma position_Some: "t \<in> set ts \<Longrightarrow> \<exists>i. position t ts = Some i \<and> i < length ts \<and> ts ! i = t"
  by (induction ts) auto

end
