(* ===== verification/Delta_Ladder.thy ===== *)
theory Delta_Ladder
  imports Graph_Lineage KGI_Collections
begin

text \<open>
  The canonical-delta target ladder, \<open>crates/kgi-api-core/src/delta.rs\<close>, with the protocol constants of
  \<open>crates/kgi-api-model/src/protocol.rs\<close>: the adaptive interval, the dyadic boundaries of a source
  revision, target selection against a captured Head, and the size-descent targets handed to the
  history. Every assertion and \<open>expect\<close> of the source is a \<open>None\<close> branch. The lemmas show the ladder
  is a strictly descending list of at most eight boundaries ending at the atomic successor, that
  selection never panics on a forward request, and that waiting clients are woken at a boundary at
  which selection succeeds.
\<close>

section \<open>Protocol constants\<close>

definition DELTA_BASE_REVISION_SPAN :: u64 where "DELTA_BASE_REVISION_SPAN = 4"

definition MAX_DELTA_REVISION_SPAN :: u64 where "MAX_DELTA_REVISION_SPAN = 128"

definition ADAPTIVE_DELTA_INTERVALS :: "u64 list" where
  "ADAPTIVE_DELTA_INTERVALS = [1, 2, 4, 8, 16, 32, 64, 128]"

definition INITIAL_ADAPTIVE_DELTA_INTERVAL :: u64 where "INITIAL_ADAPTIVE_DELTA_INTERVAL = 4"

datatype graph_publication_state = Synchronizing | Live | Stale

section \<open>The active interval\<close>

record active_delta_interval =
  ai_value :: u64

definition active_delta_interval_new :: active_delta_interval where
  "active_delta_interval_new = \<lparr>ai_value = INITIAL_ADAPTIVE_DELTA_INTERVAL\<rparr>"

definition try_update :: "active_delta_interval \<Rightarrow> u64 \<Rightarrow> active_delta_interval \<times> bool" where
  "try_update a candidate =
     (if candidate \<notin> set ADAPTIVE_DELTA_INTERVALS then (a, False)
      else (a\<lparr>ai_value := candidate\<rparr>, True))"

section \<open>Boundaries of a source revision\<close>

unbundle bit_operations_syntax

definition isolate_lowest_one :: "u64 \<Rightarrow> u64" where
  "isolate_lowest_one w = w AND (- w)"

definition next_power_of_two :: "u64 \<Rightarrow> u64 option" where
  "next_power_of_two w = map_option (\<lambda>k. 2 ^ k) (List.find (\<lambda>k. unat w \<le> 2 ^ k) [0..<64])"

definition ordinary_successor :: "u64 \<Rightarrow> u64 option" where
  "ordinary_successor source =
     (if source = 0 \<or> isolate_lowest_one source < DELTA_BASE_REVISION_SPAN then do {
        minimum \<leftarrow> checked_add source DELTA_BASE_REVISION_SPAN;
        let remainder = minimum mod DELTA_BASE_REVISION_SPAN;
        if remainder = 0 then Some minimum
        else checked_add minimum (DELTA_BASE_REVISION_SPAN - remainder) }
      else checked_add source (min (isolate_lowest_one source) MAX_DELTA_REVISION_SPAN))"

text \<open>The loop over halving spans; \<open>targets\<close> grows at its end.\<close>

function boundary_loop :: "u64 \<Rightarrow> u64 \<Rightarrow> u64 \<Rightarrow> u64 list \<Rightarrow> u64 list option" where
  "boundary_loop source successor span targets =
     (if span = 0 then Some targets
      else do {
        quotient \<leftarrow> checked_add (source div span) 1;
        target \<leftarrow> checked_mul quotient span;
        boundary_loop source successor (span div 2)
          (if target < successor \<and> \<not> (targets \<noteq> [] \<and> last targets = target)
           then targets @ [target] else targets) })"
  by auto
termination
  by (relation "measure (\<lambda>(_, _, span, _). unat span)")
    (auto simp: unat_div word_neq_0_conv word_less_nat_alt)

declare boundary_loop.simps [simp del]

definition target_boundaries :: "u64 \<Rightarrow> u64 list option" where
  "target_boundaries source = do {
     successor \<leftarrow> ordinary_successor source;
     let successor_span = successor - source;
     power \<leftarrow> next_power_of_two successor_span;
     boundary_loop source successor (power div 2) [successor] }"

section \<open>The ladder\<close>

record delta_revision_range =
  dr_source_revision :: u64
  dr_target_revision :: u64

datatype delta_target_selection = Range delta_revision_range | WaitForWakeup u64

record delta_target_ladder =
  dl_source_revision :: u64
  dl_head_revision :: u64
  dl_current_target :: "u64 option"
  dl_active_interval :: u64
  dl_targets :: "u64 list"

definition selected :: "u64 \<Rightarrow> u64 \<Rightarrow> delta_revision_range" where
  "selected source target = \<lparr>dr_source_revision = source, dr_target_revision = target\<rparr>"

definition ladder_new :: "u64 \<Rightarrow> u64 \<Rightarrow> u64 option \<Rightarrow> u64 \<Rightarrow> delta_target_ladder option" where
  "ladder_new source head current interval =
     (if \<not> source < head then None
      else if interval \<notin> set ADAPTIVE_DELTA_INTERVALS then None
      else do {
        targets \<leftarrow> target_boundaries source;
        if (case current of
              None \<Rightarrow> True
            | Some c \<Rightarrow> source < c \<and> c \<le> head \<and> c \<in> set targets)
        then Some \<lparr>dl_source_revision = source, dl_head_revision = head, dl_current_target = current,
                   dl_active_interval = interval, dl_targets = targets\<rparr>
        else None })"

fun iter_min :: "u64 list \<Rightarrow> u64 option" where
  "iter_min [] = None"
| "iter_min (t # ts) = Some (fold min ts t)"

definition ladder_eligible :: "delta_target_ladder \<Rightarrow> graph_publication_state \<Rightarrow> u64 \<Rightarrow> u64 \<Rightarrow> bool" where
  "ladder_eligible l state successor target =
     (state = Stale \<or> target = successor \<or> dl_active_interval l \<le> target - dl_source_revision l)"

definition select :: "delta_target_ladder \<Rightarrow> graph_publication_state \<Rightarrow> delta_target_selection option" where
  "select l state =
     (case dl_targets l of
        [] \<Rightarrow> None
      | successor # _ \<Rightarrow>
          if successor \<le> dl_head_revision l
          then Some (Range (selected (dl_source_revision l) successor))
          else case List.find (\<lambda>t. t \<le> dl_head_revision l \<and> ladder_eligible l state successor t) (dl_targets l) of
                 Some target \<Rightarrow> Some (Range (selected (dl_source_revision l) target))
               | None \<Rightarrow>
                   map_option WaitForWakeup
                     (iter_min (filter (\<lambda>t. dl_head_revision l < t \<and> ladder_eligible l state successor t)
                        (dl_targets l))))"

definition next_eligible_boundary_from :: "u64 \<Rightarrow> u64 \<Rightarrow> u64 option" where
  "next_eligible_boundary_from source interval =
     (if interval \<notin> set ADAPTIVE_DELTA_INTERVALS then None
      else do {
        targets \<leftarrow> target_boundaries source;
        case targets of
          [] \<Rightarrow> None
        | successor # _ \<Rightarrow> iter_min (filter (\<lambda>t. t = successor \<or> interval \<le> t - source) targets) })"

definition fitting_targets :: "delta_target_ladder \<Rightarrow> delta_revision_range \<Rightarrow> u64 list option" where
  "fitting_targets l sel =
     (if dr_source_revision sel \<noteq> dl_source_revision l then None
      else do {
        index \<leftarrow> position (dr_target_revision sel) (dl_targets l);
        if \<not> dr_target_revision sel \<le> dl_head_revision l then None
        else if (case dl_current_target l of None \<Rightarrow> False | Some c \<Rightarrow> \<not> c \<le> dr_target_revision sel) then None
        else Some (takeWhile (\<lambda>t. case dl_current_target l of None \<Rightarrow> True | Some c \<Rightarrow> c \<le> t)
                     (drop index (dl_targets l))) })"

section \<open>Arithmetic of the boundaries\<close>

text \<open>The first boundary after a revision that is aligned to a span.\<close>

definition boundary_after :: "nat \<Rightarrow> nat \<Rightarrow> nat" where
  "boundary_after source span = (source div span + 1) * span"

lemma boundary_after_bounds:
  assumes "0 < span"
  shows "source < boundary_after source span" "boundary_after source span \<le> source + span"
proof -
  have split: "source = span * (source div span) + source mod span" by simp
  have "boundary_after source span = span * (source div span) + span" by (simp add: boundary_after_def algebra_simps)
  then show "source < boundary_after source span" "boundary_after source span \<le> source + span"
    using split mod_less_divisor[OF assms, of source] by linarith+
qed

lemma boundary_after_least:
  assumes "0 < span" "source < t" "span dvd t"
  shows "boundary_after source span \<le> t"
proof -
  from assms(3) obtain m where t: "t = span * m" by blast
  have "source div span < m" using assms(1,2) t by (simp add: div_less_iff_less_mult mult.commute)
  then have "(source div span + 1) * span \<le> m * span" by (intro mult_le_mono1) simp
  then show ?thesis by (simp add: boundary_after_def t mult.commute)
qed

lemma boundary_after_mono: "boundary_after source (2 ^ k) \<le> boundary_after source (2 ^ Suc k)"
proof (rule boundary_after_least)
  have "(2::nat) ^ k dvd 2 ^ Suc k" by (rule le_imp_power_dvd) simp
  then show "2 ^ k dvd boundary_after source (2 ^ Suc k)"
    unfolding boundary_after_def by (rule dvd_mult)
qed (use boundary_after_bounds[of "2 ^ Suc k" source] in auto)

lemma ordinary_successor_bounds:
  assumes "ordinary_successor s = Some t"
  shows "unat s < unat t \<and> unat t \<le> unat s + 128"
proof (cases "s = 0 \<or> isolate_lowest_one s < DELTA_BASE_REVISION_SPAN")
  case True
  let ?b = "DELTA_BASE_REVISION_SPAN"
  from True assms obtain m where m: "checked_add s ?b = Some m"
    and t: "(if m mod ?b = 0 then Some m else checked_add m (?b - m mod ?b)) = Some t"
    unfolding ordinary_successor_def Let_def if_P[OF True] by (auto simp only: bind_eq_Some_conv)
  have mu: "unat m = unat s + 4" using unat_checked_add[OF m] by (simp add: DELTA_BASE_REVISION_SPAN_def)
  have "unat (?b - m mod ?b) \<le> 4"
    using unat_sub[of "m mod ?b" ?b] word_mod_less_divisor[of ?b m]
    by (simp add: DELTA_BASE_REVISION_SPAN_def word_less_nat_alt word_le_nat_alt unat_sub)
  then show ?thesis using t mu unat_checked_add[of m "?b - m mod ?b" t] by (auto split: if_splits)
next
  case False
  let ?w = "min (isolate_lowest_one s) MAX_DELTA_REVISION_SPAN"
  have "checked_add s ?w = Some t" using False assms by (simp add: ordinary_successor_def)
  then have "unat t = unat s + unat ?w" by (rule unat_checked_add)
  moreover have "unat ?w \<le> 128" by (simp add: min_def MAX_DELTA_REVISION_SPAN_def word_le_nat_alt)
  moreover have "4 \<le> unat ?w" using False
    by (simp add: min_def MAX_DELTA_REVISION_SPAN_def DELTA_BASE_REVISION_SPAN_def word_le_nat_alt word_less_nat_alt)
  ultimately show ?thesis by simp
qed

lemma ordinary_successor_total:
  assumes "unat s + 128 < 2 ^ 64"
  shows "\<exists>t. ordinary_successor s = Some t"
proof -
  let ?b = "DELTA_BASE_REVISION_SPAN"
  have m: "checked_add s ?b = Some (s + 4)" using assms by (simp add: checked_add_def DELTA_BASE_REVISION_SPAN_def)
  have mu: "unat (s + 4) = unat s + 4" using unat_checked_add[OF m] by (simp add: DELTA_BASE_REVISION_SPAN_def)
  have "unat (?b - (s + 4) mod ?b) \<le> 4"
    using word_mod_less_divisor[of ?b "s + 4"]
    by (simp add: DELTA_BASE_REVISION_SPAN_def word_less_nat_alt word_le_nat_alt unat_sub)
  then have "\<exists>t. checked_add (s + 4) (?b - (s + 4) mod ?b) = Some t" using assms mu by (simp add: checked_add_def)
  moreover have "unat (min (isolate_lowest_one s) MAX_DELTA_REVISION_SPAN) \<le> 128"
    by (simp add: min_def MAX_DELTA_REVISION_SPAN_def word_le_nat_alt)
  then have "\<exists>t. checked_add s (min (isolate_lowest_one s) MAX_DELTA_REVISION_SPAN) = Some t"
    using assms by (simp add: checked_add_def)
  ultimately show ?thesis by (auto simp: ordinary_successor_def m Let_def)
qed

lemma next_power_of_two_spec:
  assumes "0 < unat w" "unat w \<le> 128"
  obtains k where "next_power_of_two w = Some (2 ^ k)" "k \<le> 7" "k = 0 \<or> 2 ^ (k - 1) < unat w" "unat w \<le> 2 ^ k"
proof -
  let ?p = "\<lambda>k. unat w \<le> 2 ^ k"
  have "?p 7" using assms by simp
  then have "List.find ?p [0..<64] \<noteq> None" by (auto simp: find_None_iff intro!: exI[of _ 7])
  then obtain k where k: "List.find ?p [0..<64] = Some k" by blast
  then obtain i where i: "i < 64" "?p i" "k = i" "\<forall>j<i. \<not> ?p j"
    by (auto simp: find_Some_iff)
  have "\<not> 7 < i" using i(4) assms by auto
  then have "i \<le> 7" by simp
  moreover have "i = 0 \<or> 2 ^ (i - 1) < unat w" using i(4) by (cases i) (auto simp: not_le)
  ultimately show ?thesis using that[of i] k i by (simp add: next_power_of_two_def)
qed

section \<open>The ladder of a source\<close>

lemma sorted_gt_last:
  "sorted_wrt (>) ts \<Longrightarrow> t \<in> set ts \<Longrightarrow> last ts \<le> (t :: 'a::linorder)"
proof (induction ts)
  case (Cons a ts)
  then show ?case using last_in_set[of ts] by (cases "ts = []"; cases "t = a") (auto intro: less_imp_le)
qed simp

lemma sorted_gt_snoc:
  "sorted_wrt (>) ts \<Longrightarrow> ts \<noteq> [] \<Longrightarrow> t < last ts \<Longrightarrow> sorted_wrt (>) (ts @ [t :: 'a::linorder])"
  by (auto simp: sorted_wrt_append dest: sorted_gt_last)

definition ladder_part :: "u64 \<Rightarrow> u64 list \<Rightarrow> bool" where
  "ladder_part succ ts = (sorted_wrt (>) ts \<and> ts \<noteq> [] \<and> hd ts = succ)"

lemma boundary_step:
  assumes span: "unat span = 2 ^ k" and fits: "unat s + 2 ^ k \<le> unat succ"
    and ts: "ladder_part succ ts" "boundary_after (unat s) (2 ^ k) \<le> unat (last ts)"
  obtains ts1 where "boundary_loop s succ span ts = boundary_loop s succ (span div 2) ts1"
    "ladder_part succ ts1" "unat (last ts1) = boundary_after (unat s) (2 ^ k)"
    "unat ` set ts1 = insert (boundary_after (unat s) (2 ^ k)) (unat ` set ts)" "length ts1 \<le> length ts + 1"
proof -
  let ?B = "boundary_after (unat s) (2 ^ k)"
  have B: "unat s < ?B" "?B \<le> unat succ"
    using boundary_after_bounds[of "2 ^ k" "unat s"] fits by simp_all
  have lim: "?B < 2 ^ 64" using B(2) unsigned_less[of succ, where 'a = nat] by simp
  define T :: u64 where "T = of_nat ?B"
  have T: "unat T = ?B" using lim by (simp add: T_def unat_of_nat)
  have nz: "span \<noteq> 0" using span by auto
  have q: "checked_add (s div span) 1 = Some (s div span + 1)"
  proof -
    have "unat s div 2 ^ k + 1 \<le> ?B" using B(1) div_le_dividend[of "unat s" "2 ^ k"] by linarith
    then show ?thesis using lim span by (simp add: checked_add_def unat_div)
  qed
  have uq: "unat (s div span + 1) = unat s div 2 ^ k + 1"
    using unat_checked_add[OF q] span by (simp add: unat_div)
  have m: "checked_mul (s div span + 1) span = Some T"
  proof -
    have "unat (s div span + 1) * unat span = ?B" unfolding uq span boundary_after_def ..
    then show ?thesis using lim T
      by (simp add: checked_mul_def word_unat_eq_iff unat_word_ariths(2)[of "s div span + 1" span])
  qed
  have ne: "ts \<noteq> []" and sorted: "sorted_wrt (>) ts" and hd: "hd ts = succ" using ts(1) by (auto simp: ladder_part_def)
  have le: "T \<le> last ts" using ts(2) T by (simp add: word_le_nat_alt)
  have hi: "last ts \<le> succ" using sorted_gt_last[OF sorted hd_in_set[OF ne]] hd by simp
  define ts1 where "ts1 = (if T < succ \<and> \<not> (ts \<noteq> [] \<and> last ts = T) then ts @ [T] else ts)"
  have run: "boundary_loop s succ span ts = boundary_loop s succ (span div 2) ts1"
    by (subst boundary_loop.simps) (simp add: nz q m ts1_def)
  show ?thesis
  proof (cases "last ts = T")
    case True
    then have "ts1 = ts" by (simp add: ts1_def ne)
    moreover have "unat T \<in> unat ` set ts" using True ne last_in_set by blast
    then have "unat ` set ts = insert ?B (unat ` set ts)" using T by (simp add: insert_absorb)
    ultimately show ?thesis using that[OF run] ts T True by simp
  next
    case False
    then have lt: "T < last ts" using le by simp
    then have "ts1 = ts @ [T]" using False hi by (auto simp: ts1_def)
    then show ?thesis using that[OF run] sorted_gt_snoc[OF sorted ne lt] ne hd T by (auto simp: ladder_part_def)
  qed
qed

lemma boundary_loop_spec:
  assumes "unat span = 2 ^ k" and "unat s + 2 ^ k \<le> unat succ"
    and "ladder_part succ ts" "boundary_after (unat s) (2 ^ k) \<le> unat (last ts)"
  shows "\<exists>ts'. boundary_loop s succ span ts = Some ts' \<and> ladder_part succ ts' \<and>
    unat (last ts') = unat s + 1 \<and> unat ` set ts' = unat ` set ts \<union> (\<lambda>j. boundary_after (unat s) (2 ^ j)) ` {..k} \<and>
    length ts' \<le> length ts + k + 1"
  using assms
proof (induction k arbitrary: span ts)
  case (0 span ts)
  obtain ts1 where ts1: "boundary_loop s succ span ts = boundary_loop s succ (span div 2) ts1"
    "ladder_part succ ts1" "unat (last ts1) = boundary_after (unat s) (2 ^ 0)"
    "unat ` set ts1 = insert (boundary_after (unat s) (2 ^ 0)) (unat ` set ts)" "length ts1 \<le> length ts + 1"
    using boundary_step[OF 0] .
  have "span div 2 = 0" using 0(1) by (simp add: word_unat_eq_iff unat_div)
  then have "boundary_loop s succ span ts = Some ts1" using ts1(1) by (simp add: boundary_loop.simps)
  then show ?case using ts1 by (auto simp: boundary_after_def)
next
  case (Suc k span ts)
  let ?B = "\<lambda>j. boundary_after (unat s) (2 ^ j)"
  obtain ts1 where ts1: "boundary_loop s succ span ts = boundary_loop s succ (span div 2) ts1"
    "ladder_part succ ts1" "unat (last ts1) = ?B (Suc k)"
    "unat ` set ts1 = insert (?B (Suc k)) (unat ` set ts)" "length ts1 \<le> length ts + 1"
    using boundary_step[OF Suc.prems] .
  have half: "unat (span div 2) = 2 ^ k" using Suc.prems(1) by (simp add: unat_div)
  obtain ts' where ts': "boundary_loop s succ (span div 2) ts1 = Some ts'" "ladder_part succ ts'"
    "unat (last ts') = unat s + 1" "unat ` set ts' = unat ` set ts1 \<union> ?B ` {..k}" "length ts' \<le> length ts1 + k + 1"
    using Suc.IH[OF half _ ts1(2)] Suc.prems(2) ts1(3) boundary_after_mono[of "unat s" k] by auto
  have "unat ` set ts' = unat ` set ts \<union> ?B ` {..Suc k}" using ts'(4) ts1(4) by (simp add: atMost_Suc)
  then show ?case using ts1(1,5) ts'(1,2,3,5) by auto
qed

lemma unat_power_u64: "k < 64 \<Longrightarrow> unat (2 ^ k :: u64) = 2 ^ k"
  using unat_of_nat[of "2 ^ k", where 'a = 64] power_strict_increasing[of k 64 "2 :: nat"] by simp

text \<open>The complete description of a ladder: strictly descending from the ordinary successor to the
  atomic boundary, at most eight entries, each the next boundary of some power of two.\<close>

lemma target_boundaries_spec:
  assumes "unat s + 128 < 2 ^ 64"
  shows "\<exists>succ ts. ordinary_successor s = Some succ \<and> target_boundaries s = Some ts \<and> ladder_part succ ts \<and>
    unat (last ts) = unat s + 1 \<and> length ts \<le> 8 \<and> (\<forall>t \<in> set ts. s < t \<and> t \<le> succ) \<and>
    (\<forall>t \<in> set ts. t \<noteq> succ \<longrightarrow> (\<exists>j. unat t = boundary_after (unat s) (2 ^ j)))"
proof -
  obtain succ where succ: "ordinary_successor s = Some succ" using ordinary_successor_total[OF assms] by blast
  note b = ordinary_successor_bounds[OF succ]
  have sp: "unat (succ - s) = unat succ - unat s" using b by (simp add: unat_sub word_le_nat_alt)
  obtain k where k: "next_power_of_two (succ - s) = Some (2 ^ k)" "k \<le> 7"
    "k = 0 \<or> 2 ^ (k - 1) < unat (succ - s)" "unat (succ - s) \<le> 2 ^ k"
  proof (rule next_power_of_two_spec[of "succ - s"])
    show "0 < unat (succ - s)" "unat (succ - s) \<le> 128" using b sp by linarith+
  qed
  have part: "ladder_part succ [succ]" by (simp add: ladder_part_def)
  show ?thesis
  proof (cases k)
    case 0
    then have "unat succ - unat s \<le> 1" using sp k(4) by simp
    then have "unat succ = unat s + 1" using b by linarith
    moreover have "target_boundaries s = Some [succ]"
      using 0 k(1) succ by (simp add: target_boundaries_def boundary_loop.simps)
    ultimately show ?thesis using succ part b by (intro exI[of _ succ] exI[of _ "[succ]"]) (auto simp: word_less_nat_alt)
  next
    case (Suc m)
    have half: "unat ((2 ^ k :: u64) div 2) = 2 ^ m"
    proof -
      have "unat ((2 ^ k :: u64) div 2) = 2 ^ k div 2" using k(2) unat_power_u64[of k] by (simp only: unat_div) simp
      then show ?thesis using Suc by simp
    qed
    have fit: "unat s + 2 ^ m \<le> unat succ" using k(3) Suc sp by simp
    have top: "boundary_after (unat s) (2 ^ m) \<le> unat (last [succ])"
      using boundary_after_bounds(2)[of "2 ^ m" "unat s"] fit by simp
    obtain ts where ts: "boundary_loop s succ (2 ^ k div 2) [succ] = Some ts" "ladder_part succ ts"
      "unat (last ts) = unat s + 1" "unat ` set ts = unat ` set [succ] \<union> (\<lambda>j. boundary_after (unat s) (2 ^ j)) ` {..m}"
      "length ts \<le> length [succ] + m + 1"
      using boundary_loop_spec[OF half fit part top] by blast
    have run: "target_boundaries s = Some ts" using k(1) succ ts(1) by (simp add: target_boundaries_def)
    have srt: "sorted_wrt (>) ts" "ts \<noteq> []" "hd ts = succ" using ts(2) by (auto simp: ladder_part_def)
    have "s < t \<and> t \<le> succ" if "t \<in> set ts" for t
    proof
      show "s < t" using sorted_gt_last[OF srt(1) that] ts(3) by (simp add: word_less_nat_alt word_le_nat_alt)
      show "t \<le> succ" using that srt by (cases ts) auto
    qed
    moreover have "\<exists>j. unat t = boundary_after (unat s) (2 ^ j)" if "t \<in> set ts" "t \<noteq> succ" for t
    proof -
      have "unat t \<in> unat ` set ts" using that(1) by blast
      then show ?thesis using that(2) unfolding ts(4) by (auto simp: word_unat_eq_iff)
    qed
    ultimately show ?thesis using succ run ts(2,3,5) Suc k(2)
      by (intro exI[of _ succ] exI[of _ ts]) auto
  qed
qed

section \<open>Selection\<close>

lemma iter_min_eq: "iter_min ts = (if ts = [] then None else Some (Min (set ts)))"
  using Min.set_eq_fold by (cases ts) (auto simp del: list.set simp: Min.set_eq_fold)

lemma find_sorted_gt:
  assumes "sorted_wrt (>) ts" "List.find p ts = Some t"
  shows "t \<in> set ts \<and> p t \<and> (\<forall>u \<in> set ts. p u \<longrightarrow> u \<le> (t :: 'a::linorder))"
  using assms by (induction ts) (auto split: if_splits)

definition eligible_target :: "graph_publication_state \<Rightarrow> u64 \<Rightarrow> u64 \<Rightarrow> u64 \<Rightarrow> u64 \<Rightarrow> bool" where
  "eligible_target state source interval succ t = (state = Stale \<or> t = succ \<or> interval \<le> t - source)"

lemma ladder_new_SomeD:
  assumes "ladder_new source head current interval = Some l"
  shows "source < head" "interval \<in> set ADAPTIVE_DELTA_INTERVALS" "target_boundaries source = Some (dl_targets l)"
    "dl_source_revision l = source" "dl_head_revision l = head" "dl_active_interval l = interval" "dl_current_target l = current"
    "current = Some c \<Longrightarrow> source < c \<and> c \<le> head \<and> c \<in> set (dl_targets l)"
  using assms by (auto simp: ladder_new_def bind_eq_Some_conv split: if_splits)

lemma ladder_new_total:
  assumes "source < head" "interval \<in> set ADAPTIVE_DELTA_INTERVALS" "unat source + 128 < 2 ^ 64"
  shows "\<exists>l. ladder_new source head None interval = Some l"
  using target_boundaries_spec[OF assms(3)] assms(1,2) by (auto simp: ladder_new_def)

lemma select_outcome:
  assumes new: "ladder_new source head current interval = Some l" and fits: "unat source + 128 < 2 ^ 64"
    and succ: "ordinary_successor source = Some succ"
  shows "case select l state of
      None \<Rightarrow> False
    | Some (Range r) \<Rightarrow> dr_source_revision r = source \<and> dr_target_revision r \<in> set (dl_targets l) \<and>
        source < dr_target_revision r \<and> dr_target_revision r \<le> head \<and>
        eligible_target state source interval succ (dr_target_revision r) \<and>
        (\<forall>t \<in> set (dl_targets l). t \<le> head \<longrightarrow> eligible_target state source interval succ t \<longrightarrow> t \<le> dr_target_revision r)
    | Some (WaitForWakeup w) \<Rightarrow> state \<noteq> Stale \<and> head < w \<and> next_eligible_boundary_from source interval = Some w \<and>
        w \<in> set (dl_targets l) \<and> eligible_target state source interval succ w"
proof -
  note l = ladder_new_SomeD[OF new]
  from target_boundaries_spec[OF fits] l(3) succ have
    part: "ladder_part succ (dl_targets l)" and last: "unat (last (dl_targets l)) = unat source + 1"
    and mem: "\<And>t. t \<in> set (dl_targets l) \<Longrightarrow> source < t \<and> t \<le> succ"
    by auto
  obtain rest where ts: "dl_targets l = succ # rest" using part by (cases "dl_targets l") (auto simp: ladder_part_def)
  have sorted: "sorted_wrt (>) (dl_targets l)" using part by (simp add: ladder_part_def)
  have el: "ladder_eligible l state succ t = eligible_target state source interval succ t" for t
    using l by (simp add: ladder_eligible_def eligible_target_def)
  let ?E = "eligible_target state source interval succ"
  show ?thesis
  proof (cases "succ \<le> head")
    case True
    then have "select l state = Some (Range (selected source succ))" by (simp add: select_def ts l)
    then show ?thesis using True mem[of succ] ts mem by (auto simp: selected_def eligible_target_def)
  next
    case False
    let ?p = "\<lambda>t. t \<le> head \<and> ?E t"
    have sel: "select l state = (case List.find ?p (dl_targets l) of
         Some target \<Rightarrow> Some (Range (selected source target))
       | None \<Rightarrow> map_option WaitForWakeup (iter_min (filter (\<lambda>t. head < t \<and> ?E t) (dl_targets l))))"
      unfolding select_def using False by (simp add: ts l el cong: option.case_cong)
    show ?thesis
    proof (cases "List.find ?p (dl_targets l)")
      case (Some t)
      from find_sorted_gt[OF sorted this] show ?thesis using sel Some mem[of t] by (auto simp: selected_def)
    next
      case None
      then have none: "\<And>t. t \<in> set (dl_targets l) \<Longrightarrow> ?E t \<Longrightarrow> head < t"
        by (metis (lifting) find_None_iff linorder_not_less)
      have filt: "filter (\<lambda>t. head < t \<and> ?E t) (dl_targets l) = filter ?E (dl_targets l)"
        by (rule filter_cong) (use none in auto)
      have sE: "succ \<in> set (filter ?E (dl_targets l))" by (simp add: ts eligible_target_def)
      define w where "w = Min (set (filter ?E (dl_targets l)))"
      have w: "w \<in> set (filter ?E (dl_targets l))" unfolding w_def by (rule Min_in) (use sE in auto)
      have im: "iter_min (filter ?E (dl_targets l)) = Some w"
        using list.set_sel(1) sE by (auto simp: iter_min_eq w_def simp del: set_filter)
      have run: "select l state = Some (WaitForWakeup w)" using sel None filt im by simp
      have live: "state \<noteq> Stale"
      proof
        assume "state = Stale"
        then have "?E (last (dl_targets l))" by (simp add: eligible_target_def)
        moreover have "last (dl_targets l) \<in> set (dl_targets l)" using ts by simp
        ultimately have "head < last (dl_targets l)" using none by blast
        then show False using l(1) last by (simp add: word_less_nat_alt)
      qed
      have "filter (\<lambda>t. t = succ \<or> interval \<le> t - source) (dl_targets l) = filter ?E (dl_targets l)"
        by (rule filter_cong) (use live in \<open>auto simp: eligible_target_def\<close>)
      then have "next_eligible_boundary_from source interval = Some w"
        using l(2,3) im ts by (simp add: next_eligible_boundary_from_def)
      then show ?thesis using run live w none by auto
    qed
  qed
qed

text \<open>A waiting request progresses once the Head reaches the wake boundary.\<close>

lemma wakeup_progress:
  assumes wait: "ladder_new source head current interval = Some l" "select l state = Some (WaitForWakeup w)"
    and fits: "unat source + 128 < 2 ^ 64" and later: "w \<le> head'"
    and again: "ladder_new source head' current' interval = Some l'"
  shows "\<exists>r. select l' state' = Some (Range r) \<and> dr_source_revision r = source \<and> w \<le> dr_target_revision r"
proof -
  obtain succ where succ: "ordinary_successor source = Some succ" using ordinary_successor_total[OF fits] by blast
  note first = select_outcome[OF wait(1) fits succ, of state]
  have same: "dl_targets l' = dl_targets l" using ladder_new_SomeD(3)[OF wait(1)] ladder_new_SomeD(3)[OF again] by simp
  have w: "w \<in> set (dl_targets l')" "eligible_target state source interval succ w" "state \<noteq> Stale"
    "next_eligible_boundary_from source interval = Some w"
    using first wait(2) same by auto
  then have e: "eligible_target state' source interval succ w" by (auto simp: eligible_target_def)
  note second = select_outcome[OF again fits succ, of state']
  show ?thesis
  proof (cases "select l' state'")
    case (Some r)
    then show ?thesis using second w(1,4) e later by (cases r) auto
  qed (use second in simp)
qed

text \<open>The size-descent targets of a selected range are what the history asks of its candidates.\<close>

lemma fitting_targets_outcome:
  assumes new: "ladder_new source head current interval = Some l" and fits: "unat source + 128 < 2 ^ 64"
    and sel: "select l state = Some (Range r)" and cur: "\<And>c. current = Some c \<Longrightarrow> c \<le> dr_target_revision r"
  shows "\<exists>rest. fitting_targets l r = Some (dr_target_revision r # rest) \<and>
    sorted_wrt (>) (dr_target_revision r # rest) \<and> list_all (\<lambda>t. source < t) (dr_target_revision r # rest) \<and>
    dr_target_revision r \<le> head \<and> (\<forall>c. current = Some c \<longrightarrow> list_all (\<lambda>t. c \<le> t) (dr_target_revision r # rest))"
proof -
  note l = ladder_new_SomeD[OF new]
  obtain succ where succ: "ordinary_successor source = Some succ" using ordinary_successor_total[OF fits] by blast
  from select_outcome[OF new fits succ, of state] sel have
    r: "dr_source_revision r = source" "dr_target_revision r \<in> set (dl_targets l)" "dr_target_revision r \<le> head" by auto
  from target_boundaries_spec[OF fits] l(3) succ have
    part: "sorted_wrt (>) (dl_targets l)" and mem: "\<And>t. t \<in> set (dl_targets l) \<Longrightarrow> source < t"
    by (auto simp: ladder_part_def)
  obtain i where i: "position (dr_target_revision r) (dl_targets l) = Some i" "i < length (dl_targets l)"
    "dl_targets l ! i = dr_target_revision r" using position_Some[OF r(2)] by blast
  let ?keep = "\<lambda>t. case current of None \<Rightarrow> True | Some c \<Rightarrow> c \<le> t"
  let ?ts = "takeWhile ?keep (drop i (dl_targets l))"
  have keep: "?keep (dr_target_revision r)" using cur by (auto split: option.splits)
  have d: "drop i (dl_targets l) = dr_target_revision r # drop (Suc i) (dl_targets l)"
    using i by (simp add: Cons_nth_drop_Suc[symmetric])
  have run: "fitting_targets l r = Some ?ts"
    using i(1) r l(4,5,7) cur by (auto simp: fitting_targets_def split: option.splits)
  have ts: "?ts = dr_target_revision r # takeWhile ?keep (drop (Suc i) (dl_targets l))" using d keep by simp
  have "sorted_wrt (>) ?ts" by (subst takeWhile_eq_take) (intro sorted_wrt_take sorted_wrt_drop part)
  moreover have "set ?ts \<subseteq> set (dl_targets l)" using set_drop_subset[of i "dl_targets l"] by (auto dest!: set_takeWhileD)
  then have "list_all (\<lambda>t. source < t) ?ts" using mem by (auto simp: list_all_iff)
  moreover have "list_all (\<lambda>t. c \<le> t) ?ts" if "current = Some c" for c
    using that by (auto simp: list_all_iff dest: set_takeWhileD)
  ultimately show ?thesis using run r(3) unfolding ts by blast
qed

text \<open>Composed with the history: a selected range is always served without panicking, by the farthest
  ladder target whose exact cost fits.\<close>

lemma ladder_history_fitting:
  assumes new: "ladder_new source head None interval = Some l" and fits: "unat source + 128 < 2 ^ 64"
    and sel: "select l state = Some (Range r)"
    and inv: "history_inv h" and lo: "oldest_available_revision h \<le> source" and hd: "head = gh_current_revision_id h"
  shows "\<exists>ts. fitting_targets l r = Some ts \<and>
    fitting_range h source ts fit = Some (Inr (map_option (fitting_result h source (dr_target_revision r))
      (List.find (\<lambda>t. fit (slice_cost h source t)) ts)))"
proof -
  obtain rest where ts: "fitting_targets l r = Some (dr_target_revision r # rest)"
    "sorted_wrt (>) (dr_target_revision r # rest)" "list_all (\<lambda>t. source < t) (dr_target_revision r # rest)"
    "dr_target_revision r \<le> head"
    using fitting_targets_outcome[OF new fits sel] by auto
  have lt: "source < gh_current_revision_id h" using ladder_new_SomeD(1)[OF new] hd by simp
  show ?thesis
    using ts(1) fitting_range_outcome[OF inv lo lt refl ts(2,3)] ts(4) hd by blast
qed

end
