(* ===== verification/Delta_Estimate.thy ===== *)
theory Delta_Estimate
  imports Delta_Ladder
begin

text \<open>
  The additive raw-byte estimate of a delta and its replay classification,
  \<open>crates/kgi-api-core/src/publication/estimate.rs\<close>. The two collection loops accumulate a hash set
  and two counters; every weighted addition is checked. The estimate has a closed form and fails
  exactly when that form exceeds 64 bits.
\<close>

definition SOFT_DELTA_ESTIMATED_BYTES :: u64 where "SOFT_DELTA_ESTIMATED_BYTES = 4 * 1024 * 1024"
definition ENTRY_AND_BATCH_FRAMING_BYTES :: u64 where "ENTRY_AND_BATCH_FRAMING_BYTES = 230"
definition DISTINCT_HASH_BYTES :: u64 where "DISTINCT_HASH_BYTES = 68"
definition BLOCK_UPSERT_BYTES :: u64 where "BLOCK_UPSERT_BYTES = 236"
definition BLOCK_RELATIONSHIP_BYTES :: u64 where "BLOCK_RELATIONSHIP_BYTES = 6"
definition EDGE_UPSERT_BYTES :: u64 where "EDGE_UPSERT_BYTES = 152"
definition LEVEL_INSTALLATION_BYTES :: u64 where "LEVEL_INSTALLATION_BYTES = 68"
definition LEVEL_REMOVAL_BYTES :: u64 where "LEVEL_REMOVAL_BYTES = 38"
definition MEMBERSHIP_MUTATION_BYTES :: u64 where "MEMBERSHIP_MUTATION_BYTES = 32"
definition COLOR_MUTATION_BYTES :: u64 where "COLOR_MUTATION_BYTES = 25"

lemmas weight_defs = ENTRY_AND_BATCH_FRAMING_BYTES_def DISTINCT_HASH_BYTES_def BLOCK_UPSERT_BYTES_def
  BLOCK_RELATIONSHIP_BYTES_def EDGE_UPSERT_BYTES_def LEVEL_INSTALLATION_BYTES_def LEVEL_REMOVAL_BYTES_def
  MEMBERSHIP_MUTATION_BYTES_def COLOR_MUTATION_BYTES_def

definition collect_hashes :: "block_hash fset \<Rightarrow> block_hash list \<Rightarrow> block_hash fset" where
  "collect_hashes hashes values = hashes |\<union>| fset_of_list values"

definition add_weighted :: "u64 \<Rightarrow> nat \<times> u64 \<Rightarrow> u64 option" where
  "add_weighted estimate = (\<lambda>(count, weight).
     if count < 2 ^ 64 then do {
       contribution \<leftarrow> checked_mul (of_nat count) weight;
       checked_add estimate contribution }
     else None)"

definition upserts :: "('k::linorder, 'v option) fmap \<Rightarrow> 'v list" where
  "upserts changes = List.map_filter snd (sorted_list_of_fmap changes)"

definition estimate_block ::
  "graph_block \<Rightarrow> block_hash fset \<times> nat \<times> nat \<Rightarrow> block_hash fset \<times> nat \<times> nat" where
  "estimate_block b = (\<lambda>(hashes, block_upserts, block_relationships).
     (collect_hashes (collect_hashes (collect_hashes (finsert (gb_hash b) hashes) (gb_direct_parents b))
        (gb_blue_merge_set b)) (gb_red_merge_set b),
      block_upserts + 1,
      block_relationships + (length (gb_direct_parents b) + length (gb_blue_merge_set b) + length (gb_red_merge_set b))))"

definition estimate_edge :: "graph_edge \<Rightarrow> block_hash fset \<times> nat \<Rightarrow> block_hash fset \<times> nat" where
  "estimate_edge e = (\<lambda>(hashes, edge_upserts).
     (finsert (ei_child (ge_id e)) (finsert (ei_parent (ge_id e)) hashes), edge_upserts + 1))"

definition estimate_raw_delta_bytes :: "graph_delta \<Rightarrow> u64 option" where
  "estimate_raw_delta_bytes delta =
     (let (hashes1, block_upserts, block_relationships) =
            fold estimate_block (upserts (gd_block_changes delta)) ({||}, 0, 0);
          (hashes2, edge_upserts) = fold estimate_edge (upserts (gd_edge_changes delta)) (hashes1, 0);
          hashes = hashes2 |\<union>| fmdom (gd_is_in_vspc_changes delta) |\<union>| fmdom (gd_color_changes delta);
          level_installations = length (filter (\<lambda>change. lch_after change \<noteq> None) (gd_level_changes delta));
          level_removals = length (gd_level_changes delta) - level_installations
      in fold_opt add_weighted ENTRY_AND_BATCH_FRAMING_BYTES
           [(fcard hashes, DISTINCT_HASH_BYTES),
            (block_upserts, BLOCK_UPSERT_BYTES),
            (block_relationships, BLOCK_RELATIONSHIP_BYTES),
            (edge_upserts, EDGE_UPSERT_BYTES),
            (level_installations, LEVEL_INSTALLATION_BYTES),
            (level_removals, LEVEL_REMOVAL_BYTES),
            (fcard (fmdom (gd_is_in_vspc_changes delta)), MEMBERSHIP_MUTATION_BYTES),
            (fcard (fmdom (gd_color_changes delta)), COLOR_MUTATION_BYTES)])"

definition classify_replayability :: "u64 \<Rightarrow> graph_history_replayability" where
  "classify_replayability estimated_raw_bytes =
     (if estimated_raw_bytes < SOFT_DELTA_ESTIMATED_BYTES then Replayable else ReplayBarrier)"

section \<open>The closed form\<close>

definition block_references :: "graph_block \<Rightarrow> block_hash fset" where
  "block_references b = finsert (gb_hash b) (fset_of_list (gb_direct_parents b @ gb_blue_merge_set b @ gb_red_merge_set b))"

definition block_relations :: "graph_block \<Rightarrow> nat" where
  "block_relations b = length (gb_direct_parents b) + length (gb_blue_merge_set b) + length (gb_red_merge_set b)"

definition delta_hashes :: "graph_delta \<Rightarrow> block_hash fset" where
  "delta_hashes d =
     ffUnion (block_references |`| fset_of_list (upserts (gd_block_changes d))) |\<union>|
     ffUnion ((\<lambda>e. {|ei_parent (ge_id e), ei_child (ge_id e)|}) |`| fset_of_list (upserts (gd_edge_changes d))) |\<union>|
     fmdom (gd_is_in_vspc_changes d) |\<union>| fmdom (gd_color_changes d)"

definition exact_estimate :: "graph_delta \<Rightarrow> nat" where
  "exact_estimate d =
     230 + 68 * fcard (delta_hashes d) + 236 * length (upserts (gd_block_changes d)) +
     6 * sum_list (map block_relations (upserts (gd_block_changes d))) +
     152 * length (upserts (gd_edge_changes d)) +
     68 * length (filter (\<lambda>c. lch_after c \<noteq> None) (gd_level_changes d)) +
     38 * length (filter (\<lambda>c. lch_after c = None) (gd_level_changes d)) +
     32 * fcard (fmdom (gd_is_in_vspc_changes d)) + 25 * fcard (fmdom (gd_color_changes d))"

lemma fold_estimate_block:
  "fold estimate_block bs (hs, n, r) =
     (hs |\<union>| ffUnion (block_references |`| fset_of_list bs), n + length bs, r + sum_list (map block_relations bs))"
proof (induction bs arbitrary: hs n r)
  case (Cons b bs)
  have "estimate_block b (hs, n, r) = (hs |\<union>| block_references b, n + 1, r + block_relations b)"
    by (auto simp: estimate_block_def collect_hashes_def block_references_def block_relations_def)
  then show ?case using Cons by (simp add: sup_assoc)
qed simp

lemma fold_estimate_edge:
  "fold estimate_edge es (hs, n) =
     (hs |\<union>| ffUnion ((\<lambda>e. {|ei_parent (ge_id e), ei_child (ge_id e)|}) |`| fset_of_list es), n + length es)"
proof (induction es arbitrary: hs n)
  case (Cons e es)
  have "estimate_edge e (hs, n) = (hs |\<union>| {|ei_parent (ge_id e), ei_child (ge_id e)|}, n + 1)"
    by (auto simp: estimate_edge_def)
  then show ?case using Cons by (simp add: sup_assoc)
qed simp

lemma add_weighted_iff:
  assumes "0 < unat w"
  shows "add_weighted e (n, w) = (if unat e + n * unat w < 2 ^ 64 then Some (of_nat (unat e + n * unat w)) else None)"
proof (cases "n < 2 ^ 64")
  case True
  have n: "unat (of_nat n :: u64) = n" using True by (simp add: unat_of_nat)
  show ?thesis using True n
    by (auto simp: add_weighted_def checked_mul_def checked_add_def unat_word_ariths)
next
  case False
  then have "\<not> unat e + n * unat w < 2 ^ 64" using assms by (metis add_leE linorder_not_le mult_le_mono2 nat_mult_1_right Suc_leI One_nat_def le_trans le_add2)
  then show ?thesis using False by (simp add: add_weighted_def)
qed

lemma fold_add_weighted:
  assumes "\<forall>(n, w) \<in> set xs. 0 < unat w"
  shows "fold_opt add_weighted e xs =
    (let total = unat e + sum_list (map (\<lambda>(n, w). n * unat w) xs) in if total < 2 ^ 64 then Some (of_nat total) else None)"
  using assms
proof (induction xs arbitrary: e)
  case Nil
  then show ?case using unsigned_less[of e, where 'a = nat] by simp
next
  case (Cons x xs)
  obtain n w where x: "x = (n, w)" by (cases x)
  have w: "0 < unat w" using Cons.prems x by simp
  show ?case
  proof (cases "unat e + n * unat w < 2 ^ 64")
    case True
    then have "unat (of_nat (unat e + n * unat w) :: u64) = unat e + n * unat w"
      using unat_of_nat[of "unat e + n * unat w", where 'a = 64] by (simp del: of_nat_add of_nat_mult)
    moreover have "\<forall>(n, w) \<in> set xs. 0 < unat w" using Cons.prems by simp
    note Cons.IH[OF this, of "of_nat (unat e + n * unat w)"]
    ultimately show ?thesis
      using True by (simp only: x fold_opt.simps add_weighted_iff[OF w] if_True option.case list.map sum_list.Cons prod.case add.assoc)
  next
    case False
    then show ?thesis by (simp add: x add_weighted_iff[OF w])
  qed
qed

lemma estimate_closed_form:
  "estimate_raw_delta_bytes d = (if exact_estimate d < 2 ^ 64 then Some (of_nat (exact_estimate d)) else None)"
proof -
  have rem: "length (gd_level_changes d) - length (filter (\<lambda>c. lch_after c \<noteq> None) (gd_level_changes d)) =
      length (filter (\<lambda>c. lch_after c = None) (gd_level_changes d))"
    using sum_length_filter_compl[of "\<lambda>c. lch_after c \<noteq> None" "gd_level_changes d"] by simp
  define parts where "parts =
    [(fcard (delta_hashes d), DISTINCT_HASH_BYTES), (length (upserts (gd_block_changes d)), BLOCK_UPSERT_BYTES),
     (sum_list (map block_relations (upserts (gd_block_changes d))), BLOCK_RELATIONSHIP_BYTES),
     (length (upserts (gd_edge_changes d)), EDGE_UPSERT_BYTES),
     (length (filter (\<lambda>c. lch_after c \<noteq> None) (gd_level_changes d)), LEVEL_INSTALLATION_BYTES),
     (length (filter (\<lambda>c. lch_after c = None) (gd_level_changes d)), LEVEL_REMOVAL_BYTES),
     (fcard (fmdom (gd_is_in_vspc_changes d)), MEMBERSHIP_MUTATION_BYTES),
     (fcard (fmdom (gd_color_changes d)), COLOR_MUTATION_BYTES)]"
  have run: "estimate_raw_delta_bytes d = fold_opt add_weighted ENTRY_AND_BATCH_FRAMING_BYTES parts"
    unfolding estimate_raw_delta_bytes_def fold_estimate_block prod.case Let_def fold_estimate_edge rem parts_def delta_hashes_def
    by (simp only: add_0 sup_bot_left)
  have pos: "\<forall>(n, w) \<in> set parts. 0 < unat w" by (simp add: parts_def weight_defs)
  have total: "unat ENTRY_AND_BATCH_FRAMING_BYTES + sum_list (map (\<lambda>(n, w). n * unat w) parts) = exact_estimate d"
    by (simp add: parts_def weight_defs exact_estimate_def)
  show ?thesis unfolding run fold_add_weighted[OF pos] total Let_def ..
qed

end
