(* ===== verification/Publication_Properties.thy ===== *)
theory Publication_Properties
  imports KGI_Samples Delta_Estimate
begin

text \<open>
  The properties of the delta history, of the delta-target ladder and of the delta size estimate, and
  of their composition: what a client is given replays.
\<close>

section \<open>A sample history\<close>

definition append_of :: "(graph_history \<times> (graph_history_append_error + unit)) option \<Rightarrow> graph_history" where
  "append_of r = (case r of Some (h, Inr _) \<Rightarrow> h | _ \<Rightarrow> undefined)"

definition recolor_delta :: "u64 \<Rightarrow> block_color \<Rightarrow> block_color \<Rightarrow> graph_delta" where
  "recolor_delta revision before after =
     \<lparr>gd_from_revision_id = revision, gd_to_revision_id = revision + 1, gd_revision_timestamp_ms = 5, gd_head_level = 2,
      gd_block_changes = fmempty, gd_edge_changes = fmempty, gd_level_changes = [], gd_is_in_vspc_changes = fmempty,
      gd_color_changes = fmap_of_list [(12, FieldChange before after)]\<rparr>"

definition sample_d1 :: graph_delta where "sample_d1 = recolor_delta 0 Gray Blue"
definition sample_d2 :: graph_delta where "sample_d2 = recolor_delta 1 Blue Red"

definition sample_v1 :: graph_view where "sample_v1 = the (view_step sample_head sample_d1)"
definition sample_v2 :: graph_view where "sample_v2 = the (view_step sample_v1 sample_d2)"

definition sample_h1 :: graph_history where
  "sample_h1 = append_of (history_append history_new sample_d1 100 Replayable)"

definition sample_h2 :: graph_history where
  "sample_h2 = append_of (history_append sample_h1 sample_d2 50 Replayable)"

lemma sample_steps:
  "apply_delta sample_head sample_d1 = Some (sample_v1, Inr ())" "apply_delta sample_v1 sample_d2 = Some (sample_v2, Inr ())"
  unfolding view_step_iff[symmetric] sample_v2_def by code_simp+

lemma sample_appends:
  "history_append history_new sample_d1 100 Replayable = Some (sample_h1, Inr ())"
  "history_append sample_h1 sample_d2 50 Replayable = Some (sample_h2, Inr ())"
  by code_simp+

lemma sample_history_inv: "history_inv sample_h2"
  by code_simp

lemma sample_lineage: "lineage [sample_head, sample_v1, sample_v2] sample_h2"
proof -
  have "gv_current_revision_id sample_head = 0" by code_simp
  then have "lineage [sample_head] history_new" by (rule lineage_seed)
  from lineage_step[OF this _ sample_appends(1), of sample_v1] sample_steps(1)
  have "lineage [sample_head, sample_v1] sample_h1" by simp
  from lineage_step[OF this _ sample_appends(2), of sample_v2] sample_steps(2)
  show ?thesis by simp
qed

section \<open>History\<close>

text \<open>C2. Replay safety of the publication lineage: whenever views are advanced by applying deltas that
  are appended to a history, with prunes and replay barriers in any order, every range the history
  hands out takes the view of its first revision, delta by delta, to exactly the view of its last.\<close>

theorem history_ranges_replay:
  assumes "lineage us h" and "history_range h src tgt = Inr (Deltas src tgt actual es)"
  shows "unat src < unat actual \<and> actual = min tgt (gh_current_revision_id h) \<and>
    fold_opt view_step (us ! unat src) (map he_delta es) = Some (us ! unat actual)"
  by (rule lineage_range_replays[OF assms])

theorem history_ranges_replay_witness:
  "\<exists>es. history_range sample_h2 0 2 = Inr (Deltas 0 2 2 es) \<and>
     fold_opt view_step sample_head (map he_delta es) = Some sample_v2"
proof -
  have "\<exists>es. history_range sample_h2 0 2 = Inr (Deltas 0 2 2 es)"
    unfolding history_range_cases[OF sample_history_inv] by (rule exI) code_simp
  then obtain es where es: "history_range sample_h2 0 2 = Inr (Deltas 0 2 2 es)" by blast
  have "[sample_head, sample_v1, sample_v2] ! unat (0::u64) = sample_head"
    "[sample_head, sample_v1, sample_v2] ! unat (2::u64) = sample_v2" by simp_all
  then show ?thesis using history_ranges_replay[OF sample_lineage es] es by metis
qed

text \<open>Appending an atomic delta keeps the history invariant: the entries stay gapless, costs
  accumulate, and a replay barrier drops every entry and raises the floor to the new revision.\<close>

theorem history_append_correct:
  assumes "history_inv h" and "gh_current_revision_id h = gd_from_revision_id delta"
    and "unat (gd_to_revision_id delta) = unat (gd_from_revision_id delta) + 1"
    and "unat (gh_current_cumulative_estimated_bytes h) + unat bytes < 2 ^ 64"
  shows "\<exists>h'. history_append h delta bytes rep = Some (h', Inr ()) \<and> history_inv h' \<and>
    gh_current_revision_id h' = gd_to_revision_id delta \<and>
    (if rep = ReplayBarrier then gh_entries h' = [] \<and> gh_replay_floor_revision h' = gd_to_revision_id delta
     else map he_delta (gh_entries h') = map he_delta (gh_entries h) @ [delta])"
  using history_append_outcome[OF assms, of rep] by (cases rep) auto

theorem history_append_correct_witness:
  "\<exists>h'. history_append sample_h1 sample_d2 50 ReplayBarrier = Some (h', Inr ()) \<and> history_inv h' \<and> gh_entries h' = []"
proof -
  have "history_inv sample_h1" "gh_current_revision_id sample_h1 = gd_from_revision_id sample_d2"
    "unat (gd_to_revision_id sample_d2) = unat (gd_from_revision_id sample_d2) + 1"
    "unat (gh_current_cumulative_estimated_bytes sample_h1) + unat (50::u64) < 2 ^ 64" by code_simp+
  from history_append_correct[OF this, of ReplayBarrier] show ?thesis by auto
qed

text \<open>C34. A history range request is answered in closed form: each kind of error has its exact
  condition, and otherwise the entries are precisely the retained ones from the source to the smaller
  of the target and the current revision.\<close>

theorem history_range_closed_form:
  assumes "history_inv h"
  shows "history_range h src tgt =
    (if tgt < src then Inl (BackwardTarget src tgt)
     else if tgt = src then Inr (UpToDate src)
     else if src < gh_replay_floor_revision h then Inl (StartBeforeReplayFloor src (gh_replay_floor_revision h))
     else if src < oldest_available_revision h then Inl (StartPruned src (oldest_available_revision h))
     else if src = gh_current_revision_id h then Inr (UpToDate src)
     else if gh_current_revision_id h < src then Inl (StartUnavailable src (gh_current_revision_id h))
     else Inr (Deltas src tgt (min tgt (gh_current_revision_id h))
            (history_slice h (unat src) (unat (min tgt (gh_current_revision_id h))))))"
  by (rule history_range_cases[OF assms])

theorem history_range_closed_form_witness:
  "history_range sample_h2 1 9 = Inr (Deltas 1 9 2 (history_slice sample_h2 1 2))"
  unfolding history_range_closed_form[OF sample_history_inv] by code_simp

section \<open>Ladder\<close>

text \<open>The target boundaries of a source revision: one to eight of them, strictly descending from
  the ordinary successor to the next revision, each but the first the next multiple of a power of two.\<close>

theorem ladder_boundaries:
  assumes "unat s + 128 < 2 ^ 64"
  shows "\<exists>succ ts. ordinary_successor s = Some succ \<and> target_boundaries s = Some ts \<and> sorted_wrt (>) ts \<and>
    hd ts = succ \<and> unat (last ts) = unat s + 1 \<and> length ts \<le> 8 \<and>
    list_all (\<lambda>t. s < t \<and> t \<le> succ \<and> (t = succ \<or> (\<exists>j. unat t = boundary_after (unat s) (2 ^ j)))) ts"
  using target_boundaries_spec[OF assms] by (fastforce simp: ladder_part_def list_all_iff)

theorem ladder_boundaries_witness:
  "\<exists>ts. target_boundaries 6 = Some ts \<and> sorted_wrt (>) ts \<and> length ts \<le> 8 \<and> unat (last ts) = 7"
proof -
  have "unat (6::u64) + 128 < 2 ^ 64" by code_simp
  from ladder_boundaries[OF this] show ?thesis by auto
qed




text \<open>C33. Ladder and history together: the targets the ladder offers for a selected range meet every
  precondition of the history's size descent, which therefore never panics and detaches the farthest
  target whose exact cost fits.\<close>

theorem ladder_descent_on_history:
  assumes "ladder_new source head None interval = Some l" and "unat source + 128 < 2 ^ 64"
    and "select l state = Some (Range r)" and "history_inv h" and "oldest_available_revision h \<le> source"
    and "head = gh_current_revision_id h"
  shows "\<exists>ts. fitting_targets l r = Some ts \<and>
    fitting_range h source ts fit = Some (Inr (map_option (fitting_result h source (dr_target_revision r))
      (List.find (\<lambda>t. fit (slice_cost h source t)) ts)))"
  by (rule ladder_history_fitting[OF assms])

theorem ladder_descent_on_history_witness:
  "\<exists>ts. fitting_targets (the (ladder_new 0 2 None 1)) (selected 0 2) = Some ts \<and>
     fitting_range sample_h2 0 ts (\<lambda>bytes. bytes \<le> 120) =
       Some (Inr (map_option (fitting_result sample_h2 0 2) (List.find (\<lambda>t. slice_cost sample_h2 0 t \<le> 120) ts)))"
proof -
  have lad: "ladder_new 0 2 None 1 = Some (the (ladder_new 0 2 None 1))" "unat (0::u64) + 128 < 2 ^ 64"
    "select (the (ladder_new 0 2 None 1)) Live = Some (Range (selected 0 2))" by code_simp+
  have his: "oldest_available_revision sample_h2 \<le> 0" "2 = gh_current_revision_id sample_h2" by code_simp+
  have tgt: "dr_target_revision (selected 0 2) = 2" by (simp add: selected_def)
  show ?thesis
    using ladder_descent_on_history[OF lad sample_history_inv his, of "\<lambda>bytes. bytes \<le> 120"] unfolding tgt .
qed

section \<open>Size estimate\<close>

text \<open>C35. The estimate of a delta's wire size is the exact weighted sum over its distinct hashes,
  upserts, relations, edges, levels and field changes, and the computation panics exactly when that sum
  does not fit 64 bits.\<close>

theorem delta_estimate_exact:
  "estimate_raw_delta_bytes d = (if exact_estimate d < 2 ^ 64 then Some (of_nat (exact_estimate d)) else None)"
  by (rule estimate_closed_form)

end
