(* ===== verification/Processing_Faults.thy ===== *)
theory Processing_Faults
  imports KGI_Model
begin

text \<open>
  The fault mappings of the processing workers: \<open>crates/kgi-processing/src/fault.rs\<close>, the fault
  constructors at the end of \<open>vspc_processor.rs\<close> and \<open>block_processor/processor.rs\<close>, and the child-worker
  errors of \<open>block_processor/error.rs\<close>, over the error domains of \<open>kgi-node\<close> and \<open>kgi-storage\<close>.
  Diagnostic strings are for the log and are left out.
\<close>

section \<open>Error domains\<close>

datatype node_error =
    NeGenerationLost | NeCancelled | NeBlockNotFound block_hash | NeRpcRequestFailed
  | NeSubscriptionControlFailed | NeInvalidSubscriptionState
  | NeRecoveryInputInvalid recovery_input_kind | NeScoreOutOfRange score_range_fault
  | NeRetirementControlUnavailable

datatype processing_db_error =
    DbGenerationLost | DbQueryFailed | DbInvalidStoredState | DbPersistence persistence_fault
  | DbScoreOutOfRange score_range_fault | DbServiceUnavailable

datatype child_control_error = CommandPathClosed | AcknowledgementLost | WorkerJoinFailed

datatype session_data_path = OrphanInput | ResolverWorkPath | ResolutionPath

datatype child_fault_kind =
    OrphanCapacityExhausted | ChildSessionDataFull session_data_path
  | ChildSessionDataEndpointLost session_data_path | ChildOwnership ownership_fault | ChildInvalidProtocol

datatype child_fault = ChildFault (chf_source: component) (chf_kind: child_fault_kind)

definition child_fault_of_control :: "child_control_error \<Rightarrow> child_fault" where
  "child_fault_of_control error =
     ChildFault DependencyResolver
       (case error of
          CommandPathClosed \<Rightarrow> ChildOwnership InternalControlPathLost
        | AcknowledgementLost \<Rightarrow> ChildOwnership InternalControlPathLost
        | WorkerJoinFailed \<Rightarrow> ChildOwnership UnexpectedWorkerTermination)"

section \<open>Worker loops\<close>

text \<open>How one iteration of a worker's \<open>run\<close> loop ends: it goes on, it returns, or it waits because no
  branch of its \<open>select!\<close> is ready.\<close>

datatype loop_outcome = LoopContinue | LoopStop | LoopBlocked

section \<open>Shared mappings\<close>

definition active_or_live :: "bool \<Rightarrow> fault_disposition \<Rightarrow> fault_disposition" where
  "active_or_live is_live active = (if is_live then Require Resync else active)"

definition storage_fault :: "processing_db_error \<Rightarrow> bool \<Rightarrow> component_fault" where
  "storage_fault error is_live =
     (let (disposition, kind) =
        (case error of
           DbGenerationLost \<Rightarrow> (active_or_live is_live Retry, ServiceGenerationLost ServiceStorage)
         | DbQueryFailed \<Rightarrow> (active_or_live is_live Retry, StorageQueryFailed)
         | DbInvalidStoredState \<Rightarrow> (Require Rebuild, StorageInvariantViolation)
         | DbPersistence reason \<Rightarrow>
             ((case reason of
                 DefiniteFailure \<Rightarrow> Fatal
               | RetryExhausted \<Rightarrow> active_or_live is_live Retry
               | AmbiguousCommit \<Rightarrow> active_or_live is_live Retry), Persistence reason)
         | DbScoreOutOfRange reason \<Rightarrow> (Fatal, ScoreOutOfRange reason)
         | DbServiceUnavailable \<Rightarrow> (Fatal, Ownership ManagedComponentUnavailable))
      in \<lparr>cf_source = StorageService, cf_disposition = disposition, cf_kind = kind\<rparr>)"

section \<open>Faults of the VSPC processor\<close>

definition vspc_invalid_lifecycle :: component_fault where
  "vspc_invalid_lifecycle =
     \<lparr>cf_source = VspcProcessor, cf_disposition = Fatal, cf_kind = Ownership InvalidLifecycleControl\<rparr>"

definition vspc_session_endpoint_fault :: "bool \<Rightarrow> component_fault" where
  "vspc_session_endpoint_fault is_live =
     \<lparr>cf_source = VspcProcessor, cf_disposition = (if is_live then Require Resync else Retry),
      cf_kind = Ownership SessionDataEndpointLost\<rparr>"

definition malformed_notification :: "malformed_vspc_notification_reason \<Rightarrow> recovery_mode \<Rightarrow> component_fault" where
  "malformed_notification reason mode =
     \<lparr>cf_source = VspcProcessor, cf_disposition = Require mode,
      cf_kind = NotificationInputInvalid (MalformedVspcChange reason)\<rparr>"

definition malformed_synthetic :: "malformed_vspc_response_reason \<Rightarrow> component_fault" where
  "malformed_synthetic reason =
     \<lparr>cf_source = VspcProcessor, cf_disposition = Retry,
      cf_kind = RecoveryInputInvalid (MalformedVspcResponse reason)\<rparr>"

datatype candidate_source = Synthetic | Notification

definition malformed_change :: "candidate_source \<Rightarrow> malformed_vspc_notification_reason \<Rightarrow> component_fault" where
  "malformed_change source reason =
     (case source of
        Synthetic \<Rightarrow> malformed_synthetic RRemovedChainWithoutAddedPath
      | Notification \<Rightarrow> malformed_notification reason Resync)"

definition source_discontinuity :: "candidate_source \<Rightarrow> component_fault" where
  "source_discontinuity source =
     (case source of
        Synthetic \<Rightarrow> malformed_synthetic RResolvedSourceDiscontinuity
      | Notification \<Rightarrow> malformed_notification NResolvedSourceDiscontinuity Resync)"

datatype vspc_path_attribution =
  StoredParentConflict | CandidatePathConflict | StoredAndCandidateConflict | AttributionBlockUnavailable

fun attribution_fault :: "candidate_source \<Rightarrow> vspc_path_attribution \<Rightarrow> component_fault" where
  "attribution_fault _ StoredParentConflict =
     \<lparr>cf_source = VspcProcessor, cf_disposition = Require Rebuild, cf_kind = ReconciliationFailed\<rparr>"
| "attribution_fault Synthetic CandidatePathConflict = malformed_synthetic RSelectedParentPathDiscontinuity"
| "attribution_fault Synthetic StoredAndCandidateConflict =
     (malformed_synthetic RSelectedParentPathDiscontinuity)\<lparr>cf_disposition := Require Rebuild\<rparr>"
| "attribution_fault Synthetic AttributionBlockUnavailable = malformed_synthetic RSelectedParentPathDiscontinuity"
| "attribution_fault Notification StoredAndCandidateConflict =
     malformed_notification NSelectedParentPathDiscontinuity Rebuild"
| "attribution_fault Notification _ = malformed_notification NSelectedParentPathDiscontinuity Resync"

text \<open>\<open>None\<close> is the \<open>unreachable!\<close> branch.\<close>

definition node_operation_fault :: "node_error \<Rightarrow> bool \<Rightarrow> component_fault option" where
  "node_operation_fault error is_live =
     map_option (\<lambda>(disposition, kind). \<lparr>cf_source = NodeService, cf_disposition = disposition, cf_kind = kind\<rparr>)
     (case error of
        NeGenerationLost \<Rightarrow> Some (active_or_live is_live Retry, ServiceGenerationLost ServiceNode)
      | NeRpcRequestFailed \<Rightarrow> Some (active_or_live is_live Retry, RpcRequestFailed)
      | NeRecoveryInputInvalid kind \<Rightarrow> Some (active_or_live is_live Retry, RecoveryInputInvalid kind)
      | NeScoreOutOfRange reason \<Rightarrow> Some (Fatal, ScoreOutOfRange reason)
      | NeRetirementControlUnavailable \<Rightarrow> Some (Fatal, Ownership ManagedComponentUnavailable)
      | NeSubscriptionControlFailed \<Rightarrow> Some (active_or_live is_live Retry, SubscriptionControlFailed)
      | NeInvalidSubscriptionState \<Rightarrow> Some (Fatal, Ownership InvalidLifecycleControl)
      | NeCancelled \<Rightarrow> Some (Fatal, Ownership ManagedComponentUnavailable)
      | NeBlockNotFound _ \<Rightarrow> None)"

section \<open>Faults of the block processor\<close>

definition ownership_component_fault :: "component \<Rightarrow> ownership_fault \<Rightarrow> component_fault" where
  "ownership_component_fault source kind =
     \<lparr>cf_source = source, cf_disposition = Fatal, cf_kind = Ownership kind\<rparr>"

definition block_invalid_lifecycle :: component_fault where
  "block_invalid_lifecycle = ownership_component_fault BlockProcessor InvalidLifecycleControl"

definition block_session_endpoint_fault :: "component \<Rightarrow> bool \<Rightarrow> component_fault" where
  "block_session_endpoint_fault source is_live =
     \<lparr>cf_source = source, cf_disposition = active_or_live is_live Retry,
      cf_kind = Ownership SessionDataEndpointLost\<rparr>"

definition materiality_fault :: component_fault where
  "materiality_fault =
     \<lparr>cf_source = BlockProcessor, cf_disposition = Require Rebuild, cf_kind = MaterialityViolation\<rparr>"

datatype try_send_error = TrySendFull | TrySendClosed

definition bounded_send_fault :: "component \<Rightarrow> bool \<Rightarrow> try_send_error \<Rightarrow> component_fault" where
  "bounded_send_fault source is_live error =
     (case error of
        TrySendFull \<Rightarrow>
          \<lparr>cf_source = source, cf_disposition = Require Resync, cf_kind = SessionContinuityLost\<rparr>
      | TrySendClosed \<Rightarrow> block_session_endpoint_fault source is_live)"

definition child_control_fault :: "component \<Rightarrow> child_control_error \<Rightarrow> component_fault" where
  "child_control_fault source error =
     ownership_component_fault source
       (case error of
          CommandPathClosed \<Rightarrow> InternalControlPathLost
        | AcknowledgementLost \<Rightarrow> InternalControlPathLost
        | WorkerJoinFailed \<Rightarrow> UnexpectedWorkerTermination)"

definition node_fault :: "node_error \<Rightarrow> bool \<Rightarrow> component_fault" where
  "node_fault error is_live =
     (let (source, disposition, kind) =
        (case error of
           NeGenerationLost \<Rightarrow> (NodeService, active_or_live is_live Retry, ServiceGenerationLost ServiceNode)
         | NeCancelled \<Rightarrow> (NodeService, Fatal, Ownership ManagedComponentUnavailable)
         | NeBlockNotFound _ \<Rightarrow> (DependencyResolver, Require Rebuild, DependencyUnavailable)
         | NeRpcRequestFailed \<Rightarrow> (NodeService, active_or_live is_live Retry, RpcRequestFailed)
         | NeSubscriptionControlFailed \<Rightarrow> (NodeService, active_or_live is_live Retry, SubscriptionControlFailed)
         | NeInvalidSubscriptionState \<Rightarrow> (NodeService, Fatal, Ownership InvalidLifecycleControl)
         | NeRecoveryInputInvalid kind \<Rightarrow> (NodeService, active_or_live is_live Retry, RecoveryInputInvalid kind)
         | NeScoreOutOfRange reason \<Rightarrow> (NodeService, Fatal, ScoreOutOfRange reason)
         | NeRetirementControlUnavailable \<Rightarrow> (NodeService, Fatal, Ownership ManagedComponentUnavailable))
      in \<lparr>cf_source = source, cf_disposition = disposition, cf_kind = kind\<rparr>)"

definition child_fault_mapped :: "child_fault \<Rightarrow> bool \<Rightarrow> component_fault" where
  "child_fault_mapped fault is_live =
     (case chf_kind fault of
        OrphanCapacityExhausted \<Rightarrow>
          \<lparr>cf_source = chf_source fault, cf_disposition = Require Resync, cf_kind = BoundedStateExhausted Orphans\<rparr>
      | ChildSessionDataFull _ \<Rightarrow>
          \<lparr>cf_source = chf_source fault, cf_disposition = Require Resync, cf_kind = SessionContinuityLost\<rparr>
      | ChildSessionDataEndpointLost _ \<Rightarrow> block_session_endpoint_fault (chf_source fault) is_live
      | ChildOwnership kind \<Rightarrow> ownership_component_fault (chf_source fault) kind
      | ChildInvalidProtocol \<Rightarrow> ownership_component_fault (chf_source fault) InvalidLifecycleControl)"

section \<open>Dispositions\<close>

text \<open>No worker fault asks for a plain retry while the session is live.\<close>

lemma active_or_live_cases:
  "active_or_live is_live Retry = Retry \<longleftrightarrow> \<not> is_live"
  by (simp add: active_or_live_def)

lemma live_faults_never_retry:
  "cf_disposition (storage_fault e True) \<noteq> Retry"
  "cf_disposition (node_fault n True) \<noteq> Retry"
  "node_operation_fault n True = Some f \<Longrightarrow> cf_disposition f \<noteq> Retry"
  "cf_disposition (bounded_send_fault c True t) \<noteq> Retry"
  "cf_disposition (child_fault_mapped k True) \<noteq> Retry"
  "cf_disposition (vspc_session_endpoint_fault True) \<noteq> Retry"
  by (cases e; simp add: storage_fault_def active_or_live_def split: persistence_fault.splits)
    (auto simp: node_fault_def node_operation_fault_def bounded_send_fault_def child_fault_mapped_def active_or_live_def
      vspc_session_endpoint_fault_def block_session_endpoint_fault_def ownership_component_fault_def
      split: node_error.splits try_send_error.splits child_fault_kind.splits)

end
