(* ===== verification/Vspc_State.thy ===== *)
theory Vspc_State
  imports KGI_Collections Processing_Faults
begin

text \<open>
  The state of the VSPC processor, \<open>MaterializedHistory\<close> and \<open>VspcState\<close> of
  \<open>crates/kgi-processing/src/vspc_processor.rs\<close>: the materialized history indexed by hash and by
  consensus order, the pending candidates, and the four indexes kept beside them. The invariant says
  that every index is exact and that each candidate's missing set and resolved order are those of the
  current history; every operation keeps it and none of its lookups can panic.
\<close>

datatype vspc_phase = PhSynchronizing | PhCatchup vspc_point | PhLive

definition phase_is_live :: "vspc_phase \<Rightarrow> bool" where
  "phase_is_live p = (case p of PhLive \<Rightarrow> True | _ \<Rightarrow> False)"

type_synonym pending_id = u64

record pending_candidate =
  cand_source :: candidate_source
  cand_change :: vspc_change
  cand_destination :: block_hash
  cand_missing :: "block_hash fset"
  cand_order :: "consensus_order option"
  cand_overlap_credited :: bool

section \<open>Materialized history\<close>

record materialized_history =
  mh_by_hash :: "(block_hash, persisted_block) fmap"
  mh_by_order :: "(consensus_order, block_hash) fmap"

definition history_insert :: "materialized_history \<Rightarrow> persisted_block \<Rightarrow> materialized_history \<times> bool" where
  "history_insert h persisted =
     (let hash = vp_hash (pb_point persisted)
      in if hash |\<in>| fmdom (mh_by_hash h) then (h, False)
         else (h\<lparr>mh_by_order := fmupd (vp_order (pb_point persisted)) hash (mh_by_order h),
                 mh_by_hash := fmupd hash persisted (mh_by_hash h)\<rparr>, True))"

definition mhistory_new :: "materialized_sync_anchor \<Rightarrow> materialized_history" where
  "mhistory_new anchor =
     fst (history_insert \<lparr>mh_by_hash = fmempty, mh_by_order = fmempty\<rparr>
            \<lparr>pb_point = msa_point anchor, pb_selected_parent = msa_selected_parent anchor\<rparr>)"

definition remove_order :: "consensus_order \<Rightarrow> materialized_history \<Rightarrow> materialized_history" where
  "remove_order order h =
     (case fmlookup (mh_by_order h) order of
        None \<Rightarrow> h
      | Some hash \<Rightarrow> h\<lparr>mh_by_order := fmdrop order (mh_by_order h), mh_by_hash := fmdrop hash (mh_by_hash h)\<rparr>)"

definition prune_below :: "materialized_history \<Rightarrow> vspc_point \<Rightarrow> materialized_history" where
  "prune_below h sink =
     (let stale_orders = filter (\<lambda>order. order < vp_order sink) (sorted_list_of_fset (fmdom (mh_by_order h)))
      in fold remove_order stale_orders h)"

section \<open>Processor state\<close>

record vspc_state =
  vs_phase :: vspc_phase
  vs_committed_sink :: vspc_point
  vs_history :: materialized_history
  vs_next_pending_id :: pending_id
  vs_pending :: "(pending_id, pending_candidate) fmap"
  vs_missing_to_pending :: "(block_hash, pending_id fset) fmap"
  vs_notification_by_destination :: "(block_hash, pending_id) fmap"
  vs_resolved_notifications :: "(consensus_order, pending_id) fmap"
  vs_synthetic_fifo :: "pending_id list"

definition vspc_state_new :: "materialized_sync_anchor \<Rightarrow> vspc_state" where
  "vspc_state_new anchor =
     \<lparr>vs_phase = PhSynchronizing, vs_committed_sink = msa_point anchor, vs_history = mhistory_new anchor,
      vs_next_pending_id = 0, vs_pending = fmempty, vs_missing_to_pending = fmempty,
      vs_notification_by_destination = fmempty, vs_resolved_notifications = fmempty, vs_synthetic_fifo = []\<rparr>"

definition pending_len :: "vspc_state \<Rightarrow> nat" where
  "pending_len s = fcard (fmdom (vs_pending s))"

definition allocate_pending_id :: "vspc_state \<Rightarrow> (vspc_state \<times> pending_id) option" where
  "allocate_pending_id s = do {
     let pid = vs_next_pending_id s;
     next \<leftarrow> checked_add (vs_next_pending_id s) 1;
     Some (s\<lparr>vs_next_pending_id := next\<rparr>, pid) }"

text \<open>The loop that unregisters a candidate from the waiters of the hashes it misses.\<close>

definition remove_waiter ::
  "pending_id \<Rightarrow> block_hash fset \<Rightarrow> (block_hash, pending_id fset) fmap \<Rightarrow> (block_hash, pending_id fset) fmap" where
  "remove_waiter pid missing waiters =
     fold (\<lambda>hash. bucket_remove hash pid) (sorted_list_of_fset missing) waiters"

definition remove_candidate :: "vspc_state \<Rightarrow> pending_id \<Rightarrow> vspc_state \<times> pending_candidate option" where
  "remove_candidate s pid =
     (case fmlookup (vs_pending s) pid of
        None \<Rightarrow> (s, None)
      | Some candidate \<Rightarrow>
          let s1 = s\<lparr>vs_pending := fmdrop pid (vs_pending s),
                     vs_missing_to_pending := remove_waiter pid (cand_missing candidate) (vs_missing_to_pending s)\<rparr>;
              s2 = (if cand_source candidate = Notification then
                      s1\<lparr>vs_notification_by_destination :=
                           fmdrop (cand_destination candidate) (vs_notification_by_destination s1),
                         vs_resolved_notifications :=
                           (case cand_order candidate of
                              Some order \<Rightarrow> fmdrop order (vs_resolved_notifications s1)
                            | None \<Rightarrow> vs_resolved_notifications s1)\<rparr>
                    else s1\<lparr>vs_synthetic_fifo := filter (\<lambda>pending. pending \<noteq> pid) (vs_synthetic_fifo s1)\<rparr>)
          in (s2, Some candidate))"

definition clear_synthetic :: "vspc_state \<Rightarrow> vspc_state" where
  "clear_synthetic s = fold (\<lambda>pid s. fst (remove_candidate s pid)) (vs_synthetic_fifo s) s"

definition required_history :: "materialized_history \<Rightarrow> vspc_change \<Rightarrow> block_hash fset option" where
  "required_history history change =
     (if vch_added change = [] then None
      else
        let destination = last (vch_added change);
            required = {|destination|};
            required =
              (case vch_removed change of
                 source # _ \<Rightarrow> finsert source required
               | [] \<Rightarrow>
                   let required = required |\<union>| fset_of_list (vch_added change)
                   in case fmlookup (mh_by_hash history) (hd (vch_added change)) of
                        Some block \<Rightarrow> finsert (pb_selected_parent block) required
                      | None \<Rightarrow> required)
        in Some (ffilter (\<lambda>hash. hash |\<notin>| fmdom (mh_by_hash history)) required))"

definition refresh_candidate :: "vspc_state \<Rightarrow> pending_id \<Rightarrow> vspc_state option" where
  "refresh_candidate s pid =
     (case fmlookup (vs_pending s) pid of
        None \<Rightarrow> Some s
      | Some candidate \<Rightarrow>
          let waiters = remove_waiter pid (cand_missing candidate) (vs_missing_to_pending s);
              resolved =
                (if cand_source candidate = Notification then
                   (case cand_order candidate of
                      Some order \<Rightarrow> fmdrop order (vs_resolved_notifications s)
                    | None \<Rightarrow> vs_resolved_notifications s)
                 else vs_resolved_notifications s)
          in do {
            missing \<leftarrow> required_history (vs_history s) (cand_change candidate);
            let order = map_option (\<lambda>block. vp_order (pb_point block))
                          (fmlookup (mh_by_hash (vs_history s)) (cand_destination candidate));
            Some (s\<lparr>vs_missing_to_pending :=
                      fold (\<lambda>hash. bucket_insert hash pid) (sorted_list_of_fset missing) waiters,
                    vs_resolved_notifications :=
                      (if cand_source candidate = Notification then
                         (case order of Some o' \<Rightarrow> fmupd o' pid resolved | None \<Rightarrow> resolved)
                       else resolved),
                    vs_pending :=
                      fmupd pid (candidate\<lparr>cand_missing := missing, cand_order := order\<rparr>) (vs_pending s)\<rparr>) })"

definition prune_history :: "vspc_state \<Rightarrow> vspc_state option" where
  "prune_history s =
     (let s1 = s\<lparr>vs_history := prune_below (vs_history s) (vs_committed_sink s)\<rparr>
      in fold_opt refresh_candidate s1 (sorted_list_of_fset (fmdom (vs_pending s1))))"

definition endpoints :: "materialized_history \<Rightarrow> vspc_change \<Rightarrow> (vspc_point \<times> vspc_point) option" where
  "endpoints history change =
     (if vch_added change = [] then None
      else do {
        destination \<leftarrow> fmlookup (mh_by_hash history) (last (vch_added change));
        source_hash \<leftarrow>
          (case vch_removed change of
             source # _ \<Rightarrow> Some source
           | [] \<Rightarrow> map_option pb_selected_parent (fmlookup (mh_by_hash history) (hd (vch_added change))));
        source \<leftarrow> fmlookup (mh_by_hash history) source_hash;
        Some (pb_point source, pb_point destination) })"

section \<open>History facts\<close>

definition history_exact :: "materialized_history \<Rightarrow> bool" where
  "history_exact h =
     (fmpred (\<lambda>hash b. vp_hash (pb_point b) = hash \<and> fmlookup (mh_by_order h) (vp_order (pb_point b)) = Some hash) (mh_by_hash h) \<and>
      fmpred (\<lambda>order hash. case fmlookup (mh_by_hash h) hash of None \<Rightarrow> False | Some b \<Rightarrow> vp_order (pb_point b) = order) (mh_by_order h))"

lemma history_exactD:
  assumes "history_exact h"
  shows "fmlookup (mh_by_hash h) hash = Some b \<Longrightarrow> vp_hash (pb_point b) = hash"
    "fmlookup (mh_by_order h) order = Some hash \<longleftrightarrow> (\<exists>b. fmlookup (mh_by_hash h) hash = Some b \<and> vp_order (pb_point b) = order)"
  using assms by (auto simp: history_exact_def fmpred_iff split: option.splits) (metis option.distinct(1) option.inject)+

lemma history_exactI:
  assumes "\<And>hash b. fmlookup (mh_by_hash h) hash = Some b \<Longrightarrow> vp_hash (pb_point b) = hash"
    "\<And>order hash. fmlookup (mh_by_order h) order = Some hash \<longleftrightarrow> (\<exists>b. fmlookup (mh_by_hash h) hash = Some b \<and> vp_order (pb_point b) = order)"
  shows "history_exact h"
  using assms by (auto simp: history_exact_def fmpred_iff split: option.splits)

lemma history_insert_exact:
  assumes "history_exact h"
  shows "history_exact (fst (history_insert h b))"
proof (cases "vp_hash (pb_point b) |\<in>| fmdom (mh_by_hash h)")
  case True
  then show ?thesis using assms by (simp add: history_insert_def)
next
  case False
  note ex = history_exactD[OF assms]
  have key: "vp_order (pb_point c) \<noteq> vp_order (pb_point b)" if "fmlookup (mh_by_hash h) hash = Some c" for hash c
    using ex(1)[OF that] that False by (metis fmdomI vp_hash_def)
  show ?thesis
    using False ex key by (intro history_exactI) (auto simp: history_insert_def Let_def split: if_splits)
qed

lemma mhistory_new_exact: "history_exact (mhistory_new anchor)"
  unfolding mhistory_new_def by (rule history_insert_exact) (simp add: history_exact_def)

lemma remove_order_spec:
  assumes "history_exact h"
  shows "history_exact (remove_order o' h)"
    "fmlookup (mh_by_hash (remove_order o' h)) hash =
       (case fmlookup (mh_by_hash h) hash of None \<Rightarrow> None | Some b \<Rightarrow> if vp_order (pb_point b) = o' then None else Some b)"
proof -
  note ex = history_exactD[OF assms]
  show lk: "fmlookup (mh_by_hash (remove_order o' h)) hash =
       (case fmlookup (mh_by_hash h) hash of None \<Rightarrow> None | Some b \<Rightarrow> if vp_order (pb_point b) = o' then None else Some b)" for hash
  proof (cases "fmlookup (mh_by_order h) o'")
    case None
    then show ?thesis using ex(2)[of o' hash] by (auto simp: remove_order_def split: option.splits)
  next
    case (Some k)
    then show ?thesis using ex(2)[of o' k] ex(2)[of o' hash] by (auto simp: remove_order_def split: option.splits)
  qed
  have ord: "fmlookup (mh_by_order (remove_order o' h)) order = (if order = o' then None else fmlookup (mh_by_order h) order)" for order
    by (auto simp: remove_order_def split: option.splits)
  show "history_exact (remove_order o' h)"
  proof (rule history_exactI)
    fix hash b
    assume "fmlookup (mh_by_hash (remove_order o' h)) hash = Some b"
    then show "vp_hash (pb_point b) = hash" using ex(1) by (auto simp: lk split: option.splits if_splits)
  next
    fix order hash
    show "fmlookup (mh_by_order (remove_order o' h)) order = Some hash \<longleftrightarrow>
        (\<exists>b. fmlookup (mh_by_hash (remove_order o' h)) hash = Some b \<and> vp_order (pb_point b) = order)"
      using ex(2)[of order hash] by (auto simp: lk ord split: option.splits)
  qed
qed

lemma fold_remove_order:
  assumes "history_exact h"
  shows "history_exact (fold remove_order os h) \<and>
    fmlookup (mh_by_hash (fold remove_order os h)) hash =
       (case fmlookup (mh_by_hash h) hash of None \<Rightarrow> None | Some b \<Rightarrow> if vp_order (pb_point b) \<in> set os then None else Some b)"
  using assms
proof (induction os arbitrary: h)
  case (Cons o' os)
  then show ?case using remove_order_spec[OF Cons.prems] by (auto split: option.splits)
qed (auto split: option.splits)

lemma prune_below_spec:
  assumes "history_exact h"
  shows "history_exact (prune_below h sink)"
    "fmlookup (mh_by_hash (prune_below h sink)) hash =
       (case fmlookup (mh_by_hash h) hash of None \<Rightarrow> None | Some b \<Rightarrow> if vp_order (pb_point b) < vp_order sink then None else Some b)"
proof -
  note ex = history_exactD[OF assms]
  define os where "os = filter (\<lambda>order. order < vp_order sink) (sorted_list_of_fset (fmdom (mh_by_order h)))"
  have eq: "prune_below h sink = fold remove_order os h" by (simp add: prune_below_def os_def Let_def)
  show "history_exact (prune_below h sink)" unfolding eq using fold_remove_order[OF assms] by blast
  have "vp_order (pb_point b) \<in> set os \<longleftrightarrow> vp_order (pb_point b) < vp_order sink" if "fmlookup (mh_by_hash h) hash = Some b" for b
    using that ex(2)[of "vp_order (pb_point b)" hash] by (auto simp: os_def sorted_list_of_fset.rep_eq intro: fmdomI)
  then show "fmlookup (mh_by_hash (prune_below h sink)) hash =
       (case fmlookup (mh_by_hash h) hash of None \<Rightarrow> None | Some b \<Rightarrow> if vp_order (pb_point b) < vp_order sink then None else Some b)"
    unfolding eq using fold_remove_order[OF assms, of os hash] by (auto split: option.splits)
qed

definition resolve_order :: "materialized_history \<Rightarrow> block_hash \<Rightarrow> consensus_order option" where
  "resolve_order h hash = map_option (\<lambda>block. vp_order (pb_point block)) (fmlookup (mh_by_hash h) hash)"

lemma resolve_order_hash: "history_exact h \<Longrightarrow> resolve_order h hash = Some order \<Longrightarrow> co_hash order = hash"
  by (auto simp: resolve_order_def vp_hash_def[symmetric] dest: history_exactD(1))

lemma required_history_total: "vch_added c \<noteq> [] \<Longrightarrow> \<exists>m. required_history h c = Some m"
  by (simp add: required_history_def Let_def)

lemma required_history_absent: "required_history h c = Some m \<Longrightarrow> x |\<in>| m \<Longrightarrow> x |\<notin>| fmdom (mh_by_hash h)"
  by (auto simp: required_history_def Let_def split: if_splits)

section \<open>The invariant\<close>

definition candidate_wf :: "pending_candidate \<Rightarrow> bool" where
  "candidate_wf c =
     (vch_added (cand_change c) \<noteq> [] \<and> cand_destination c = last (vch_added (cand_change c)) \<and>
      (case cand_order c of None \<Rightarrow> True | Some order \<Rightarrow> co_hash order = cand_destination c))"

definition candidate_fresh :: "materialized_history \<Rightarrow> pending_candidate \<Rightarrow> bool" where
  "candidate_fresh h c =
     (required_history h (cand_change c) = Some (cand_missing c) \<and> cand_order c = resolve_order h (cand_destination c))"

definition waiters_exact :: "vspc_state \<Rightarrow> bool" where
  "waiters_exact s =
     (no_empty_bucket (vs_missing_to_pending s) \<and>
      (\<forall>hash pid. pid |\<in>| bucket (vs_missing_to_pending s) hash \<longleftrightarrow>
         (\<exists>c. fmlookup (vs_pending s) pid = Some c \<and> hash |\<in>| cand_missing c)))"

definition destinations_exact :: "vspc_state \<Rightarrow> bool" where
  "destinations_exact s =
     (\<forall>hash pid. fmlookup (vs_notification_by_destination s) hash = Some pid \<longleftrightarrow>
        (\<exists>c. fmlookup (vs_pending s) pid = Some c \<and> cand_source c = Notification \<and> cand_destination c = hash))"

definition resolved_exact :: "vspc_state \<Rightarrow> bool" where
  "resolved_exact s =
     (\<forall>order pid. fmlookup (vs_resolved_notifications s) order = Some pid \<longleftrightarrow>
        (\<exists>c. fmlookup (vs_pending s) pid = Some c \<and> cand_source c = Notification \<and> cand_order c = Some order))"

definition fifo_exact :: "vspc_state \<Rightarrow> bool" where
  "fifo_exact s =
     (sorted_wrt (<) (vs_synthetic_fifo s) \<and>
      (\<forall>pid. pid \<in> set (vs_synthetic_fifo s) \<longleftrightarrow>
         (\<exists>c. fmlookup (vs_pending s) pid = Some c \<and> cand_source c = Synthetic)))"

definition index_inv :: "vspc_state \<Rightarrow> bool" where
  "index_inv s =
     (waiters_exact s \<and> destinations_exact s \<and> resolved_exact s \<and> fifo_exact s \<and> history_exact (vs_history s) \<and>
      fmpred (\<lambda>pid c. pid < vs_next_pending_id s \<and> candidate_wf c) (vs_pending s))"

definition vspc_inv :: "vspc_state \<Rightarrow> bool" where
  "vspc_inv s =
     (index_inv s \<and> fmpred (\<lambda>_. candidate_fresh (vs_history s)) (vs_pending s) \<and> pending_len s \<le> 1024)"

lemmas index_inv_defs = index_inv_def waiters_exact_def destinations_exact_def resolved_exact_def fifo_exact_def

lemma vspc_state_new_inv: "vspc_inv (vspc_state_new anchor)"
  by (simp add: vspc_inv_def index_inv_defs vspc_state_new_def mhistory_new_exact pending_len_def)

lemma bucket_remove_waiter:
  "bucket (remove_waiter pid missing m) hash = (if hash |\<in>| missing then bucket m hash |-| {|pid|} else bucket m hash)"
  by (simp add: remove_waiter_def sorted_list_of_fset.rep_eq)

lemma no_empty_remove_waiter: "no_empty_bucket m \<Longrightarrow> no_empty_bucket (remove_waiter pid missing m)"
  by (simp add: remove_waiter_def)

section \<open>Removing and refreshing candidates\<close>

lemma index_invD:
  assumes "index_inv s" "fmlookup (vs_pending s) pid = Some c"
  shows "candidate_wf c" "pid < vs_next_pending_id s"
  using assms by (auto simp: index_inv_def fmpred_iff)

lemma destinations_iff:
  "index_inv s \<Longrightarrow> fmlookup (vs_notification_by_destination s) h = Some q \<longleftrightarrow>
     (\<exists>d. fmlookup (vs_pending s) q = Some d \<and> cand_source d = Notification \<and> cand_destination d = h)"
  by (simp add: index_inv_def destinations_exact_def)

lemma resolved_iff:
  "index_inv s \<Longrightarrow> fmlookup (vs_resolved_notifications s) k = Some q \<longleftrightarrow>
     (\<exists>d. fmlookup (vs_pending s) q = Some d \<and> cand_source d = Notification \<and> cand_order d = Some k)"
  by (simp add: index_inv_def resolved_exact_def)

lemma fifo_iff:
  "index_inv s \<Longrightarrow> q \<in> set (vs_synthetic_fifo s) \<longleftrightarrow> (\<exists>d. fmlookup (vs_pending s) q = Some d \<and> cand_source d = Synthetic)"
  by (simp add: index_inv_def fifo_exact_def)

lemma waiters_iff:
  "index_inv s \<Longrightarrow> q |\<in>| bucket (vs_missing_to_pending s) h \<longleftrightarrow> (\<exists>d. fmlookup (vs_pending s) q = Some d \<and> h |\<in>| cand_missing d)"
  by (simp add: index_inv_def waiters_exact_def)

lemma destination_unique:
  assumes "index_inv s" "fmlookup (vs_pending s) p = Some c" "fmlookup (vs_pending s) q = Some d"
    "cand_source c = Notification" "cand_source d = Notification" "cand_destination c = cand_destination d"
  shows "p = q"
proof -
  have "fmlookup (vs_notification_by_destination s) (cand_destination c) = Some p"
    "fmlookup (vs_notification_by_destination s) (cand_destination c) = Some q"
    using assms by (auto simp: index_inv_def destinations_exact_def)
  then show ?thesis by simp
qed

lemma resolved_unique:
  assumes inv: "index_inv s" and p: "fmlookup (vs_pending s) p = Some c" "cand_source c = Notification" "cand_destination c = co_hash order"
    and q: "fmlookup (vs_pending s) q = Some d" "cand_source d = Notification" "cand_order d = Some order"
  shows "q = p"
proof -
  have "cand_destination d = co_hash order" using index_invD(1)[OF inv q(1)] q(3) by (simp add: candidate_wf_def)
  then show ?thesis using destination_unique[OF inv q(1) p(1) q(2) p(2)] p(3) by simp
qed

lemma remove_candidate_spec:
  assumes inv: "index_inv s" and c: "fmlookup (vs_pending s) pid = Some c"
  obtains s' where "remove_candidate s pid = (s', Some c)" "index_inv s'" "vs_pending s' = fmdrop pid (vs_pending s)"
    "vs_history s' = vs_history s" "vs_phase s' = vs_phase s" "vs_committed_sink s' = vs_committed_sink s"
    "vs_next_pending_id s' = vs_next_pending_id s"
    "vs_synthetic_fifo s' = filter (\<lambda>q. q \<noteq> pid) (vs_synthetic_fifo s)"
proof -
  define s' where "s' = fst (remove_candidate s pid)"
  have run: "remove_candidate s pid = (s', Some c)" by (simp add: s'_def remove_candidate_def c Let_def)
  have pend: "vs_pending s' = fmdrop pid (vs_pending s)"
    and frame: "vs_history s' = vs_history s" "vs_phase s' = vs_phase s" "vs_committed_sink s' = vs_committed_sink s"
      "vs_next_pending_id s' = vs_next_pending_id s"
    and wait: "vs_missing_to_pending s' = remove_waiter pid (cand_missing c) (vs_missing_to_pending s)"
    by (simp_all add: s'_def remove_candidate_def c Let_def)
  have fifo: "vs_synthetic_fifo s' = filter (\<lambda>q. q \<noteq> pid) (vs_synthetic_fifo s)"
  proof (cases "cand_source c = Notification")
    case True
    then have "pid \<notin> set (vs_synthetic_fifo s)" using inv c by (auto simp: index_inv_def fifo_exact_def)
    then have "filter (\<lambda>q. q \<noteq> pid) (vs_synthetic_fifo s) = vs_synthetic_fifo s" by (auto simp: filter_id_conv)
    then show ?thesis using True by (simp add: s'_def remove_candidate_def c Let_def)
  qed (simp add: s'_def remove_candidate_def c Let_def)
  have dest: "fmlookup (vs_notification_by_destination s') h =
      (if cand_source c = Notification \<and> h = cand_destination c then None else fmlookup (vs_notification_by_destination s) h)" for h
    by (simp add: s'_def remove_candidate_def c Let_def)
  have res: "fmlookup (vs_resolved_notifications s') k =
      (if cand_source c = Notification \<and> cand_order c = Some k then None else fmlookup (vs_resolved_notifications s) k)" for k
    by (auto simp: s'_def remove_candidate_def c Let_def split: option.splits)
  have "waiters_exact s'"
    using inv c by (auto simp: index_inv_def waiters_exact_def wait bucket_remove_waiter no_empty_remove_waiter pend split: if_splits)
  moreover have "destinations_exact s'"
    unfolding destinations_exact_def dest pend
  proof (intro allI)
    fix h q
    show "((if cand_source c = Notification \<and> h = cand_destination c then None
        else fmlookup (vs_notification_by_destination s) h) = Some q) =
      (\<exists>d. fmlookup (fmdrop pid (vs_pending s)) q = Some d \<and> cand_source d = Notification \<and> cand_destination d = h)"
      using destinations_iff[OF inv, of h q] c destination_unique[OF inv c, of q] by (cases "q = pid") auto
  qed
  moreover have "resolved_exact s'"
  proof -
    have old: "q = pid" if "fmlookup (vs_pending s) q = Some d" "cand_source d = Notification" "cand_order d = Some k"
      "cand_source c = Notification" "cand_order c = Some k" for q d k
      using resolved_unique[OF inv c that(4) _ that(1,2,3)] index_invD(1)[OF inv c] that(5) by (simp add: candidate_wf_def)
    show ?thesis
      unfolding resolved_exact_def res pend
    proof (intro allI)
      fix k q
      show "((if cand_source c = Notification \<and> cand_order c = Some k then None
          else fmlookup (vs_resolved_notifications s) k) = Some q) =
        (\<exists>d. fmlookup (fmdrop pid (vs_pending s)) q = Some d \<and> cand_source d = Notification \<and> cand_order d = Some k)"
        using resolved_iff[OF inv, of k q] c old[of q _ k] by (cases "q = pid") auto
    qed
  qed
  moreover have "fifo_exact s'"
    using inv c by (auto simp: index_inv_def fifo_exact_def fifo pend sorted_wrt_filter)
  ultimately have "index_inv s'" using inv by (auto simp: index_inv_def frame pend fmpred_iff)
  then show ?thesis using that run pend frame fifo by blast
qed

definition refreshed :: "materialized_history \<Rightarrow> pending_candidate \<Rightarrow> pending_candidate" where
  "refreshed h c = c\<lparr>cand_missing := the (required_history h (cand_change c)), cand_order := resolve_order h (cand_destination c)\<rparr>"

lemma refreshed_simps [simp]:
  "cand_source (refreshed h c) = cand_source c" "cand_change (refreshed h c) = cand_change c"
  "cand_destination (refreshed h c) = cand_destination c" "cand_overlap_credited (refreshed h c) = cand_overlap_credited c"
  "cand_order (refreshed h c) = resolve_order h (cand_destination c)"
  "cand_missing (refreshed h c) = the (required_history h (cand_change c))"
  by (simp_all add: refreshed_def)

lemma refreshed_fresh: "candidate_wf c \<Longrightarrow> candidate_fresh h (refreshed h c)"
  using required_history_total[of "cand_change c" h] by (auto simp: candidate_fresh_def candidate_wf_def)

lemma refreshed_wf: "history_exact h \<Longrightarrow> candidate_wf c \<Longrightarrow> candidate_wf (refreshed h c)"
  by (auto simp: candidate_wf_def resolve_order_hash split: option.splits)

lemma refresh_candidate_spec:
  assumes inv: "index_inv s" and c: "fmlookup (vs_pending s) pid = Some c"
  obtains s' where "refresh_candidate s pid = Some s'" "index_inv s'"
    "vs_pending s' = fmupd pid (refreshed (vs_history s) c) (vs_pending s)"
    "vs_history s' = vs_history s" "vs_phase s' = vs_phase s" "vs_committed_sink s' = vs_committed_sink s"
    "vs_next_pending_id s' = vs_next_pending_id s" "vs_synthetic_fifo s' = vs_synthetic_fifo s"
    "vs_notification_by_destination s' = vs_notification_by_destination s"
proof -
  let ?h = "vs_history s" let ?c = "refreshed (vs_history s) c"
  note wf = index_invD(1)[OF inv c]
  obtain m where m: "required_history ?h (cand_change c) = Some m"
    using required_history_total wf unfolding candidate_wf_def by blast
  define s' where "s' = the (refresh_candidate s pid)"
  have run: "refresh_candidate s pid = Some s'" by (simp add: s'_def refresh_candidate_def c m Let_def)
  have pend: "vs_pending s' = fmupd pid ?c (vs_pending s)"
    and frame: "vs_history s' = vs_history s" "vs_phase s' = vs_phase s" "vs_committed_sink s' = vs_committed_sink s"
      "vs_next_pending_id s' = vs_next_pending_id s" "vs_synthetic_fifo s' = vs_synthetic_fifo s"
      "vs_notification_by_destination s' = vs_notification_by_destination s"
    and wait: "vs_missing_to_pending s' = fold (\<lambda>hash. bucket_insert hash pid) (sorted_list_of_fset m)
      (remove_waiter pid (cand_missing c) (vs_missing_to_pending s))"
    by (simp_all add: s'_def refresh_candidate_def c m Let_def refreshed_def resolve_order_def)
  have res: "fmlookup (vs_resolved_notifications s') k =
      (if cand_source c = Notification \<and> cand_order ?c = Some k then Some pid
       else if cand_source c = Notification \<and> cand_order c = Some k then None
       else fmlookup (vs_resolved_notifications s) k)" for k
    by (auto simp: s'_def refresh_candidate_def c m Let_def resolve_order_def split: option.splits)
  have hx: "history_exact ?h" using inv by (simp add: index_inv_def)
  have "waiters_exact s'"
    using inv c m by (auto simp: index_inv_def waiters_exact_def wait bucket_remove_waiter no_empty_remove_waiter pend
        sorted_list_of_fset.rep_eq split: if_splits)
  moreover have "destinations_exact s'"
    using inv c by (auto simp: index_inv_def destinations_exact_def pend frame)
  moreover have "resolved_exact s'"
  proof -
    have old: "q = pid" if "fmlookup (vs_pending s) q = Some d" "cand_source d = Notification" "cand_order d = Some k"
      "cand_source c = Notification" "cand_order c = Some k" for q d k
      using resolved_unique[OF inv c that(4) _ that(1,2,3)] wf that(5) by (simp add: candidate_wf_def)
    have new: "q = pid" if "fmlookup (vs_pending s) q = Some d" "cand_source d = Notification" "cand_order d = Some k"
      "cand_source c = Notification" "resolve_order ?h (cand_destination c) = Some k" for q d k
      using resolved_unique[OF inv c that(4) _ that(1,2,3)] resolve_order_hash[OF hx that(5)] by simp
    show ?thesis
      unfolding resolved_exact_def res pend
    proof (intro allI)
      fix k q
      show "((if cand_source c = Notification \<and> cand_order ?c = Some k then Some pid
          else if cand_source c = Notification \<and> cand_order c = Some k then None
          else fmlookup (vs_resolved_notifications s) k) = Some q) =
        (\<exists>d. fmlookup (fmupd pid ?c (vs_pending s)) q = Some d \<and> cand_source d = Notification \<and> cand_order d = Some k)"
      proof (cases "q = pid")
        case True
        then show ?thesis using resolved_iff[OF inv, of k q] c by (cases "cand_source c = Notification") auto
      next
        case False
        have "\<not> (cand_source c = Notification \<and> (cand_order c = Some k \<or> resolve_order ?h (cand_destination c) = Some k))"
          if "fmlookup (vs_resolved_notifications s) k = Some q"
          using that old new False unfolding resolved_iff[OF inv] by blast
        then show ?thesis using False resolved_iff[OF inv, of k q] by auto
      qed
    qed
  qed
  moreover have "fifo_exact s'"
    using inv c by (auto simp: index_inv_def fifo_exact_def frame pend)
  moreover have "fmpred (\<lambda>pid c. pid < vs_next_pending_id s' \<and> candidate_wf c) (vs_pending s')"
    using inv refreshed_wf[OF hx wf] index_invD(2)[OF inv c] by (auto simp: index_inv_def frame pend fmpred_iff)
  ultimately have "index_inv s'" using hx by (simp add: index_inv_def frame)
  then show ?thesis using that run pend frame by blast
qed

definition same_but_pending :: "vspc_state \<Rightarrow> vspc_state \<Rightarrow> bool" where
  "same_but_pending s s' \<longleftrightarrow>
     vs_history s' = vs_history s \<and> vs_phase s' = vs_phase s \<and> vs_committed_sink s' = vs_committed_sink s \<and>
     vs_next_pending_id s' = vs_next_pending_id s"

lemma refreshed_idem [simp]: "refreshed h (refreshed h c) = refreshed h c"
  by (simp add: refreshed_def)

lemma refresh_many:
  assumes "index_inv s"
  shows "\<exists>s'. fold_opt refresh_candidate s pids = Some s' \<and> index_inv s' \<and> same_but_pending s s' \<and>
    vs_synthetic_fifo s' = vs_synthetic_fifo s \<and> vs_notification_by_destination s' = vs_notification_by_destination s \<and>
    (\<forall>q. fmlookup (vs_pending s') q =
       map_option (\<lambda>c. if q \<in> set pids then refreshed (vs_history s) c else c) (fmlookup (vs_pending s) q))"
  using assms
proof (induction pids arbitrary: s)
  case (Cons p pids)
  show ?case
  proof (cases "fmlookup (vs_pending s) p")
    case None
    then have "refresh_candidate s p = Some s" by (simp add: refresh_candidate_def)
    moreover have "map_option (\<lambda>c. if q \<in> set pids then refreshed (vs_history s) c else c) (fmlookup (vs_pending s) q) =
        map_option (\<lambda>c. if q \<in> set (p # pids) then refreshed (vs_history s) c else c) (fmlookup (vs_pending s) q)" for q
      using None by (cases "q = p") auto
    ultimately show ?thesis using Cons.IH[OF Cons.prems] by simp
  next
    case (Some c)
    from refresh_candidate_spec[OF Cons.prems Some] obtain s1 where s1: "refresh_candidate s p = Some s1" "index_inv s1"
      "vs_pending s1 = fmupd p (refreshed (vs_history s) c) (vs_pending s)"
      "vs_history s1 = vs_history s" "vs_phase s1 = vs_phase s" "vs_committed_sink s1 = vs_committed_sink s"
      "vs_next_pending_id s1 = vs_next_pending_id s" "vs_synthetic_fifo s1 = vs_synthetic_fifo s"
      "vs_notification_by_destination s1 = vs_notification_by_destination s" .
    from Cons.IH[OF s1(2)] obtain s' where s': "fold_opt refresh_candidate s1 pids = Some s'" "index_inv s'" "same_but_pending s1 s'"
      "vs_synthetic_fifo s' = vs_synthetic_fifo s1" "vs_notification_by_destination s' = vs_notification_by_destination s1"
      "\<And>q. fmlookup (vs_pending s') q =
         map_option (\<lambda>c. if q \<in> set pids then refreshed (vs_history s1) c else c) (fmlookup (vs_pending s1) q)" by blast
    have "fmlookup (vs_pending s') q =
       map_option (\<lambda>c. if q \<in> set (p # pids) then refreshed (vs_history s) c else c) (fmlookup (vs_pending s) q)" for q
      using s'(6)[of q] Some unfolding s1(3,4) by (cases "q = p") auto
    then show ?thesis using s1 s'(1-5) by (auto simp: same_but_pending_def)
  qed
qed (auto simp: same_but_pending_def option.map_ident)

lemma index_inv_history:
  assumes "index_inv s" "history_exact h"
  shows "index_inv (s\<lparr>vs_history := h\<rparr>)"
  using assms by (simp add: index_inv_defs)

lemma prune_history_spec:
  assumes inv: "index_inv s" and len: "pending_len s \<le> 1024"
  shows "\<exists>s'. prune_history s = Some s' \<and> vspc_inv s' \<and> vs_history s' = prune_below (vs_history s) (vs_committed_sink s) \<and>
    vs_phase s' = vs_phase s \<and> vs_committed_sink s' = vs_committed_sink s \<and> vs_next_pending_id s' = vs_next_pending_id s \<and>
    vs_synthetic_fifo s' = vs_synthetic_fifo s \<and>
    (\<forall>q. fmlookup (vs_pending s') q = map_option (refreshed (vs_history s')) (fmlookup (vs_pending s) q))"
proof -
  let ?h = "prune_below (vs_history s) (vs_committed_sink s)"
  define s1 where "s1 = s\<lparr>vs_history := ?h\<rparr>"
  have "index_inv s1" unfolding s1_def using inv by (intro index_inv_history prune_below_spec) (auto simp: index_inv_def)
  from refresh_many[OF this, of "sorted_list_of_fset (fmdom (vs_pending s1))"] obtain s' where
    s': "prune_history s = Some s'" "index_inv s'" "same_but_pending s1 s'" "vs_synthetic_fifo s' = vs_synthetic_fifo s"
    and lk: "\<And>q. fmlookup (vs_pending s') q = map_option (\<lambda>c. if q \<in> set (sorted_list_of_fset (fmdom (vs_pending s1)))
       then refreshed (vs_history s1) c else c) (fmlookup (vs_pending s1) q)"
    unfolding prune_history_def Let_def s1_def by auto
  have h: "vs_history s' = ?h" using s'(3) by (simp add: same_but_pending_def s1_def)
  have pend: "fmlookup (vs_pending s') q = map_option (refreshed ?h) (fmlookup (vs_pending s) q)" for q
    using lk[of q] by (cases "fmlookup (vs_pending s) q") (auto simp: s1_def sorted_list_of_fset.rep_eq intro: fmdomI)
  have "candidate_fresh ?h d" if d: "fmlookup (vs_pending s') q = Some d" for q d
  proof -
    from d pend[of q] obtain c where c: "fmlookup (vs_pending s) q = Some c" "d = refreshed ?h c" by auto
    show ?thesis unfolding c(2) by (rule refreshed_fresh[OF index_invD(1)[OF inv c(1)]])
  qed
  moreover have "fmdom (vs_pending s') = fmdom (vs_pending s)" by (rule fcard_dom_map) (simp add: pend)
  ultimately have "vspc_inv s'" using s'(2) len h by (simp add: vspc_inv_def fmpred_iff pending_len_def)
  then show ?thesis using s' h pend by (auto simp: same_but_pending_def s1_def)
qed

text \<open>Removing a candidate keeps the full invariant.\<close>

lemma remove_candidate_inv:
  assumes inv: "vspc_inv s" and c: "fmlookup (vs_pending s) pid = Some c"
  obtains s' where "remove_candidate s pid = (s', Some c)" "vspc_inv s'" "vs_pending s' = fmdrop pid (vs_pending s)"
    "same_but_pending s s'" "vs_synthetic_fifo s' = filter (\<lambda>q. q \<noteq> pid) (vs_synthetic_fifo s)"
proof -
  have ii: "index_inv s" using inv by (simp add: vspc_inv_def)
  from remove_candidate_spec[OF ii c] obtain s' where s': "remove_candidate s pid = (s', Some c)" "index_inv s'"
    "vs_pending s' = fmdrop pid (vs_pending s)" "vs_history s' = vs_history s" "vs_phase s' = vs_phase s"
    "vs_committed_sink s' = vs_committed_sink s" "vs_next_pending_id s' = vs_next_pending_id s"
    "vs_synthetic_fifo s' = filter (\<lambda>q. q \<noteq> pid) (vs_synthetic_fifo s)" .
  have "pending_len s' \<le> pending_len s" unfolding pending_len_def s'(3) by (intro fcard_mono) auto
  then have "vspc_inv s'" using inv s' by (auto simp: vspc_inv_def fmpred_iff)
  then show ?thesis using that s' by (simp add: same_but_pending_def)
qed

lemma remove_many:
  assumes "vspc_inv s" "distinct pids" "\<And>p. p \<in> set pids \<Longrightarrow> p |\<in>| fmdom (vs_pending s)"
  shows "let s' = fold (\<lambda>pid s. fst (remove_candidate s pid)) pids s in
    vspc_inv s' \<and> same_but_pending s s' \<and> vs_synthetic_fifo s' = filter (\<lambda>q. q \<notin> set pids) (vs_synthetic_fifo s) \<and>
    (\<forall>q. fmlookup (vs_pending s') q = (if q \<in> set pids then None else fmlookup (vs_pending s) q))"
  using assms
proof (induction pids arbitrary: s)
  case Nil
  then show ?case by (simp add: same_but_pending_def)
next
  case (Cons p pids)
  obtain c where c: "fmlookup (vs_pending s) p = Some c" using Cons.prems(3)[of p] by (auto simp: fmlookup_dom_iff)
  from remove_candidate_inv[OF Cons.prems(1) c] obtain s1 where s1: "remove_candidate s p = (s1, Some c)" "vspc_inv s1"
    "vs_pending s1 = fmdrop p (vs_pending s)" "same_but_pending s s1" "vs_synthetic_fifo s1 = filter (\<lambda>q. q \<noteq> p) (vs_synthetic_fifo s)" .
  have "let s' = fold (\<lambda>pid s. fst (remove_candidate s pid)) pids s1 in
    vspc_inv s' \<and> same_but_pending s1 s' \<and> vs_synthetic_fifo s' = filter (\<lambda>q. q \<notin> set pids) (vs_synthetic_fifo s1) \<and>
    (\<forall>q. fmlookup (vs_pending s') q = (if q \<in> set pids then None else fmlookup (vs_pending s1) q))"
    by (rule Cons.IH) (use Cons.prems s1 in auto)
  then show ?case using s1 by (auto simp: Let_def same_but_pending_def conj_commute)
qed

lemma clear_synthetic_spec:
  assumes inv: "vspc_inv s"
  shows "vspc_inv (clear_synthetic s)" "same_but_pending s (clear_synthetic s)" "vs_synthetic_fifo (clear_synthetic s) = []"
    "fmlookup (vs_pending (clear_synthetic s)) q =
       (case fmlookup (vs_pending s) q of None \<Rightarrow> None | Some c \<Rightarrow> if cand_source c = Synthetic then None else Some c)"
proof -
  have ii: "index_inv s" using inv by (simp add: vspc_inv_def)
  have d: "distinct (vs_synthetic_fifo s)" using ii by (simp add: index_inv_def fifo_exact_def strict_sorted_iff)
  have dom: "p |\<in>| fmdom (vs_pending s)" if "p \<in> set (vs_synthetic_fifo s)" for p
    using that fifo_iff[OF ii] by (auto intro: fmdomI)
  note many = remove_many[OF inv d dom, folded clear_synthetic_def, unfolded Let_def]
  show "vspc_inv (clear_synthetic s)" "same_but_pending s (clear_synthetic s)" "vs_synthetic_fifo (clear_synthetic s) = []"
    using many by auto
  show "fmlookup (vs_pending (clear_synthetic s)) q =
       (case fmlookup (vs_pending s) q of None \<Rightarrow> None | Some c \<Rightarrow> if cand_source c = Synthetic then None else Some c)"
    using many fifo_iff[OF ii, of q] by (auto split: option.splits)
qed

section \<open>Persisted blocks and admissions\<close>

text \<open>The handler body for one persisted block and the insertion of one candidate, on the state.\<close>

definition record_persisted :: "vspc_state \<Rightarrow> persisted_block \<Rightarrow> vspc_state option" where
  "record_persisted s persisted =
     (let (history, inserted) = history_insert (vs_history s) persisted
      in if \<not> inserted then Some s
         else
           let s1 = s\<lparr>vs_history := history\<rparr>
           in fold_opt refresh_candidate s1
                (sorted_list_of_fset (bucket (vs_missing_to_pending s1) (vp_hash (pb_point persisted)))))"

definition admit_candidate :: "vspc_state \<Rightarrow> vspc_change \<Rightarrow> candidate_source \<Rightarrow> vspc_state option" where
  "admit_candidate s change source = do {
     (s1, pid) \<leftarrow> allocate_pending_id s;
     let destination = last (vch_added change);
     let s2 = s1\<lparr>vs_pending := fmupd pid
                   \<lparr>cand_source = source, cand_change = change, cand_destination = destination,
                    cand_missing = {||}, cand_order = None, cand_overlap_credited = False\<rparr> (vs_pending s1)\<rparr>;
     let s3 = (if source = Synthetic then s2\<lparr>vs_synthetic_fifo := vs_synthetic_fifo s2 @ [pid]\<rparr>
               else s2\<lparr>vs_notification_by_destination :=
                         fmupd destination pid (vs_notification_by_destination s2)\<rparr>);
     refresh_candidate s3 pid }"

lemma required_history_upd:
  assumes m: "required_history h c = Some m" and new: "hash |\<notin>| fmdom (mh_by_hash h)" and out: "hash |\<notin>| m"
    and h': "mh_by_hash h' = fmupd hash b (mh_by_hash h)"
  shows "required_history h' c = Some m \<and> last (vch_added c) \<noteq> hash"
proof -
  have ne: "vch_added c \<noteq> []" using m by (auto simp: required_history_def split: if_splits)
  have ld: "last (vch_added c) \<noteq> hash"
    using m new out by (auto simp: required_history_def Let_def split: if_splits list.splits option.splits)
  show ?thesis
  proof (cases "vch_removed c")
    case Nil
    have na: "hash \<notin> set (vch_added c)"
      using m new out Nil by (auto simp: required_history_def Let_def fset_of_list_elem split: if_splits option.splits)
    then have hd: "hd (vch_added c) \<noteq> hash" using ne by (metis hd_in_set)
    show ?thesis
    proof (cases "fmlookup (mh_by_hash h) (hd (vch_added c))")
      case None
      then have "hd (vch_added c) |\<notin>| fmdom (mh_by_hash h)" by (rule fmdom_notI)
      show ?thesis using m Nil ne hd None na ld
        by (auto simp: required_history_def Let_def h' fset_of_list_elem)
    next
      case (Some blk)
      then have "pb_selected_parent blk \<noteq> hash"
        using m new out Nil by (auto simp: required_history_def Let_def split: if_splits)
      then show ?thesis using m Nil ne hd Some na ld
        by (auto simp: required_history_def Let_def h' fset_of_list_elem)
    qed
  next
    case (Cons src rest)
    then have "src \<noteq> hash" using m new out by (auto simp: required_history_def Let_def split: if_splits)
    then show ?thesis using m Cons ne ld by (auto simp: required_history_def Let_def h')
  qed
qed

lemma record_persisted_spec:
  assumes inv: "vspc_inv s"
  shows "\<exists>s'. record_persisted s b = Some s' \<and> vspc_inv s' \<and> vs_history s' = fst (history_insert (vs_history s) b) \<and>
    vs_phase s' = vs_phase s \<and> vs_committed_sink s' = vs_committed_sink s \<and> vs_synthetic_fifo s' = vs_synthetic_fifo s \<and>
    vs_next_pending_id s' = vs_next_pending_id s \<and>
    (\<forall>q. fmlookup (vs_pending s') q = map_option (refreshed (vs_history s')) (fmlookup (vs_pending s) q))"
proof -
  let ?hash = "vp_hash (pb_point b)"
  have ii: "index_inv s" and fr: "\<And>q c. fmlookup (vs_pending s) q = Some c \<Longrightarrow> candidate_fresh (vs_history s) c"
    using inv by (auto simp: vspc_inv_def fmpred_iff)
  have self: "refreshed h c = c" if "candidate_fresh h c" for h c
    using that by (simp add: refreshed_def candidate_fresh_def)
  show ?thesis
  proof (cases "?hash |\<in>| fmdom (mh_by_hash (vs_history s))")
    case True
    have "fmlookup (vs_pending s) q = map_option (refreshed (vs_history s)) (fmlookup (vs_pending s) q)" for q
      using fr[of q] self by (cases "fmlookup (vs_pending s) q") auto
    then show ?thesis using True inv by (simp add: record_persisted_def history_insert_def)
  next
    case False
    define h' where "h' = fst (history_insert (vs_history s) b)"
    have hi: "history_insert (vs_history s) b = (h', True)" using False by (simp add: h'_def history_insert_def Let_def)
    have bh: "mh_by_hash h' = fmupd ?hash b (mh_by_hash (vs_history s))" using False by (simp add: h'_def history_insert_def Let_def)
    define s1 where "s1 = s\<lparr>vs_history := h'\<rparr>"
    have "index_inv s1" unfolding s1_def using ii
      by (intro index_inv_history) (auto simp: h'_def index_inv_def intro: history_insert_exact)
    from refresh_many[OF this, of "sorted_list_of_fset (bucket (vs_missing_to_pending s1) ?hash)"] obtain s' where
      s': "record_persisted s b = Some s'" "index_inv s'" "same_but_pending s1 s'" "vs_synthetic_fifo s' = vs_synthetic_fifo s"
      and lk: "\<And>q. fmlookup (vs_pending s') q = map_option (\<lambda>c. if q \<in> set (sorted_list_of_fset (bucket (vs_missing_to_pending s1) ?hash))
         then refreshed (vs_history s1) c else c) (fmlookup (vs_pending s1) q)"
      unfolding record_persisted_def hi s1_def by auto
    have pend: "fmlookup (vs_pending s') q = map_option (refreshed h') (fmlookup (vs_pending s) q)" for q
    proof (cases "fmlookup (vs_pending s) q")
      case (Some c)
      show ?thesis
      proof (cases "?hash |\<in>| cand_missing c")
        case True
        then have "q |\<in>| bucket (vs_missing_to_pending s) ?hash" using waiters_iff[OF ii] Some by blast
        then show ?thesis using lk[of q] Some by (simp add: s1_def sorted_list_of_fset.rep_eq)
      next
        case out: False
        then have "q |\<notin>| bucket (vs_missing_to_pending s) ?hash" using waiters_iff[OF ii] Some by auto
        moreover have "refreshed h' c = c"
        proof (rule self)
          have wf: "candidate_wf c" using index_invD(1)[OF ii Some] .
          have f: "required_history (vs_history s) (cand_change c) = Some (cand_missing c)"
            "cand_order c = resolve_order (vs_history s) (cand_destination c)"
            using fr[OF Some] by (auto simp: candidate_fresh_def)
          from required_history_upd[OF f(1) False out bh] show "candidate_fresh h' c"
            using f(2) wf by (auto simp: candidate_fresh_def resolve_order_def bh candidate_wf_def)
        qed
        ultimately show ?thesis using lk[of q] Some by (simp add: s1_def sorted_list_of_fset.rep_eq)
      qed
    qed (use lk[of q] in \<open>simp add: s1_def\<close>)
    have h: "vs_history s' = h'" using s'(3) by (simp add: same_but_pending_def s1_def)
    have "candidate_fresh h' d" if d: "fmlookup (vs_pending s') q = Some d" for q d
    proof -
      from d pend[of q] obtain c where c: "fmlookup (vs_pending s) q = Some c" "d = refreshed h' c" by auto
      show ?thesis unfolding c(2) by (rule refreshed_fresh[OF index_invD(1)[OF ii c(1)]])
    qed
    moreover have "fmdom (vs_pending s') = fmdom (vs_pending s)" by (rule fcard_dom_map) (simp add: pend)
    ultimately have "vspc_inv s'" using s'(2) inv h by (simp add: vspc_inv_def fmpred_iff pending_len_def)
    then show ?thesis using s' h pend by (auto simp: same_but_pending_def s1_def h'_def)
  qed
qed

lemma admit_candidate_spec:
  assumes inv: "vspc_inv s" and path: "vch_added change \<noteq> []" and room: "pending_len s < 1024"
    and fits: "unat (vs_next_pending_id s) + 1 < 2 ^ 64"
    and new: "source = Notification \<Longrightarrow> last (vch_added change) |\<notin>| fmdom (vs_notification_by_destination s)"
  defines "c \<equiv> refreshed (vs_history s) \<lparr>cand_source = source, cand_change = change, cand_destination = last (vch_added change),
      cand_missing = {||}, cand_order = None, cand_overlap_credited = False\<rparr>"
  shows "\<exists>s'. admit_candidate s change source = Some s' \<and> vspc_inv s' \<and>
    vs_pending s' = fmupd (vs_next_pending_id s) c (vs_pending s) \<and> pending_len s' = pending_len s + 1 \<and>
    vs_history s' = vs_history s \<and> vs_phase s' = vs_phase s \<and> vs_committed_sink s' = vs_committed_sink s \<and>
    vs_next_pending_id s' = vs_next_pending_id s + 1 \<and>
    vs_synthetic_fifo s' = vs_synthetic_fifo s @ (if source = Synthetic then [vs_next_pending_id s] else [])"
proof -
  let ?p = "vs_next_pending_id s"
  let ?c0 = "\<lparr>cand_source = source, cand_change = change, cand_destination = last (vch_added change),
      cand_missing = {||}, cand_order = None, cand_overlap_credited = False\<rparr>"
  have ii: "index_inv s" and fr: "\<And>q c. fmlookup (vs_pending s) q = Some c \<Longrightarrow> candidate_fresh (vs_history s) c"
    using inv by (auto simp: vspc_inv_def fmpred_iff)
  have inc: "unat (?p + 1) = unat ?p + 1" using fits by (simp add: unat_word_ariths)
  have add: "checked_add ?p 1 = Some (?p + 1)" using fits by (simp add: checked_add_def)
  have none: "fmlookup (vs_pending s) ?p = None"
  proof (cases "fmlookup (vs_pending s) ?p")
    case (Some d)
    then show ?thesis using index_invD(2)[OF ii Some] by simp
  qed simp
  define s3 where "s3 = s\<lparr>vs_next_pending_id := ?p + 1, vs_pending := fmupd ?p ?c0 (vs_pending s),
    vs_synthetic_fifo := vs_synthetic_fifo s @ (if source = Synthetic then [?p] else []),
    vs_notification_by_destination := (if source = Notification
      then fmupd (last (vch_added change)) ?p (vs_notification_by_destination s) else vs_notification_by_destination s)\<rparr>"
  have run: "admit_candidate s change source = refresh_candidate s3 ?p"
    by (cases source) (simp_all add: admit_candidate_def allocate_pending_id_def add s3_def Let_def)
  have lt: "q < ?p" if "fmlookup (vs_pending s) q = Some d" for q d using index_invD(2)[OF ii that] .
  have ii3: "index_inv s3"
    unfolding index_inv_def
  proof (intro conjI)
    show "waiters_exact s3" using ii none by (auto simp: index_inv_def waiters_exact_def s3_def)
    show "destinations_exact s3"
      unfolding destinations_exact_def
    proof (intro allI)
      fix h q
      show "fmlookup (vs_notification_by_destination s3) h = Some q \<longleftrightarrow>
          (\<exists>c. fmlookup (vs_pending s3) q = Some c \<and> cand_source c = Notification \<and> cand_destination c = h)"
        using destinations_iff[OF ii, of h q] destinations_iff[OF ii, of h ?p] none new
        by (cases "q = ?p"; cases source) (auto simp: s3_def fmdom_notD)
    qed
    show "resolved_exact s3" using ii none by (auto simp: index_inv_def resolved_exact_def s3_def)
    show "fifo_exact s3"
    proof -
      have "sorted_wrt (<) (vs_synthetic_fifo s3)"
        using ii lt fifo_iff[OF ii] by (auto simp: index_inv_def fifo_exact_def s3_def sorted_wrt_append)
      moreover have "q \<in> set (vs_synthetic_fifo s3) \<longleftrightarrow> (\<exists>c. fmlookup (vs_pending s3) q = Some c \<and> cand_source c = Synthetic)" for q
        using fifo_iff[OF ii, of q] none by (cases "q = ?p"; cases source) (auto simp: s3_def)
      ultimately show ?thesis by (simp add: fifo_exact_def)
    qed
    show "history_exact (vs_history s3)" using ii by (simp add: index_inv_def s3_def)
    have "q < ?p + 1" if "fmlookup (vs_pending s) q = Some d" for q d
      using lt[OF that] inc by (simp add: word_less_nat_alt)
    moreover have "?p < ?p + 1" using inc by (simp add: word_less_nat_alt)
    ultimately show "fmpred (\<lambda>pid c. pid < vs_next_pending_id s3 \<and> candidate_wf c) (vs_pending s3)"
      using ii path by (auto simp: index_inv_def fmpred_iff s3_def candidate_wf_def)
  qed
  have c3: "fmlookup (vs_pending s3) ?p = Some ?c0" by (simp add: s3_def)
  from refresh_candidate_spec[OF ii3 c3] obtain s' where s': "refresh_candidate s3 ?p = Some s'" "index_inv s'"
    "vs_pending s' = fmupd ?p (refreshed (vs_history s3) ?c0) (vs_pending s3)"
    "vs_history s' = vs_history s3" "vs_phase s' = vs_phase s3" "vs_committed_sink s' = vs_committed_sink s3"
    "vs_next_pending_id s' = vs_next_pending_id s3" "vs_synthetic_fifo s' = vs_synthetic_fifo s3" by auto
  have pend: "vs_pending s' = fmupd ?p c (vs_pending s)"
    unfolding s'(3) by (rule fmap_ext) (simp add: s3_def c_def)
  have len: "pending_len s' = pending_len s + 1"
    using none by (simp add: pending_len_def pend fcard_finsert_disjoint fmdom_notI)
  have "candidate_fresh (vs_history s) c" unfolding c_def by (rule refreshed_fresh) (simp add: candidate_wf_def path)
  then have "vspc_inv s'" using s'(2) fr room len by (auto simp: vspc_inv_def fmpred_iff pend s'(4) s3_def)
  then show ?thesis using run s' pend len by (simp add: s3_def)
qed

end
