(* ===== verification/Vspc_Worker.thy ===== *)
theory Vspc_Worker
  imports Vspc_State
begin

text \<open>
  The worker of the VSPC processor, \<open>VspcProcessorWorker\<close> of
  \<open>crates/kgi-processing/src/vspc_processor.rs\<close>. The mailboxes are the lists of values their receivers
  hold, the events and graph updates it sends are logged in order, and the database and node
  operations of the traits \<open>VspcDatabase\<close> and \<open>VspcRpc\<close> are parameters. One iteration of the run loop
  is a function; \<open>None\<close> is a panic of the source.
\<close>

section \<open>The worker and its environment\<close>

datatype vspc_command = VcCatchup vspc_point | VcLive | VcShutdown

datatype vspc_run = VInert recovery_mode | VActive vspc_state

record vspc_worker =
  vw_commands :: "vspc_command list"
  vw_commands_closed :: bool
  vw_notifications :: "vspc_change list"
  vw_synthetic :: "vspc_change list"
  vw_persisted :: "persisted_block list"
  vw_persisted_closed :: bool
  vw_events :: "component_fault list"
  vw_offered :: "vspc_committed list"
  vw_overlap :: bool
  vw_pending_occupancy :: nat
  vw_pending_high_water :: nat
  vw_run :: vspc_run
  vw_faulted :: bool

record vspc_path_conflict =
  pcf_child :: block_hash
  pcf_expected_parent :: block_hash
  pcf_stored_parent :: block_hash

record vspc_commit_outcome =
  vco_destination :: vspc_point
  vco_level_snapshots :: "level_committed list"

datatype resolve_ids_error = RidDatabase processing_db_error | RidNonMaterialized

datatype apply_vspc_error =
    AvDatabase processing_db_error | AvSourceDiscontinuity | AvMemberNotMaterialized compact_id
  | AvPathDiscontinuity vspc_path_conflict

text \<open>The database of type \<open>'d\<close> and the node; a cancelled attribution query is \<open>None\<close>.\<close>

record 'd vspc_env =
  ve_resolve_materialized_ids :: "'d \<Rightarrow> block_hash list \<Rightarrow> resolve_ids_error + compact_id list"
  ve_apply_vspc_change :: "'d \<Rightarrow> ready_vspc_change \<Rightarrow> 'd \<times> (apply_vspc_error + vspc_commit_outcome)"
  ve_full_block :: "'d \<Rightarrow> block_hash \<Rightarrow> (node_error + validated_node_block) option"

datatype drive_action =
    Discard pending_id bool | NormalizeCrossing pending_id "block_hash list" | MarkOverlap pending_id
  | Commit pending_id | CompetingNotifications | SyntheticSourceMismatch

record prepared_candidate =
  pc_source :: candidate_source
  pc_hashes :: vspc_change
  pc_ready :: ready_vspc_change

section \<open>Bookkeeping\<close>

definition vw_metrics_update :: "nat \<Rightarrow> vspc_worker \<Rightarrow> vspc_worker" where
  "vw_metrics_update occupancy w =
     w\<lparr>vw_pending_occupancy := occupancy, vw_pending_high_water := max (vw_pending_high_water w) occupancy\<rparr>"

definition vw_enter_fault :: "component_fault \<Rightarrow> vspc_worker \<Rightarrow> vspc_worker" where
  "vw_enter_fault fault w =
     (if vw_faulted w then w else w\<lparr>vw_faulted := True, vw_events := vw_events w @ [fault]\<rparr>)"

definition vw_is_live :: "vspc_worker \<Rightarrow> bool" where
  "vw_is_live w = (case vw_run w of VActive s \<Rightarrow> phase_is_live (vs_phase s) | VInert _ \<Rightarrow> False)"

definition vw_report_command_path_loss :: "vspc_worker \<Rightarrow> vspc_worker" where
  "vw_report_command_path_loss w =
     (case vw_run w of
        VInert _ \<Rightarrow> w
      | VActive _ \<Rightarrow>
          if vw_faulted w then w
          else vw_enter_fault
                 \<lparr>cf_source = VspcProcessor, cf_disposition = Fatal, cf_kind = Ownership InternalControlPathLost\<rparr> w)"

definition vw_clear_state :: "vspc_worker \<Rightarrow> vspc_worker" where
  "vw_clear_state w =
     vw_metrics_update 0 (w\<lparr>vw_notifications := [], vw_synthetic := [], vw_persisted := []\<rparr>)"

definition vw_initialize :: "vspc_worker \<Rightarrow> materialized_sync_anchor \<Rightarrow> vspc_worker \<times> (component_fault + unit)" where
  "vw_initialize w anchor =
     (case vw_run w of
        VActive _ \<Rightarrow> (w, Inl vspc_invalid_lifecycle)
      | VInert _ \<Rightarrow>
          if vw_faulted w then (w, Inl vspc_invalid_lifecycle)
          else ((vw_metrics_update 0 (w\<lparr>vw_run := VActive (vspc_state_new anchor)\<rparr>))\<lparr>vw_overlap := False\<rparr>, Inr ()))"

definition vw_startup :: "vspc_worker \<Rightarrow> component_fault + unit" where
  "vw_startup w = (case vw_run w of VActive _ \<Rightarrow> Inr () | VInert _ \<Rightarrow> Inl vspc_invalid_lifecycle)"

section \<open>Handlers\<close>

text \<open>A command; the second component says that the worker's life is over.\<close>

definition vw_handle_command :: "vspc_worker \<Rightarrow> vspc_command \<Rightarrow> (vspc_worker \<times> bool) option" where
  "vw_handle_command w command =
     (case command of
        VcCatchup lower_bound \<Rightarrow>
          Some ((case vw_run w of
                   VActive s \<Rightarrow>
                     if vs_phase s = PhSynchronizing
                     then w\<lparr>vw_run := VActive (s\<lparr>vs_phase := PhCatchup lower_bound\<rparr>), vw_overlap := False\<rparr>
                     else vw_enter_fault vspc_invalid_lifecycle w
                 | VInert _ \<Rightarrow> vw_enter_fault vspc_invalid_lifecycle w), False)
      | VcLive \<Rightarrow>
          (case vw_run w of
             VActive s \<Rightarrow>
               (case vs_phase s of
                  PhCatchup _ \<Rightarrow> do {
                    s' \<leftarrow> prune_history ((clear_synthetic s)\<lparr>vs_phase := PhLive\<rparr>);
                    Some (vw_metrics_update (pending_len s') (w\<lparr>vw_synthetic := [], vw_run := VActive s'\<rparr>), False) }
                | _ \<Rightarrow> Some (vw_enter_fault vspc_invalid_lifecycle w, False))
           | VInert _ \<Rightarrow> Some (vw_enter_fault vspc_invalid_lifecycle w, False))
      | VcShutdown \<Rightarrow> Some (vw_clear_state w, True))"

definition vw_handle_persisted :: "vspc_worker \<Rightarrow> persisted_block \<Rightarrow> vspc_worker option" where
  "vw_handle_persisted w persisted =
     (case vw_run w of
        VInert _ \<Rightarrow> Some w
      | VActive s \<Rightarrow> map_option (\<lambda>s'. w\<lparr>vw_run := VActive s'\<rparr>) (record_persisted s persisted))"

definition MAX_PENDING_VSPC_CHANGES :: nat where "MAX_PENDING_VSPC_CHANGES = 1024"

definition vw_admit :: "vspc_worker \<Rightarrow> vspc_state \<Rightarrow> vspc_change \<Rightarrow> candidate_source \<Rightarrow> vspc_worker option" where
  "vw_admit w s change source =
     (if pending_len s = MAX_PENDING_VSPC_CHANGES then
        Some (vw_enter_fault
          \<lparr>cf_source = VspcProcessor, cf_disposition = Require Resync, cf_kind = BoundedStateExhausted VspcPending\<rparr> w)
      else do {
        s' \<leftarrow> admit_candidate s change source;
        Some (vw_metrics_update (pending_len s') (w\<lparr>vw_run := VActive s'\<rparr>)) })"

definition vw_handle_change :: "vspc_worker \<Rightarrow> vspc_change \<Rightarrow> candidate_source \<Rightarrow> vspc_worker option" where
  "vw_handle_change w change source =
     (if vch_added change = [] then
        Some (vw_enter_fault (malformed_change source NRemovedChainWithoutAddedPath) w)
      else
        case vw_run w of
          VInert _ \<Rightarrow> Some w
        | VActive s \<Rightarrow>
            (case source of
               Notification \<Rightarrow>
                 (case vs_phase s of
                    PhSynchronizing \<Rightarrow> Some w
                  | _ \<Rightarrow>
                      (case fmlookup (vs_notification_by_destination s) (last (vch_added change)) of
                         Some existing_id \<Rightarrow> do {
                           existing \<leftarrow> fmlookup (vs_pending s) existing_id;
                           let reason = (if cand_change existing = change
                                         then NDuplicatePendingTransition else NContradictoryDestination);
                           Some (vw_enter_fault (malformed_notification reason Resync) w) }
                       | None \<Rightarrow> vw_admit w s change source))
             | Synthetic \<Rightarrow>
                 (case vs_phase s of PhLive \<Rightarrow> Some w | _ \<Rightarrow> vw_admit w s change source)))"

section \<open>Choosing the next action\<close>

fun catchup_scan ::
  "vspc_state \<Rightarrow> vspc_point \<Rightarrow> (consensus_order \<times> pending_id) list \<Rightarrow> drive_action option option" where
  "catchup_scan s lower_bound [] = Some None"
| "catchup_scan s lower_bound ((order, pid) # rest) = do {
     candidate \<leftarrow> fmlookup (vs_pending s) pid;
     if order < vp_order lower_bound then Some (Some (Discard pid False))
     else if order \<le> vp_order (vs_committed_sink s) then Some (Some (Discard pid True))
     else
       let suffix = (case position (vp_hash (vs_committed_sink s)) (vch_added (cand_change candidate)) of
                       Some p \<Rightarrow> drop (p + 1) (vch_added (cand_change candidate))
                     | None \<Rightarrow> [])
       in if suffix \<noteq> [] then Some (Some (NormalizeCrossing pid suffix))
          else if \<not> cand_overlap_credited candidate \<and>
                  (case endpoints (vs_history s) (cand_change candidate) of
                     Some (source, _) \<Rightarrow> source = vs_committed_sink s
                   | None \<Rightarrow> False)
               then Some (Some (MarkOverlap pid))
               else catchup_scan s lower_bound rest }"

definition live_actionable :: "vspc_state \<Rightarrow> pending_id list option" where
  "live_actionable s =
     fold_opt (\<lambda>acc pid. do {
         candidate \<leftarrow> fmlookup (vs_pending s) pid;
         Some (case endpoints (vs_history s) (cand_change candidate) of
                 Some (source, _) \<Rightarrow> if source = vs_committed_sink s then acc @ [pid] else acc
               | None \<Rightarrow> acc) })
       [] (map snd (sorted_list_of_fmap (vs_resolved_notifications s)))"

definition phase_action :: "vspc_state \<Rightarrow> drive_action option option" where
  "phase_action s =
     (case vs_phase s of
        PhSynchronizing \<Rightarrow> Some None
      | PhCatchup lower_bound \<Rightarrow>
          catchup_scan s lower_bound (sorted_list_of_fmap (vs_resolved_notifications s))
      | PhLive \<Rightarrow>
          (case List.find (\<lambda>(order, _). order \<le> vp_order (vs_committed_sink s))
                  (sorted_list_of_fmap (vs_resolved_notifications s)) of
             Some (_, pid) \<Rightarrow> Some (Some (Discard pid False))
           | None \<Rightarrow> do {
               actionable \<leftarrow> live_actionable s;
               case actionable of
                 [] \<Rightarrow> Some None
               | [pid] \<Rightarrow> Some (Some (Commit pid))
               | _ \<Rightarrow> Some (Some CompetingNotifications) }))"

definition state_next_action :: "vspc_state \<Rightarrow> drive_action option option" where
  "state_next_action s =
     (case vs_synthetic_fifo s of
        [] \<Rightarrow> phase_action s
      | pid # _ \<Rightarrow> do {
          candidate \<leftarrow> fmlookup (vs_pending s) pid;
          if cand_missing candidate = {||} then
            (case endpoints (vs_history s) (cand_change candidate) of
               None \<Rightarrow> Some None
             | Some (source, _) \<Rightarrow>
                 Some (Some (if source = vs_committed_sink s then Commit pid else SyntheticSourceMismatch)))
          else phase_action s })"

definition next_action :: "vspc_worker \<Rightarrow> drive_action option option" where
  "next_action w = (case vw_run w of VInert _ \<Rightarrow> Some None | VActive s \<Rightarrow> state_next_action s)"

section \<open>Committing a candidate\<close>

fun dedup_hashes :: "block_hash fset \<Rightarrow> block_hash list \<Rightarrow> block_hash list" where
  "dedup_hashes seen [] = []"
| "dedup_hashes seen (hash # hashes) =
     (if hash |\<in>| seen then dedup_hashes seen hashes else hash # dedup_hashes (finsert hash seen) hashes)"

definition prepare_candidate ::
  "'d vspc_env \<Rightarrow> 'd \<Rightarrow> vspc_worker \<Rightarrow> pending_id \<Rightarrow> (component_fault + prepared_candidate) option" where
  "prepare_candidate env db w pid =
     (case vw_run w of
        VInert _ \<Rightarrow> Some (Inl vspc_invalid_lifecycle)
      | VActive s \<Rightarrow> do {
          candidate \<leftarrow> fmlookup (vs_pending s) pid;
          let change = cand_change candidate;
          case endpoints (vs_history s) change of
            None \<Rightarrow> Some (Inl vspc_invalid_lifecycle)
          | Some (source, destination) \<Rightarrow>
              if vch_removed change = [] then
                (case collect_options (map (\<lambda>hash. map_option (\<lambda>block. vp_id (pb_point block))
                                          (fmlookup (mh_by_hash (vs_history s)) hash)) (vch_added change)) of
                   None \<Rightarrow> Some (Inl vspc_invalid_lifecycle)
                 | Some added \<Rightarrow>
                     Some (Inr \<lparr>pc_source = cand_source candidate, pc_hashes = change,
                                pc_ready = \<lparr>rvc_source = source, rvc_destination = destination,
                                            rvc_removed = [], rvc_added = added\<rparr>\<rparr>))
              else
                let distinct = dedup_hashes {||} (vch_removed change @ vch_added change)
                in case ve_resolve_materialized_ids env db distinct of
                     Inl (RidDatabase error) \<Rightarrow> Some (Inl (storage_fault error (vw_is_live w)))
                   | Inl RidNonMaterialized \<Rightarrow>
                       Some (Inl \<lparr>cf_source = VspcProcessor, cf_disposition = Require Rebuild,
                                  cf_kind = MaterialityViolation\<rparr>)
                   | Inr ids \<Rightarrow>
                       let by_hash = map_of (zip distinct ids)
                       in do {
                         removed \<leftarrow> collect_options (map by_hash (vch_removed change));
                         added \<leftarrow> collect_options (map by_hash (vch_added change));
                         Some (Inr \<lparr>pc_source = cand_source candidate, pc_hashes = change,
                                    pc_ready = \<lparr>rvc_source = source, rvc_destination = destination,
                                                rvc_removed = removed, rvc_added = added\<rparr>\<rparr>) } })"

definition finish_commit ::
  "vspc_worker \<Rightarrow> pending_id \<Rightarrow> prepared_candidate \<Rightarrow> vspc_commit_outcome \<Rightarrow> vspc_worker option" where
  "finish_commit w pid prepared outcome =
     (case vw_run w of
        VInert _ \<Rightarrow> Some w
      | VActive s \<Rightarrow> do {
          let s1 = fst (remove_candidate (s\<lparr>vs_committed_sink := vco_destination outcome\<rparr>) pid);
          s2 \<leftarrow> (case vs_phase s1 of PhCatchup _ \<Rightarrow> Some s1 | _ \<Rightarrow> prune_history s1);
          let w1 = vw_metrics_update (pending_len s2) (w\<lparr>vw_run := VActive s2\<rparr>);
          Some (w1\<lparr>vw_offered := vw_offered w1 @
                    [\<lparr>vc_source = vp_hash (rvc_source (pc_ready prepared)),
                      vc_destination = vp_hash (vco_destination outcome),
                      vc_removed = vch_removed (pc_hashes prepared),
                      vc_added = vch_added (pc_hashes prepared),
                      vc_level_snapshots = vco_level_snapshots outcome\<rparr>]\<rparr>) })"

text \<open>\<open>Some None\<close> when the attribution query is cancelled.\<close>

definition attribute_path ::
  "'d vspc_env \<Rightarrow> 'd \<Rightarrow> vspc_worker \<Rightarrow> candidate_source \<Rightarrow> vspc_path_conflict \<Rightarrow> component_fault option option" where
  "attribute_path env db w source conflict =
     (case ve_full_block env db (pcf_child conflict) of
        None \<Rightarrow> Some None
      | Some (Inr block) \<Rightarrow>
          Some (Some (attribution_fault source
            (if vnb_selected_parent block = pcf_expected_parent conflict then StoredParentConflict
             else if vnb_selected_parent block = pcf_stored_parent conflict then CandidatePathConflict
             else StoredAndCandidateConflict)))
      | Some (Inl (NeBlockNotFound _)) \<Rightarrow> Some (Some (attribution_fault source AttributionBlockUnavailable))
      | Some (Inl error) \<Rightarrow> map_option Some (node_operation_fault error (vw_is_live w)))"

definition commit_candidate ::
  "'d vspc_env \<Rightarrow> 'd \<Rightarrow> vspc_worker \<Rightarrow> pending_id \<Rightarrow> (vspc_worker \<times> 'd \<times> bool) option" where
  "commit_candidate env db w pid = do {
     prepared \<leftarrow> prepare_candidate env db w pid;
     case prepared of
       Inl fault \<Rightarrow> Some (vw_enter_fault fault w, db, True)
     | Inr prepared \<Rightarrow>
         (case ve_apply_vspc_change env db (pc_ready prepared) of
            (db', Inr outcome) \<Rightarrow> map_option (\<lambda>w'. (w', db', True)) (finish_commit w pid prepared outcome)
          | (db', Inl (AvDatabase error)) \<Rightarrow>
              Some (vw_enter_fault (storage_fault error (vw_is_live w)) w, db', True)
          | (db', Inl AvSourceDiscontinuity) \<Rightarrow>
              Some (vw_enter_fault (source_discontinuity (pc_source prepared)) w, db', True)
          | (db', Inl (AvMemberNotMaterialized _)) \<Rightarrow>
              Some (vw_enter_fault
                \<lparr>cf_source = VspcProcessor, cf_disposition = Require Rebuild, cf_kind = MaterialityViolation\<rparr> w, db', True)
          | (db', Inl (AvPathDiscontinuity conflict)) \<Rightarrow> do {
              fault \<leftarrow> attribute_path env db' w (pc_source prepared) conflict;
              Some (case fault of
                      Some fault \<Rightarrow> (vw_enter_fault fault w, db', True)
                    | None \<Rightarrow> (w, db', False)) }) }"

section \<open>Driving\<close>

definition drive_action_step ::
  "'d vspc_env \<Rightarrow> 'd \<Rightarrow> vspc_worker \<Rightarrow> vspc_state \<Rightarrow> drive_action \<Rightarrow> (vspc_worker \<times> 'd \<times> bool) option" where
  "drive_action_step env db w s action =
     (case action of
        Discard pid overlap \<Rightarrow>
          let s' = fst (remove_candidate s pid);
              w1 = vw_metrics_update (pending_len s') (w\<lparr>vw_run := VActive s'\<rparr>)
          in Some (if overlap then w1\<lparr>vw_overlap := True\<rparr> else w1, db, True)
      | NormalizeCrossing pid suffix \<Rightarrow>
          let s1 = (case fmlookup (vs_pending s) pid of
                      None \<Rightarrow> s
                    | Some candidate \<Rightarrow>
                        s\<lparr>vs_pending := fmupd pid
                            (candidate\<lparr>cand_change := \<lparr>vch_removed = [], vch_added = suffix\<rparr>,
                                       cand_overlap_credited := True\<rparr>) (vs_pending s)\<rparr>)
          in map_option (\<lambda>s'. (w\<lparr>vw_run := VActive s', vw_overlap := True\<rparr>, db, True)) (refresh_candidate s1 pid)
      | MarkOverlap pid \<Rightarrow>
          let s1 = (case fmlookup (vs_pending s) pid of
                      None \<Rightarrow> s
                    | Some candidate \<Rightarrow>
                        s\<lparr>vs_pending := fmupd pid (candidate\<lparr>cand_overlap_credited := True\<rparr>) (vs_pending s)\<rparr>)
          in Some (w\<lparr>vw_run := VActive s1, vw_overlap := True\<rparr>, db, True)
      | Commit pid \<Rightarrow> commit_candidate env db w pid
      | CompetingNotifications \<Rightarrow>
          Some (vw_enter_fault (malformed_notification NCompetingNextMove Resync) w, db, True)
      | SyntheticSourceMismatch \<Rightarrow>
          Some (vw_enter_fault (malformed_synthetic RResolvedSourceDiscontinuity) w, db, True))"

definition drive_once :: "'d vspc_env \<Rightarrow> 'd \<Rightarrow> vspc_worker \<Rightarrow> (vspc_worker \<times> 'd \<times> bool) option" where
  "drive_once env db w =
     (if vw_faulted w then Some (w, db, False)
      else do {
        action \<leftarrow> next_action w;
        case action of
          None \<Rightarrow> Some (w, db, False)
        | Some action \<Rightarrow>
            (case vw_run w of
               VInert _ \<Rightarrow> Some (w, db, False)
             | VActive s \<Rightarrow> drive_action_step env db w s action) })"

section \<open>The run loop\<close>

text \<open>What the loop does when no command is waiting.\<close>

definition vw_idle_step :: "vspc_worker \<Rightarrow> vspc_worker \<times> loop_outcome" where
  "vw_idle_step w =
     (if vw_commands_closed w then (vw_report_command_path_loss w, LoopStop)
      else
        case vw_persisted w of
          _ # rest \<Rightarrow> (w\<lparr>vw_persisted := rest\<rparr>, LoopContinue)
        | [] \<Rightarrow>
            if vw_persisted_closed w then (w, LoopContinue)
            else
              (case vw_synthetic w of
                 _ # rest \<Rightarrow> (w\<lparr>vw_synthetic := rest\<rparr>, LoopContinue)
               | [] \<Rightarrow>
                   (case vw_notifications w of
                      _ # rest \<Rightarrow> (w\<lparr>vw_notifications := rest\<rparr>, LoopContinue)
                    | [] \<Rightarrow> (w, LoopBlocked))))"

definition vw_input_step :: "vspc_worker \<Rightarrow> (vspc_worker \<times> loop_outcome) option" where
  "vw_input_step w =
     (case vw_persisted w of
        persisted # rest \<Rightarrow>
          map_option (\<lambda>w'. (w', LoopContinue)) (vw_handle_persisted (w\<lparr>vw_persisted := rest\<rparr>) persisted)
      | [] \<Rightarrow>
          (case vw_synthetic w of
             change # rest \<Rightarrow>
               map_option (\<lambda>w'. (w', LoopContinue)) (vw_handle_change (w\<lparr>vw_synthetic := rest\<rparr>) change Synthetic)
           | [] \<Rightarrow>
               (case vw_notifications w of
                  change # rest \<Rightarrow>
                    map_option (\<lambda>w'. (w', LoopContinue))
                      (vw_handle_change (w\<lparr>vw_notifications := rest\<rparr>) change Notification)
                | [] \<Rightarrow>
                    if vw_commands_closed w then Some (vw_report_command_path_loss w, LoopStop)
                    else if vw_persisted_closed w
                    then Some (vw_enter_fault (vspc_session_endpoint_fault (vw_is_live w)) w, LoopContinue)
                    else Some (w, LoopBlocked))))"

definition vw_loop_step :: "'d vspc_env \<Rightarrow> 'd \<Rightarrow> vspc_worker \<Rightarrow> (vspc_worker \<times> 'd \<times> loop_outcome) option" where
  "vw_loop_step env db w =
     (case vw_commands w of
        command # rest \<Rightarrow> do {
          (w', finished) \<leftarrow> vw_handle_command (w\<lparr>vw_commands := rest\<rparr>) command;
          Some (w', db, if finished then LoopStop else LoopContinue) }
      | [] \<Rightarrow>
          if vw_faulted w \<or> (case vw_run w of VInert _ \<Rightarrow> True | VActive _ \<Rightarrow> False)
          then (case vw_idle_step w of (w', outcome) \<Rightarrow> Some (w', db, outcome))
          else do {
            (w1, db1, drove) \<leftarrow> drive_once env db w;
            if drove then Some (w1, db1, LoopContinue)
            else do {
              (w2, outcome) \<leftarrow> vw_input_step w1;
              Some (w2, db1, outcome) } })"

section \<open>The worker invariant\<close>

definition run_inv :: "vspc_run \<Rightarrow> bool" where
  "run_inv r = (case r of VInert _ \<Rightarrow> True
     | VActive s \<Rightarrow> vspc_inv s \<and> (vs_phase s = PhLive \<longrightarrow> vs_synthetic_fifo s = []))"

definition worker_inv :: "vspc_worker \<Rightarrow> bool" where
  "worker_inv w =
     (run_inv (vw_run w) \<and> length (vw_events w) = (if vw_faulted w then 1 else 0) \<and>
      vw_pending_occupancy w \<le> vw_pending_high_water w \<and> vw_pending_high_water w \<le> 1024)"

definition ids_left :: "vspc_worker \<Rightarrow> bool" where
  "ids_left w = (case vw_run w of VInert _ \<Rightarrow> True | VActive s \<Rightarrow> unat (vs_next_pending_id s) + 1 < 2 ^ 64)"

definition sink_of :: "vspc_run \<Rightarrow> vspc_point option" where
  "sink_of r = (case r of VInert _ \<Rightarrow> None | VActive s \<Rightarrow> Some (vs_committed_sink s))"

definition run_live :: "vspc_run \<Rightarrow> bool" where
  "run_live r = (case r of VInert _ \<Rightarrow> False | VActive s \<Rightarrow> vs_phase s = PhLive)"

text \<open>Same committed point and same updates offered to the graph feed.\<close>

definition quiet :: "vspc_worker \<Rightarrow> vspc_worker \<Rightarrow> bool" where
  "quiet w w' \<longleftrightarrow> sink_of (vw_run w') = sink_of (vw_run w) \<and> vw_offered w' = vw_offered w"

lemma run_inv_simps [simp]:
  "run_inv (VInert m)"
  "run_inv (VActive s) \<longleftrightarrow> vspc_inv s \<and> (vs_phase s = PhLive \<longrightarrow> vs_synthetic_fifo s = [])"
  by (simp_all add: run_inv_def)

lemma sink_of_simps [simp]: "sink_of (VInert m) = None" "sink_of (VActive s) = Some (vs_committed_sink s)"
  by (simp_all add: sink_of_def)

lemma enter_fault_inv [simp]: "worker_inv w \<Longrightarrow> worker_inv (vw_enter_fault f w)"
  by (auto simp: worker_inv_def vw_enter_fault_def)

lemma enter_fault_quiet [simp]: "quiet w (vw_enter_fault f w)"
  by (simp add: quiet_def vw_enter_fault_def)

lemma enter_fault_fields [simp]:
  "vw_run (vw_enter_fault f w) = vw_run w" "vw_offered (vw_enter_fault f w) = vw_offered w"
  by (simp_all add: vw_enter_fault_def)

lemma worker_inv_mailbox [simp]:
  "worker_inv (w\<lparr>vw_commands := a\<rparr>) = worker_inv w" "worker_inv (w\<lparr>vw_notifications := b\<rparr>) = worker_inv w"
  "worker_inv (w\<lparr>vw_synthetic := b\<rparr>) = worker_inv w" "worker_inv (w\<lparr>vw_persisted := d\<rparr>) = worker_inv w"
  "worker_inv (w\<lparr>vw_overlap := e\<rparr>) = worker_inv w" "worker_inv (w\<lparr>vw_offered := g\<rparr>) = worker_inv w"
  by (simp_all add: worker_inv_def)

lemma worker_inv_run:
  assumes "worker_inv w" "vspc_inv s" "vs_phase s = PhLive \<Longrightarrow> vs_synthetic_fifo s = []"
  shows "worker_inv (w\<lparr>vw_run := VActive s\<rparr>)" "worker_inv (vw_metrics_update (pending_len s) (w\<lparr>vw_run := VActive s\<rparr>))"
proof -
  have "pending_len s \<le> 1024" using assms(2) by (simp add: vspc_inv_def)
  then show "worker_inv (w\<lparr>vw_run := VActive s\<rparr>)" "worker_inv (vw_metrics_update (pending_len s) (w\<lparr>vw_run := VActive s\<rparr>))"
    using assms by (auto simp: worker_inv_def vw_metrics_update_def)
qed

lemma vspc_inv_fields [simp]:
  "vspc_inv (s\<lparr>vs_phase := p\<rparr>) = vspc_inv s" "vspc_inv (s\<lparr>vs_committed_sink := k\<rparr>) = vspc_inv s"
  by (simp_all add: vspc_inv_def index_inv_defs pending_len_def)

lemma quiet_refl [simp]: "quiet w w"
  by (simp add: quiet_def)

lemma command_spec:
  assumes inv: "worker_inv w"
  shows "\<exists>w' fin. vw_handle_command w c = Some (w', fin) \<and> worker_inv w' \<and> quiet w w'"
proof (cases c)
  case (VcCatchup lb)
  then show ?thesis
  proof (cases "vw_run w")
    case (VActive s)
    have "vspc_inv s" using inv VActive by (simp add: worker_inv_def)
    then have "worker_inv (w\<lparr>vw_run := VActive (s\<lparr>vs_phase := PhCatchup lb\<rparr>)\<rparr>)" using inv by (intro worker_inv_run) auto
    then show ?thesis using inv VActive VcCatchup by (auto simp: vw_handle_command_def quiet_def)
  qed (use inv VcCatchup in \<open>auto simp: vw_handle_command_def\<close>)
next
  case VcLive
  show ?thesis
  proof (cases "vw_run w")
    case (VActive s)
    have vi: "vspc_inv s" using inv VActive by (simp add: worker_inv_def)
    show ?thesis
    proof (cases "vs_phase s")
      case (PhCatchup lb)
      let ?s1 = "(clear_synthetic s)\<lparr>vs_phase := PhLive\<rparr>"
      note cs = clear_synthetic_spec[OF vi]
      have "vspc_inv ?s1" using cs(1) by simp
      then have "index_inv ?s1" "pending_len ?s1 \<le> 1024" by (simp_all add: vspc_inv_def)
      from prune_history_spec[OF this] obtain s' where s': "prune_history ?s1 = Some s'" "vspc_inv s'"
        "vs_phase s' = PhLive" "vs_committed_sink s' = vs_committed_sink s" "vs_synthetic_fifo s' = []"
        using cs(2,3) by (auto simp: same_but_pending_def)
      have "worker_inv (vw_metrics_update (pending_len s') (w\<lparr>vw_synthetic := [], vw_run := VActive s'\<rparr>))"
        using inv s' by (intro worker_inv_run) auto
      then show ?thesis using VActive VcLive PhCatchup s'
        by (auto simp: vw_handle_command_def quiet_def vw_metrics_update_def)
    qed (use inv VActive VcLive in \<open>auto simp: vw_handle_command_def\<close>)
  qed (use inv VcLive in \<open>auto simp: vw_handle_command_def\<close>)
next
  case VcShutdown
  then show ?thesis using inv
    by (auto simp: vw_handle_command_def vw_clear_state_def vw_metrics_update_def worker_inv_def quiet_def)
qed

lemma persisted_spec:
  assumes inv: "worker_inv w"
  shows "\<exists>w'. vw_handle_persisted w b = Some w' \<and> worker_inv w' \<and> quiet w w'"
proof (cases "vw_run w")
  case (VActive s)
  then have vi: "vspc_inv s" "vs_phase s = PhLive \<longrightarrow> vs_synthetic_fifo s = []" using inv by (simp_all add: worker_inv_def)
  from record_persisted_spec[OF vi(1), of b] obtain s' where s': "record_persisted s b = Some s'" "vspc_inv s'"
    "vs_phase s' = vs_phase s" "vs_committed_sink s' = vs_committed_sink s" "vs_synthetic_fifo s' = vs_synthetic_fifo s" by auto
  then have "worker_inv (w\<lparr>vw_run := VActive s'\<rparr>)" using inv vi(2) by (intro worker_inv_run) auto
  then show ?thesis using VActive s' by (simp add: vw_handle_persisted_def quiet_def)
qed (use inv in \<open>simp add: vw_handle_persisted_def\<close>)

lemma admit_spec:
  assumes inv: "worker_inv w" and run: "vw_run w = VActive s" and path: "vch_added change \<noteq> []" and left: "ids_left w"
    and new: "source = Notification \<Longrightarrow> last (vch_added change) |\<notin>| fmdom (vs_notification_by_destination s)"
    and src: "source = Synthetic \<Longrightarrow> vs_phase s \<noteq> PhLive"
  shows "\<exists>w'. vw_admit w s change source = Some w' \<and> worker_inv w' \<and> quiet w w'"
proof (cases "pending_len s = MAX_PENDING_VSPC_CHANGES")
  case False
  have vi: "vspc_inv s" "vs_phase s = PhLive \<longrightarrow> vs_synthetic_fifo s = []" using inv run by (simp_all add: worker_inv_def)
  have room: "pending_len s < 1024" using vi(1) False by (simp add: vspc_inv_def MAX_PENDING_VSPC_CHANGES_def)
  have fits: "unat (vs_next_pending_id s) + 1 < 2 ^ 64" using left run by (simp add: ids_left_def)
  from admit_candidate_spec[OF vi(1) path room fits new] obtain s' where s': "admit_candidate s change source = Some s'" "vspc_inv s'"
    "vs_phase s' = vs_phase s" "vs_committed_sink s' = vs_committed_sink s"
    "vs_synthetic_fifo s' = vs_synthetic_fifo s @ (if source = Synthetic then [vs_next_pending_id s] else [])" by auto
  have "worker_inv (vw_metrics_update (pending_len s') (w\<lparr>vw_run := VActive s'\<rparr>))"
    using inv vi(2) s' src by (intro worker_inv_run) auto
  then show ?thesis using False run s' by (simp add: vw_admit_def quiet_def vw_metrics_update_def)
qed (use inv in \<open>simp add: vw_admit_def\<close>)

lemma change_spec:
  assumes inv: "worker_inv w" and left: "ids_left w"
  shows "\<exists>w'. vw_handle_change w change source = Some w' \<and> worker_inv w' \<and> quiet w w'"
proof (cases "vch_added change = []")
  case path: False
  show ?thesis
  proof (cases "vw_run w")
    case (VActive s)
    have ii: "index_inv s" using inv VActive by (simp add: worker_inv_def vspc_inv_def)
    show ?thesis
    proof (cases source)
      case Synthetic
      then show ?thesis using path VActive inv admit_spec[OF inv VActive path left, of source]
        by (cases "vs_phase s") (auto simp: vw_handle_change_def)
    next
      case Notification
      show ?thesis
      proof (cases "fmlookup (vs_notification_by_destination s) (last (vch_added change))")
        case None
        then have "last (vch_added change) |\<notin>| fmdom (vs_notification_by_destination s)" by (rule fmdom_notI)
        then show ?thesis using None Notification path VActive inv admit_spec[OF inv VActive path left, of source]
          by (cases "vs_phase s") (auto simp: vw_handle_change_def)
      next
        case (Some pid)
        then obtain d where "fmlookup (vs_pending s) pid = Some d" using destinations_iff[OF ii] by blast
        then show ?thesis using Some Notification path VActive inv
          by (cases "vs_phase s") (auto simp: vw_handle_change_def Let_def)
      qed
    qed
  qed (use path inv in \<open>simp add: vw_handle_change_def\<close>)
qed (use inv in \<open>simp add: vw_handle_change_def\<close>)

section \<open>Chosen actions are applicable\<close>

definition action_ok :: "vspc_state \<Rightarrow> drive_action \<Rightarrow> bool" where
  "action_ok s a = (case a of
       Discard pid _ \<Rightarrow> (\<exists>c. fmlookup (vs_pending s) pid = Some c)
     | NormalizeCrossing pid suffix \<Rightarrow>
         (\<exists>c. fmlookup (vs_pending s) pid = Some c \<and> suffix \<noteq> [] \<and> last suffix = cand_destination c \<and>
              length suffix < length (vch_added (cand_change c)))
     | MarkOverlap pid \<Rightarrow> (\<exists>c. fmlookup (vs_pending s) pid = Some c \<and> \<not> cand_overlap_credited c)
     | Commit pid \<Rightarrow>
         (\<exists>c d. fmlookup (vs_pending s) pid = Some c \<and> endpoints (vs_history s) (cand_change c) = Some (vs_committed_sink s, d) \<and>
              (vs_phase s = PhLive \<longrightarrow> vp_order (vs_committed_sink s) < vp_order d))
     | _ \<Rightarrow> True)"

lemma position_drop:
  assumes "position x xs = Some p" "drop (p + 1) xs \<noteq> []"
  shows "last (drop (p + 1) xs) = last xs" "length (drop (p + 1) xs) < length xs"
  using assms by (auto simp: last_drop)

lemma catchup_scan_spec:
  assumes inv: "vspc_inv s" and sub: "\<And>order pid. (order, pid) \<in> set xs \<Longrightarrow> fmlookup (vs_resolved_notifications s) order = Some pid"
  shows "\<exists>r. catchup_scan s lb xs = Some r \<and> (\<forall>a. r = Some a \<longrightarrow> action_ok s a)"
  using sub
proof (induction xs)
  case (Cons x xs)
  have ii: "index_inv s" using inv by (simp add: vspc_inv_def)
  obtain order pid where x: "x = (order, pid)" by (cases x)
  obtain c where c: "fmlookup (vs_pending s) pid = Some c" "cand_source c = Notification" "cand_order c = Some order"
    using Cons.prems[of order pid] resolved_iff[OF ii] x by auto
  have wf: "candidate_wf c" by (rule index_invD(1)[OF ii c(1)])
  obtain r where r: "catchup_scan s lb xs = Some r" "\<forall>a. r = Some a \<longrightarrow> action_ok s a" using Cons by auto
  let ?suf = "case position (vp_hash (vs_committed_sink s)) (vch_added (cand_change c)) of
     Some p \<Rightarrow> drop (p + 1) (vch_added (cand_change c)) | None \<Rightarrow> []"
  have suf: "last ?suf = cand_destination c \<and> length ?suf < length (vch_added (cand_change c))" if "?suf \<noteq> []"
    using that wf position_drop[of "vp_hash (vs_committed_sink s)" "vch_added (cand_change c)"]
    by (auto simp: candidate_wf_def split: option.splits)
  have ok: "action_ok s (Discard pid b)" "?suf \<noteq> [] \<Longrightarrow> action_ok s (NormalizeCrossing pid ?suf)"
    "\<not> cand_overlap_credited c \<Longrightarrow> action_ok s (MarkOverlap pid)" for b
    using c(1) suf by (simp_all add: action_ok_def)
  have "catchup_scan s lb (x # xs) =
      (if order < vp_order lb then Some (Some (Discard pid False))
       else if order \<le> vp_order (vs_committed_sink s) then Some (Some (Discard pid True))
       else if ?suf \<noteq> [] then Some (Some (NormalizeCrossing pid ?suf))
       else if \<not> cand_overlap_credited c \<and> (case endpoints (vs_history s) (cand_change c) of
           Some (source, _) \<Rightarrow> source = vs_committed_sink s | None \<Rightarrow> False) then Some (Some (MarkOverlap pid))
       else Some r)"
    by (simp only: x catchup_scan.simps c(1) bind.bind_lunit Let_def r(1))
  then show ?case using r(2) ok by auto
qed simp

lemma live_actionable_fold:
  assumes "\<And>pid. pid \<in> set pids \<Longrightarrow> \<exists>c. fmlookup (vs_pending s) pid = Some c"
  shows "fold_opt (\<lambda>acc pid. do {
         candidate \<leftarrow> fmlookup (vs_pending s) pid;
         Some (case endpoints (vs_history s) (cand_change candidate) of
                 Some (source, _) \<Rightarrow> if source = vs_committed_sink s then acc @ [pid] else acc
               | None \<Rightarrow> acc) }) acc pids =
    Some (acc @ filter (\<lambda>pid. \<exists>c d. fmlookup (vs_pending s) pid = Some c \<and>
       endpoints (vs_history s) (cand_change c) = Some (vs_committed_sink s, d)) pids)"
  using assms
proof (induction pids arbitrary: acc)
  case (Cons p pids)
  then obtain c where "fmlookup (vs_pending s) p = Some c" by auto
  then show ?case using Cons by (auto split: option.splits)
qed simp

lemma phase_action_spec:
  assumes inv: "vspc_inv s"
  shows "\<exists>r. phase_action s = Some r \<and> (\<forall>a. r = Some a \<longrightarrow> action_ok s a)"
proof (cases "vs_phase s")
  case (PhCatchup lb)
  then show ?thesis
    using catchup_scan_spec[OF inv, of "sorted_list_of_fmap (vs_resolved_notifications s)" lb]
    by (auto simp: phase_action_def set_sorted_list_of_fmap)
next
  case PhLive
  have ii: "index_inv s" and fr: "\<And>q c. fmlookup (vs_pending s) q = Some c \<Longrightarrow> candidate_fresh (vs_history s) c"
    using inv by (auto simp: vspc_inv_def fmpred_iff)
  let ?xs = "sorted_list_of_fmap (vs_resolved_notifications s)"
  let ?stale = "\<lambda>(order, _). order \<le> vp_order (vs_committed_sink s)"
  have mem: "\<exists>c. fmlookup (vs_pending s) pid = Some c \<and> cand_order c = Some order" if "(order, pid) \<in> set ?xs" for order pid
    using that resolved_iff[OF ii] by (auto simp: set_sorted_list_of_fmap)
  show ?thesis
  proof (cases "List.find ?stale ?xs")
    case (Some x)
    then have "x \<in> set ?xs" by (metis find_Some_iff nth_mem)
    moreover obtain order pid where x: "x = (order, pid)" by (cases x)
    ultimately have "\<exists>c. fmlookup (vs_pending s) pid = Some c" using mem by blast
    then show ?thesis using Some PhLive x by (simp add: phase_action_def action_ok_def)
  next
    case None
    then have later: "vp_order (vs_committed_sink s) < order" if "(order, pid) \<in> set ?xs" for order pid
      using that by (fastforce simp: find_None_iff)
    let ?P = "\<lambda>pid. \<exists>c d. fmlookup (vs_pending s) pid = Some c \<and>
       endpoints (vs_history s) (cand_change c) = Some (vs_committed_sink s, d)"
    have act: "live_actionable s = Some (filter ?P (map snd ?xs))"
      unfolding live_actionable_def by (subst live_actionable_fold) (use mem in fastforce)+
    have ok: "action_ok s (Commit pid)" if "filter ?P (map snd ?xs) = [pid]" for pid
    proof -
      have "pid \<in> set (filter ?P (map snd ?xs))" using that by simp
      then obtain order c d where c: "(order, pid) \<in> set ?xs" "fmlookup (vs_pending s) pid = Some c"
        "endpoints (vs_history s) (cand_change c) = Some (vs_committed_sink s, d)" by auto
      have "cand_order c = Some order" using mem[OF c(1)] c(2) by simp
      then have "resolve_order (vs_history s) (cand_destination c) = Some order" using fr[OF c(2)] by (simp add: candidate_fresh_def)
      moreover have "cand_destination c = last (vch_added (cand_change c))"
        using index_invD(1)[OF ii c(2)] by (simp add: candidate_wf_def)
      ultimately have "vp_order d = order"
        using c(3) by (auto simp: endpoints_def resolve_order_def bind_eq_Some_conv split: if_splits)
      then show ?thesis using c later[OF c(1)] by (auto simp: action_ok_def)
    qed
    show ?thesis
      using None PhLive act ok by (auto simp: phase_action_def action_ok_def split: list.splits)
  qed
qed (simp add: phase_action_def)

lemma state_next_action_spec:
  assumes inv: "vspc_inv s" and live: "vs_phase s = PhLive \<longrightarrow> vs_synthetic_fifo s = []"
  shows "\<exists>r. state_next_action s = Some r \<and> (\<forall>a. r = Some a \<longrightarrow> action_ok s a)"
proof (cases "vs_synthetic_fifo s")
  case Nil
  then show ?thesis using phase_action_spec[OF inv] by (simp add: state_next_action_def)
next
  case (Cons pid rest)
  have ii: "index_inv s" using inv by (simp add: vspc_inv_def)
  obtain c where c: "fmlookup (vs_pending s) pid = Some c" using fifo_iff[OF ii, of pid] Cons by auto
  have nl: "vs_phase s \<noteq> PhLive" using live Cons by auto
  show ?thesis
    using phase_action_spec[OF inv] Cons c nl
    by (cases "endpoints (vs_history s) (cand_change c)") (auto simp: state_next_action_def action_ok_def)
qed

section \<open>Committing\<close>

text \<open>What the processor relies on in its database: a committed change reports the destination it was
  given, and the identifiers of the requested hashes come back one for one.\<close>

definition commits_destination :: "'d vspc_env \<Rightarrow> bool" where
  "commits_destination env \<longleftrightarrow>
     (\<forall>db change db' outcome. ve_apply_vspc_change env db change = (db', Inr outcome) \<longrightarrow>
        vco_destination outcome = rvc_destination change)"

definition resolves_each :: "'d vspc_env \<Rightarrow> bool" where
  "resolves_each env \<longleftrightarrow>
     (\<forall>db hashes ids. ve_resolve_materialized_ids env db hashes = Inr ids \<longrightarrow> length ids = length hashes)"

definition same_boxes :: "vspc_worker \<Rightarrow> vspc_worker \<Rightarrow> bool" where
  "same_boxes w w' \<longleftrightarrow>
     vw_commands w' = vw_commands w \<and> vw_commands_closed w' = vw_commands_closed w \<and>
     vw_notifications w' = vw_notifications w \<and> vw_synthetic w' = vw_synthetic w \<and>
     vw_persisted w' = vw_persisted w \<and> vw_persisted_closed w' = vw_persisted_closed w"

text \<open>A step that commits a transition: it starts at the committed sink, ends at the new one, and a
  live worker only moves forward in consensus order.\<close>

definition sink_advanced :: "vspc_worker \<Rightarrow> vspc_worker \<Rightarrow> bool" where
  "sink_advanced w w' \<longleftrightarrow>
     (\<exists>s s' u. vw_run w = VActive s \<and> vw_run w' = VActive s' \<and> vw_offered w' = vw_offered w @ [u] \<and>
        vc_source u = vp_hash (vs_committed_sink s) \<and> vc_destination u = vp_hash (vs_committed_sink s') \<and>
        vs_phase s' = vs_phase s \<and>
        (vs_phase s = PhLive \<longrightarrow> vp_order (vs_committed_sink s) < vp_order (vs_committed_sink s')))"

lemma set_dedup_hashes: "set (dedup_hashes seen xs) = set xs - fset seen"
  by (induction seen xs rule: dedup_hashes.induct) auto

lemma map_of_zip_total: "length ids = length hs \<Longrightarrow> h \<in> set hs \<Longrightarrow> map_of (zip hs ids) h \<noteq> None"
  by (simp add: map_of_zip_is_None)

lemma prepare_candidate_spec:
  assumes run: "vw_run w = VActive s" and c: "fmlookup (vs_pending s) pid = Some c"
    and e: "endpoints (vs_history s) (cand_change c) = Some (src, dst)" and law: "resolves_each env"
  shows "\<exists>r. prepare_candidate env db w pid = Some r \<and>
    (\<forall>p. r = Inr p \<longrightarrow> rvc_source (pc_ready p) = src \<and> rvc_destination (pc_ready p) = dst)"
proof (cases "vch_removed (cand_change c) = []")
  case True
  then show ?thesis
    using run c e by (auto simp: prepare_candidate_def Let_def split: option.splits)
next
  case False
  let ?ds = "dedup_hashes {||} (vch_removed (cand_change c) @ vch_added (cand_change c))"
  show ?thesis
  proof (cases "ve_resolve_materialized_ids env db ?ds")
    case (Inl err)
    then show ?thesis using run c e False
      by (cases err) (simp_all add: prepare_candidate_def Let_def)
  next
    case (Inr ids)
    then have len: "length ids = length ?ds" using law by (simp add: resolves_each_def)
    have "\<exists>ys. collect_options (map (map_of (zip ?ds ids)) xs) = Some ys"
      if "set xs \<subseteq> set (vch_removed (cand_change c) @ vch_added (cand_change c))" for xs
      by (rule collect_options_total, rule map_of_zip_total[OF len]) (use that in \<open>auto simp: set_dedup_hashes\<close>)
    then obtain rs as where "collect_options (map (map_of (zip ?ds ids)) (vch_removed (cand_change c))) = Some rs"
      "collect_options (map (map_of (zip ?ds ids)) (vch_added (cand_change c))) = Some as"
      by (metis set_append sup_ge1 sup_ge2)
    then show ?thesis using run c e False Inr by (simp add: prepare_candidate_def Let_def)
  qed
qed

lemma finish_commit_spec:
  assumes inv: "worker_inv w" and run: "vw_run w = VActive s" and c: "fmlookup (vs_pending s) pid = Some c"
    and src: "rvc_source (pc_ready p) = vs_committed_sink s"
    and up: "vs_phase s = PhLive \<Longrightarrow> vp_order (vs_committed_sink s) < vp_order (vco_destination out)"
  shows "\<exists>w' s'. finish_commit w pid p out = Some w' \<and> worker_inv w' \<and> sink_advanced w w' \<and> same_boxes w w' \<and>
    vw_faulted w' = vw_faulted w \<and> vw_run w' = VActive s' \<and> vs_committed_sink s' = vco_destination out \<and>
    vs_next_pending_id s' = vs_next_pending_id s \<and> pending_len s' < pending_len s"
proof -
  let ?s0 = "s\<lparr>vs_committed_sink := vco_destination out\<rparr>"
  have vi: "vspc_inv ?s0" "vs_phase s = PhLive \<longrightarrow> vs_synthetic_fifo s = []" using inv run by (simp_all add: worker_inv_def)
  have c0: "fmlookup (vs_pending ?s0) pid = Some c" using c by simp
  from remove_candidate_inv[OF vi(1) c0] obtain s1 where s1: "remove_candidate ?s0 pid = (s1, Some c)" "vspc_inv s1"
    "vs_pending s1 = fmdrop pid (vs_pending s)" "same_but_pending ?s0 s1"
    "vs_synthetic_fifo s1 = filter (\<lambda>q. q \<noteq> pid) (vs_synthetic_fifo s)" by auto
  have frame1: "vs_phase s1 = vs_phase s" "vs_committed_sink s1 = vco_destination out" "vs_next_pending_id s1 = vs_next_pending_id s"
    using s1(4) by (simp_all add: same_but_pending_def)
  have len1: "pending_len s1 < pending_len s"
    unfolding pending_len_def s1(3) using c by (intro pfsubset_fcard_mono) (auto intro: fmdomI)
  obtain s2 where s2: "(case vs_phase s1 of PhCatchup _ \<Rightarrow> Some s1 | _ \<Rightarrow> prune_history s1) = Some s2" "vspc_inv s2"
    "vs_phase s2 = vs_phase s" "vs_committed_sink s2 = vco_destination out" "vs_next_pending_id s2 = vs_next_pending_id s"
    "vs_synthetic_fifo s2 = vs_synthetic_fifo s1" "pending_len s2 = pending_len s1"
  proof (cases "\<exists>lb. vs_phase s1 = PhCatchup lb")
    case True
    then show ?thesis using s1(2) frame1 by (intro that[of s1]) auto
  next
    case False
    have "index_inv s1" "pending_len s1 \<le> 1024" using s1(2) by (simp_all add: vspc_inv_def)
    from prune_history_spec[OF this] obtain s2 where p2: "prune_history s1 = Some s2" "vspc_inv s2" "vs_phase s2 = vs_phase s1"
      "vs_committed_sink s2 = vs_committed_sink s1" "vs_next_pending_id s2 = vs_next_pending_id s1"
      "vs_synthetic_fifo s2 = vs_synthetic_fifo s1"
      "\<And>q. fmlookup (vs_pending s2) q = map_option (refreshed (vs_history s2)) (fmlookup (vs_pending s1) q)" by auto
    have "fmdom (vs_pending s2) = fmdom (vs_pending s1)" by (rule fcard_dom_map) (simp add: p2(7))
    then have "pending_len s2 = pending_len s1" by (simp add: pending_len_def)
    moreover have "(case vs_phase s1 of PhCatchup _ \<Rightarrow> Some s1 | _ \<Rightarrow> prune_history s1) = Some s2"
      using p2(1) False by (cases "vs_phase s1") simp_all
    ultimately show ?thesis using p2(2-6) frame1 by (intro that[of s2]) simp_all
  qed
  let ?u = "\<lparr>vc_source = vp_hash (rvc_source (pc_ready p)), vc_destination = vp_hash (vco_destination out),
     vc_removed = vch_removed (pc_hashes p), vc_added = vch_added (pc_hashes p), vc_level_snapshots = vco_level_snapshots out\<rparr>"
  define w1 where "w1 = vw_metrics_update (pending_len s2) (w\<lparr>vw_run := VActive s2\<rparr>)"
  have run': "finish_commit w pid p out = Some (w1\<lparr>vw_offered := vw_offered w1 @ [?u]\<rparr>)"
    using run s1(1) s2(1) by (simp add: finish_commit_def w1_def Let_def)
  have "worker_inv w1" unfolding w1_def using inv vi(2) s2 s1(5) by (intro worker_inv_run) auto
  then show ?thesis
    using run' run s2 src up len1
    by (auto simp: sink_advanced_def same_boxes_def w1_def vw_metrics_update_def)
qed

lemma attribute_path_total: "\<exists>fault. attribute_path env db w source cf = Some fault"
proof (cases "ve_full_block env db (pcf_child cf)")
  case (Some r)
  then show ?thesis
  proof (cases r)
    case (Inl e)
    with Some show ?thesis by (cases e) (simp_all add: attribute_path_def node_operation_fault_def)
  qed (simp add: attribute_path_def)
qed (simp add: attribute_path_def)

lemma commit_candidate_spec:
  assumes inv: "worker_inv w" and run: "vw_run w = VActive s" and ok: "action_ok s (Commit pid)"
    and laws: "commits_destination env" "resolves_each env"
  shows "\<exists>w' db' b. commit_candidate env db w pid = Some (w', db', b) \<and> worker_inv w' \<and> same_boxes w w' \<and>
    ((quiet w w' \<and> vw_run w' = vw_run w \<and> (b \<longrightarrow> vw_faulted w')) \<or>
     (sink_advanced w w' \<and> (\<exists>s'. vw_run w' = VActive s' \<and> vs_next_pending_id s' = vs_next_pending_id s \<and> pending_len s' < pending_len s)))"
proof -
  obtain c d where c: "fmlookup (vs_pending s) pid = Some c" "endpoints (vs_history s) (cand_change c) = Some (vs_committed_sink s, d)"
    "vs_phase s = PhLive \<longrightarrow> vp_order (vs_committed_sink s) < vp_order d" using ok by (auto simp: action_ok_def)
  obtain r where r: "prepare_candidate env db w pid = Some r"
    "\<And>p. r = Inr p \<Longrightarrow> rvc_source (pc_ready p) = vs_committed_sink s \<and> rvc_destination (pc_ready p) = d"
    using prepare_candidate_spec[OF run c(1,2) laws(2), of db] by blast
  have fault: "worker_inv (vw_enter_fault f w) \<and> same_boxes w (vw_enter_fault f w) \<and> quiet w (vw_enter_fault f w) \<and>
      vw_run (vw_enter_fault f w) = vw_run w \<and> vw_faulted (vw_enter_fault f w)" for f
    using inv by (auto simp: same_boxes_def vw_enter_fault_def quiet_def worker_inv_def)
  show ?thesis
  proof (cases r)
    case (Inl f)
    then show ?thesis using r(1) fault[of f] by (auto simp: commit_candidate_def)
  next
    case (Inr p)
    obtain db' res where ap: "ve_apply_vspc_change env db (pc_ready p) = (db', res)" by (cases "ve_apply_vspc_change env db (pc_ready p)")
    show ?thesis
    proof (cases res)
      case (Inr out)
      have "vco_destination out = d" using laws(1) ap Inr r(2)[OF \<open>r = Inr p\<close>] by (simp add: commits_destination_def)
      then obtain w' s' where "finish_commit w pid p out = Some w'" "worker_inv w'" "sink_advanced w w'" "same_boxes w w'"
        "vw_run w' = VActive s'" "vs_next_pending_id s' = vs_next_pending_id s" "pending_len s' < pending_len s"
        using finish_commit_spec[OF inv run c(1), of p out] r(2)[OF \<open>r = Inr p\<close>] c(3) by auto
      then show ?thesis using r(1) \<open>r = Inr p\<close> ap Inr by (auto simp: commit_candidate_def)
    next
      case (Inl e)
      show ?thesis
      proof (cases e)
        case (AvPathDiscontinuity cf)
        obtain fo where fo: "attribute_path env db' w (pc_source p) cf = Some fo"
          using attribute_path_total[of env db' w "pc_source p" cf] by blast
        show ?thesis
        proof (cases fo)
          case None
          have "commit_candidate env db w pid = Some (w, db', False)"
            using r(1) \<open>r = Inr p\<close> ap Inl AvPathDiscontinuity fo None by (simp add: commit_candidate_def)
          then show ?thesis using inv by (auto simp: same_boxes_def)
        next
          case (Some f)
          have "commit_candidate env db w pid = Some (vw_enter_fault f w, db', True)"
            using r(1) \<open>r = Inr p\<close> ap Inl AvPathDiscontinuity fo Some by (simp add: commit_candidate_def)
          then show ?thesis using fault[of f] by auto
        qed
      qed (use r(1) \<open>r = Inr p\<close> ap Inl fault in \<open>auto simp: commit_candidate_def\<close>)
    qed
  qed
qed

end
