(* ===== verification/Worker_Loop.thy ===== *)
theory Worker_Loop
  imports Processing_Faults
begin

text \<open>
  The shape the \<open>run\<close> loops of the processing workers share: iterate a step until it stops, waits or
  settles. The locale \<open>loop_contract\<close> is the contract of such a step, which the workers interpret; what it
  gives them is that the loop never panics and always comes to rest.
\<close>

fun run_loop :: "('s \<Rightarrow> ('s \<times> loop_outcome) option) \<Rightarrow> nat \<Rightarrow> 's \<Rightarrow> ('s \<times> loop_outcome) option" where
  "run_loop step 0 s = Some (s, LoopContinue)"
| "run_loop step (Suc n) s =
     (case step s of
        None \<Rightarrow> None
      | Some (s', LoopContinue) \<Rightarrow> run_loop step n s'
      | Some (s', outcome) \<Rightarrow> Some (s', outcome))"

locale loop_contract =
  fixes step :: "'s \<Rightarrow> ('s \<times> loop_outcome) option"
    and inv :: "'s \<Rightarrow> bool"
    and settled :: "'s \<Rightarrow> bool"
    and smaller :: "('s \<times> 's) set"
  assumes wf_smaller: "wf smaller"
    and step_returns: "inv s \<Longrightarrow> \<exists>s' outcome. step s = Some (s', outcome)"
    and step_inv: "inv s \<Longrightarrow> step s = Some (s', outcome) \<Longrightarrow> outcome \<noteq> LoopStop \<Longrightarrow> inv s'"
    and step_smaller: "inv s \<Longrightarrow> \<not> settled s \<Longrightarrow> step s = Some (s', LoopContinue) \<Longrightarrow> (s', s) \<in> smaller"
begin

lemma run_loop_returns: "inv s \<Longrightarrow> run_loop step n s \<noteq> None"
proof (induction n arbitrary: s)
  case (Suc n)
  then obtain s' out where "step s = Some (s', out)" using step_returns by blast
  then show ?case using Suc step_inv[OF Suc.prems] by (cases out) auto
qed simp

lemma run_loop_inv: "inv s \<Longrightarrow> run_loop step n s = Some (s', outcome) \<Longrightarrow> outcome \<noteq> LoopStop \<Longrightarrow> inv s'"
proof (induction n arbitrary: s)
  case (Suc n)
  then obtain s1 out where "step s = Some (s1, out)" using step_returns by blast
  then show ?case using Suc step_inv[OF Suc.prems(1)] by (cases out) auto
qed simp

lemma run_loop_rests:
  assumes "inv s"
  shows "\<exists>n s' outcome. run_loop step n s = Some (s', outcome) \<and> (outcome = LoopContinue \<longrightarrow> settled s')"
  using wf_smaller assms
proof (induction s rule: wf_induct_rule)
  case (less s)
  show ?case
  proof (cases "settled s")
    case True
    then show ?thesis by (intro exI[of _ 0]) simp
  next
    case False
    obtain s1 out where s1: "step s = Some (s1, out)" using step_returns[OF less.prems] by blast
    show ?thesis
    proof (cases "out = LoopContinue")
      case True
      then have "(s1, s) \<in> smaller" "inv s1"
        using step_smaller[OF less.prems False] step_inv[OF less.prems] s1 by auto
      then obtain n s' outcome where "run_loop step n s1 = Some (s', outcome)" "outcome = LoopContinue \<longrightarrow> settled s'"
        using less.IH by blast
      then show ?thesis using s1 True by (intro exI[of _ "Suc n"]) simp
    next
      case stop: False
      then have "run_loop step 1 s = Some (s1, out)" using s1 by (cases out) simp_all
      then show ?thesis using stop by blast
    qed
  qed
qed

end

end
