(* ===== verification/Vspc_Drive.thy ===== *)
theory Vspc_Drive
  imports Vspc_Worker Worker_Loop
begin

text \<open>
  The VSPC worker's drive loop makes progress: every drive returns, keeps the worker invariant, moves
  the committed sink only by a transition that starts at it, and, when it reports that it did
  something, has either faulted the worker or shrunk its pending work.
\<close>

section \<open>Driving makes progress\<close>

definition candidate_weight :: "pending_candidate \<Rightarrow> nat" where
  "candidate_weight c = length (vch_added (cand_change c)) + (if cand_overlap_credited c then 0 else 1)"

definition pending_weight :: "vspc_state \<Rightarrow> nat" where
  "pending_weight s = (\<Sum>pid \<in> fset (fmdom (vs_pending s)). candidate_weight (the (fmlookup (vs_pending s) pid)))"

definition drive_size :: "vspc_run \<Rightarrow> nat \<times> nat" where
  "drive_size r = (case r of VInert _ \<Rightarrow> (0, 0) | VActive s \<Rightarrow> (pending_len s, pending_weight s))"

definition next_id_of :: "vspc_run \<Rightarrow> nat" where
  "next_id_of r = (case r of VInert _ \<Rightarrow> 0 | VActive s \<Rightarrow> unat (vs_next_pending_id s))"

lemma pending_weight_upd:
  assumes "fmlookup (vs_pending s) pid = Some c" "candidate_weight c' < candidate_weight c"
    and "vs_pending s' = fmupd pid c' (vs_pending s)"
  shows "pending_len s' = pending_len s" "pending_weight s' < pending_weight s"
proof -
  have dom: "fmdom (vs_pending s') = fmdom (vs_pending s)" using assms(1,3) by (auto intro: fmdomI)
  then show "pending_len s' = pending_len s" by (simp add: pending_len_def)
  have "pid \<in> fset (fmdom (vs_pending s))" using assms(1) by (simp add: fmdomI)
  then show "pending_weight s' < pending_weight s"
    unfolding pending_weight_def dom using assms
    by (intro sum_strict_mono_ex1) (auto intro!: bexI[of _ pid])
qed

lemma index_inv_replace:
  assumes inv: "index_inv s" and c: "fmlookup (vs_pending s) pid = Some c" and wf: "candidate_wf c'"
    and same: "cand_source c' = cand_source c" "cand_destination c' = cand_destination c"
      "cand_missing c' = cand_missing c" "cand_order c' = cand_order c"
  shows "index_inv (s\<lparr>vs_pending := fmupd pid c' (vs_pending s)\<rparr>)"
proof -
  let ?s = "s\<lparr>vs_pending := fmupd pid c' (vs_pending s)\<rparr>"
  have ex: "(\<exists>d. fmlookup (vs_pending ?s) q = Some d \<and> P (cand_source d) (cand_destination d) (cand_missing d) (cand_order d)) \<longleftrightarrow>
      (\<exists>d. fmlookup (vs_pending s) q = Some d \<and> P (cand_source d) (cand_destination d) (cand_missing d) (cand_order d))" for q P
    using c same by auto
  have "waiters_exact ?s"
    using inv ex[where P = "\<lambda>_ _ m _. h |\<in>| m" for h] by (simp add: index_inv_def waiters_exact_def)
  moreover have "destinations_exact ?s"
    using inv ex[where P = "\<lambda>a b _ _. a = Notification \<and> b = h" for h] by (simp add: index_inv_def destinations_exact_def)
  moreover have "resolved_exact ?s"
    using inv ex[where P = "\<lambda>a _ _ d. a = Notification \<and> d = Some k" for k] by (simp add: index_inv_def resolved_exact_def)
  moreover have "fifo_exact ?s"
    using inv ex[where P = "\<lambda>a _ _ _. a = Synthetic"] by (simp add: index_inv_def fifo_exact_def)
  ultimately show ?thesis using inv wf index_invD(2)[OF inv c] by (auto simp: index_inv_def fmpred_iff)
qed

text \<open>The outcome of one drive of a worker that was not faulted.\<close>

definition drive_progress :: "vspc_worker \<Rightarrow> vspc_worker \<Rightarrow> bool \<Rightarrow> bool" where
  "drive_progress w w' drove \<longleftrightarrow>
     same_boxes w w' \<and> next_id_of (vw_run w') = next_id_of (vw_run w) \<and> (quiet w w' \<or> sink_advanced w w') \<and>
     (drove \<longrightarrow> vw_faulted w' \<or> (drive_size (vw_run w'), drive_size (vw_run w)) \<in> less_than <*lex*> less_than)"

lemma drive_discard:
  assumes inv: "worker_inv w" and run: "vw_run w = VActive s" and c: "fmlookup (vs_pending s) pid = Some c"
  shows "\<exists>w'. drive_action_step env db w s (Discard pid overlap) = Some (w', db, True) \<and> worker_inv w' \<and> drive_progress w w' True"
proof -
  have vi: "vspc_inv s" "vs_phase s = PhLive \<longrightarrow> vs_synthetic_fifo s = []" using inv run by (simp_all add: worker_inv_def)
  from remove_candidate_inv[OF vi(1) c] obtain s' where s': "remove_candidate s pid = (s', Some c)" "vspc_inv s'"
    "vs_pending s' = fmdrop pid (vs_pending s)" "same_but_pending s s'"
    "vs_synthetic_fifo s' = filter (\<lambda>q. q \<noteq> pid) (vs_synthetic_fifo s)" .
  have len: "pending_len s' < pending_len s"
    unfolding pending_len_def s'(3) using c by (intro pfsubset_fcard_mono) (auto intro: fmdomI)
  have "worker_inv (vw_metrics_update (pending_len s') (w\<lparr>vw_run := VActive s'\<rparr>))"
    using inv vi(2) s' by (intro worker_inv_run) (auto simp: same_but_pending_def)
  then show ?thesis using run s' len
    by (auto simp: drive_action_step_def Let_def drive_progress_def same_boxes_def quiet_def vw_metrics_update_def
        next_id_of_def drive_size_def same_but_pending_def)
qed

lemma drive_normalize:
  assumes inv: "worker_inv w" and run: "vw_run w = VActive s" and ok: "action_ok s (NormalizeCrossing pid suffix)"
  shows "\<exists>w'. drive_action_step env db w s (NormalizeCrossing pid suffix) = Some (w', db, True) \<and> worker_inv w' \<and> drive_progress w w' True"
proof -
  obtain c where c: "fmlookup (vs_pending s) pid = Some c" "suffix \<noteq> []" "last suffix = cand_destination c"
    "length suffix < length (vch_added (cand_change c))" using ok by (auto simp: action_ok_def)
  have vi: "vspc_inv s" "vs_phase s = PhLive \<longrightarrow> vs_synthetic_fifo s = []" using inv run by (simp_all add: worker_inv_def)
  then have ii: "index_inv s" by (simp add: vspc_inv_def)
  let ?c = "c\<lparr>cand_change := \<lparr>vch_removed = [], vch_added = suffix\<rparr>, cand_overlap_credited := True\<rparr>"
  let ?s1 = "s\<lparr>vs_pending := fmupd pid ?c (vs_pending s)\<rparr>"
  have wf: "candidate_wf ?c" using index_invD(1)[OF ii c(1)] c(2,3) by (auto simp: candidate_wf_def split: option.splits)
  have ii1: "index_inv ?s1" by (rule index_inv_replace[OF ii c(1) wf]) simp_all
  have c1: "fmlookup (vs_pending ?s1) pid = Some ?c" by simp
  from refresh_candidate_spec[OF ii1 c1] obtain s' where s': "refresh_candidate ?s1 pid = Some s'" "index_inv s'"
    "vs_pending s' = fmupd pid (refreshed (vs_history s) ?c) (vs_pending s)"
    "vs_history s' = vs_history s" "vs_phase s' = vs_phase s" "vs_committed_sink s' = vs_committed_sink s"
    "vs_next_pending_id s' = vs_next_pending_id s" "vs_synthetic_fifo s' = vs_synthetic_fifo s"
    by (auto simp: fmupd_reorder_neq)
  have wt: "candidate_weight (refreshed (vs_history s) ?c) < candidate_weight c" using c(4) by (simp add: candidate_weight_def)
  note sz = pending_weight_upd[OF c(1) wt s'(3)]
  have "vspc_inv s'" using vi(1) s' sz(1) refreshed_fresh[OF wf, of "vs_history s"] by (auto simp: vspc_inv_def fmpred_iff)
  then have "worker_inv (w\<lparr>vw_run := VActive s'\<rparr>)" using inv vi(2) s' by (intro worker_inv_run) auto
  then have "worker_inv (w\<lparr>vw_run := VActive s', vw_overlap := True\<rparr>)" by (simp add: worker_inv_def)
  then show ?thesis using run s' sz c(1)
    by (auto simp: drive_action_step_def Let_def drive_progress_def same_boxes_def quiet_def next_id_of_def drive_size_def)
qed

lemma drive_mark:
  assumes inv: "worker_inv w" and run: "vw_run w = VActive s" and ok: "action_ok s (MarkOverlap pid)"
  shows "\<exists>w'. drive_action_step env db w s (MarkOverlap pid) = Some (w', db, True) \<and> worker_inv w' \<and> drive_progress w w' True"
proof -
  obtain c where c: "fmlookup (vs_pending s) pid = Some c" "\<not> cand_overlap_credited c" using ok by (auto simp: action_ok_def)
  have vi: "vspc_inv s" "vs_phase s = PhLive \<longrightarrow> vs_synthetic_fifo s = []" using inv run by (simp_all add: worker_inv_def)
  then have ii: "index_inv s" by (simp add: vspc_inv_def)
  let ?c = "c\<lparr>cand_overlap_credited := True\<rparr>"
  let ?s1 = "s\<lparr>vs_pending := fmupd pid ?c (vs_pending s)\<rparr>"
  have wf: "candidate_wf ?c" using index_invD(1)[OF ii c(1)] by (auto simp: candidate_wf_def split: option.splits)
  have ii1: "index_inv ?s1" by (rule index_inv_replace[OF ii c(1) wf]) simp_all
  have wt: "candidate_weight ?c < candidate_weight c" using c(2) by (simp add: candidate_weight_def)
  have p: "vs_pending ?s1 = fmupd pid ?c (vs_pending s)" by simp
  note sz = pending_weight_upd[OF c(1) wt p]
  have "candidate_fresh (vs_history s) c" using vi(1) c(1) by (auto simp: vspc_inv_def fmpred_iff)
  then have "candidate_fresh (vs_history s) ?c" by (simp add: candidate_fresh_def)
  then have "vspc_inv ?s1" using vi(1) ii1 sz(1) by (auto simp: vspc_inv_def fmpred_iff)
  then have "worker_inv (w\<lparr>vw_run := VActive ?s1\<rparr>)" using inv vi(2) by (intro worker_inv_run) auto
  then have "worker_inv (w\<lparr>vw_run := VActive ?s1, vw_overlap := True\<rparr>)" by (simp add: worker_inv_def)
  then show ?thesis using run sz c(1)
    by (auto simp: drive_action_step_def Let_def drive_progress_def same_boxes_def quiet_def next_id_of_def drive_size_def)
qed

lemma fault_progress:
  "\<not> vw_faulted w \<Longrightarrow> drive_progress w (vw_enter_fault f w) b"
  by (auto simp: drive_progress_def same_boxes_def vw_enter_fault_def quiet_def)

lemma drive_once_spec:
  assumes inv: "worker_inv w" and laws: "commits_destination env" "resolves_each env"
  shows "\<exists>w' db' b. drive_once env db w = Some (w', db', b) \<and> worker_inv w' \<and> drive_progress w w' b"
proof -
  have stay: "drive_progress w w False" by (simp add: drive_progress_def same_boxes_def)
  show ?thesis
  proof (cases "vw_faulted w")
    case False
    show ?thesis
    proof (cases "vw_run w")
      case (VInert m)
      then show ?thesis using inv False stay by (auto simp: drive_once_def next_action_def)
    next
      case (VActive s)
      have vi: "vspc_inv s" "vs_phase s = PhLive \<longrightarrow> vs_synthetic_fifo s = []" using inv VActive by (simp_all add: worker_inv_def)
      obtain r where r: "state_next_action s = Some r" "\<And>a. r = Some a \<Longrightarrow> action_ok s a"
        using state_next_action_spec[OF vi] by blast
      show ?thesis
      proof (cases r)
        case None
        then show ?thesis using inv False stay r(1) VActive by (auto simp: drive_once_def next_action_def)
      next
        case (Some a)
        have run: "drive_once env db w = drive_action_step env db w s a"
          using False VActive r(1) Some by (simp add: drive_once_def next_action_def)
        have ok: "action_ok s a" using r(2) Some by blast
        have "\<exists>w' db' b. drive_action_step env db w s a = Some (w', db', b) \<and> worker_inv w' \<and> drive_progress w w' b"
        proof (cases a)
          case (Discard pid o')
          then obtain c where c: "fmlookup (vs_pending s) pid = Some c" using ok by (auto simp: action_ok_def)
          show ?thesis unfolding Discard using drive_discard[OF inv VActive c, where env = env and db = db] by blast
        next
          case (NormalizeCrossing pid suf)
          show ?thesis unfolding NormalizeCrossing using drive_normalize[OF inv VActive, where env = env and db = db] ok NormalizeCrossing by blast
        next
          case (MarkOverlap pid)
          show ?thesis unfolding MarkOverlap using drive_mark[OF inv VActive, where env = env and db = db] ok MarkOverlap by blast
        next
          case (Commit pid)
          from commit_candidate_spec[OF inv VActive ok[unfolded Commit] laws, of db] obtain w' db' b where
            w': "commit_candidate env db w pid = Some (w', db', b)" "worker_inv w'" "same_boxes w w'"
            and alt: "quiet w w' \<and> vw_run w' = vw_run w \<and> (b \<longrightarrow> vw_faulted w') \<or>
              sink_advanced w w' \<and> (\<exists>s'. vw_run w' = VActive s' \<and> vs_next_pending_id s' = vs_next_pending_id s \<and> pending_len s' < pending_len s)"
            by blast
          have "drive_progress w w' b"
            using alt w'(3) VActive by (auto simp: drive_progress_def next_id_of_def drive_size_def)
          then show ?thesis using w' Commit by (auto simp: drive_action_step_def)
        qed (use inv False fault_progress in \<open>auto simp: drive_action_step_def\<close>)
        then show ?thesis using run by simp
      qed
    qed
  qed (use inv stay in \<open>auto simp: drive_once_def\<close>)
qed

section \<open>Frames of the handlers\<close>

definition boxes_size :: "vspc_worker \<Rightarrow> nat" where
  "boxes_size w = length (vw_commands w) + length (vw_persisted w) + length (vw_synthetic w) + length (vw_notifications w)"

text \<open>Room in the 64-bit candidate counter for every change already in a mailbox.\<close>

definition id_budget :: "vspc_worker \<Rightarrow> bool" where
  "id_budget w \<longleftrightarrow> next_id_of (vw_run w) + length (vw_synthetic w) + length (vw_notifications w) + 1 < 2 ^ 64"

lemma next_id_of_simps [simp]: "next_id_of (VInert m) = 0" "next_id_of (VActive s) = unat (vs_next_pending_id s)"
  by (simp_all add: next_id_of_def)

lemma id_budget_ids_left: "id_budget w \<Longrightarrow> ids_left w"
  by (auto simp: id_budget_def ids_left_def split: vspc_run.splits)

lemma enter_fault_boxes [simp]:
  "vw_commands (vw_enter_fault f w) = vw_commands w" "vw_commands_closed (vw_enter_fault f w) = vw_commands_closed w"
  "vw_notifications (vw_enter_fault f w) = vw_notifications w" "vw_synthetic (vw_enter_fault f w) = vw_synthetic w"
  "vw_persisted (vw_enter_fault f w) = vw_persisted w" "vw_persisted_closed (vw_enter_fault f w) = vw_persisted_closed w"
  "vw_faulted (vw_enter_fault f w)"
  by (simp_all add: vw_enter_fault_def)

lemma refresh_next_id: "refresh_candidate s pid = Some s' \<Longrightarrow> vs_next_pending_id s' = vs_next_pending_id s"
  by (auto simp: refresh_candidate_def Let_def split: option.splits bind_splits)

lemma remove_next_id [simp]: "vs_next_pending_id (fst (remove_candidate s pid)) = vs_next_pending_id s"
  by (auto simp: remove_candidate_def Let_def split: option.splits)

lemma clear_next_id [simp]: "vs_next_pending_id (clear_synthetic s) = vs_next_pending_id s"
proof -
  have "vs_next_pending_id (fold (\<lambda>pid s. fst (remove_candidate s pid)) pids s) = vs_next_pending_id s" for pids
    by (induction pids arbitrary: s) simp_all
  then show ?thesis by (simp add: clear_synthetic_def)
qed

lemma prune_next_id: "prune_history s = Some s' \<Longrightarrow> vs_next_pending_id s' = vs_next_pending_id s"
proof -
  have "fold_opt refresh_candidate s1 pids = Some s' \<Longrightarrow> vs_next_pending_id s' = vs_next_pending_id s1" for pids s1
    by (induction pids arbitrary: s1) (auto dest: refresh_next_id split: option.splits)
  then show "prune_history s = Some s' \<Longrightarrow> ?thesis" by (auto simp: prune_history_def Let_def)
qed

lemma admit_next_id: "admit_candidate s change source = Some s' \<Longrightarrow> unat (vs_next_pending_id s') = unat (vs_next_pending_id s) + 1"
  by (auto simp: admit_candidate_def allocate_pending_id_def Let_def checked_add_Some_iff split: bind_splits if_splits
      dest!: refresh_next_id)

lemma command_frame:
  assumes "vw_handle_command w c = Some (w', fin)"
  shows "vw_commands w' = vw_commands w \<and> vw_commands_closed w' = vw_commands_closed w \<and> vw_persisted_closed w' = vw_persisted_closed w \<and>
    length (vw_persisted w') \<le> length (vw_persisted w) \<and> length (vw_synthetic w') \<le> length (vw_synthetic w) \<and>
    length (vw_notifications w') \<le> length (vw_notifications w) \<and> next_id_of (vw_run w') = next_id_of (vw_run w)"
  using assms
  by (auto simp: vw_handle_command_def vw_clear_state_def vw_metrics_update_def prune_next_id
      split: vspc_command.splits vspc_run.splits vspc_phase.splits if_splits bind_splits)

lemma change_frame:
  assumes "vw_handle_change w change source = Some w'"
  shows "same_boxes w w' \<and> next_id_of (vw_run w') \<le> next_id_of (vw_run w) + 1"
  using assms
  by (auto simp: vw_handle_change_def vw_admit_def vw_metrics_update_def same_boxes_def Let_def admit_next_id
      split: if_splits vspc_run.splits candidate_source.splits vspc_phase.splits option.splits bind_splits)

lemma persisted_frame:
  assumes "worker_inv w" "vw_handle_persisted w b = Some w'"
  shows "same_boxes w w' \<and> next_id_of (vw_run w') = next_id_of (vw_run w)"
  using assms record_persisted_spec[of _ b]
  by (fastforce simp: vw_handle_persisted_def same_boxes_def worker_inv_def split: vspc_run.splits)

section \<open>One iteration of the run loop\<close>

definition loop_size :: "vspc_worker \<Rightarrow> nat \<times> nat \<times> nat \<times> nat" where
  "loop_size w = (boxes_size w, if vw_faulted w then 0 else 1, drive_size (vw_run w))"

abbreviation size_less :: "((nat \<times> nat \<times> nat \<times> nat) \<times> (nat \<times> nat \<times> nat \<times> nat)) set" where
  "size_less \<equiv> less_than <*lex*> less_than <*lex*> less_than <*lex*> less_than"

text \<open>What an iteration of a well-formed worker does. It reduces the size unless the worker is faulted
  and its persisted channel closed.\<close>

definition iteration_ok :: "vspc_worker \<Rightarrow> vspc_worker \<Rightarrow> loop_outcome \<Rightarrow> bool" where
  "iteration_ok w w' out \<longleftrightarrow>
     worker_inv w' \<and> id_budget w' \<and> vw_persisted_closed w' = vw_persisted_closed w \<and> (quiet w w' \<or> sink_advanced w w') \<and>
     (out = LoopContinue \<and> \<not> vw_persisted_closed w \<longrightarrow> (loop_size w', loop_size w) \<in> size_less) \<and>
     (out = LoopBlocked \<longrightarrow> boxes_size w' = 0)"

lemma smaller_boxes: "boxes_size w' < boxes_size w \<Longrightarrow> (loop_size w', loop_size w) \<in> size_less"
  by (simp add: loop_size_def)

lemma idle_step_ok:
  assumes "worker_inv w" "id_budget w" "vw_commands w = []" "vw_idle_step w = (w', out)"
  shows "iteration_ok w w' out"
proof -
  have "worker_inv (vw_report_command_path_loss w) \<and> quiet w (vw_report_command_path_loss w) \<and>
      id_budget (vw_report_command_path_loss w) \<and> vw_persisted_closed (vw_report_command_path_loss w) = vw_persisted_closed w"
    using assms(1,2) by (auto simp: vw_report_command_path_loss_def id_budget_def split: vspc_run.splits)
  then show ?thesis
    using assms
    by (auto simp: vw_idle_step_def iteration_ok_def id_budget_def quiet_def boxes_size_def
        intro!: smaller_boxes split: list.splits if_splits)
qed

lemma change_step_ok:
  assumes inv: "worker_inv w1" "id_budget w1" "ids_left w1"
    and run: "vw_handle_change w1 change source = Some w'"
    and frame: "vw_run w1 = vw_run w" "vw_offered w1 = vw_offered w" "vw_persisted_closed w1 = vw_persisted_closed w"
      "boxes_size w1 < boxes_size w"
    and room: "next_id_of (vw_run w) + length (vw_synthetic w1) + length (vw_notifications w1) + 2 < 2 ^ 64"
  shows "iteration_ok w w' LoopContinue"
proof -
  have "worker_inv w'" "quiet w1 w'" using change_spec[OF inv(1,3), of change source] run by auto
  moreover have "same_boxes w1 w'" "next_id_of (vw_run w') \<le> next_id_of (vw_run w1) + 1" using change_frame[OF run] by auto
  ultimately show ?thesis
    using frame room
    by (auto simp: iteration_ok_def quiet_def same_boxes_def id_budget_def boxes_size_def intro!: smaller_boxes)
qed

lemma input_step_ok:
  assumes inv: "worker_inv w" and budget: "id_budget w" and idle: "vw_commands w = []" and alive: "\<not> vw_faulted w"
  shows "\<exists>w' out. vw_input_step w = Some (w', out) \<and> iteration_ok w w' out"
proof -
  have loss: "worker_inv (vw_report_command_path_loss w) \<and> quiet w (vw_report_command_path_loss w) \<and>
      id_budget (vw_report_command_path_loss w) \<and> vw_persisted_closed (vw_report_command_path_loss w) = vw_persisted_closed w"
    using inv budget by (auto simp: vw_report_command_path_loss_def id_budget_def split: vspc_run.splits)
  have change: "\<exists>w'. vw_handle_change w1 change source = Some w' \<and> iteration_ok w w' LoopContinue"
    if "w1 = w\<lparr>vw_synthetic := a\<rparr> \<and> b = vw_notifications w \<or> w1 = w\<lparr>vw_notifications := b\<rparr> \<and> a = vw_synthetic w"
      "length a + length b < length (vw_synthetic w) + length (vw_notifications w)"
    for w1 a b change source
  proof -
    have inv1: "worker_inv w1" "id_budget w1" "ids_left w1"
      using inv budget that id_budget_ids_left[of w1] by (auto simp: id_budget_def worker_inv_def)
    obtain w' where w': "vw_handle_change w1 change source = Some w'" using change_spec[OF inv1(1,3)] by blast
    have "iteration_ok w w' LoopContinue"
      by (rule change_step_ok[OF inv1 w']) (use budget that in \<open>auto simp: boxes_size_def id_budget_def\<close>)
    then show ?thesis using w' by blast
  qed
  show ?thesis
  proof (cases "vw_persisted w")
    case (Cons b rest)
    let ?w = "w\<lparr>vw_persisted := rest\<rparr>"
    have "worker_inv ?w" using inv by simp
    then obtain w' where w': "vw_handle_persisted ?w b = Some w'" "worker_inv w'" "quiet ?w w'"
      "same_boxes ?w w'" "next_id_of (vw_run w') = next_id_of (vw_run w)"
      using persisted_spec[of ?w b] persisted_frame[of ?w b] by auto
    then have "iteration_ok w w' LoopContinue"
      using budget Cons
      by (auto simp: iteration_ok_def quiet_def same_boxes_def id_budget_def boxes_size_def intro!: smaller_boxes)
    then show ?thesis using w' Cons by (auto simp: vw_input_step_def)
  next
    case nop: Nil
    show ?thesis
    proof (cases "vw_synthetic w")
      case (Cons x rest)
      then show ?thesis
        using change[where ?w1.0 = "w\<lparr>vw_synthetic := rest\<rparr>" and a = rest and b = "vw_notifications w"] nop by (auto simp: vw_input_step_def)
    next
      case nos: Nil
      show ?thesis
      proof (cases "vw_notifications w")
        case (Cons x rest)
        then show ?thesis
          using change[where ?w1.0 = "w\<lparr>vw_notifications := rest\<rparr>" and a = "vw_synthetic w" and b = rest] nop nos by (auto simp: vw_input_step_def)
      next
        case Nil
        have "iteration_ok w (vw_enter_fault f w) LoopContinue" if "vw_persisted_closed w" for f
          using inv budget that by (auto simp: iteration_ok_def id_budget_def)
        then show ?thesis using Nil nop nos inv budget loss idle
          by (auto simp: vw_input_step_def iteration_ok_def boxes_size_def)
      qed
    qed
  qed
qed

lemma drive_idle:
  assumes "drive_once env db w = Some (w', db', False)"
  shows "w' = w"
proof -
  have commit: "w' = w" if "commit_candidate env db w pid = Some (w', db', False)" for pid
    using that by (auto simp: commit_candidate_def split: bind_splits sum.splits prod.splits apply_vspc_error.splits option.splits)
  show ?thesis
    using assms commit
    by (auto simp: drive_once_def drive_action_step_def Let_def
        split: if_splits bind_splits option.splits vspc_run.splits drive_action.splits)
qed

lemma loop_step_ok:
  assumes inv: "worker_inv w" and budget: "id_budget w" and laws: "commits_destination env" "resolves_each env"
  shows "\<exists>w' db' out. vw_loop_step env db w = Some (w', db', out) \<and> iteration_ok w w' out"
proof (cases "vw_commands w")
  case (Cons c rest)
  let ?w = "w\<lparr>vw_commands := rest\<rparr>"
  have "worker_inv ?w" using inv by simp
  then obtain w' fin where w': "vw_handle_command ?w c = Some (w', fin)" "worker_inv w'" "quiet ?w w'"
    using command_spec[of ?w c] by blast
  have "iteration_ok w w' (if fin then LoopStop else LoopContinue)"
    using w'(2,3) command_frame[OF w'(1)] budget Cons
    by (auto simp: iteration_ok_def quiet_def id_budget_def boxes_size_def intro!: smaller_boxes)
  then show ?thesis using w'(1) Cons by (auto simp: vw_loop_step_def)
next
  case Nil
  show ?thesis
  proof (cases "vw_faulted w \<or> (case vw_run w of VInert _ \<Rightarrow> True | VActive _ \<Rightarrow> False)")
    case True
    obtain w' out where w': "vw_idle_step w = (w', out)" by (cases "vw_idle_step w")
    then show ?thesis using idle_step_ok[OF inv budget Nil w'] True Nil by (auto simp: vw_loop_step_def)
  next
    case False
    then have alive: "\<not> vw_faulted w" by simp
    obtain w1 db1 drove where d: "drive_once env db w = Some (w1, db1, drove)" "worker_inv w1" "drive_progress w w1 drove"
      using drive_once_spec[OF inv laws, of db] by blast
    have box: "same_boxes w w1" "next_id_of (vw_run w1) = next_id_of (vw_run w)" "quiet w w1 \<or> sink_advanced w w1"
      using d(3) by (auto simp: drive_progress_def)
    have b1: "id_budget w1" using budget box by (simp add: id_budget_def same_boxes_def)
    show ?thesis
    proof (cases drove)
      case True
      have "(loop_size w1, loop_size w) \<in> size_less"
        using d(3) True alive box(1) by (auto simp: drive_progress_def loop_size_def boxes_size_def same_boxes_def)
      then have "iteration_ok w w1 LoopContinue" using d(2) b1 box by (auto simp: iteration_ok_def same_boxes_def)
      then show ?thesis using d(1) True False Nil by (auto simp: vw_loop_step_def)
    next
      case idle: False
      have w1: "w1 = w" using d(1) idle drive_idle[of env db w w1 db1] by simp
      obtain w2 out where "vw_input_step w = Some (w2, out)" "iteration_ok w w2 out"
        using input_step_ok[OF inv budget Nil alive] by blast
      then show ?thesis using d(1) w1 idle False Nil by (auto simp: vw_loop_step_def)
    qed
  qed
qed

section \<open>Runs of the worker\<close>

text \<open>The run loop over the pair of database and worker.\<close>

definition vw_step :: "'d vspc_env \<Rightarrow> 'd \<times> vspc_worker \<Rightarrow> (('d \<times> vspc_worker) \<times> loop_outcome) option" where
  "vw_step env = (\<lambda>(db, w). map_option (\<lambda>(w', db', outcome). ((db', w'), outcome)) (vw_loop_step env db w))"

definition lawful :: "'d vspc_env \<Rightarrow> bool" where
  "lawful env \<longleftrightarrow> commits_destination env \<and> resolves_each env"

definition vw_ready :: "'d vspc_env \<Rightarrow> 'd \<times> vspc_worker \<Rightarrow> bool" where
  "vw_ready env = (\<lambda>(_, w). lawful env \<and> worker_inv w \<and> id_budget w)"

lemma vw_step_ok:
  assumes "vw_ready env (db, w)"
  shows "\<exists>db' w' out. vw_step env (db, w) = Some ((db', w'), out) \<and> iteration_ok w w' out"
proof -
  have "worker_inv w" "id_budget w" "commits_destination env" "resolves_each env" using assms by (simp_all add: vw_ready_def lawful_def)
  from loop_step_ok[OF this, of db] show ?thesis by (auto simp: vw_step_def)
qed

interpretation vspc_loop: loop_contract "vw_step env" "vw_ready env" "\<lambda>(_, w). vw_persisted_closed w"
  "inv_image size_less (\<lambda>(_, w). loop_size w)" for env
proof
  show "wf (inv_image size_less (\<lambda>(_, w). loop_size w))" by (intro wf_inv_image wf_lex_prod wf_less_than)
next
  fix s
  assume "vw_ready env s"
  then show "\<exists>s' out. vw_step env s = Some (s', out)" using vw_step_ok[of env "fst s" "snd s"] by auto
next
  fix s s' out
  assume "vw_ready env s" "vw_step env s = Some (s', out)" "out \<noteq> LoopStop"
  then show "vw_ready env s'" using vw_step_ok[of env "fst s" "snd s"] by (auto simp: iteration_ok_def vw_ready_def)
next
  fix s s'
  assume "vw_ready env s" "\<not> (case s of (_, w) \<Rightarrow> vw_persisted_closed w)" "vw_step env s = Some (s', LoopContinue)"
  then show "(s', s) \<in> inv_image size_less (\<lambda>(_, w). loop_size w)"
    using vw_step_ok[of env "fst s" "snd s"] by (auto simp: iteration_ok_def)
qed

lemma run_loop_boxes:
  "vw_ready env (db, w) \<Longrightarrow> run_loop (vw_step env) n (db, w) = Some ((db', w'), out) \<Longrightarrow>
   vw_persisted_closed w' = vw_persisted_closed w \<and> (out = LoopBlocked \<longrightarrow> boxes_size w' = 0)"
proof (induction n arbitrary: db w)
  case (Suc n)
  obtain db1 w1 out1 where st: "vw_step env (db, w) = Some ((db1, w1), out1)" "iteration_ok w w1 out1"
    using vw_step_ok[OF Suc.prems(1)] by blast
  have ready: "vw_ready env (db1, w1)" if "out1 = LoopContinue"
    using vspc_loop.step_inv[OF Suc.prems(1) st(1)] that by simp
  show ?case using Suc.IH[OF ready] Suc.prems(2) st by (cases out1) (auto simp: iteration_ok_def)
qed simp

text \<open>Each update starts where the previous one ended.\<close>

fun chained :: "block_hash \<Rightarrow> vspc_committed list \<Rightarrow> block_hash \<Rightarrow> bool" where
  "chained a [] b = (a = b)"
| "chained a (u # us) b = (vc_source u = a \<and> chained (vc_destination u) us b)"

lemma chained_snoc [simp]: "chained a (us @ [u]) b \<longleftrightarrow> chained a us (vc_source u) \<and> vc_destination u = b"
  by (induction us arbitrary: a) auto

text \<open>Input from the other tasks.\<close>

inductive vspc_arrival :: "vspc_worker \<Rightarrow> vspc_worker \<Rightarrow> bool" where
  arrive_command: "vspc_arrival w (w\<lparr>vw_commands := vw_commands w @ [c]\<rparr>)"
| arrive_notification: "vspc_arrival w (w\<lparr>vw_notifications := vw_notifications w @ [x]\<rparr>)"
| arrive_synthetic: "vspc_arrival w (w\<lparr>vw_synthetic := vw_synthetic w @ [x]\<rparr>)"
| arrive_persisted: "\<not> vw_persisted_closed w \<Longrightarrow> vspc_arrival w (w\<lparr>vw_persisted := vw_persisted w @ [b]\<rparr>)"
| close_commands: "vspc_arrival w (w\<lparr>vw_commands_closed := True\<rparr>)"
| close_persisted: "vspc_arrival w (w\<lparr>vw_persisted_closed := True\<rparr>)"

inductive vspc_reachable :: "'d vspc_env \<Rightarrow> materialized_sync_anchor \<Rightarrow> 'd \<Rightarrow> vspc_worker \<Rightarrow> bool"
  for env anchor where
  start: "worker_inv w0 \<Longrightarrow> vw_offered w0 = [] \<Longrightarrow> vw_initialize w0 anchor = (w, Inr ()) \<Longrightarrow> vspc_reachable env anchor db w"
| arrival: "vspc_reachable env anchor db w \<Longrightarrow> vspc_arrival w w' \<Longrightarrow> vspc_reachable env anchor db w'"
| iterate: "vspc_reachable env anchor db w \<Longrightarrow> id_budget w \<Longrightarrow> vw_loop_step env db w = Some (w', db', LoopContinue) \<Longrightarrow>
    vspc_reachable env anchor db' w'"

inductive_cases vspc_arrivalE: "vspc_arrival w w'"

lemma arrival_keeps:
  assumes "vspc_arrival w w'"
  shows "worker_inv w' = worker_inv w \<and> vw_run w' = vw_run w \<and> vw_offered w' = vw_offered w"
  using assms by (cases rule: vspc_arrivalE) (auto simp: worker_inv_def)

lemma reachable_inv:
  assumes lawful: "lawful env" and "vspc_reachable env anchor db w"
  shows "worker_inv w \<and> (\<exists>s. vw_run w = VActive s \<and> chained (vp_hash (msa_point anchor)) (vw_offered w) (vp_hash (vs_committed_sink s)))"
  using assms(2)
proof (induction rule: vspc_reachable.induct)
  case (start w0 w db)
  have "worker_inv (w0\<lparr>vw_run := VActive (vspc_state_new anchor)\<rparr>)"
    using start(1) vspc_state_new_inv by (intro worker_inv_run) (simp_all add: vspc_state_new_def)
  then show ?case using start
    by (auto simp: vw_initialize_def vspc_state_new_def worker_inv_def vw_metrics_update_def split: vspc_run.splits if_splits)
next
  case (arrival db w w')
  then show ?case using arrival_keeps[OF arrival(2)] by simp
next
  case (iterate db w w' db')
  have "iteration_ok w w' LoopContinue"
    using loop_step_ok[OF _ iterate(2), of env db] lawful iterate.IH iterate(3) by (auto simp: lawful_def)
  then show ?case using iterate.IH
    by (cases "vw_run w'") (auto simp: iteration_ok_def quiet_def sink_advanced_def)
qed

end
