(* ===== verification/Vspc_Properties.thy ===== *)
theory Vspc_Properties
  imports Vspc_Drive
begin

text \<open>
  The properties of the VSPC processor, over every run of its worker against a database that commits the
  destination it is given and resolves each hash it is asked for.
\<close>

section \<open>A sample run\<close>

definition sample_point :: "blue_work \<Rightarrow> block_hash \<Rightarrow> vspc_point" where
  "sample_point work hash = VspcPoint (ConsensusOrder work hash) (CompactId (uint hash))"

definition sample_anchor :: materialized_sync_anchor where
  "sample_anchor = \<lparr>msa_point = sample_point 1 10, msa_selected_parent = 9, msa_blue_score = 5\<rparr>"

definition sample_vspc_env :: "unit vspc_env" where
  "sample_vspc_env =
     \<lparr>ve_resolve_materialized_ids = (\<lambda>_ hashes. Inr (map (\<lambda>h. CompactId (uint h)) hashes)),
      ve_apply_vspc_change = (\<lambda>db change. (db, Inr \<lparr>vco_destination = rvc_destination change, vco_level_snapshots = []\<rparr>)),
      ve_full_block = (\<lambda>_ _. None)\<rparr>"

lemma sample_env_lawful: "lawful sample_vspc_env"
  by (simp add: lawful_def commits_destination_def resolves_each_def sample_vspc_env_def)

definition sample_inert :: vspc_worker where
  "sample_inert =
     \<lparr>vw_commands = [], vw_commands_closed = False, vw_notifications = [], vw_synthetic = [], vw_persisted = [],
      vw_persisted_closed = False, vw_events = [], vw_offered = [], vw_overlap = False, vw_pending_occupancy = 0,
      vw_pending_high_water = 0, vw_run = VInert Resync, vw_faulted = False\<rparr>"

definition sample_started :: vspc_worker where
  "sample_started = fst (vw_initialize sample_inert sample_anchor)"

text \<open>A persisted block on top of the anchor, and the synthetic transition that adds it.\<close>

definition sample_loaded :: vspc_worker where
  "sample_loaded = sample_started
     \<lparr>vw_persisted := [\<lparr>pb_point = sample_point 2 11, pb_selected_parent = 10\<rparr>],
      vw_synthetic := [\<lparr>vch_removed = [], vch_added = [11]\<rparr>]\<rparr>"

definition worker_after :: "vspc_worker \<Rightarrow> vspc_worker" where
  "worker_after w = (case vw_loop_step sample_vspc_env () w of Some (w', _, _) \<Rightarrow> w' | None \<Rightarrow> w)"

definition sample_committed :: vspc_worker where
  "sample_committed = worker_after (worker_after (worker_after sample_loaded))"

lemma sample_loaded_reachable: "vspc_reachable sample_vspc_env sample_anchor () sample_loaded"
proof -
  have "worker_inv sample_inert" "vw_offered sample_inert = []"
    "vw_initialize sample_inert sample_anchor = (sample_started, Inr ())"
    by (simp add: worker_inv_def sample_inert_def, simp add: sample_inert_def,
        simp add: sample_started_def vw_initialize_def sample_inert_def)
  then have "vspc_reachable sample_vspc_env sample_anchor () sample_started" by (rule vspc_reachable.start)
  then have "vspc_reachable sample_vspc_env sample_anchor ()
      (sample_started\<lparr>vw_persisted := [\<lparr>pb_point = sample_point 2 11, pb_selected_parent = 10\<rparr>]\<rparr>)"
    by (rule vspc_reachable.arrival)
      (use arrive_persisted[of sample_started] in \<open>simp add: sample_started_def vw_initialize_def sample_inert_def vw_metrics_update_def\<close>)
  then show ?thesis
    by (rule vspc_reachable.arrival)
      (use arrive_synthetic[of "sample_started\<lparr>vw_persisted := [\<lparr>pb_point = sample_point 2 11, pb_selected_parent = 10\<rparr>]\<rparr>"]
        in \<open>simp add: sample_loaded_def sample_started_def vw_initialize_def sample_inert_def vw_metrics_update_def\<close>)
qed

lemma sample_steps_run:
  "vw_loop_step sample_vspc_env () sample_loaded = Some (worker_after sample_loaded, (), LoopContinue)"
  "vw_loop_step sample_vspc_env () (worker_after sample_loaded) = Some (worker_after (worker_after sample_loaded), (), LoopContinue)"
  "vw_loop_step sample_vspc_env () (worker_after (worker_after sample_loaded)) = Some (sample_committed, (), LoopContinue)"
  by code_simp+

lemma sample_budgets:
  "id_budget sample_loaded" "id_budget (worker_after sample_loaded)" "id_budget (worker_after (worker_after sample_loaded))"
  by code_simp+

lemma sample_committed_reachable: "vspc_reachable sample_vspc_env sample_anchor () sample_committed"
  by (rule iterate[OF iterate[OF iterate[OF sample_loaded_reachable sample_budgets(1) sample_steps_run(1)]
        sample_budgets(2) sample_steps_run(2)] sample_budgets(3) sample_steps_run(3)])

section \<open>Properties\<close>

text \<open>C7. In every run of the VSPC worker the transitions it offers to the graph feed form one chain:
  the first starts at the anchor, each starts where the previous one ended, and the last ends at the
  committed sink.\<close>

theorem vspc_offers_form_a_chain:
  assumes "lawful env" and "vspc_reachable env anchor db w"
  shows "\<exists>s. vw_run w = VActive s \<and> chained (vp_hash (msa_point anchor)) (vw_offered w) (vp_hash (vs_committed_sink s))"
  using reachable_inv[OF assms] by blast

theorem vspc_offers_form_a_chain_witness:
  "\<exists>s. vw_run sample_committed = VActive s \<and> vp_hash (vs_committed_sink s) = 11 \<and>
     chained 10 (vw_offered sample_committed) 11 \<and> length (vw_offered sample_committed) = 1"
proof -
  have "sink_of (vw_run sample_committed) = Some (sample_point 2 11)" "length (vw_offered sample_committed) = 1"
    "vp_hash (msa_point sample_anchor) = 10" "vp_hash (sample_point 2 11) = 11" by code_simp+
  then show ?thesis
    using vspc_offers_form_a_chain[OF sample_env_lawful sample_committed_reachable] by auto
qed

text \<open>C24. In every run the worker's state is consistent: each index of the pending candidates is exact,
  each candidate's missing blocks and resolved order are those of the current history, at most 1024
  candidates are pending, and at most one fault has been reported.\<close>

theorem vspc_worker_consistent:
  assumes "lawful env" and "vspc_reachable env anchor db w"
  shows "\<exists>s. vw_run w = VActive s \<and> vspc_inv s \<and> pending_len s \<le> 1024 \<and>
    length (vw_events w) = (if vw_faulted w then 1 else 0)"
  using reachable_inv[OF assms] by (auto simp: worker_inv_def vspc_inv_def)

theorem vspc_worker_consistent_witness:
  "\<exists>s. vw_run sample_committed = VActive s \<and> vspc_inv s \<and> vw_events sample_committed = []"
proof -
  have "\<not> vw_faulted sample_committed" by code_simp
  then show ?thesis using vspc_worker_consistent[OF sample_env_lawful sample_committed_reachable] by auto
qed

text \<open>No iteration of a reachable worker panics while the candidate counter has room for the
  changes already queued: none of the indexing operations, \<open>expect\<close> calls and checked additions fails.\<close>

theorem vspc_worker_never_panics:
  assumes "lawful env" and "vspc_reachable env anchor db w" and "id_budget w"
  shows "vw_loop_step env db w \<noteq> None"
proof -
  have "worker_inv w" using reachable_inv[OF assms(1,2)] by blast
  from loop_step_ok[OF this assms(3), of env db] assms(1) show ?thesis by (auto simp: lawful_def)
qed

theorem vspc_worker_never_panics_witness: "vw_loop_step sample_vspc_env () sample_loaded \<noteq> None"
  by (rule vspc_worker_never_panics[OF sample_env_lawful sample_loaded_reachable sample_budgets(1)])



text \<open>C26. Once live, the committed sink only moves forward in consensus order: an iteration either
  offers nothing and keeps the sink, or offers one transition to a strictly greater sink.\<close>

theorem vspc_live_sink_increases:
  assumes "lawful env" and "worker_inv w" and "id_budget w"
    and "vw_run w = VActive s" and "vs_phase s = PhLive" and "vw_loop_step env db w = Some (w', db', outcome)"
  shows "(sink_of (vw_run w') = Some (vs_committed_sink s) \<and> vw_offered w' = vw_offered w) \<or>
    (\<exists>s' u. vw_run w' = VActive s' \<and> vw_offered w' = vw_offered w @ [u] \<and>
       vp_order (vs_committed_sink s) < vp_order (vs_committed_sink s'))"
  using loop_step_ok[OF assms(2,3), of env db] assms by (auto simp: lawful_def iteration_ok_def quiet_def sink_advanced_def)

text \<open>A live worker with the same persisted block and the transition as a notification, after both
  have been received.\<close>

definition sample_live :: vspc_worker where
  "sample_live = sample_started
     \<lparr>vw_run := VActive ((vspc_state_new sample_anchor)\<lparr>vs_phase := PhLive\<rparr>),
      vw_persisted := [\<lparr>pb_point = sample_point 2 11, pb_selected_parent = 10\<rparr>],
      vw_notifications := [\<lparr>vch_removed = [], vch_added = [11]\<rparr>]\<rparr>"

definition sample_live_ready :: vspc_worker where
  "sample_live_ready = worker_after (worker_after sample_live)"

lemma worker_after_inv:
  assumes "worker_inv w" "id_budget w"
  shows "worker_inv (worker_after w)"
  using loop_step_ok[OF assms, of sample_vspc_env "()"] sample_env_lawful
  by (auto simp: worker_after_def iteration_ok_def lawful_def)

lemma sample_live_inv: "worker_inv sample_live_ready"
proof -
  have "worker_inv sample_live"
    using vspc_state_new_inv[of sample_anchor]
    by (auto simp: sample_live_def worker_inv_def sample_started_def vw_initialize_def sample_inert_def vw_metrics_update_def
        vspc_state_new_def[of sample_anchor, THEN arg_cong[of _ _ vs_synthetic_fifo]])
  moreover have "id_budget sample_live" "id_budget (worker_after sample_live)" by code_simp+
  ultimately show ?thesis unfolding sample_live_ready_def by (simp add: worker_after_inv)
qed

theorem vspc_live_sink_increases_witness:
  "\<exists>s'. vw_run (worker_after sample_live_ready) = VActive s' \<and> length (vw_offered (worker_after sample_live_ready)) = 1 \<and>
     vp_order (sample_point 1 10) < vp_order (vs_committed_sink s')"
proof -
  have run: "vw_loop_step sample_vspc_env () sample_live_ready = Some (worker_after sample_live_ready, (), LoopContinue)"
    "id_budget sample_live_ready" "length (vw_offered sample_live_ready) = 0" "length (vw_offered (worker_after sample_live_ready)) = 1"
    "run_live (vw_run sample_live_ready)" "sink_of (vw_run sample_live_ready) = Some (sample_point 1 10)" by code_simp+
  obtain s where s: "vw_run sample_live_ready = VActive s" "vs_phase s = PhLive" "vs_committed_sink s = sample_point 1 10"
    using run(5,6) by (auto simp: run_live_def split: vspc_run.splits)
  show ?thesis
    using vspc_live_sink_increases[OF sample_env_lawful sample_live_inv run(2) s(1,2) run(1)] run(3,4) s(3) by auto
qed

text \<open>C38. Pruning the history, on going live and after a live commit, also forgets the destination of
  every pending notification that is already behind the sink: the notification is no longer resolved
  and waits for its own destination, so that the discarding of stale resolved notifications does not
  see it and it keeps its pending slot until that block is delivered again.\<close>

theorem stale_notification_becomes_unresolved:
  assumes "vspc_inv s" and "fmlookup (vs_pending s) pid = Some c"
    and "cand_order c = Some order" and "order < vp_order (vs_committed_sink s)"
  shows "\<exists>s' c'. prune_history s = Some s' \<and> fmlookup (vs_pending s') pid = Some c' \<and>
    cand_order c' = None \<and> cand_destination c' |\<in>| cand_missing c' \<and> pending_len s' = pending_len s"
proof -
  obtain s' where s': "prune_history s = Some s'" "vs_history s' = prune_below (vs_history s) (vs_committed_sink s)"
    "\<forall>q. fmlookup (vs_pending s') q = map_option (refreshed (vs_history s')) (fmlookup (vs_pending s) q)"
    using prune_history_spec[of s] assms(1) by (auto simp: vspc_inv_def)
  have ex: "history_exact (vs_history s)" and wf: "candidate_wf c" and fr: "candidate_fresh (vs_history s) c"
    using assms(1,2) by (auto simp: vspc_inv_def index_inv_def fmpred_iff)
  obtain b where b: "fmlookup (mh_by_hash (vs_history s)) (cand_destination c) = Some b" "vp_order (pb_point b) = order"
    using fr assms(3) by (cases "fmlookup (mh_by_hash (vs_history s)) (cand_destination c)") (auto simp: candidate_fresh_def resolve_order_def)
  have gone: "fmlookup (mh_by_hash (vs_history s')) (cand_destination c) = None"
    using prune_below_spec(2)[OF ex, of "vs_committed_sink s" "cand_destination c"] b assms(4) by (simp add: s'(2))
  have dest: "cand_destination c |\<in>| the (required_history (vs_history s') (cand_change c))"
    using wf gone by (auto simp: candidate_wf_def required_history_def Let_def fmdom_notI split: list.splits option.splits)
  have "pending_len s' = pending_len s"
    unfolding pending_len_def by (rule arg_cong[of _ _ fcard]) (auto simp: fmlookup_dom_iff s'(3))
  then show ?thesis
    using s'(1,3) assms(2) gone dest by (auto simp: resolve_order_def)
qed

definition sample_stale :: vspc_state where
  "sample_stale =
     (the (admit_candidate (vspc_state_new sample_anchor) \<lparr>vch_removed = [], vch_added = [10]\<rparr> Notification))
       \<lparr>vs_committed_sink := sample_point 2 11\<rparr>"

definition sample_stale_candidate :: pending_candidate where
  "sample_stale_candidate = the (fmlookup (vs_pending sample_stale) 0)"

theorem stale_notification_becomes_unresolved_witness:
  "\<exists>s' c'. prune_history sample_stale = Some s' \<and> fmlookup (vs_pending s') 0 = Some c' \<and> cand_order c' = None \<and>
     cand_destination c' |\<in>| cand_missing c' \<and> pending_len s' = pending_len sample_stale"
proof -
  have "vspc_inv sample_stale"
    using admit_candidate_spec[OF vspc_state_new_inv[of sample_anchor],
        of "\<lparr>vch_removed = [], vch_added = [10]\<rparr>" Notification]
    by (auto simp: sample_stale_def vspc_state_new_def pending_len_def)
  moreover have "fmlookup (vs_pending sample_stale) 0 = Some sample_stale_candidate"
    "cand_order sample_stale_candidate = Some (ConsensusOrder 1 10)"
    "ConsensusOrder 1 10 < vp_order (vs_committed_sink sample_stale)" by code_simp+
  ultimately show ?thesis by (rule stale_notification_becomes_unresolved)
qed

end
