(* ===== verification/Block_Processor.thy ===== *)
theory Block_Processor
  imports KGI_Collections Worker_Loop
begin

unbundle bit_operations_syntax

text \<open>
  The worker of the block processor, \<open>BlockProcessorWorker\<close> of
  \<open>crates/kgi-processing/src/block_processor/processor.rs\<close>. Its mailboxes are lists; the events, the
  persisted blocks and the orphan messages it sends are logged in order. The traits \<open>BlockDatabase\<close> and
  \<open>BlockRpc\<close>, the receivers behind its bounded senders and the orphan manager's shutdown barrier are
  parameters. \<open>None\<close> is a panic of the source.
\<close>

section \<open>Data\<close>

datatype block_resolution_event =
    OrphanReady validated_node_block
  | DependencyResolved block_hash "node_error + validated_node_block"

record block_processor_initialization =
  bpi_anchor :: materialized_sync_anchor
  bpi_boundary_seal_blue_score :: u64

datatype reference_policy = AllowBoundaryIdentities | RequireMaterialized

datatype materialize_block_outcome =
    Inserted block_committed
  | AlreadyMaterialized compact_id block_coordinate

datatype materialize_block_error =
    MbDatabase processing_db_error
  | IncomingBoundaryIdentity block_hash
  | NonMaterializedReferences "block_hash list" "block_hash list"

datatype graph_update_offer_outcome = SuppressedAwaitingCatchup | Enqueued | GapReported
datatype graph_update_producer_error = ReceiverClosed

datatype orphan_message = AddOrphan validated_node_block "block_hash list" | BlockPersisted block_hash

datatype block_processor_event = PpBoundarySealed | BpFault component_fault

datatype block_processor_command = BcCatchup compact_id | BcLive | BcShutdown

datatype seal_phase = PreSeal u64 | PostSeal

datatype run_stage = RsSynchronizing seal_phase | RsCatchup compact_id | RsLive

definition stage_is_live :: "run_stage \<Rightarrow> bool" where
  "stage_is_live stage = (case stage of RsLive \<Rightarrow> True | _ \<Rightarrow> False)"

definition accepts_notifications :: "run_stage \<Rightarrow> bool" where
  "accepts_notifications stage = (case stage of RsSynchronizing _ \<Rightarrow> False | _ \<Rightarrow> True)"

definition permits_orphans :: "run_stage \<Rightarrow> bool" where
  "permits_orphans stage = (case stage of RsSynchronizing _ \<Rightarrow> False | _ \<Rightarrow> True)"

definition stage_seal_phase :: "run_stage \<Rightarrow> seal_phase" where
  "stage_seal_phase stage = (case stage of RsSynchronizing phase \<Rightarrow> phase | _ \<Rightarrow> PostSeal)"

datatype block_source = SrcResolution | SrcNotification | SrcSynthetic

type_synonym source_bits = "8 word"

definition source_bits_from :: "block_source \<Rightarrow> source_bits" where
  "source_bits_from source = (case source of SrcResolution \<Rightarrow> 0 | SrcNotification \<Rightarrow> 1 | SrcSynthetic \<Rightarrow> 2)"

definition bits_contain :: "source_bits \<Rightarrow> block_source \<Rightarrow> bool" where
  "bits_contain bits source = (source_bits_from source \<noteq> 0 \<and> bits AND source_bits_from source \<noteq> 0)"

definition bits_insert :: "source_bits \<Rightarrow> block_source \<Rightarrow> source_bits" where
  "bits_insert bits source = bits OR source_bits_from source"

definition bits_overlap :: "source_bits \<Rightarrow> bool" where
  "bits_overlap bits = (bits = 2 OR 1)"

record active_run =
  ar_stage :: run_stage
  ar_sources :: "(block_hash, source_bits) fmap"
  ar_emit_boundary_sealed_on_start :: bool

datatype block_processor_run = BpInert recovery_mode | BpActive active_run

record bp_worker =
  bp_commands :: "block_processor_command list"
  bp_commands_closed :: bool
  bp_notifications :: "validated_node_block list"
  bp_synthetic :: "validated_node_block list"
  bp_resolution :: "block_resolution_event list"
  bp_resolution_closed :: bool
  bp_child_faults :: "child_fault list"
  bp_child_faults_closed :: bool
  bp_events :: "block_processor_event list"
  bp_events_closed :: bool
  bp_persisted :: "persisted_block list"
  bp_orphan_messages :: "orphan_message list"
  bp_orphan :: bool
  bp_overlap :: bool
  bp_run :: block_processor_run
  bp_faulted :: bool

datatype block_disposition = Persisted | Orphaned

text \<open>What lies behind the worker: the database and the far ends of its channels have state \<open>'d\<close>.
  The shutdown barrier of the orphan manager also says how many resolution events and child faults
  the worker received while it waited.\<close>

record ('d, 'n) bp_env =
  be_rpc_network_id :: 'n
  be_db_network_id :: 'n
  be_rpc_genesis_hash :: block_hash
  be_db_genesis_hash :: block_hash
  be_block_presence :: "'d \<Rightarrow> block_hash \<Rightarrow> processing_db_error + block_presence"
  be_materialize_block ::
    "'d \<Rightarrow> validated_node_block \<Rightarrow> reference_policy \<Rightarrow> 'd \<times> (materialize_block_error + materialize_block_outcome)"
  be_offer_block_committed :: "'d \<Rightarrow> block_committed \<Rightarrow> 'd \<times> (graph_update_producer_error + graph_update_offer_outcome)"
  be_persisted_try_send :: "'d \<Rightarrow> persisted_block \<Rightarrow> 'd \<times> try_send_error option"
  be_orphan_try_send :: "'d \<Rightarrow> orphan_message \<Rightarrow> 'd \<times> try_send_error option"
  be_orphan_shutdown :: "'d \<Rightarrow> 'd \<times> nat \<times> nat \<times> (child_control_error + unit)"

section \<open>Faults and shutdown\<close>

definition bp_is_live :: "bp_worker \<Rightarrow> bool" where
  "bp_is_live w = (case bp_run w of BpActive r \<Rightarrow> stage_is_live (ar_stage r) | BpInert _ \<Rightarrow> False)"

text \<open>Sending on the unbounded event channel fails only when its receiver is gone.\<close>

definition bp_send_event :: "block_processor_event \<Rightarrow> bp_worker \<Rightarrow> bp_worker \<times> bool" where
  "bp_send_event event w =
     (if bp_events_closed w then (w, False) else (w\<lparr>bp_events := bp_events w @ [event]\<rparr>, True))"

text \<open>The barrier joins the orphan manager's worker, so that its ends of the two channels are dropped.\<close>

definition shutdown_orphan ::
  "('d, 'n) bp_env \<Rightarrow> 'd \<Rightarrow> bp_worker \<Rightarrow> bp_worker \<times> 'd \<times> (child_control_error + unit)" where
  "shutdown_orphan env db w =
     (if bp_orphan w then
        (case be_orphan_shutdown env db of (db', events, faults, result) \<Rightarrow>
           (w\<lparr>bp_orphan := False, bp_resolution := drop events (bp_resolution w), bp_resolution_closed := True,
              bp_child_faults := drop faults (bp_child_faults w), bp_child_faults_closed := True\<rparr>, db', result))
      else (w, db, Inr ()))"

definition bp_enter_fault :: "('d, 'n) bp_env \<Rightarrow> 'd \<Rightarrow> component_fault \<Rightarrow> bp_worker \<Rightarrow> bp_worker \<times> 'd" where
  "bp_enter_fault env db fault w =
     (if bp_faulted w then (w, db)
      else
        let w1 = fst (bp_send_event (BpFault fault) (w\<lparr>bp_faulted := True\<rparr>))
        in case shutdown_orphan env db w1 of
             (w2, db', Inr _) \<Rightarrow> (w2, db')
           | (w2, db', Inl error) \<Rightarrow>
               (fst (bp_send_event (BpFault (child_control_fault OrphanManager error)) w2), db'))"

definition bp_report_command_path_loss :: "('d, 'n) bp_env \<Rightarrow> 'd \<Rightarrow> bp_worker \<Rightarrow> bp_worker \<times> 'd" where
  "bp_report_command_path_loss env db w =
     (case bp_run w of
        BpInert _ \<Rightarrow> (w, db)
      | BpActive _ \<Rightarrow>
          if bp_faulted w then (w, db)
          else bp_enter_fault env db (ownership_component_fault BlockProcessor InternalControlPathLost) w)"

definition drain_session_data :: "bp_worker \<Rightarrow> bp_worker" where
  "drain_session_data w =
     w\<lparr>bp_notifications := [], bp_synthetic := [], bp_resolution := [], bp_child_faults := []\<rparr>"

definition shutdown_worker ::
  "('d, 'n) bp_env \<Rightarrow> 'd \<Rightarrow> bp_worker \<Rightarrow> bp_worker \<times> 'd \<times> (component_fault + unit)" where
  "shutdown_worker env db w =
     (case shutdown_orphan env db ((drain_session_data w)\<lparr>bp_overlap := False\<rparr>) of
        (w', db', Inl error) \<Rightarrow> (w', db', Inl (child_control_fault OrphanManager error))
      | (w', db', Inr _) \<Rightarrow> (w', db', Inr ()))"

section \<open>Lifecycle\<close>

definition bp_initialize ::
  "('d, 'n) bp_env \<Rightarrow> bp_worker \<Rightarrow> block_processor_initialization \<Rightarrow> bp_worker \<times> (component_fault + unit)" where
  "bp_initialize env w initialization =
     (case bp_run w of
        BpActive _ \<Rightarrow> (w, Inl block_invalid_lifecycle)
      | BpInert mode \<Rightarrow>
          let anchor = bpi_anchor initialization;
              seal = bpi_boundary_seal_blue_score initialization;
              genesis = (vp_hash (msa_point anchor) = be_db_genesis_hash env)
          in if bp_faulted w then (w, Inl block_invalid_lifecycle)
             else if be_rpc_network_id env \<noteq> be_db_network_id env
                  \<or> be_rpc_genesis_hash env \<noteq> be_db_genesis_hash env
                  \<or> MAX_BLUE_SCORE < msa_blue_score anchor then (w, Inl block_invalid_lifecycle)
             else if mode = Resync \<and> msa_blue_score anchor < seal then (w, Inl block_invalid_lifecycle)
             else if mode = Rebuild \<and> genesis \<and> (msa_blue_score anchor \<noteq> 0 \<or> seal \<noteq> 0)
                  then (w, Inl block_invalid_lifecycle)
             else
               (w\<lparr>bp_run := BpActive
                   \<lparr>ar_stage = RsSynchronizing (if mode = Rebuild \<and> \<not> genesis then PreSeal seal else PostSeal),
                    ar_sources = fmempty,
                    ar_emit_boundary_sealed_on_start = (mode = Rebuild \<and> genesis)\<rparr>\<rparr>, Inr ()))"

definition bp_startup :: "bp_worker \<Rightarrow> (bp_worker \<times> (component_fault + unit)) option" where
  "bp_startup w =
     (case bp_run w of
        BpInert _ \<Rightarrow> Some (w, Inl block_invalid_lifecycle)
      | BpActive r \<Rightarrow>
          if \<not> bp_orphan w then None
          else if \<not> ar_emit_boundary_sealed_on_start r then Some (w, Inr ())
          else
            (case bp_send_event PpBoundarySealed w of
               (w', True) \<Rightarrow> Some (w', Inr ())
             | (w', False) \<Rightarrow>
                 Some (w'\<lparr>bp_faulted := True\<rparr>, Inl (ownership_component_fault BlockProcessor InternalControlPathLost))))"

definition bp_handle_command ::
  "('d, 'n) bp_env \<Rightarrow> 'd \<Rightarrow> bp_worker \<Rightarrow> block_processor_command \<Rightarrow> bp_worker \<times> 'd \<times> bool" where
  "bp_handle_command env db w command =
     (let refuse = (case bp_enter_fault env db block_invalid_lifecycle w of (w', db') \<Rightarrow> (w', db', False))
      in case command of
           BcCatchup known_id_lower_bound \<Rightarrow>
             (case bp_run w of
                BpActive r \<Rightarrow>
                  if ar_stage r = RsSynchronizing PostSeal
                  then (w\<lparr>bp_run := BpActive (r\<lparr>ar_stage := RsCatchup known_id_lower_bound, ar_sources := fmempty\<rparr>),
                          bp_overlap := False\<rparr>, db, False)
                  else refuse
              | BpInert _ \<Rightarrow> refuse)
         | BcLive \<Rightarrow>
             (case bp_run w of
                BpActive r \<Rightarrow>
                  (case ar_stage r of
                     RsCatchup _ \<Rightarrow> (w\<lparr>bp_run := BpActive (r\<lparr>ar_stage := RsLive\<rparr>)\<rparr>, db, False)
                   | _ \<Rightarrow> refuse)
              | BpInert _ \<Rightarrow> refuse)
         | BcShutdown \<Rightarrow> (case shutdown_worker env db w of (w', db', _) \<Rightarrow> (w', db', True)))"

section \<open>Blocks\<close>

text \<open>A send on a bounded channel is logged when it is accepted.\<close>

definition send_persisted ::
  "('d, 'n) bp_env \<Rightarrow> 'd \<Rightarrow> bp_worker \<Rightarrow> persisted_block \<Rightarrow> bp_worker \<times> 'd \<times> try_send_error option" where
  "send_persisted env db w persisted =
     (case be_persisted_try_send env db persisted of
        (db', None) \<Rightarrow> (w\<lparr>bp_persisted := bp_persisted w @ [persisted]\<rparr>, db', None)
      | (db', Some error) \<Rightarrow> (w, db', Some error))"

definition send_orphan ::
  "('d, 'n) bp_env \<Rightarrow> 'd \<Rightarrow> bp_worker \<Rightarrow> orphan_message \<Rightarrow> bp_worker \<times> 'd \<times> try_send_error option" where
  "send_orphan env db w message =
     (case be_orphan_try_send env db message of
        (db', None) \<Rightarrow> (w\<lparr>bp_orphan_messages := bp_orphan_messages w @ [message]\<rparr>, db', None)
      | (db', Some error) \<Rightarrow> (w, db', Some error))"

definition deliver_persisted ::
  "('d, 'n) bp_env \<Rightarrow> 'd \<Rightarrow> bp_worker \<Rightarrow> validated_node_block \<Rightarrow> compact_id \<Rightarrow>
   (bp_worker \<times> 'd \<times> (component_fault + unit)) option" where
  "deliver_persisted env db w block cid =
     (let persisted = \<lparr>pb_point = VspcPoint (ConsensusOrder (vnb_blue_work block) (vnb_hash block)) cid,
                       pb_selected_parent = vnb_selected_parent block\<rparr>
      in case send_persisted env db w persisted of (w1, db1, sent) \<Rightarrow>
           let first_fault = map_option (bounded_send_fault BlockProcessor (bp_is_live w)) sent
           in if \<not> bp_orphan w1 then None
              else
                case send_orphan env db1 w1 (BlockPersisted (vnb_hash block)) of (w2, db2, told) \<Rightarrow>
                  Some (w2, db2,
                    (case first_fault of
                       Some fault \<Rightarrow> Inl fault
                     | None \<Rightarrow>
                         (case told of
                            Some error \<Rightarrow> Inl (bounded_send_fault BlockProcessor (bp_is_live w) error)
                          | None \<Rightarrow> Inr ()))))"

definition is_pre_seal :: "run_stage \<Rightarrow> bool" where
  "is_pre_seal stage = (case stage_seal_phase stage of PreSeal _ \<Rightarrow> True | PostSeal \<Rightarrow> False)"

definition is_sealing :: "run_stage \<Rightarrow> validated_node_block \<Rightarrow> bool" where
  "is_sealing stage block =
     (case stage of RsSynchronizing (PreSeal seal_blue_score) \<Rightarrow> seal_blue_score \<le> vnb_blue_score block | _ \<Rightarrow> False)"

definition materialize_policy :: "run_stage \<Rightarrow> validated_node_block \<Rightarrow> reference_policy" where
  "materialize_policy stage block =
     (if is_pre_seal stage \<and> \<not> is_sealing stage block then AllowBoundaryIdentities else RequireMaterialized)"

text \<open>The branch of a newly inserted block.\<close>

definition materialize_inserted ::
  "('d, 'n) bp_env \<Rightarrow> 'd \<Rightarrow> bp_worker \<Rightarrow> active_run \<Rightarrow> validated_node_block \<Rightarrow> block_committed \<Rightarrow>
   (bp_worker \<times> 'd \<times> (component_fault + block_disposition)) option" where
  "materialize_inserted env db w r block committed =
     (case be_offer_block_committed env db committed of (db1, offer) \<Rightarrow>
        if is_pre_seal (ar_stage r) \<and> offer \<noteq> Inr SuppressedAwaitingCatchup \<and> offer \<noteq> Inl ReceiverClosed
        then Some (w, db1, Inl (ownership_component_fault BlockProcessor InvalidLifecycleControl))
        else do {
          (w2, db2, delivery) \<leftarrow> deliver_persisted env db1 w block (bk_id committed);
          let conclude = (\<lambda>w. Some (w, db2, map_sum (\<lambda>fault. fault) (\<lambda>_. Persisted) delivery));
          if is_sealing (ar_stage r) block then
            (case bp_send_event PpBoundarySealed (w2\<lparr>bp_run := BpActive (r\<lparr>ar_stage := RsSynchronizing PostSeal\<rparr>)\<rparr>) of
               (w3, True) \<Rightarrow> conclude w3
             | (w3, False) \<Rightarrow>
                 Some (w3, db2, Inl (ownership_component_fault BlockProcessor InternalControlPathLost)))
          else conclude w2 })"

definition materialize ::
  "('d, 'n) bp_env \<Rightarrow> 'd \<Rightarrow> bp_worker \<Rightarrow> validated_node_block \<Rightarrow>
   (bp_worker \<times> 'd \<times> (component_fault + block_disposition)) option" where
  "materialize env db w block =
     (case bp_run w of
        BpInert _ \<Rightarrow> None
      | BpActive r \<Rightarrow>
          (case be_materialize_block env db block (materialize_policy (ar_stage r) block) of
             (db1, Inr (AlreadyMaterialized cid _)) \<Rightarrow> do {
               (w2, db2, delivery) \<leftarrow> deliver_persisted env db1 w block cid;
               Some (w2, db2, map_sum (\<lambda>fault. fault) (\<lambda>_. Persisted) delivery) }
           | (db1, Inr (Inserted committed)) \<Rightarrow> materialize_inserted env db1 w r block committed
           | (db1, Inl (IncomingBoundaryIdentity _)) \<Rightarrow> Some (w, db1, Inl materiality_fault)
           | (db1, Inl (NonMaterializedReferences missing identity_only)) \<Rightarrow>
               if identity_only \<noteq> [] then Some (w, db1, Inl materiality_fault)
               else if permits_orphans (ar_stage r) then
                 (if \<not> bp_orphan w then None
                  else case send_orphan env db1 w (AddOrphan block missing) of
                         (w2, db2, None) \<Rightarrow> Some (w2, db2, Inr Orphaned)
                       | (w2, db2, Some error) \<Rightarrow>
                           Some (w2, db2, Inl (bounded_send_fault BlockProcessor (bp_is_live w) error)))
               else Some (w, db1, Inl \<lparr>cf_source = BlockProcessor, cf_disposition = Require Resync,
                                       cf_kind = ReconciliationFailed\<rparr>)
           | (db1, Inl (MbDatabase error)) \<Rightarrow> Some (w, db1, Inl (storage_fault error (bp_is_live w)))))"

definition record_source :: "bp_worker \<Rightarrow> block_hash \<Rightarrow> block_source \<Rightarrow> bp_worker" where
  "record_source w hash source =
     (case bp_run w of
        BpInert _ \<Rightarrow> w
      | BpActive r \<Rightarrow>
          (case ar_stage r of
             RsCatchup _ \<Rightarrow>
               if source = SrcResolution then w
               else
                 let bits = bits_insert (case fmlookup (ar_sources r) hash of Some b \<Rightarrow> b | None \<Rightarrow> 0) source;
                     w1 = w\<lparr>bp_run := BpActive (r\<lparr>ar_sources := fmupd hash bits (ar_sources r)\<rparr>)\<rparr>
                 in if bits_overlap bits then w1\<lparr>bp_overlap := True\<rparr> else w1
           | _ \<Rightarrow> w))"

definition presence_id :: "block_presence \<Rightarrow> compact_id option" where
  "presence_id presence =
     (case presence of Absent \<Rightarrow> None | BoundaryIdentity cid \<Rightarrow> Some cid | Materialized cid _ \<Rightarrow> Some cid)"

text \<open>The two early returns for a notification whose block is already accounted for.\<close>

definition notification_ignored :: "active_run \<Rightarrow> block_hash \<Rightarrow> block_presence \<Rightarrow> bool" where
  "notification_ignored r hash presence =
     ((case (ar_stage r, presence_id presence) of
         (RsCatchup known_id_lower_bound, Some cid) \<Rightarrow> cid < known_id_lower_bound
       | _ \<Rightarrow> False) \<or>
      bits_contain (case fmlookup (ar_sources r) hash of Some b \<Rightarrow> b | None \<Rightarrow> 0) SrcNotification)"

definition bp_handle_block ::
  "('d, 'n) bp_env \<Rightarrow> 'd \<Rightarrow> bp_worker \<Rightarrow> validated_node_block \<Rightarrow> block_source \<Rightarrow> (bp_worker \<times> 'd) option" where
  "bp_handle_block env db w block source =
     (case bp_run w of
        BpInert _ \<Rightarrow> Some (w, db)
      | BpActive r \<Rightarrow>
          if source = SrcNotification \<and> \<not> accepts_notifications (ar_stage r) then Some (w, db)
          else
            (case be_block_presence env db (vnb_hash block) of
               Inl error \<Rightarrow> Some (bp_enter_fault env db (storage_fault error (bp_is_live w)) w)
             | Inr presence \<Rightarrow>
                 if source = SrcNotification \<and> notification_ignored r (vnb_hash block) presence then Some (w, db)
                 else do {
                   (w1, db1, result) \<leftarrow>
                     (case presence of
                        BoundaryIdentity _ \<Rightarrow> Some (w, db, Inl materiality_fault)
                      | Materialized cid _ \<Rightarrow>
                          map_option (\<lambda>(w1, db1, delivery). (w1, db1, map_sum (\<lambda>fault. fault) (\<lambda>_. Persisted) delivery))
                            (deliver_persisted env db w block cid)
                      | Absent \<Rightarrow> materialize env db w block);
                   Some (case result of
                           Inr _ \<Rightarrow> (record_source w1 (vnb_hash block) source, db1)
                         | Inl fault \<Rightarrow> bp_enter_fault env db1 fault w1) }))"

definition bp_handle_resolution ::
  "('d, 'n) bp_env \<Rightarrow> 'd \<Rightarrow> bp_worker \<Rightarrow> block_resolution_event \<Rightarrow> (bp_worker \<times> 'd) option" where
  "bp_handle_resolution env db w event =
     (case event of
        OrphanReady block \<Rightarrow> bp_handle_block env db w block SrcResolution
      | DependencyResolved requested_hash (Inr block) \<Rightarrow>
          if vnb_hash block \<noteq> requested_hash
          then Some (bp_enter_fault env db (ownership_component_fault DependencyResolver InvalidLifecycleControl) w)
          else bp_handle_block env db w block SrcResolution
      | DependencyResolved requested_hash (Inl error) \<Rightarrow>
          Some (bp_enter_fault env db (node_fault error (bp_is_live w)) w))"

definition bp_handle_child_fault :: "('d, 'n) bp_env \<Rightarrow> 'd \<Rightarrow> bp_worker \<Rightarrow> child_fault \<Rightarrow> bp_worker \<times> 'd" where
  "bp_handle_child_fault env db w fault = bp_enter_fault env db (child_fault_mapped fault (bp_is_live w)) w"

section \<open>The run loop\<close>

definition bp_command_path_closed :: "('d, 'n) bp_env \<Rightarrow> 'd \<Rightarrow> bp_worker \<Rightarrow> bp_worker \<times> 'd \<times> loop_outcome" where
  "bp_command_path_closed env db w =
     (case bp_report_command_path_loss env db w of (w1, db1) \<Rightarrow>
        case shutdown_worker env db1 w1 of (w2, db2, _) \<Rightarrow> (w2, db2, LoopStop))"

text \<open>A faulted or inert worker discards its data; a closed channel is always ready. The senders of
  the notification and synthetic channels belong to the processor handle that also sends the
  commands, so these two stay open while the command path does.\<close>

definition bp_idle_step :: "('d, 'n) bp_env \<Rightarrow> 'd \<Rightarrow> bp_worker \<Rightarrow> bp_worker \<times> 'd \<times> loop_outcome" where
  "bp_idle_step env db w =
     (if bp_commands_closed w then bp_command_path_closed env db w
      else if bp_notifications w \<noteq> [] then (w\<lparr>bp_notifications := tl (bp_notifications w)\<rparr>, db, LoopContinue)
      else if bp_synthetic w \<noteq> [] then (w\<lparr>bp_synthetic := tl (bp_synthetic w)\<rparr>, db, LoopContinue)
      else if bp_resolution w \<noteq> [] \<or> bp_resolution_closed w
           then (w\<lparr>bp_resolution := tl (bp_resolution w)\<rparr>, db, LoopContinue)
      else if bp_child_faults w \<noteq> [] \<or> bp_child_faults_closed w
           then (w\<lparr>bp_child_faults := tl (bp_child_faults w)\<rparr>, db, LoopContinue)
      else (w, db, LoopBlocked))"

definition bp_wait_step :: "('d, 'n) bp_env \<Rightarrow> 'd \<Rightarrow> bp_worker \<Rightarrow> bp_worker \<times> 'd \<times> loop_outcome" where
  "bp_wait_step env db w =
     (if bp_commands_closed w then bp_command_path_closed env db w
      else if bp_child_faults_closed w then
        (case bp_enter_fault env db (ownership_component_fault OrphanManager UnexpectedWorkerTermination) w of
           (w', db') \<Rightarrow> (w', db', LoopContinue))
      else if bp_resolution_closed w then
        (case bp_enter_fault env db (block_session_endpoint_fault OrphanManager (bp_is_live w)) w of
           (w', db') \<Rightarrow> (w', db', LoopContinue))
      else (w, db, LoopBlocked))"

definition bp_loop_step :: "('d, 'n) bp_env \<Rightarrow> 'd \<Rightarrow> bp_worker \<Rightarrow> (bp_worker \<times> 'd \<times> loop_outcome) option" where
  "bp_loop_step env db w =
     (case bp_commands w of
        command # rest \<Rightarrow>
          (case bp_handle_command env db (w\<lparr>bp_commands := rest\<rparr>) command of
             (w', db', finished) \<Rightarrow> Some (w', db', if finished then LoopStop else LoopContinue))
      | [] \<Rightarrow>
          if bp_faulted w \<or> (case bp_run w of BpInert _ \<Rightarrow> True | BpActive _ \<Rightarrow> False)
          then Some (bp_idle_step env db w)
          else
            (case bp_child_faults w of
               fault # rest \<Rightarrow>
                 (case bp_handle_child_fault env db (w\<lparr>bp_child_faults := rest\<rparr>) fault of
                    (w', db') \<Rightarrow> Some (w', db', LoopContinue))
             | [] \<Rightarrow>
                 (case bp_resolution w of
                    event # rest \<Rightarrow>
                      map_option (\<lambda>(w', db'). (w', db', LoopContinue))
                        (bp_handle_resolution env db (w\<lparr>bp_resolution := rest\<rparr>) event)
                  | [] \<Rightarrow>
                      (case bp_notifications w of
                         block # rest \<Rightarrow>
                           map_option (\<lambda>(w', db'). (w', db', LoopContinue))
                             (bp_handle_block env db (w\<lparr>bp_notifications := rest\<rparr>) block SrcNotification)
                       | [] \<Rightarrow>
                           (case bp_synthetic w of
                              block # rest \<Rightarrow>
                                map_option (\<lambda>(w', db'). (w', db', LoopContinue))
                                  (bp_handle_block env db (w\<lparr>bp_synthetic := rest\<rparr>) block SrcSynthetic)
                            | [] \<Rightarrow> Some (bp_wait_step env db w))))))"

section \<open>A new processor\<close>

definition bp_new :: "recovery_mode \<Rightarrow> bp_worker" where
  "bp_new mode =
     \<lparr>bp_commands = [], bp_commands_closed = False, bp_notifications = [], bp_synthetic = [],
      bp_resolution = [], bp_resolution_closed = False, bp_child_faults = [], bp_child_faults_closed = False,
      bp_events = [], bp_events_closed = False, bp_persisted = [], bp_orphan_messages = [], bp_orphan = True,
      bp_overlap = False, bp_run = BpInert mode, bp_faulted = False\<rparr>"

section \<open>Invariant\<close>

definition sealed_count :: "block_processor_event list \<Rightarrow> nat" where
  "sealed_count events = length (filter (\<lambda>e. e = PpBoundarySealed) events)"

definition fault_count :: "block_processor_event list \<Rightarrow> nat" where
  "fault_count events = length (filter (\<lambda>e. e \<noteq> PpBoundarySealed) events)"

fun told_persisted :: "orphan_message list \<Rightarrow> block_hash list" where
  "told_persisted [] = []"
| "told_persisted (BlockPersisted h # ms) = h # told_persisted ms"
| "told_persisted (AddOrphan _ _ # ms) = told_persisted ms"

fun told_orphans :: "orphan_message list \<Rightarrow> block_hash list" where
  "told_orphans [] = []"
| "told_orphans (AddOrphan b _ # ms) = vnb_hash b # told_orphans ms"
| "told_orphans (BlockPersisted _ # ms) = told_orphans ms"

definition persisted_hashes :: "bp_worker \<Rightarrow> block_hash list" where
  "persisted_hashes w = map (\<lambda>p. vp_hash (pb_point p)) (bp_persisted w)"

text \<open>The overlap flag says that some block of the catch-up came from both sources; no orphan is
  parked and no source recorded before catch-up; nothing is sealed before the seal.\<close>

definition bp_run_inv :: "bp_worker \<Rightarrow> bool" where
  "bp_run_inv w =
     (case bp_run w of
        BpInert _ \<Rightarrow> \<not> bp_overlap w \<and> told_orphans (bp_orphan_messages w) = [] \<and> sealed_count (bp_events w) = 0
      | BpActive r \<Rightarrow>
          fmpred (\<lambda>_ b. b = 1 \<or> b = 2 \<or> b = 3) (ar_sources r) \<and>
          (bp_overlap w \<longleftrightarrow> \<not> fmpred (\<lambda>_ b. b \<noteq> 3) (ar_sources r)) \<and>
          (\<not> permits_orphans (ar_stage r) \<longrightarrow> ar_sources r = fmempty \<and> told_orphans (bp_orphan_messages w) = []) \<and>
          (is_pre_seal (ar_stage r) \<longrightarrow> sealed_count (bp_events w) = 0) \<and>
          sealed_count (bp_events w) \<le> 1)"

definition bp_core_inv :: "bp_worker \<Rightarrow> bool" where
  "bp_core_inv w =
     (bp_run_inv w \<and> (\<not> bp_faulted w \<longrightarrow> bp_orphan w \<and> fault_count (bp_events w) = 0) \<and> fault_count (bp_events w) \<le> 2)"

definition bp_inv :: "bp_worker \<Rightarrow> bool" where
  "bp_inv w = (bp_core_inv w \<and> (\<not> bp_faulted w \<longrightarrow> told_persisted (bp_orphan_messages w) = persisted_hashes w))"

text \<open>Stages only move forward.\<close>

definition stage_rank :: "run_stage \<Rightarrow> nat" where
  "stage_rank stage = (case stage of RsSynchronizing (PreSeal _) \<Rightarrow> 0 | RsSynchronizing PostSeal \<Rightarrow> 1 | RsCatchup _ \<Rightarrow> 2 | RsLive \<Rightarrow> 3)"

definition run_rank :: "block_processor_run \<Rightarrow> nat" where
  "run_rank run = (case run of BpInert _ \<Rightarrow> 0 | BpActive r \<Rightarrow> Suc (stage_rank (ar_stage r)))"

lemma count_simps [simp]:
  "sealed_count (es @ fs) = sealed_count es + sealed_count fs" "fault_count (es @ fs) = fault_count es + fault_count fs"
  "sealed_count (PpBoundarySealed # es) = Suc (sealed_count es)" "sealed_count (BpFault f # es) = sealed_count es"
  "fault_count (PpBoundarySealed # es) = fault_count es" "fault_count (BpFault f # es) = Suc (fault_count es)"
  "sealed_count [] = 0" "fault_count [] = 0"
  by (simp_all add: sealed_count_def fault_count_def)

lemma told_simps [simp]:
  "told_persisted (ms @ ns) = told_persisted ms @ told_persisted ns" "told_orphans (ms @ ns) = told_orphans ms @ told_orphans ns"
  by (induction ms rule: told_persisted.induct; simp) (induction ms rule: told_orphans.induct; simp)

lemma enter_fault_spec:
  assumes "bp_core_inv w"
  shows "bp_inv (fst (bp_enter_fault env db f w))" "bp_run (fst (bp_enter_fault env db f w)) = bp_run w"
    "bp_faulted (fst (bp_enter_fault env db f w))"
proof -
  have *: "case bp_enter_fault env db f w of (w', _) \<Rightarrow>
      bp_run w' = bp_run w \<and> bp_faulted w' \<and> bp_overlap w' = bp_overlap w \<and> bp_orphan_messages w' = bp_orphan_messages w \<and>
      sealed_count (bp_events w') = sealed_count (bp_events w) \<and> fault_count (bp_events w') \<le> 2"
    using assms by (auto simp: bp_enter_fault_def bp_send_event_def shutdown_orphan_def Let_def bp_core_inv_def split: prod.splits sum.splits if_splits)
  then show "bp_run (fst (bp_enter_fault env db f w)) = bp_run w" "bp_faulted (fst (bp_enter_fault env db f w))"
    by (auto split: prod.splits)
  show "bp_inv (fst (bp_enter_fault env db f w))"
    using * assms by (auto simp: bp_inv_def bp_core_inv_def bp_run_inv_def split: prod.splits block_processor_run.splits)
qed

lemma deliver_persisted_spec:
  assumes "bp_orphan w"
  shows "\<exists>ps ms db' d. deliver_persisted env db w block cid =
      Some (w\<lparr>bp_persisted := bp_persisted w @ ps, bp_orphan_messages := bp_orphan_messages w @ ms\<rparr>, db', d) \<and>
    told_orphans ms = [] \<and> (d = Inr () \<longrightarrow> told_persisted ms = map (\<lambda>p. vp_hash (pb_point p)) ps)"
proof -
  have same: "w = w\<lparr>bp_persisted := bp_persisted w @ [], bp_orphan_messages := bp_orphan_messages w @ []\<rparr>"
    "w\<lparr>bp_persisted := x\<rparr> = w\<lparr>bp_persisted := x, bp_orphan_messages := bp_orphan_messages w @ []\<rparr>"
    "w\<lparr>bp_orphan_messages := y\<rparr> = w\<lparr>bp_persisted := bp_persisted w @ [], bp_orphan_messages := y\<rparr>" for x y
    by simp_all
  let ?p = "\<lparr>pb_point = VspcPoint (ConsensusOrder (vnb_blue_work block) (vnb_hash block)) cid, pb_selected_parent = vnb_selected_parent block\<rparr>"
  obtain db1 e1 where e1: "be_persisted_try_send env db ?p = (db1, e1)" by (cases "be_persisted_try_send env db ?p")
  obtain db2 e2 where e2: "be_orphan_try_send env db1 (BlockPersisted (vnb_hash block)) = (db2, e2)"
    by (cases "be_orphan_try_send env db1 (BlockPersisted (vnb_hash block))")
  let ?ps = "if e1 = None then [?p] else []" and ?ms = "if e2 = None then [BlockPersisted (vnb_hash block)] else []"
  have "\<exists>d. deliver_persisted env db w block cid =
      Some (w\<lparr>bp_persisted := bp_persisted w @ ?ps, bp_orphan_messages := bp_orphan_messages w @ ?ms\<rparr>, db2, d) \<and>
      (d = Inr () \<longrightarrow> e1 = None \<and> e2 = None)"
    using assms e1 e2
    by (cases e1; cases e2) (simp_all add: deliver_persisted_def send_persisted_def send_orphan_def Let_def)
  then obtain d where "deliver_persisted env db w block cid =
      Some (w\<lparr>bp_persisted := bp_persisted w @ ?ps, bp_orphan_messages := bp_orphan_messages w @ ?ms\<rparr>, db2, d)"
      "d = Inr () \<longrightarrow> e1 = None \<and> e2 = None" by blast
  then show ?thesis by (intro exI[of _ ?ps] exI[of _ ?ms] exI[of _ db2] exI[of _ d]) (auto simp: vp_hash_def)
qed

section \<open>Handlers keep the invariant\<close>

text \<open>What every handler of a running worker promises.\<close>

definition handled :: "bp_worker \<Rightarrow> bp_worker \<Rightarrow> bool" where
  "handled w w' \<longleftrightarrow> bp_inv w' \<and> run_rank (bp_run w) \<le> run_rank (bp_run w')"

lemma fault_handled: "bp_core_inv w \<Longrightarrow> run_rank (bp_run w0) \<le> run_rank (bp_run w) \<Longrightarrow> handled w0 (fst (bp_enter_fault env db f w))"
  using enter_fault_spec[of w env db f] by (simp add: handled_def)

lemma core_delivery:
  assumes "bp_core_inv w" "told_orphans ms = []"
  shows "bp_core_inv (w\<lparr>bp_persisted := ps, bp_orphan_messages := bp_orphan_messages w @ ms\<rparr>)"
  using assms by (auto simp: bp_core_inv_def bp_run_inv_def split: block_processor_run.splits)

text \<open>A handler's body: the worker with its core invariant, and the full one unless it failed.\<close>

definition body_ok :: "bp_worker \<Rightarrow> bp_worker \<Rightarrow> component_fault + 'a \<Rightarrow> bool" where
  "body_ok w w' result \<longleftrightarrow>
     bp_core_inv w' \<and> run_rank (bp_run w) \<le> run_rank (bp_run w') \<and> ((\<exists>x. result = Inr x) \<longrightarrow> bp_inv w')"

lemma deliver_body_ok:
  assumes inv: "bp_inv w" and alive: "\<not> bp_faulted w"
  shows "\<exists>w' db' d. deliver_persisted env db w block cid = Some (w', db', d) \<and> body_ok w w' d \<and>
    bp_run w' = bp_run w \<and> bp_events w' = bp_events w \<and> bp_faulted w' = bp_faulted w \<and> bp_orphan w' = bp_orphan w \<and>
    bp_events_closed w' = bp_events_closed w \<and> bp_overlap w' = bp_overlap w \<and>
    told_orphans (bp_orphan_messages w') = told_orphans (bp_orphan_messages w)"
proof -
  have orphan: "bp_orphan w" using inv alive by (simp add: bp_inv_def bp_core_inv_def)
  obtain ps ms db' d where d: "deliver_persisted env db w block cid =
      Some (w\<lparr>bp_persisted := bp_persisted w @ ps, bp_orphan_messages := bp_orphan_messages w @ ms\<rparr>, db', d)"
    "told_orphans ms = []" "d = Inr () \<longrightarrow> told_persisted ms = map (\<lambda>p. vp_hash (pb_point p)) ps"
    using deliver_persisted_spec[OF orphan, of env db block cid] by blast
  let ?w = "w\<lparr>bp_persisted := bp_persisted w @ ps, bp_orphan_messages := bp_orphan_messages w @ ms\<rparr>"
  have "bp_core_inv ?w" using inv d(2) by (intro core_delivery) (simp_all add: bp_inv_def)
  then have "body_ok w ?w d" using d(3) inv by (auto simp: body_ok_def bp_inv_def persisted_hashes_def)
  then show ?thesis using d by auto
qed

lemma seal_body_ok:
  assumes body: "body_ok w0 w d" and run: "bp_run w = BpActive r" and seal: "is_sealing (ar_stage r) block"
  shows "body_ok w0 ((w\<lparr>bp_run := BpActive (r\<lparr>ar_stage := RsSynchronizing PostSeal\<rparr>)\<rparr>)\<lparr>bp_events := bp_events w @ [PpBoundarySealed]\<rparr>) d"
    "bp_core_inv (w\<lparr>bp_run := BpActive (r\<lparr>ar_stage := RsSynchronizing PostSeal\<rparr>)\<rparr>)"
    "run_rank (bp_run w0) \<le> run_rank (BpActive (r\<lparr>ar_stage := RsSynchronizing PostSeal\<rparr>))"
proof -
  obtain sb where st: "ar_stage r = RsSynchronizing (PreSeal sb)"
    using seal by (auto simp: is_sealing_def split: run_stage.splits seal_phase.splits)
  show "body_ok w0 ((w\<lparr>bp_run := BpActive (r\<lparr>ar_stage := RsSynchronizing PostSeal\<rparr>)\<rparr>)\<lparr>bp_events := bp_events w @ [PpBoundarySealed]\<rparr>) d"
    "bp_core_inv (w\<lparr>bp_run := BpActive (r\<lparr>ar_stage := RsSynchronizing PostSeal\<rparr>)\<rparr>)"
    "run_rank (bp_run w0) \<le> run_rank (BpActive (r\<lparr>ar_stage := RsSynchronizing PostSeal\<rparr>))"
    using body run st
    by (auto simp: body_ok_def bp_inv_def bp_core_inv_def bp_run_inv_def run_rank_def stage_rank_def permits_orphans_def
        is_pre_seal_def stage_seal_phase_def persisted_hashes_def)
qed

lemma body_ok_map [simp]: "body_ok w w' (map_sum (\<lambda>f. f) g d) = body_ok w w' d"
  by (cases d) (simp_all add: body_ok_def)

lemma materialize_inserted_ok:
  assumes inv: "bp_inv w" and alive: "\<not> bp_faulted w" and run: "bp_run w = BpActive r"
  shows "\<exists>w' db' d. materialize_inserted env db w r block committed = Some (w', db', d) \<and> body_ok w w' d"
proof -
  obtain db1 offer where offer: "be_offer_block_committed env db committed = (db1, offer)"
    by (cases "be_offer_block_committed env db committed")
  obtain w2 db2 d where d: "deliver_persisted env db1 w block (bk_id committed) = Some (w2, db2, d)" "body_ok w w2 d"
    "bp_run w2 = bp_run w" "bp_events w2 = bp_events w" "bp_events_closed w2 = bp_events_closed w"
    using deliver_body_ok[OF inv alive, of env db1 block "bk_id committed"] by blast
  have stay: "body_ok w w (Inl f :: component_fault + block_disposition)" for f using inv by (simp add: body_ok_def bp_inv_def)
  show ?thesis
  proof (cases "is_sealing (ar_stage r) block")
    case True
    note s = seal_body_ok[OF d(2) d(3)[unfolded run] True]
    show ?thesis
      using offer d(1) True s stay
      by (auto simp: materialize_inserted_def bp_send_event_def Let_def body_ok_def[of _ _ "Inl _"] split: if_splits)
  next
    case False
    then show ?thesis using offer d(1,2) stay by (auto simp: materialize_inserted_def Let_def)
  qed
qed

lemma materialize_ok:
  assumes inv: "bp_inv w" and alive: "\<not> bp_faulted w" and run: "bp_run w = BpActive r"
  shows "\<exists>w' db' d. materialize env db w block = Some (w', db', d) \<and> body_ok w w' d"
proof -
  have orphan: "bp_orphan w" using inv alive by (simp add: bp_inv_def bp_core_inv_def)
  have stay: "body_ok w w (Inl f :: component_fault + block_disposition)" for f using inv by (simp add: body_ok_def bp_inv_def)
  have parked: "body_ok w (w\<lparr>bp_orphan_messages := bp_orphan_messages w @ [AddOrphan block missing]\<rparr>) (Inr Orphaned)"
    if "permits_orphans (ar_stage r)" for missing
    using inv run that by (auto simp: body_ok_def bp_inv_def bp_core_inv_def bp_run_inv_def persisted_hashes_def)
  obtain db1 res where res: "be_materialize_block env db block (materialize_policy (ar_stage r) block) = (db1, res)"
    by (cases "be_materialize_block env db block (materialize_policy (ar_stage r) block)")
  show ?thesis
  proof (cases res)
    case (Inr ok)
    show ?thesis
    proof (cases ok)
      case (Inserted c)
      then show ?thesis using run res Inr materialize_inserted_ok[OF inv alive run, of env db1 block c] by (simp add: materialize_def)
    next
      case (AlreadyMaterialized cid k)
      then show ?thesis using run res Inr deliver_body_ok[OF inv alive, of env db1 block cid] by (auto simp: materialize_def)
    qed
  next
    case (Inl e)
    then show ?thesis using run res stay parked orphan
      by (cases e) (auto simp: materialize_def send_orphan_def split: prod.splits option.splits)
  qed
qed

lemma bits_insert_cases:
  assumes "b = 0 \<or> b = 1 \<or> b = 2 \<or> b = 3" "src \<noteq> SrcResolution"
  shows "bits_insert b src \<in> {1, 2, 3}" "b = 3 \<Longrightarrow> bits_insert b src = 3"
  using assms by (cases src; auto simp: bits_insert_def source_bits_from_def; fail)+

lemma record_source_ok:
  assumes inv: "bp_inv w"
  shows "bp_inv (record_source w h src) \<and> run_rank (bp_run (record_source w h src)) = run_rank (bp_run w)"
proof (cases "\<exists>r lb. bp_run w = BpActive r \<and> ar_stage r = RsCatchup lb \<and> src \<noteq> SrcResolution")
  case True
  then obtain r lb where r: "bp_run w = BpActive r" "ar_stage r = RsCatchup lb" "src \<noteq> SrcResolution" by blast
  define old where "old = (case fmlookup (ar_sources r) h of Some b \<Rightarrow> b | None \<Rightarrow> 0)"
  define new where "new = bits_insert old src"
  have pre: "fmpred (\<lambda>_ b. b = 1 \<or> b = 2 \<or> b = 3) (ar_sources r)"
    "bp_overlap w \<longleftrightarrow> (\<exists>k. fmlookup (ar_sources r) k = Some 3)"
    using inv r(1) by (auto simp: bp_inv_def bp_core_inv_def bp_run_inv_def fmpred_iff)
  have new: "new \<in> {1, 2, 3}" "old = 3 \<Longrightarrow> new = 3"
    using pre(1) bits_insert_cases[of old src] r(3) by (auto simp: old_def new_def fmpred_iff split: option.splits)
  let ?r = "r\<lparr>ar_sources := fmupd h new (ar_sources r)\<rparr>"
  have run: "record_source w h src =
      w\<lparr>bp_run := BpActive ?r, bp_overlap := (bp_overlap w \<or> new = 3)\<rparr>"
    using r by (auto simp: record_source_def Let_def old_def[symmetric] new_def[symmetric] bits_overlap_def)
  have "(bp_overlap w \<or> new = 3) \<longleftrightarrow> (\<exists>k. fmlookup (fmupd h new (ar_sources r)) k = Some 3)"
    using pre(2) new(2) by (auto simp: old_def split: option.splits) (metis option.simps(5))+
  moreover have "fmpred (\<lambda>_ b. b = 1 \<or> b = 2 \<or> b = 3) (fmupd h new (ar_sources r))"
    using pre(1) new(1) by (auto simp: fmpred_iff)
  ultimately show ?thesis
    unfolding run using inv r
    by (auto simp: bp_inv_def bp_core_inv_def bp_run_inv_def run_rank_def persisted_hashes_def permits_orphans_def
        is_pre_seal_def stage_seal_phase_def fmpred_iff split: if_splits)
next
  case False
  then have "record_source w h src = w"
    by (auto simp: record_source_def split: block_processor_run.splits run_stage.splits)
  then show ?thesis using inv by simp
qed

lemma handle_block_ok:
  assumes inv: "bp_inv w" and alive: "\<not> bp_faulted w"
  shows "\<exists>w' db'. bp_handle_block env db w block src = Some (w', db') \<and> handled w w'"
proof (cases "bp_run w")
  case (BpInert m)
  then show ?thesis using inv by (simp add: bp_handle_block_def handled_def)
next
  case (BpActive r)
  have core: "bp_core_inv w" and stay: "handled w w" using inv by (simp_all add: bp_inv_def handled_def)
  have conclude: "handled w (fst (case result of Inr _ \<Rightarrow> (record_source w1 h src, db1) | Inl fault \<Rightarrow> bp_enter_fault env db1 fault w1))"
    if "body_ok w w1 result" for w1 db1 h and result :: "component_fault + block_disposition"
    using that record_source_ok[of w1 h src] fault_handled[of w1 w env db1]
    by (cases result) (auto simp: body_ok_def handled_def)
  have finish: "\<exists>w' db'. (do { (w1, db1, result) \<leftarrow> m; Some (case result of
         Inr _ \<Rightarrow> (record_source w1 h src, db1) | Inl fault \<Rightarrow> bp_enter_fault env db1 fault w1) }) = Some (w', db') \<and> handled w w'"
    if "\<exists>w1 db1 result. m = Some (w1, db1, result) \<and> body_ok w w1 result"
    for m :: "(bp_worker \<times> 'a \<times> (component_fault + block_disposition)) option" and h
  proof -
    note returns = that
    obtain w1 db1 result where m: "m = Some (w1, db1, result)" "body_ok w w1 result"
      using returns by blast
    obtain w' db' where r: "(case result of Inr _ \<Rightarrow> (record_source w1 h src, db1) | Inl fault \<Rightarrow> bp_enter_fault env db1 fault w1) = (w', db')"
      by (meson surj_pair)
    then show ?thesis using conclude[OF m(2), where h = h and ?db1.0 = db1] m(1) by simp
  qed
  show ?thesis
  proof (cases "be_block_presence env db (vnb_hash block)")
    case (Inl e)
    then show ?thesis using BpActive stay fault_handled[OF core, of w env db "storage_fault e (bp_is_live w)"]
      by (cases "bp_enter_fault env db (storage_fault e (bp_is_live w)) w") (auto simp: bp_handle_block_def)
  next
    case (Inr presence)
    let ?m = "case presence of
        BoundaryIdentity _ \<Rightarrow> Some (w, db, Inl materiality_fault)
      | Materialized cid _ \<Rightarrow>
          map_option (\<lambda>(w1, db1, delivery). (w1, db1, map_sum (\<lambda>fault. fault) (\<lambda>_. Persisted) delivery))
            (deliver_persisted env db w block cid)
      | Absent \<Rightarrow> materialize env db w block"
    have "\<exists>w1 db1 result. ?m = Some (w1, db1, result) \<and> body_ok w w1 result"
      using materialize_ok[OF inv alive BpActive, of env db block] deliver_body_ok[OF inv alive, of env db block] core
      by (cases presence) (fastforce simp: body_ok_def[of w w])+
    from finish[OF this, of "vnb_hash block"] show ?thesis using BpActive Inr stay by (auto simp: bp_handle_block_def)
  qed
qed

lemma handle_resolution_ok:
  assumes inv: "bp_inv w" and alive: "\<not> bp_faulted w"
  shows "\<exists>w' db'. bp_handle_resolution env db w event = Some (w', db') \<and> handled w w'"
proof -
  have core: "bp_core_inv w" using inv by (simp add: bp_inv_def)
  have fault: "\<exists>w' db'. Some (bp_enter_fault env db f w) = Some (w', db') \<and> handled w w'" for f
    using fault_handled[OF core, of w env db f] by (cases "bp_enter_fault env db f w") simp
  show ?thesis
    using fault handle_block_ok[OF inv alive, where env = env and db = db]
    by (cases event) (simp_all add: bp_handle_resolution_def split: sum.splits)
qed

lemma handle_command_ok:
  assumes inv: "bp_inv w" and run: "bp_handle_command env db w c = (w', db', False)"
  shows "handled w w'"
proof -
  have core: "bp_core_inv w" using inv by (simp add: bp_inv_def)
  have refuse: "handled w (fst (bp_enter_fault env db f w))" for f by (rule fault_handled[OF core]) simp
  show ?thesis
  proof (cases c)
    case (BcCatchup lb)
    show ?thesis
    proof (cases "\<exists>r. bp_run w = BpActive r \<and> ar_stage r = RsSynchronizing PostSeal")
      case True
      then show ?thesis using inv run BcCatchup
        by (auto simp: bp_handle_command_def Let_def handled_def bp_inv_def bp_core_inv_def bp_run_inv_def run_rank_def stage_rank_def
            persisted_hashes_def permits_orphans_def is_pre_seal_def stage_seal_phase_def)
    next
      case False
      then show ?thesis using run BcCatchup refuse[of block_invalid_lifecycle]
        by (auto simp: bp_handle_command_def Let_def split: block_processor_run.splits prod.splits if_splits)
    qed
  next
    case BcLive
    show ?thesis
    proof (cases "\<exists>r lb. bp_run w = BpActive r \<and> ar_stage r = RsCatchup lb")
      case True
      then show ?thesis using inv run BcLive
        by (auto simp: bp_handle_command_def Let_def handled_def bp_inv_def bp_core_inv_def bp_run_inv_def run_rank_def stage_rank_def
            persisted_hashes_def permits_orphans_def is_pre_seal_def stage_seal_phase_def)
    next
      case False
      then show ?thesis using run BcLive refuse[of block_invalid_lifecycle]
        by (auto simp: bp_handle_command_def Let_def split: block_processor_run.splits run_stage.splits prod.splits)
    qed
  qed (use run in \<open>simp add: bp_handle_command_def Let_def split: prod.splits\<close>)
qed

end
