(* ===== verification/Block_Run.thy ===== *)
theory Block_Run
  imports Block_Processor
begin

text \<open>
  Runs of the block processor: its loop interpreted as a \<open>loop_contract\<close>, the workers reachable from a
  new processor, and what the invariant gives of them.
\<close>

section \<open>Mailboxes\<close>

definition bp_boxes :: "bp_worker \<Rightarrow> nat" where
  "bp_boxes w = length (bp_commands w) + length (bp_notifications w) + length (bp_synthetic w) +
     length (bp_resolution w) + length (bp_child_faults w)"

lemma bp_enter_fault_boxes: "bp_enter_fault env db f w = (w', db') \<Longrightarrow> bp_boxes w' \<le> bp_boxes w"
  by (auto simp: bp_enter_fault_def bp_send_event_def shutdown_orphan_def Let_def bp_boxes_def split: prod.splits sum.splits if_splits)

lemma deliver_boxes: "deliver_persisted env db w block cid = Some (w', db', d) \<Longrightarrow> bp_boxes w' = bp_boxes w"
  by (auto simp: deliver_persisted_def send_persisted_def send_orphan_def Let_def bp_boxes_def split: prod.splits option.splits if_splits)

lemma materialize_boxes: "materialize env db w block = Some (w', db', d) \<Longrightarrow> bp_boxes w' = bp_boxes w"
proof -
  have ins: "bp_boxes w' = bp_boxes w" if "materialize_inserted env db1 w r block c = Some (w', db', d)" for db1 r c
    using that
    by (auto simp: materialize_inserted_def bp_send_event_def Let_def split: prod.splits if_splits bind_splits dest!: deliver_boxes)
      (simp_all add: bp_boxes_def)
  show "materialize env db w block = Some (w', db', d) \<Longrightarrow> ?thesis"
    by (auto simp: materialize_def send_orphan_def split: block_processor_run.splits prod.splits sum.splits
        materialize_block_outcome.splits materialize_block_error.splits if_splits bind_splits option.splits
        dest!: deliver_boxes ins) (simp_all add: bp_boxes_def)
qed

lemma record_source_boxes [simp]: "bp_boxes (record_source w h src) = bp_boxes w"
  by (auto simp: record_source_def bp_boxes_def Let_def split: block_processor_run.splits run_stage.splits)

lemma handle_block_boxes:
  assumes "bp_handle_block env db w block src = Some (w', db')"
  shows "bp_boxes w' \<le> bp_boxes w"
  using assms
  by (auto simp: bp_handle_block_def split: block_processor_run.splits if_splits sum.splits bind_splits block_presence.splits
      dest!: bp_enter_fault_boxes deliver_boxes materialize_boxes)

lemma handle_resolution_boxes:
  assumes "bp_handle_resolution env db w event = Some (w', db')"
  shows "bp_boxes w' \<le> bp_boxes w"
  using assms
  by (auto simp: bp_handle_resolution_def split: block_resolution_event.splits sum.splits if_splits
      dest!: bp_enter_fault_boxes handle_block_boxes)

lemma handle_command_boxes:
  assumes "bp_handle_command env db w c = (w', db', False)"
  shows "bp_boxes w' \<le> bp_boxes w"
  using assms
  by (auto simp: bp_handle_command_def Let_def split: block_processor_command.splits block_processor_run.splits run_stage.splits
      if_splits prod.splits dest!: bp_enter_fault_boxes) (simp_all add: bp_boxes_def)

section \<open>The run loop\<close>

lemma bp_inv_boxes [simp]:
  "bp_inv (w\<lparr>bp_commands := a\<rparr>) = bp_inv w" "bp_inv (w\<lparr>bp_notifications := b\<rparr>) = bp_inv w"
  "bp_inv (w\<lparr>bp_synthetic := b\<rparr>) = bp_inv w" "bp_inv (w\<lparr>bp_resolution := c\<rparr>) = bp_inv w"
  "bp_inv (w\<lparr>bp_child_faults := d\<rparr>) = bp_inv w" "bp_inv (w\<lparr>bp_commands_closed := e\<rparr>) = bp_inv w"
  "bp_inv (w\<lparr>bp_resolution_closed := e\<rparr>) = bp_inv w" "bp_inv (w\<lparr>bp_child_faults_closed := e\<rparr>) = bp_inv w"
  "bp_inv (w\<lparr>bp_events_closed := e\<rparr>) = bp_inv w"
  by (simp_all add: bp_inv_def bp_core_inv_def bp_run_inv_def persisted_hashes_def split: block_processor_run.split)

lemma handled_boxes [simp]:
  "handled (w\<lparr>bp_commands := a\<rparr>) w' = handled w w'" "handled (w\<lparr>bp_notifications := b\<rparr>) w' = handled w w'"
  "handled (w\<lparr>bp_synthetic := b\<rparr>) w' = handled w w'" "handled (w\<lparr>bp_resolution := c\<rparr>) w' = handled w w'"
  "handled (w\<lparr>bp_child_faults := d\<rparr>) w' = handled w w'"
  by (simp_all add: handled_def)

definition bp_idle :: "bp_worker \<Rightarrow> bool" where
  "bp_idle w = (bp_faulted w \<or> (case bp_run w of BpInert _ \<Rightarrow> True | BpActive _ \<Rightarrow> False))"

text \<open>What an iteration does: it keeps the invariant unless it stops, moves the stage only forward,
  and, while the worker is at work, consumes a message or faults when it goes on.\<close>

definition bp_iteration_ok :: "bp_worker \<Rightarrow> bp_worker \<Rightarrow> loop_outcome \<Rightarrow> bool" where
  "bp_iteration_ok w w' out \<longleftrightarrow>
     (out \<noteq> LoopStop \<longrightarrow> handled w w') \<and>
     (out = LoopContinue \<and> \<not> bp_idle w \<longrightarrow> bp_faulted w' \<or> bp_boxes w' < bp_boxes w) \<and>
     (out = LoopBlocked \<longrightarrow> w' = w \<and> bp_boxes w = 0)"

lemma bp_fault_ok:
  assumes "bp_inv w" "bp_enter_fault env db f w = (w', db')"
  shows "bp_iteration_ok w w' LoopContinue"
  using fault_handled[of w w env db f] enter_fault_spec(3)[of w env db f] assms by (simp add: bp_iteration_ok_def bp_inv_def)

lemma bp_closed_stops: "snd (snd (bp_command_path_closed env db w)) = LoopStop"
  by (simp add: bp_command_path_closed_def split: prod.splits)

lemma bp_stop_ok: "bp_iteration_ok w w' LoopStop"
  by (simp add: bp_iteration_ok_def)

lemma bp_idle_ok:
  assumes inv: "bp_inv w" and idle: "bp_idle w" "bp_commands w = []"
  shows "case bp_idle_step env db w of (w', db', out) \<Rightarrow> bp_iteration_ok w w' out"
proof -
  obtain w' db' out where r: "bp_idle_step env db w = (w', db', out)" by (metis prod_cases3)
  have "bp_iteration_ok w w' out"
  proof (cases "bp_commands_closed w")
    case True
    then have "out = LoopStop" using r bp_closed_stops[of env db w] by (simp add: bp_idle_step_def)
    then show ?thesis by (simp add: bp_stop_ok)
  next
    case False
    then show ?thesis using r inv idle
      by (auto simp: bp_idle_step_def bp_iteration_ok_def bp_boxes_def handled_def split: if_splits)
  qed
  then show ?thesis using r by simp
qed

lemma bp_wait_ok:
  assumes inv: "bp_inv w" and empty: "bp_boxes w = 0"
  shows "case bp_wait_step env db w of (w', db', out) \<Rightarrow> bp_iteration_ok w w' out"
proof -
  have blocked: "bp_iteration_ok w w LoopBlocked" using inv empty by (simp add: bp_iteration_ok_def handled_def)
  have stop: "case bp_command_path_closed env db w of (w', db', out) \<Rightarrow> bp_iteration_ok w w' out"
    using bp_closed_stops[of env db w] bp_stop_ok by (auto split: prod.splits)
  show ?thesis using stop blocked bp_fault_ok[OF inv] by (auto simp: bp_wait_step_def split: prod.splits)
qed

lemma bp_consume_ok:
  assumes "handled w w'" "bp_boxes w' \<le> bp_boxes w1" "bp_boxes w1 < bp_boxes w"
  shows "bp_iteration_ok w w' LoopContinue"
  using assms by (auto simp: bp_iteration_ok_def)

lemma bp_loop_step_ok:
  assumes inv: "bp_inv w"
  shows "\<exists>w' db' out. bp_loop_step env db w = Some (w', db', out) \<and> bp_iteration_ok w w' out"
proof (cases "bp_commands w")
  case (Cons c rest)
  let ?w = "w\<lparr>bp_commands := rest\<rparr>"
  obtain w' db' fin where r: "bp_handle_command env db ?w c = (w', db', fin)" by (metis prod_cases3)
  have "bp_iteration_ok w w' LoopContinue" if "\<not> fin"
    using that r inv handle_command_ok[of ?w env db c w' db'] handle_command_boxes[of env db ?w c w' db'] Cons
    by (intro bp_consume_ok[of _ _ ?w]) (auto simp: bp_boxes_def)
  then show ?thesis using r Cons by (auto simp: bp_loop_step_def bp_stop_ok)
next
  case noc: Nil
  show ?thesis
  proof (cases "bp_idle w")
    case True
    then show ?thesis using bp_idle_ok[OF inv True noc, of env db] noc by (auto simp: bp_loop_step_def bp_idle_def)
  next
    case False
    then have alive: "\<not> bp_faulted w" by (simp add: bp_idle_def)
    have idle: "\<not> (bp_faulted w \<or> (case bp_run w of BpInert _ \<Rightarrow> True | BpActive _ \<Rightarrow> False))"
      using False by (simp add: bp_idle_def)
    show ?thesis
    proof (cases "bp_child_faults w")
      case (Cons f rest)
      let ?w = "w\<lparr>bp_child_faults := rest\<rparr>"
      obtain w' db' where r: "bp_handle_child_fault env db ?w f = (w', db')" by fastforce
      have "bp_iteration_ok ?w w' LoopContinue"
        using r inv bp_fault_ok[of ?w env db _ w' db'] by (simp add: bp_handle_child_fault_def)
      then have "bp_iteration_ok w w' LoopContinue" using False by (auto simp: bp_iteration_ok_def bp_idle_def bp_boxes_def Cons)
      then show ?thesis using r Cons noc idle by (auto simp: bp_loop_step_def)
    next
      case nof: Nil
      show ?thesis
      proof (cases "bp_resolution w")
        case (Cons e rest)
        let ?w = "w\<lparr>bp_resolution := rest\<rparr>"
        obtain w' db' where r: "bp_handle_resolution env db ?w e = Some (w', db')" "handled ?w w'"
          using handle_resolution_ok[of ?w env db e] inv alive by auto
        then have "bp_iteration_ok w w' LoopContinue"
          using handle_resolution_boxes[OF r(1)] Cons by (intro bp_consume_ok[of _ _ ?w]) (auto simp: bp_boxes_def)
        then show ?thesis using r Cons noc nof idle by (auto simp: bp_loop_step_def)
      next
        case nor: Nil
        show ?thesis
        proof (cases "bp_notifications w")
          case (Cons b rest)
          let ?w = "w\<lparr>bp_notifications := rest\<rparr>"
          obtain w' db' where r: "bp_handle_block env db ?w b SrcNotification = Some (w', db')" "handled ?w w'"
            using handle_block_ok[of ?w env db b SrcNotification] inv alive by auto
          then have "bp_iteration_ok w w' LoopContinue"
            using handle_block_boxes[OF r(1)] Cons by (intro bp_consume_ok[of _ _ ?w]) (auto simp: bp_boxes_def)
          then show ?thesis using r Cons noc nof nor idle by (auto simp: bp_loop_step_def)
        next
          case non: Nil
          show ?thesis
          proof (cases "bp_synthetic w")
            case (Cons b rest)
            let ?w = "w\<lparr>bp_synthetic := rest\<rparr>"
            obtain w' db' where r: "bp_handle_block env db ?w b SrcSynthetic = Some (w', db')" "handled ?w w'"
              using handle_block_ok[of ?w env db b SrcSynthetic] inv alive by auto
            then have "bp_iteration_ok w w' LoopContinue"
              using handle_block_boxes[OF r(1)] Cons by (intro bp_consume_ok[of _ _ ?w]) (auto simp: bp_boxes_def)
            then show ?thesis using r Cons noc nof nor non idle by (auto simp: bp_loop_step_def)
          next
            case nos: Nil
            have "bp_boxes w = 0" using noc nof nor non nos by (simp add: bp_boxes_def)
            from bp_wait_ok[OF inv this, of env db] show ?thesis
              using noc nof nor non nos idle by (auto simp: bp_loop_step_def)
          qed
        qed
      qed
    qed
  qed
qed

definition bp_step :: "('d, 'n) bp_env \<Rightarrow> 'd \<times> bp_worker \<Rightarrow> (('d \<times> bp_worker) \<times> loop_outcome) option" where
  "bp_step env = (\<lambda>(db, w). map_option (\<lambda>(w', db', outcome). ((db', w'), outcome)) (bp_loop_step env db w))"

definition bp_size :: "'d \<times> bp_worker \<Rightarrow> nat \<times> nat" where
  "bp_size = (\<lambda>(_, w). (if bp_faulted w then 0 else 1, bp_boxes w))"

lemma bp_step_ok:
  assumes "bp_inv w"
  shows "\<exists>db' w' out. bp_step env (db, w) = Some ((db', w'), out) \<and> bp_iteration_ok w w' out"
  using bp_loop_step_ok[OF assms, of env db] by (auto simp: bp_step_def)

interpretation block_loop: loop_contract "bp_step env" "\<lambda>(_, w). bp_inv w" "\<lambda>(_, w). bp_idle w"
  "inv_image (less_than <*lex*> less_than) bp_size" for env :: "('d, 'n) bp_env"
proof
  show "wf (inv_image (less_than <*lex*> less_than) bp_size)" by (intro wf_inv_image wf_lex_prod wf_less_than)
next
  fix s :: "'d \<times> bp_worker"
  assume "case s of (_, w) \<Rightarrow> bp_inv w"
  then show "\<exists>s' out. bp_step env s = Some (s', out)" using bp_step_ok[of "snd s" env "fst s"] by auto
next
  fix s s' :: "'d \<times> bp_worker" and out
  assume "case s of (_, w) \<Rightarrow> bp_inv w" "bp_step env s = Some (s', out)" "out \<noteq> LoopStop"
  then show "case s' of (_, w) \<Rightarrow> bp_inv w"
    using bp_step_ok[of "snd s" env "fst s"] by (auto simp: bp_iteration_ok_def handled_def)
next
  fix s s' :: "'d \<times> bp_worker"
  assume "case s of (_, w) \<Rightarrow> bp_inv w" "\<not> (case s of (_, w) \<Rightarrow> bp_idle w)" "bp_step env s = Some (s', LoopContinue)"
  then show "(s', s) \<in> inv_image (less_than <*lex*> less_than) bp_size"
    using bp_step_ok[of "snd s" env "fst s"] by (auto simp: bp_iteration_ok_def bp_size_def bp_idle_def split: if_splits)
qed

section \<open>Reachable workers\<close>

inductive bp_arrival :: "bp_worker \<Rightarrow> bp_worker \<Rightarrow> bool" where
  "bp_arrival w (w\<lparr>bp_commands := bp_commands w @ [c]\<rparr>)"
| "bp_arrival w (w\<lparr>bp_notifications := bp_notifications w @ [b]\<rparr>)"
| "bp_arrival w (w\<lparr>bp_synthetic := bp_synthetic w @ [b]\<rparr>)"
| "\<not> bp_resolution_closed w \<Longrightarrow> bp_arrival w (w\<lparr>bp_resolution := bp_resolution w @ [e]\<rparr>)"
| "\<not> bp_child_faults_closed w \<Longrightarrow> bp_arrival w (w\<lparr>bp_child_faults := bp_child_faults w @ [f]\<rparr>)"
| "bp_arrival w (w\<lparr>bp_commands_closed := True\<rparr>)"
| "bp_arrival w (w\<lparr>bp_resolution_closed := True\<rparr>)"
| "bp_arrival w (w\<lparr>bp_child_faults_closed := True\<rparr>)"
| "bp_arrival w (w\<lparr>bp_events_closed := True\<rparr>)"

inductive bp_reachable :: "('d, 'n) bp_env \<Rightarrow> 'd \<Rightarrow> bp_worker \<Rightarrow> bool" for env where
  start: "bp_initialize env (bp_new mode) initialization = (w, Inr ()) \<Longrightarrow> bp_startup w = Some (w', result) \<Longrightarrow>
    bp_reachable env db w'"
| arrival: "bp_reachable env db w \<Longrightarrow> bp_arrival w w' \<Longrightarrow> bp_reachable env db w'"
| iterate: "bp_reachable env db w \<Longrightarrow> bp_loop_step env db w = Some (w', db', LoopContinue) \<Longrightarrow> bp_reachable env db' w'"

lemma arrival_inv: "bp_arrival w w' \<Longrightarrow> bp_inv w' = bp_inv w"
  by (erule bp_arrival.cases) simp_all

lemma initialize_inv:
  assumes "bp_initialize env (bp_new mode) initialization = (w, Inr ())"
  shows "bp_inv w \<and> sealed_count (bp_events w) = 0 \<and>
    (\<exists>r. bp_run w = BpActive r \<and> (ar_emit_boundary_sealed_on_start r \<longrightarrow> \<not> is_pre_seal (ar_stage r)))"
  using assms
  by (auto simp: bp_initialize_def bp_new_def Let_def bp_inv_def bp_core_inv_def bp_run_inv_def persisted_hashes_def
      permits_orphans_def is_pre_seal_def stage_seal_phase_def split: if_splits)

lemma reachable_bp_inv:
  assumes "bp_reachable env db w"
  shows "bp_inv w"
  using assms
proof (induction rule: bp_reachable.induct)
  case (start mode initialization w w' result db)
  then show ?case using initialize_inv[OF start(1)]
    by (auto simp: bp_startup_def bp_send_event_def bp_inv_def bp_core_inv_def bp_run_inv_def persisted_hashes_def split: if_splits prod.splits)
next
  case (arrival db w w')
  then show ?case by (simp add: arrival_inv)
next
  case (iterate db w w' db')
  then show ?case using bp_loop_step_ok[OF iterate.IH, of env db] by (auto simp: bp_iteration_ok_def handled_def)
qed

section \<open>Consequences\<close>

text \<open>A block is materialized with boundary identities allowed only before the seal: two databases that
  agree on strict materialization are indistinguishable to a worker past the seal.\<close>

lemma strict_past_seal:
  assumes run: "bp_run w = BpActive r" and past: "\<not> is_pre_seal (ar_stage r)"
    and strict: "\<And>db block. be_materialize_block env' db block RequireMaterialized = be_materialize_block env db block RequireMaterialized"
    and rest: "env' = env\<lparr>be_materialize_block := be_materialize_block env'\<rparr>"
  shows "bp_handle_block env' db w block src = bp_handle_block env db w block src"
proof -
  obtain m where env': "env' = env\<lparr>be_materialize_block := m\<rparr>" using rest by blast
  have m: "m db b RequireMaterialized = be_materialize_block env db b RequireMaterialized" for db b using strict env' by simp
  have sent: "send_persisted env' = send_persisted env" "send_orphan env' = send_orphan env"
    "shutdown_orphan env' = shutdown_orphan env"
    by (simp_all add: env' fun_eq_iff send_persisted_def send_orphan_def shutdown_orphan_def)
  have same: "deliver_persisted env' = deliver_persisted env" "bp_enter_fault env' = bp_enter_fault env"
    by (intro ext; simp only: deliver_persisted_def bp_enter_fault_def sent)+
  have offer: "be_offer_block_committed env' = be_offer_block_committed env" "be_block_presence env' = be_block_presence env"
    "be_materialize_block env' = m"
    by (simp_all add: env')
  have ins: "materialize_inserted env' = materialize_inserted env"
    by (intro ext) (simp only: materialize_inserted_def offer same)
  have pol: "materialize_policy (ar_stage r) block = RequireMaterialized" using past by (simp add: materialize_policy_def)
  have "materialize env' db w block = materialize env db w block"
    by (simp only: materialize_def run pol block_processor_run.case sent same ins offer m)
  then show ?thesis by (simp only: bp_handle_block_def same offer)
qed

text \<open>After a fault the channels of the orphan manager are closed, and the loop keeps running without
  waiting until a command arrives.\<close>

lemma faulted_loop_spins:
  assumes "bp_faulted w" "bp_boxes w = 0" "\<not> bp_commands_closed w" "bp_resolution_closed w"
  shows "bp_loop_step env db w = Some (w, db, LoopContinue)"
  using assms by (auto simp: bp_loop_step_def bp_idle_step_def bp_boxes_def)

lemma fault_closes_resolution:
  assumes "bp_inv w" "\<not> bp_faulted w"
  shows "bp_resolution_closed (fst (bp_enter_fault env db f w))"
  using assms
  by (auto simp: bp_inv_def bp_core_inv_def bp_enter_fault_def bp_send_event_def shutdown_orphan_def Let_def split: prod.splits sum.splits)

end
