(* ===== verification/Block_Properties.thy ===== *)
theory Block_Properties
  imports Block_Run
begin

text \<open>
  The properties of the block processor, over every run of its worker against any database, any receivers
  behind its channels and any outcome of the orphan manager's shutdown.
\<close>

section \<open>A sample run\<close>

definition sample_node_block :: "block_hash \<Rightarrow> u64 \<Rightarrow> validated_node_block" where
  "sample_node_block h score =
     \<lparr>vnb_hash = h, vnb_selected_parent = 10, vnb_direct_parents = [10], vnb_blue_merge_set = [], vnb_red_merge_set = [],
      vnb_timestamp = 0, vnb_daa_score = 0, vnb_blue_score = score, vnb_blue_work = 7\<rparr>"

definition committed_of :: "validated_node_block \<Rightarrow> block_committed" where
  "committed_of b =
     \<lparr>bk_id = CompactId 3, bk_hash = vnb_hash b, bk_coordinate = BlockCoordinate 3 0, bk_timestamp = 0, bk_daa_score = 0,
      bk_selected_parent_index = None, bk_direct_parents = [], bk_blue_merge_set = [], bk_red_merge_set = [],
      bk_color = Gray, bk_is_in_vspc = False, bk_level_snapshots = []\<rparr>"

text \<open>A database in which every block is absent and can be inserted, and channels with room.\<close>

definition sample_bp_env :: "(unit, unit) bp_env" where
  "sample_bp_env =
     \<lparr>be_rpc_network_id = (), be_db_network_id = (), be_rpc_genesis_hash = 1, be_db_genesis_hash = 1,
      be_block_presence = (\<lambda>_ _. Inr Absent),
      be_materialize_block = (\<lambda>db b _. (db, Inr (Inserted (committed_of b)))),
      be_offer_block_committed = (\<lambda>db _. (db, Inr SuppressedAwaitingCatchup)),
      be_persisted_try_send = (\<lambda>db _. (db, None)), be_orphan_try_send = (\<lambda>db _. (db, None)),
      be_orphan_shutdown = (\<lambda>db. (db, 0, 0, Inr ()))\<rparr>"

definition sample_initialization :: block_processor_initialization where
  "sample_initialization =
     \<lparr>bpi_anchor = \<lparr>msa_point = VspcPoint (ConsensusOrder 1 10) (CompactId 1), msa_selected_parent = 9, msa_blue_score = 5\<rparr>,
      bpi_boundary_seal_blue_score = 20\<rparr>"

definition sample_bp_started :: bp_worker where
  "sample_bp_started = fst (bp_initialize sample_bp_env (bp_new Rebuild) sample_initialization)"

text \<open>A block that reaches the seal score is waiting.\<close>

definition sample_bp_loaded :: bp_worker where
  "sample_bp_loaded = sample_bp_started\<lparr>bp_synthetic := [sample_node_block 11 20]\<rparr>"

definition bp_after :: "bp_worker \<Rightarrow> bp_worker" where
  "bp_after w = (case bp_loop_step sample_bp_env () w of Some (w', _, _) \<Rightarrow> w' | None \<Rightarrow> w)"

lemma sample_bp_loaded_reachable: "bp_reachable sample_bp_env () sample_bp_loaded"
proof -
  have "bp_initialize sample_bp_env (bp_new Rebuild) sample_initialization = (sample_bp_started, Inr ())"
    "bp_startup sample_bp_started = Some (sample_bp_started, Inr ())"
    "sample_bp_loaded = sample_bp_started\<lparr>bp_synthetic := bp_synthetic sample_bp_started @ [sample_node_block 11 20]\<rparr>"
    by code_simp+
  then show ?thesis using bp_reachable.start bp_reachable.arrival bp_arrival.intros(3) by metis
qed

lemma sample_bp_sealed_reachable: "bp_reachable sample_bp_env () (bp_after sample_bp_loaded)"
proof -
  have "bp_loop_step sample_bp_env () sample_bp_loaded = Some (bp_after sample_bp_loaded, (), LoopContinue)" by code_simp
  then show ?thesis by (rule bp_reachable.iterate[OF sample_bp_loaded_reachable])
qed

section \<open>Properties\<close>

text \<open>C8. As long as the processor has not faulted, the VSPC processor and the orphan manager have been
  told of the same persisted blocks in the same order: no block reaches one and not the other.\<close>

theorem persisted_deliveries_agree:
  assumes "bp_reachable env db w" and "\<not> bp_faulted w"
  shows "told_persisted (bp_orphan_messages w) = map (\<lambda>p. vp_hash (pb_point p)) (bp_persisted w)"
  using reachable_bp_inv[OF assms(1)] assms(2) by (simp add: bp_inv_def persisted_hashes_def)

theorem persisted_deliveries_agree_witness:
  "told_persisted (bp_orphan_messages (bp_after sample_bp_loaded)) =
     map (\<lambda>p. vp_hash (pb_point p)) (bp_persisted (bp_after sample_bp_loaded)) \<and>
   length (bp_persisted (bp_after sample_bp_loaded)) = 1"
proof -
  have "\<not> bp_faulted (bp_after sample_bp_loaded)" "length (bp_persisted (bp_after sample_bp_loaded)) = 1" by code_simp+
  then show ?thesis using persisted_deliveries_agree[OF sample_bp_sealed_reachable] by blast
qed

text \<open>C27. The boundary is reported sealed at most once in a run, never before the seal is reached, and no
  orphan is parked before catch-up.\<close>

theorem boundary_sealed_once:
  assumes "bp_reachable env db w" and "bp_run w = BpActive r"
  shows "sealed_count (bp_events w) \<le> 1 \<and> (is_pre_seal (ar_stage r) \<longrightarrow> sealed_count (bp_events w) = 0) \<and>
    (\<not> permits_orphans (ar_stage r) \<longrightarrow> told_orphans (bp_orphan_messages w) = [])"
  using reachable_bp_inv[OF assms(1)] assms(2) by (simp add: bp_inv_def bp_core_inv_def bp_run_inv_def)

theorem boundary_sealed_once_witness:
  "\<exists>r. bp_run (bp_after sample_bp_loaded) = BpActive r \<and> ar_stage r = RsSynchronizing PostSeal \<and>
     sealed_count (bp_events (bp_after sample_bp_loaded)) = 1 \<and> told_orphans (bp_orphan_messages (bp_after sample_bp_loaded)) = []"
proof -
  define r where "r = (case bp_run (bp_after sample_bp_loaded) of BpActive r \<Rightarrow> r | BpInert _ \<Rightarrow> undefined)"
  have r: "bp_run (bp_after sample_bp_loaded) = BpActive r" "ar_stage r = RsSynchronizing PostSeal" "\<not> permits_orphans (ar_stage r)"
    "sealed_count (bp_events (bp_after sample_bp_loaded)) = 1" unfolding r_def by code_simp+
  then show ?thesis using boundary_sealed_once[OF sample_bp_sealed_reachable r(1)] by blast
qed

text \<open>The overlap flag is exact: it is up precisely when some block of the catch-up has been accepted
  both from a notification and from synchronization; the recorded source bits are never anything else.\<close>

theorem overlap_flag_exact:
  assumes "bp_reachable env db w" and "bp_run w = BpActive r"
  shows "(bp_overlap w \<longleftrightarrow> (\<exists>hash. fmlookup (ar_sources r) hash = Some 3)) \<and>
    fmpred (\<lambda>_ bits. bits = 1 \<or> bits = 2 \<or> bits = 3) (ar_sources r)"
  using reachable_bp_inv[OF assms(1)] assms(2) by (auto simp: bp_inv_def bp_core_inv_def bp_run_inv_def fmpred_iff)

theorem overlap_flag_exact_witness:
  "\<not> bp_overlap (bp_after sample_bp_loaded)"
proof -
  define r where "r = (case bp_run (bp_after sample_bp_loaded) of BpActive r \<Rightarrow> r | BpInert _ \<Rightarrow> undefined)"
  have r: "bp_run (bp_after sample_bp_loaded) = BpActive r" "ar_sources r = fmempty" unfolding r_def by code_simp+
  show ?thesis using overlap_flag_exact[OF sample_bp_sealed_reachable r(1)] r(2) by simp
qed

text \<open>No iteration of a reachable processor panics, and its stage only moves forward: before the
  seal, after it, catch-up, live.\<close>

theorem block_worker_total_and_forward:
  assumes "bp_reachable env db w"
  shows "\<exists>w' db' outcome. bp_loop_step env db w = Some (w', db', outcome) \<and>
    (outcome = LoopContinue \<longrightarrow> run_rank (bp_run w) \<le> run_rank (bp_run w'))"
  using bp_loop_step_ok[OF reachable_bp_inv[OF assms], of env db] by (auto simp: bp_iteration_ok_def handled_def)

theorem block_worker_total_and_forward_witness:
  "\<exists>w' db' outcome. bp_loop_step sample_bp_env () sample_bp_loaded = Some (w', db', outcome) \<and>
    (outcome = LoopContinue \<longrightarrow> run_rank (bp_run sample_bp_loaded) \<le> run_rank (bp_run w'))"
  by (rule block_worker_total_and_forward[OF sample_bp_loaded_reachable])



text \<open>Past the seal a block is only ever materialized strictly: replacing the database's answers
  for materialization with boundary identities allowed makes no difference to the handling of any block.\<close>

theorem past_seal_is_strict:
  assumes "bp_run w = BpActive r" and "\<not> is_pre_seal (ar_stage r)"
    and "\<And>db block. be_materialize_block env' db block RequireMaterialized = be_materialize_block env db block RequireMaterialized"
    and "env' = env\<lparr>be_materialize_block := be_materialize_block env'\<rparr>"
  shows "bp_handle_block env' db w block source = bp_handle_block env db w block source"
  by (rule strict_past_seal[OF assms])

theorem past_seal_is_strict_witness:
  "bp_handle_block (sample_bp_env\<lparr>be_materialize_block := (\<lambda>db b policy.
       if policy = AllowBoundaryIdentities then (db, Inl (MbDatabase DbQueryFailed)) else (db, Inr (Inserted (committed_of b))))\<rparr>)
     () (bp_after sample_bp_loaded) (sample_node_block 12 21) SrcSynthetic =
   bp_handle_block sample_bp_env () (bp_after sample_bp_loaded) (sample_node_block 12 21) SrcSynthetic"
proof -
  define r where "r = (case bp_run (bp_after sample_bp_loaded) of BpActive r \<Rightarrow> r | BpInert _ \<Rightarrow> undefined)"
  have "bp_run (bp_after sample_bp_loaded) = BpActive r" "\<not> is_pre_seal (ar_stage r)" unfolding r_def by code_simp+
  then show ?thesis by (rule past_seal_is_strict) (simp_all add: sample_bp_env_def)
qed

text \<open>C40. After a fault the worker's loop does not wait: the fault shuts the orphan manager down, which
  closes the resolution channel, and with nothing queued every iteration goes on without changing
  anything, until a command arrives.\<close>

theorem faulted_worker_spins:
  assumes "bp_reachable env db w" and "\<not> bp_faulted w" and "bp_enter_fault env db fault w = (w', db')"
    and "bp_boxes w' = 0" and "\<not> bp_commands_closed w'"
  shows "bp_loop_step env db' w' = Some (w', db', LoopContinue)"
  using faulted_loop_spins[OF _ assms(4,5)] fault_closes_resolution[OF reachable_bp_inv[OF assms(1)] assms(2), of env db fault]
    enter_fault_spec(3)[of w env db fault] reachable_bp_inv[OF assms(1)] assms(3) by (simp add: bp_inv_def)

theorem faulted_worker_spins_witness:
  "bp_loop_step sample_bp_env () (fst (bp_enter_fault sample_bp_env () materiality_fault (bp_after sample_bp_loaded))) =
     Some (fst (bp_enter_fault sample_bp_env () materiality_fault (bp_after sample_bp_loaded)), (), LoopContinue)"
proof -
  have "\<not> bp_faulted (bp_after sample_bp_loaded)"
    "bp_enter_fault sample_bp_env () materiality_fault (bp_after sample_bp_loaded) =
       (fst (bp_enter_fault sample_bp_env () materiality_fault (bp_after sample_bp_loaded)), ())"
    "bp_boxes (fst (bp_enter_fault sample_bp_env () materiality_fault (bp_after sample_bp_loaded))) = 0"
    "\<not> bp_commands_closed (fst (bp_enter_fault sample_bp_env () materiality_fault (bp_after sample_bp_loaded)))" by code_simp+
  then show ?thesis by (rule faulted_worker_spins[OF sample_bp_sealed_reachable])
qed

end
