(* ===== verification/Orphan_Topology.thy ===== *)
theory Orphan_Topology
  imports KGI_Collections "HOL-Library.Product_Lexorder"
begin

text \<open>
  The orphan topology, \<open>OrphanTopology\<close> of \<open>crates/kgi-processing/src/block_processor/orphan.rs\<close>:
  orphan blocks with the references they still miss, the reverse index of dependents, and the
  references whose resolution is pending. The invariant states that the index is exactly the inverse
  of the missing sets, that every pending reference is needed and is not itself an orphan, and the
  capacity and activation bounds; each operation keeps it. Ready blocks, cancellations and resolution
  candidates are characterised exactly, and the stack traversal that ranks candidates counts the
  transitively dependent orphans.
\<close>

definition MAX_ORPHAN_BLOCKS :: nat where "MAX_ORPHAN_BLOCKS = 1024"

definition ORPHAN_RESOLUTION_THRESHOLD :: nat where "ORPHAN_RESOLUTION_THRESHOLD = 256"

record orphan_entry =
  oe_block :: validated_node_block
  oe_missing :: "block_hash fset"

record orphan_topology =
  ot_orphans :: "(block_hash, orphan_entry) fmap"
  ot_dependents :: "(block_hash, block_hash fset) fmap"
  ot_resolution_pending :: "block_hash fset"
  ot_resolution_active :: bool

definition topology_default :: orphan_topology where
  "topology_default =
     \<lparr>ot_orphans = fmempty, ot_dependents = fmempty, ot_resolution_pending = {||}, ot_resolution_active = False\<rparr>"

datatype topology_error = CapacityExhausted | EmptyMissingSet

record topology_mutation =
  tm_ready :: "validated_node_block list"
  tm_cancel :: "block_hash list"
  tm_threshold_crossed :: bool

definition mutation_none :: topology_mutation where
  "mutation_none = \<lparr>tm_ready = [], tm_cancel = [], tm_threshold_crossed = False\<rparr>"

section \<open>Operations\<close>

definition remove_unneeded_pending :: "orphan_topology \<Rightarrow> orphan_topology \<times> block_hash list" where
  "remove_unneeded_pending t =
     (let unneeded = sorted_list_of_fset (ffilter (\<lambda>h. h |\<notin>| fmdom (ot_dependents t)) (ot_resolution_pending t))
      in (t\<lparr>ot_resolution_pending := fold (\<lambda>h p. p |-| {|h|}) unneeded (ot_resolution_pending t)\<rparr>, unneeded))"

definition add_orphan ::
  "orphan_topology \<Rightarrow> validated_node_block \<Rightarrow> block_hash list \<Rightarrow>
   orphan_topology \<times> (topology_error + topology_mutation)" where
  "add_orphan t block missing_list =
     (if vnb_hash block |\<in>| fmdom (ot_orphans t) then (t, Inr mutation_none)
      else if fcard (fmdom (ot_orphans t)) = MAX_ORPHAN_BLOCKS then (t, Inl CapacityExhausted)
      else
        let missing = fset_of_list missing_list
        in if missing = {||} then (t, Inl EmptyMissingSet)
           else
             let block_hash = vnb_hash block;
                 t1 = t\<lparr>ot_dependents :=
                          fold (\<lambda>dependency. bucket_insert dependency block_hash)
                            (sorted_list_of_fset missing) (ot_dependents t)\<rparr>;
                 t2 = t1\<lparr>ot_orphans := fmupd block_hash \<lparr>oe_block = block, oe_missing = missing\<rparr> (ot_orphans t1)\<rparr>;
                 (t3, cancel1) =
                   (if block_hash |\<in>| ot_resolution_pending t2
                    then (t2\<lparr>ot_resolution_pending := ot_resolution_pending t2 |-| {|block_hash|}\<rparr>, [block_hash])
                    else (t2, []));
                 (t4, unneeded) = remove_unneeded_pending t3;
                 crossed = (\<not> ot_resolution_active t4 \<and>
                            ORPHAN_RESOLUTION_THRESHOLD \<le> fcard (fmdom (ot_orphans t4)));
                 t5 = (if crossed then t4\<lparr>ot_resolution_active := True\<rparr> else t4)
             in (t5, Inr \<lparr>tm_ready = [], tm_cancel = cancel1 @ unneeded, tm_threshold_crossed = crossed\<rparr>))"

definition remove_orphan :: "orphan_topology \<Rightarrow> block_hash \<Rightarrow> orphan_topology" where
  "remove_orphan t hash =
     (case fmlookup (ot_orphans t) hash of
        None \<Rightarrow> t
      | Some entry \<Rightarrow>
          t\<lparr>ot_orphans := fmdrop hash (ot_orphans t),
            ot_dependents :=
              fold (\<lambda>dependency. bucket_remove dependency hash)
                (sorted_list_of_fset (oe_missing entry)) (ot_dependents t)\<rparr>)"

text \<open>One affected orphan of a persisted block; the second component collects the ready blocks.\<close>

definition release_affected ::
  "block_hash \<Rightarrow> block_hash \<Rightarrow> (block_hash, orphan_entry) fmap \<times> validated_node_block list \<Rightarrow>
   (block_hash, orphan_entry) fmap \<times> validated_node_block list" where
  "release_affected hash orphan_hash = (\<lambda>(orphans, ready).
     case fmlookup orphans orphan_hash of
       None \<Rightarrow> (orphans, ready)
     | Some entry \<Rightarrow>
         let entry' = entry\<lparr>oe_missing := oe_missing entry |-| {|hash|}\<rparr>
         in if oe_missing entry' = {||} then (fmdrop orphan_hash orphans, ready @ [oe_block entry'])
            else (fmupd orphan_hash entry' orphans, ready))"

definition block_persisted :: "orphan_topology \<Rightarrow> block_hash \<Rightarrow> orphan_topology \<times> topology_mutation" where
  "block_persisted t hash =
     (let (t1, cancel1) =
            (if hash |\<in>| ot_resolution_pending t
             then (t\<lparr>ot_resolution_pending := ot_resolution_pending t |-| {|hash|}\<rparr>, [hash])
             else (t, []));
          t2 = remove_orphan t1 hash;
          affected = sorted_list_of_fset (bucket (ot_dependents t2) hash);
          t3 = t2\<lparr>ot_dependents := fmdrop hash (ot_dependents t2)\<rparr>;
          (orphans, ready) = fold (release_affected hash) affected (ot_orphans t3, []);
          t4 = t3\<lparr>ot_orphans := orphans\<rparr>;
          (t5, unneeded) = remove_unneeded_pending t4;
          cancel = remdups_adj (sort (cancel1 @ unneeded));
          t6 = (if ot_orphans t5 = fmempty then t5\<lparr>ot_resolution_active := False\<rparr> else t5)
      in (t6, \<lparr>tm_ready = ready, tm_cancel = cancel, tm_threshold_crossed = False\<rparr>))"

text \<open>The stack traversal of \<open>transitive_impact\<close>; the top of the stack is the head of the list.\<close>

definition all_dependents :: "(block_hash, block_hash fset) fmap \<Rightarrow> block_hash fset" where
  "all_dependents d = ffUnion (fmran d)"

definition visit_child ::
  "block_hash \<Rightarrow> block_hash fset \<times> block_hash list \<Rightarrow> block_hash fset \<times> block_hash list" where
  "visit_child child = (\<lambda>(visited, stack).
     if child |\<in>| visited then (visited, stack) else (finsert child visited, child # stack))"

lemma fold_visit_child:
  "distinct cs \<Longrightarrow> fold visit_child cs (visited, stack) =
     (visited |\<union>| fset_of_list cs, rev (filter (\<lambda>c. c |\<notin>| visited) cs) @ stack)"
proof (induction cs arbitrary: visited stack)
  case (Cons c cs)
  show ?case
  proof (cases "c |\<in>| visited")
    case True
    then show ?thesis using Cons by (auto simp: visit_child_def)
  next
    case False
    have "filter (\<lambda>x. x |\<notin>| finsert c visited) cs = filter (\<lambda>x. x |\<notin>| visited) cs"
      using Cons.prems by (intro filter_cong) auto
    then show ?thesis using Cons False by (simp add: visit_child_def)
  qed
qed simp

lemma fold_visit_children:
  "fold visit_child (sorted_list_of_fset children) (visited, rest) =
     (visited |\<union>| children, rev (filter (\<lambda>c. c |\<notin>| visited) (sorted_list_of_fset children)) @ rest)"
  by (simp add: fold_visit_child fset_of_list_def sorted_list_of_fset.rep_eq fset_inverse)

function impact_loop ::
  "(block_hash, block_hash fset) fmap \<Rightarrow> block_hash fset \<Rightarrow> block_hash list \<Rightarrow> block_hash fset" where
  "impact_loop d visited [] = visited"
| "impact_loop d visited (hash # rest) =
     (case fmlookup d hash of
        None \<Rightarrow> impact_loop d visited rest
      | Some children \<Rightarrow>
          let (visited', stack') = fold visit_child (sorted_list_of_fset children) (visited, rest)
          in impact_loop d visited' stack')"
  by pat_completeness auto
termination
proof (relation "measures [\<lambda>(d, visited, stack). fcard (all_dependents d |-| visited), \<lambda>(d, visited, stack). length stack]")
  fix d :: "(block_hash, block_hash fset) fmap" and visited hash rest children visited' stack' p
  assume lk: "fmlookup d hash = Some children"
    and p: "p = fold visit_child (sorted_list_of_fset children) (visited, rest)" "(visited', stack') = p"
  have v: "visited' = visited |\<union>| children"
    and s: "stack' = rev (filter (\<lambda>c. c |\<notin>| visited) (sorted_list_of_fset children)) @ rest"
    using p by (simp_all add: fold_visit_children)
  have sub: "children |\<subseteq>| all_dependents d"
    using fmranI[OF lk] by (auto simp: all_dependents_def ffUnion.rep_eq less_eq_fset.rep_eq)
  show "((d, visited', stack'), d, visited, hash # rest)
      \<in> measures [\<lambda>(d, visited, stack). fcard (all_dependents d |-| visited), \<lambda>(d, visited, stack). length stack]"
  proof (cases "children |\<subseteq>| visited")
    case True
    then have "visited' = visited" "stack' = rest" using v s by (auto simp: filter_empty_conv)
    then show ?thesis by simp
  next
    case False
    then have "all_dependents d |-| visited' |\<subset>| all_dependents d |-| visited" using v sub by blast
    then have "fcard (all_dependents d |-| visited') < fcard (all_dependents d |-| visited)" by (rule pfsubset_fcard_mono)
    then show ?thesis by simp
  qed
qed auto

definition transitive_impact :: "orphan_topology \<Rightarrow> block_hash \<Rightarrow> nat" where
  "transitive_impact t dependency = fcard (impact_loop (ot_dependents t) {||} [dependency])"

definition take_resolution_candidates :: "orphan_topology \<Rightarrow> orphan_topology \<times> block_hash list" where
  "take_resolution_candidates t =
     (if \<not> ot_resolution_active t then (t, [])
      else
        let candidates =
              map (\<lambda>hash. (hash, transitive_impact t hash))
                (filter (\<lambda>hash. hash |\<notin>| fmdom (ot_orphans t) \<and> hash |\<notin>| ot_resolution_pending t)
                  (sorted_list_of_fset (fmdom (ot_dependents t))));
            hashes = map fst (sort_key (\<lambda>(hash, impact). (- int impact, hash)) candidates)
        in (t\<lparr>ot_resolution_pending := ot_resolution_pending t |\<union>| fset_of_list hashes\<rparr>, hashes))"

section \<open>The traversal counts the transitive dependents\<close>

definition depends :: "(block_hash, block_hash fset) fmap \<Rightarrow> (block_hash \<times> block_hash) set" where
  "depends d = {(a, b). b |\<in>| bucket d a}"

lemma depends_iff [simp]: "(a, b) \<in> depends d \<longleftrightarrow> b |\<in>| bucket d a"
  by (simp add: depends_def)

lemma impact_loop_complete:
  assumes "\<And>v b. v |\<in>| visited \<Longrightarrow> v \<notin> set stack \<Longrightarrow> (v, b) \<in> depends d \<Longrightarrow> b |\<in>| visited"
  shows "visited |\<subseteq>| impact_loop d visited stack \<and>
    (\<forall>v b. v |\<in>| impact_loop d visited stack \<or> v \<in> set stack \<longrightarrow> (v, b) \<in> depends d \<longrightarrow> b |\<in>| impact_loop d visited stack)"
  using assms
proof (induction d visited stack rule: impact_loop.induct)
  case (2 d visited hash rest)
  show ?case
  proof (cases "fmlookup d hash")
    case None
    then have "bucket d hash = {||}" by (simp add: bucket_def)
    then show ?thesis using 2(1)[OF None] 2(3) None by (auto simp: depends_def)
  next
    case (Some children)
    let ?v = "visited |\<union>| children"
    let ?s = "rev (filter (\<lambda>c. c |\<notin>| visited) (sorted_list_of_fset children)) @ rest"
    have b: "bucket d hash = children" using Some by (simp add: bucket_def)
    have "b |\<in>| ?v" if "v |\<in>| ?v" "v \<notin> set ?s" "(v, b) \<in> depends d" for v b
      using that 2(3)[of v b] by (cases "v = hash") (auto simp: b)
    then have ih: "?v |\<subseteq>| impact_loop d ?v ?s \<and> (\<forall>v b. v |\<in>| impact_loop d ?v ?s \<or> v \<in> set ?s \<longrightarrow>
        (v, b) \<in> depends d \<longrightarrow> b |\<in>| impact_loop d ?v ?s)"
      using 2(2)[OF Some refl, of ?v ?s] by (simp add: fold_visit_children)
    moreover have "impact_loop d visited (hash # rest) = impact_loop d ?v ?s"
      by (simp add: Some fold_visit_children)
    moreover have "set rest \<subseteq> set ?s" by simp
    ultimately show ?thesis using b by (auto simp: depends_def)
  qed
qed simp

lemma impact_loop_sound:
  assumes "\<And>v. v |\<in>| visited \<Longrightarrow> (root, v) \<in> (depends d)\<^sup>+" "\<And>v. v \<in> set stack \<Longrightarrow> (root, v) \<in> (depends d)\<^sup>*"
  shows "b |\<in>| impact_loop d visited stack \<Longrightarrow> (root, b) \<in> (depends d)\<^sup>+"
  using assms
proof (induction d visited stack rule: impact_loop.induct)
  case (2 d visited hash rest)
  show ?case
  proof (cases "fmlookup d hash")
    case None
    then show ?thesis using 2(1)[OF None] 2(3-5) by simp
  next
    case (Some children)
    let ?v = "visited |\<union>| children"
    let ?s = "rev (filter (\<lambda>c. c |\<notin>| visited) (sorted_list_of_fset children)) @ rest"
    have "(root, hash) \<in> (depends d)\<^sup>*" using 2(5) by simp
    then have child: "(root, c) \<in> (depends d)\<^sup>+" if "c |\<in>| children" for c
      using that Some by (auto simp: bucket_def intro: rtrancl_into_trancl1)
    show ?thesis
      by (rule 2(2)[OF Some refl, of ?v ?s])
        (use 2(3-5) Some child in \<open>auto simp: fold_visit_children intro: trancl_into_rtrancl\<close>)
  qed
qed simp

declare impact_loop.simps(2) [simp del]

lemma transitive_impact_counts:
  "transitive_impact t h = card {b. (h, b) \<in> (depends (ot_dependents t))\<^sup>+}"
proof -
  let ?d = "ot_dependents t" and ?r = "impact_loop (ot_dependents t) {||} [h]"
  have c: "b |\<in>| ?r" if "v |\<in>| ?r \<or> v = h" "(v, b) \<in> depends ?d" for v b
    using impact_loop_complete[of "{||}" "[h]" ?d] that by auto
  have "b |\<in>| ?r" if "(h, b) \<in> (depends ?d)\<^sup>+" for b
    using that by (induction rule: trancl_induct) (auto intro: c)
  moreover have "(h, b) \<in> (depends ?d)\<^sup>+" if "b |\<in>| ?r" for b
    by (rule impact_loop_sound[OF _ _ that]) auto
  ultimately have "{b. (h, b) \<in> (depends ?d)\<^sup>+} = fset ?r" by auto
  then show ?thesis by (simp add: transitive_impact_def fcard.rep_eq)
qed

section \<open>The invariant\<close>

definition missing_of :: "orphan_topology \<Rightarrow> block_hash \<Rightarrow> block_hash fset" where
  "missing_of t h = (case fmlookup (ot_orphans t) h of None \<Rightarrow> {||} | Some e \<Rightarrow> oe_missing e)"

definition index_exact :: "orphan_topology \<Rightarrow> bool" where
  "index_exact t =
     (no_empty_bucket (ot_dependents t) \<and>
      fmpred (\<lambda>d s. fBall s (\<lambda>h. d |\<in>| missing_of t h)) (ot_dependents t) \<and>
      fmpred (\<lambda>h e. fBall (oe_missing e) (\<lambda>d. h |\<in>| bucket (ot_dependents t) d)) (ot_orphans t))"

definition entries_ok :: "orphan_topology \<Rightarrow> bool" where
  "entries_ok t = fmpred (\<lambda>h e. vnb_hash (oe_block e) = h \<and> oe_missing e \<noteq> {||}) (ot_orphans t)"

definition pending_ok :: "orphan_topology \<Rightarrow> bool" where
  "pending_ok t = fBall (ot_resolution_pending t)
     (\<lambda>h. h |\<in>| fmdom (ot_dependents t) \<and> h |\<notin>| fmdom (ot_orphans t))"

definition topology_inv :: "orphan_topology \<Rightarrow> bool" where
  "topology_inv t =
     (index_exact t \<and> entries_ok t \<and> pending_ok t \<and>
      fcard (fmdom (ot_orphans t)) \<le> MAX_ORPHAN_BLOCKS \<and>
      (\<not> ot_resolution_active t \<longrightarrow>
         ot_resolution_pending t = {||} \<and> fcard (fmdom (ot_orphans t)) < ORPHAN_RESOLUTION_THRESHOLD))"

lemma index_exact_iff:
  "index_exact t \<longleftrightarrow> no_empty_bucket (ot_dependents t) \<and> (\<forall>d h. h |\<in>| bucket (ot_dependents t) d \<longleftrightarrow> d |\<in>| missing_of t h)"
  (is "?l \<longleftrightarrow> ?r")
proof
  assume l: ?l
  have "d |\<in>| missing_of t h" if "h |\<in>| bucket (ot_dependents t) d" for d h
    using l that by (auto simp: index_exact_def bucket_def fmpred_iff split: option.splits)
  moreover have "h |\<in>| bucket (ot_dependents t) d" if "d |\<in>| missing_of t h" for d h
    using l that by (auto simp: index_exact_def missing_of_def fmpred_iff split: option.splits)
  ultimately show ?r using l by (auto simp: index_exact_def)
next
  assume r: ?r
  have "d |\<in>| missing_of t h" if "fmlookup (ot_dependents t) d = Some s" "h |\<in>| s" for d s h
    using r that by (simp add: bucket_def split: option.splits)
  moreover have "h |\<in>| bucket (ot_dependents t) d" if "fmlookup (ot_orphans t) h = Some e" "d |\<in>| oe_missing e" for d e h
    using r that by (simp add: missing_of_def)
  ultimately show ?l using r by (auto simp: index_exact_def fmpred_iff)
qed

lemma topology_default_inv: "topology_inv topology_default"
  by (simp add: topology_inv_def topology_default_def index_exact_def entries_ok_def pending_ok_def
      ORPHAN_RESOLUTION_THRESHOLD_def fcard.rep_eq)

lemma remove_pending_fold: "fold (\<lambda>h p. p |-| {|h|}) hs p = p |-| fset_of_list hs"
  by (induction hs arbitrary: p) auto

lemma remove_unneeded_pending_eq:
  "remove_unneeded_pending t =
     (t\<lparr>ot_resolution_pending := ffilter (\<lambda>h. h |\<in>| fmdom (ot_dependents t)) (ot_resolution_pending t)\<rparr>,
      sorted_list_of_fset (ffilter (\<lambda>h. h |\<notin>| fmdom (ot_dependents t)) (ot_resolution_pending t)))"
proof -
  have "ot_resolution_pending t |-| ffilter (\<lambda>h. h |\<notin>| fmdom (ot_dependents t)) (ot_resolution_pending t) =
      ffilter (\<lambda>h. h |\<in>| fmdom (ot_dependents t)) (ot_resolution_pending t)" by auto
  then show ?thesis by (simp add: remove_unneeded_pending_def Let_def remove_pending_fold)
qed

section \<open>Admitting an orphan\<close>

lemma add_orphan_outcome:
  assumes inv: "topology_inv t" and new: "vnb_hash b |\<notin>| fmdom (ot_orphans t)"
    and room: "fcard (fmdom (ot_orphans t)) \<noteq> MAX_ORPHAN_BLOCKS" and ms: "ms \<noteq> []"
  defines "h \<equiv> vnb_hash b"
  shows "\<exists>t' m. add_orphan t b ms = (t', Inr m) \<and> topology_inv t' \<and>
    ot_orphans t' = fmupd h \<lparr>oe_block = b, oe_missing = fset_of_list ms\<rparr> (ot_orphans t) \<and>
    ot_resolution_pending t' = ot_resolution_pending t |-| {|h|} \<and>
    tm_ready m = [] \<and> tm_cancel m = (if h |\<in>| ot_resolution_pending t then [h] else []) \<and>
    tm_threshold_crossed m = (\<not> ot_resolution_active t \<and> ORPHAN_RESOLUTION_THRESHOLD \<le> fcard (fmdom (ot_orphans t')))"
proof -
  let ?ms = "fset_of_list ms"
  define t2 where "t2 = t\<lparr>ot_dependents := fold (\<lambda>d. bucket_insert d h) (sorted_list_of_fset ?ms) (ot_dependents t),
      ot_orphans := fmupd h \<lparr>oe_block = b, oe_missing = ?ms\<rparr> (ot_orphans t)\<rparr>"
  define t3 where "t3 = t2\<lparr>ot_resolution_pending := ot_resolution_pending t |-| {|h|}\<rparr>"
  define crossed where "crossed = (\<not> ot_resolution_active t \<and> ORPHAN_RESOLUTION_THRESHOLD \<le> fcard (fmdom (ot_orphans t3)))"
  define t5 where "t5 = t3\<lparr>ot_resolution_active := ot_resolution_active t \<or> crossed\<rparr>"
  have ne: "?ms \<noteq> {||}" using ms by (cases ms) auto
  have idx: "no_empty_bucket (ot_dependents t)" "\<And>d o'. o' |\<in>| bucket (ot_dependents t) d \<longleftrightarrow> d |\<in>| missing_of t o'"
    using inv by (auto simp: topology_inv_def index_exact_iff)
  have fresh: "missing_of t h = {||}" using new by (simp add: missing_of_def h_def fmdom_notD)
  have mo: "missing_of t3 o' = (if o' = h then ?ms else missing_of t o')" for o'
    by (simp add: missing_of_def t3_def t2_def)
  have idx3: "index_exact t3"
    unfolding index_exact_iff using idx fresh by (auto simp: mo) (auto simp: t3_def t2_def split: if_splits)
  have keep: "d |\<in>| fmdom (ot_dependents t3)" if "d |\<in>| fmdom (ot_dependents t)" for d
    using that idx(1) idx3 by (auto simp: no_empty_dom index_exact_iff) (auto simp: t3_def t2_def split: if_splits)
  have pend3: "pending_ok t3"
    using inv keep by (auto simp: topology_inv_def pending_ok_def t3_def) (auto simp: t2_def)
  have card3: "fcard (fmdom (ot_orphans t3)) = Suc (fcard (fmdom (ot_orphans t)))"
    using new by (simp add: t3_def t2_def h_def fcard_finsert_disjoint)
  have inv5: "topology_inv t5"
    unfolding topology_inv_def
  proof (intro conjI impI)
    show "index_exact t5" using idx3 by (simp add: index_exact_def t5_def missing_of_def)
    show "entries_ok t5" using inv ne by (auto simp: topology_inv_def entries_ok_def fmpred_iff t5_def t3_def t2_def h_def)
    show "pending_ok t5" using pend3 by (simp add: pending_ok_def t5_def)
    show "fcard (fmdom (ot_orphans t5)) \<le> MAX_ORPHAN_BLOCKS"
      using inv room card3 by (simp add: topology_inv_def t5_def)
    assume "\<not> ot_resolution_active t5"
    then have na: "\<not> ot_resolution_active t" "\<not> crossed" by (simp_all add: t5_def)
    then show "ot_resolution_pending t5 = {||}" using inv by (simp add: topology_inv_def t5_def t3_def)
    show "fcard (fmdom (ot_orphans t5)) < ORPHAN_RESOLUTION_THRESHOLD" using na by (simp add: crossed_def t5_def)
  qed
  have none: "ffilter (\<lambda>x. x |\<notin>| fmdom (ot_dependents t3)) (ot_resolution_pending t3) = {||}"
    "ffilter (\<lambda>x. x |\<in>| fmdom (ot_dependents t3)) (ot_resolution_pending t3) = ot_resolution_pending t3"
    using pend3 by (auto simp: pending_ok_def)
  have rm: "remove_unneeded_pending t3 = (t3, [])"
    unfolding remove_unneeded_pending_eq none by (simp add: sorted_list_of_fset.rep_eq)
  have stage: "(if h |\<in>| ot_resolution_pending t2
      then (t2\<lparr>ot_resolution_pending := ot_resolution_pending t2 |-| {|h|}\<rparr>, [h]) else (t2, [])) =
      (t3, if h |\<in>| ot_resolution_pending t then [h] else [])"
    by (auto simp: t3_def t2_def)
  have act: "ot_resolution_active t3 = ot_resolution_active t" by (simp add: t3_def t2_def)
  have last: "(if crossed then t3\<lparr>ot_resolution_active := True\<rparr> else t3) = t5"
    by (simp add: t5_def act[symmetric])
  have run: "add_orphan t b ms =
      (t5, Inr \<lparr>tm_ready = [], tm_cancel = (if h |\<in>| ot_resolution_pending t then [h] else []), tm_threshold_crossed = crossed\<rparr>)"
  proof -
    have t2': "t\<lparr>ot_dependents := fold (\<lambda>d. bucket_insert d h) (sorted_list_of_fset ?ms) (ot_dependents t)\<rparr>
        \<lparr>ot_orphans := fmupd h \<lparr>oe_block = b, oe_missing = ?ms\<rparr> (ot_orphans (t\<lparr>ot_dependents :=
           fold (\<lambda>d. bucket_insert d h) (sorted_list_of_fset ?ms) (ot_dependents t)\<rparr>))\<rparr> = t2"
      by (simp add: t2_def)
    show ?thesis
      unfolding add_orphan_def Let_def if_not_P[OF new] if_not_P[OF room] if_not_P[OF ne] h_def[symmetric] t2' stage prod.case rm
        act crossed_def[symmetric] last using new by (simp add: h_def)
  qed
  show ?thesis using run inv5 by (auto simp: t5_def t3_def t2_def crossed_def)
qed

section \<open>Persisting a block\<close>

text \<open>What becomes of an orphan when \<open>hash\<close> is persisted.\<close>

definition after_persisted :: "block_hash \<Rightarrow> block_hash \<Rightarrow> orphan_entry \<Rightarrow> orphan_entry option" where
  "after_persisted hash h e =
     (if h = hash \<or> oe_missing e |-| {|hash|} = {||} then None else Some (e\<lparr>oe_missing := oe_missing e |-| {|hash|}\<rparr>))"

definition released :: "orphan_topology \<Rightarrow> block_hash \<Rightarrow> block_hash fset" where
  "released t hash = ffilter (\<lambda>h. h \<noteq> hash \<and> missing_of t h = {|hash|}) (fmdom (ot_orphans t))"

definition orphan_block :: "orphan_topology \<Rightarrow> block_hash \<Rightarrow> validated_node_block" where
  "orphan_block t h = oe_block (the (fmlookup (ot_orphans t) h))"

definition after_release :: "block_hash \<Rightarrow> orphan_entry \<Rightarrow> orphan_entry option" where
  "after_release hash e =
     (if oe_missing e |-| {|hash|} = {||} then None else Some (e\<lparr>oe_missing := oe_missing e |-| {|hash|}\<rparr>))"

lemma fold_release:
  assumes "distinct hs" "\<And>h. h \<in> set hs \<Longrightarrow> h |\<in>| fmdom os"
  shows "fold (release_affected hash) hs (os, ready) =
    (fm_filter_map (\<lambda>h e. if h \<in> set hs then after_release hash e else Some e) os,
     ready @ map (\<lambda>h. oe_block (the (fmlookup os h)))
        (filter (\<lambda>h. oe_missing (the (fmlookup os h)) |-| {|hash|} = {||}) hs))"
  using assms
proof (induction hs arbitrary: os ready)
  case Nil
  have "fm_filter_map (\<lambda>h. Some) os = os" by (rule fmap_ext) (simp split: option.splits)
  then show ?case by simp
next
  case (Cons h hs)
  obtain e where e: "fmlookup os h = Some e" using Cons.prems(2)[of h] by (auto simp: fmlookup_dom_iff)
  define os1 where "os1 = fm_filter_map (\<lambda>k e. if k = h then after_release hash e else Some e) os"
  define r1 where "r1 = ready @ (if oe_missing e |-| {|hash|} = {||} then [oe_block e] else [])"
  have step: "release_affected hash h (os, ready) = (os1, r1)"
  proof (cases "oe_missing e |-| {|hash|} = {||}")
    case True
    then have "fmdrop h os = os1"
      by (intro fmap_ext) (auto simp: os1_def after_release_def e split: option.splits)
    then show ?thesis using True by (simp add: release_affected_def e r1_def)
  next
    case False
    then have "fmupd h (e\<lparr>oe_missing := oe_missing e |-| {|hash|}\<rparr>) os = os1"
      by (intro fmap_ext) (auto simp: os1_def after_release_def e split: option.splits)
    then show ?thesis using False by (simp add: release_affected_def e r1_def)
  qed
  have same: "fmlookup os1 k = fmlookup os k" if "k \<in> set hs" for k
    using that Cons.prems(1) by (auto simp: os1_def split: option.splits)
  have ih: "fold (release_affected hash) hs (os1, r1) =
    (fm_filter_map (\<lambda>h e. if h \<in> set hs then after_release hash e else Some e) os1,
     r1 @ map (\<lambda>h. oe_block (the (fmlookup os1 h))) (filter (\<lambda>h. oe_missing (the (fmlookup os1 h)) |-| {|hash|} = {||}) hs))"
    by (rule Cons.IH) (use Cons.prems same in \<open>auto simp: fmlookup_dom_iff\<close>)
  have maps: "map (\<lambda>h. oe_block (the (fmlookup os1 h))) (filter (\<lambda>h. oe_missing (the (fmlookup os1 h)) |-| {|hash|} = {||}) hs) =
     map (\<lambda>h. oe_block (the (fmlookup os h))) (filter (\<lambda>h. oe_missing (the (fmlookup os h)) |-| {|hash|} = {||}) hs)"
  proof -
    have "filter (\<lambda>h. oe_missing (the (fmlookup os1 h)) |-| {|hash|} = {||}) hs =
        filter (\<lambda>h. oe_missing (the (fmlookup os h)) |-| {|hash|} = {||}) hs"
      by (rule filter_cong) (simp_all add: same)
    then show ?thesis by (simp add: same)
  qed
  have fm: "fm_filter_map (\<lambda>h e. if h \<in> set hs then after_release hash e else Some e) os1 =
      fm_filter_map (\<lambda>k e. if k \<in> set (h # hs) then after_release hash e else Some e) os"
    by (rule fmap_ext) (use Cons.prems(1) in \<open>auto simp: os1_def split: option.splits\<close>)
  show ?case using step ih maps fm by (simp add: r1_def e)
qed

lemma remove_orphan_spec:
  assumes "index_exact t"
  shows "ot_orphans (remove_orphan t hash) = fmdrop hash (ot_orphans t)"
    "bucket (ot_dependents (remove_orphan t hash)) d = bucket (ot_dependents t) d |-| {|hash|}"
    "no_empty_bucket (ot_dependents (remove_orphan t hash))"
    "ot_resolution_pending (remove_orphan t hash) = ot_resolution_pending t"
    "ot_resolution_active (remove_orphan t hash) = ot_resolution_active t"
proof -
  have idx: "no_empty_bucket (ot_dependents t)" "\<And>d h. h |\<in>| bucket (ot_dependents t) d \<longleftrightarrow> d |\<in>| missing_of t h"
    using assms by (auto simp: index_exact_iff)
  have drop: "fmdrop hash (ot_orphans t) = ot_orphans t" if "fmlookup (ot_orphans t) hash = None"
    by (rule fmap_ext) (use that in auto)
  show "ot_orphans (remove_orphan t hash) = fmdrop hash (ot_orphans t)"
    by (simp add: remove_orphan_def drop split: option.splits)
  show "bucket (ot_dependents (remove_orphan t hash)) d = bucket (ot_dependents t) d |-| {|hash|}"
    using idx(2)[of hash d] by (auto simp: remove_orphan_def missing_of_def split: option.splits)
  show "no_empty_bucket (ot_dependents (remove_orphan t hash))"
    using idx(1) by (simp add: remove_orphan_def split: option.splits)
qed (simp_all add: remove_orphan_def split: option.splits)

text \<open>The loop over the affected orphans, in closed form.\<close>

lemma persisted_release:
  fixes t :: orphan_topology and hash :: block_hash
  assumes ie: "index_exact t" and ent: "entries_ok t"
  defines "aff \<equiv> bucket (ot_dependents t) hash |-| {|hash|}"
    and "os \<equiv> fm_filter_map (after_persisted hash) (ot_orphans t)"
    and "ready \<equiv> map (orphan_block t) (sorted_list_of_fset (released t hash))"
  shows "fold (release_affected hash) (sorted_list_of_fset aff) (fmdrop hash (ot_orphans t), []) = (os, ready)"
proof -
  let ?o = "fmdrop hash (ot_orphans t)"
  have idx: "\<And>d h. h |\<in>| bucket (ot_dependents t) d \<longleftrightarrow> d |\<in>| missing_of t h"
    using ie by (auto simp: index_exact_iff)
  have here: "h |\<in>| fmdom (ot_orphans t) \<and> h \<noteq> hash \<and> hash |\<in>| oe_missing (the (fmlookup (ot_orphans t) h))"
    if "h |\<in>| aff" for h
    using that idx[of h hash] by (auto simp: aff_def missing_of_def fmlookup_dom_iff split: option.splits)
  have "h |\<in>| fmdom ?o" if "h \<in> set (sorted_list_of_fset aff)" for h
    using that here[of h] by (simp add: sorted_list_of_fset.rep_eq)
  note fold = fold_release[OF distinct_sorted_fset this, where hash = hash and ready = "[]"]
  have m: "fm_filter_map (\<lambda>h e. if h \<in> set (sorted_list_of_fset aff) then after_release hash e else Some e) ?o = os"
  proof (rule fmap_ext)
    fix k
    show "fmlookup (fm_filter_map (\<lambda>h e. if h \<in> set (sorted_list_of_fset aff) then after_release hash e else Some e) ?o) k =
        fmlookup os k"
    proof (cases "fmlookup (ot_orphans t) k")
      case (Some e)
      have ne: "oe_missing e \<noteq> {||}" using ent Some by (auto simp: entries_ok_def fmpred_iff)
      have mem: "k |\<in>| aff \<longleftrightarrow> k \<noteq> hash \<and> hash |\<in>| oe_missing e"
        using idx[of k hash] Some by (auto simp: aff_def missing_of_def)
      show ?thesis
      proof (cases "k |\<in>| aff")
        case True
        then show ?thesis using Some mem by (simp add: os_def after_persisted_def after_release_def sorted_list_of_fset.rep_eq)
      next
        case False
        have "after_persisted hash k e = Some e" if "k \<noteq> hash"
        proof -
          have eq: "oe_missing e |-| {|hash|} = oe_missing e" using False mem that by auto
          show ?thesis unfolding after_persisted_def eq using ne that by simp
        qed
        then show ?thesis using Some False
          by (cases "k = hash") (simp_all add: os_def after_persisted_def sorted_list_of_fset.rep_eq)
      qed
    qed (simp add: os_def)
  qed
  have f: "filter (\<lambda>h. oe_missing (the (fmlookup ?o h)) |-| {|hash|} = {||}) (sorted_list_of_fset aff) =
      sorted_list_of_fset (released t hash)"
    unfolding sorted_list_of_ffilter[symmetric]
  proof (rule arg_cong[of _ _ sorted_list_of_fset], rule fset_eqI)
    fix h
    show "h |\<in>| ffilter (\<lambda>h. oe_missing (the (fmlookup ?o h)) |-| {|hash|} = {||}) aff \<longleftrightarrow> h |\<in>| released t hash"
      using idx[of h hash] here[of h]
      by (auto simp: released_def aff_def missing_of_def fmlookup_dom_iff split: option.splits)
  qed
  have "map (\<lambda>h. oe_block (the (fmlookup ?o h))) (sorted_list_of_fset (released t hash)) = ready"
    unfolding ready_def by (rule map_cong) (auto simp: orphan_block_def released_def sorted_list_of_fset.rep_eq)
  then show ?thesis using fold m f by simp
qed

lemma block_persisted_outcome:
  assumes inv: "topology_inv t" and run: "block_persisted t hash = (t', m)"
  shows "topology_inv t'"
    "ot_orphans t' = fm_filter_map (after_persisted hash) (ot_orphans t)"
    "tm_ready m = map (orphan_block t) (sorted_list_of_fset (released t hash))"
    "tm_cancel m = sorted_list_of_fset (ot_resolution_pending t |-| ot_resolution_pending t')"
    "ot_resolution_pending t' = ffilter (\<lambda>h. h \<noteq> hash \<and> h |\<in>| fmdom (ot_dependents t')) (ot_resolution_pending t)"
    "\<not> tm_threshold_crossed m"
proof -
  have idx: "no_empty_bucket (ot_dependents t)" "\<And>d h. h |\<in>| bucket (ot_dependents t) d \<longleftrightarrow> d |\<in>| missing_of t h"
    and ie: "index_exact t" and ent: "entries_ok t" and pend: "pending_ok t"
    using inv by (auto simp: topology_inv_def index_exact_iff)
  define t1 where "t1 = t\<lparr>ot_resolution_pending := ot_resolution_pending t |-| {|hash|}\<rparr>"
  define c1 where "c1 = (if hash |\<in>| ot_resolution_pending t then [hash] else [])"
  have st1: "(if hash |\<in>| ot_resolution_pending t then (t\<lparr>ot_resolution_pending := ot_resolution_pending t |-| {|hash|}\<rparr>, [hash])
      else (t, [])) = (t1, c1)"
    by (auto simp: t1_def c1_def)
  have ie1: "index_exact t1" using ie by (simp add: index_exact_def t1_def missing_of_def)
  define t2 where "t2 = remove_orphan t1 hash"
  have t2: "ot_orphans t2 = fmdrop hash (ot_orphans t)" "\<And>d. bucket (ot_dependents t2) d = bucket (ot_dependents t) d |-| {|hash|}"
    "no_empty_bucket (ot_dependents t2)" "ot_resolution_pending t2 = ot_resolution_pending t |-| {|hash|}"
    "ot_resolution_active t2 = ot_resolution_active t"
    unfolding t2_def remove_orphan_spec[OF ie1] by (simp_all add: remove_orphan_spec(3)[OF ie1]) (simp_all add: t1_def)
  define aff where "aff = bucket (ot_dependents t) hash |-| {|hash|}"
  define t3 where "t3 = t2\<lparr>ot_dependents := fmdrop hash (ot_dependents t2)\<rparr>"
  define os where "os = fm_filter_map (after_persisted hash) (ot_orphans t)"
  define ready where "ready = map (orphan_block t) (sorted_list_of_fset (released t hash))"
  have rel: "fold (release_affected hash) (sorted_list_of_fset aff) (ot_orphans t3, []) = (os, ready)"
    using persisted_release[OF ie ent, of hash] by (simp add: t3_def t2 aff_def os_def ready_def)
  define t4 where "t4 = t3\<lparr>ot_orphans := os\<rparr>"
  define t5 where "t5 = t4\<lparr>ot_resolution_pending := ffilter (\<lambda>h. h |\<in>| fmdom (ot_dependents t4)) (ot_resolution_pending t4)\<rparr>"
  define un where "un = sorted_list_of_fset (ffilter (\<lambda>h. h |\<notin>| fmdom (ot_dependents t4)) (ot_resolution_pending t4))"
  have st5: "remove_unneeded_pending t4 = (t5, un)" by (simp add: remove_unneeded_pending_eq t5_def un_def)
  have b2: "bucket (ot_dependents t2) hash = aff" by (simp add: t2 aff_def)
  have out: "t' = (if ot_orphans t5 = fmempty then t5\<lparr>ot_resolution_active := False\<rparr> else t5)"
    "m = \<lparr>tm_ready = ready, tm_cancel = remdups_adj (sort (c1 @ un)), tm_threshold_crossed = False\<rparr>"
    using run unfolding block_persisted_def st1 prod.case Let_def t2_def[symmetric] b2 t3_def[symmetric] rel t4_def[symmetric] st5
    by auto
  show orp: "ot_orphans t' = fm_filter_map (after_persisted hash) (ot_orphans t)"
    using out(1) by (simp add: t5_def t4_def os_def)
  show "tm_ready m = map (orphan_block t) (sorted_list_of_fset (released t hash))" using out(2) by (simp add: ready_def)
  show "\<not> tm_threshold_crossed m" using out(2) by simp
  have dep': "ot_dependents t' = ot_dependents t4" using out(1) by (simp add: t5_def)
  have p': "ot_resolution_pending t' = ffilter (\<lambda>h. h |\<in>| fmdom (ot_dependents t')) (ot_resolution_pending t |-| {|hash|})"
    using out(1) by (simp add: t5_def t4_def t3_def t2)
  show pe: "ot_resolution_pending t' = ffilter (\<lambda>h. h \<noteq> hash \<and> h |\<in>| fmdom (ot_dependents t')) (ot_resolution_pending t)"
    unfolding p' by auto
  have "set (remdups_adj (sort (c1 @ un))) = fset (ot_resolution_pending t |-| ot_resolution_pending t')"
    unfolding p' by (auto simp: c1_def un_def dep' t4_def t3_def t2 sorted_list_of_fset.rep_eq split: if_splits)
  moreover have "distinct (c1 @ un)" by (auto simp: c1_def un_def t4_def t3_def t2 sorted_list_of_fset.rep_eq)
  then have "distinct (sort (c1 @ un))" by simp
  then have "remdups_adj (sort (c1 @ un)) = sort (c1 @ un)" by (rule remdups_adj_distinct)
  ultimately show "tm_cancel m = sorted_list_of_fset (ot_resolution_pending t |-| ot_resolution_pending t')"
    using out(2) \<open>distinct (sort (c1 @ un))\<close>
    by (intro sorted_distinct_set_unique) (simp_all add: sorted_list_of_fset.rep_eq)
  have mo: "missing_of t' h = (if h = hash then {||} else missing_of t h |-| {|hash|})" for h
    by (auto simp: missing_of_def orp after_persisted_def split: option.splits)
  have bk: "bucket (ot_dependents t') d = (if d = hash then {||} else bucket (ot_dependents t) d |-| {|hash|})" for d
    by (simp add: dep' t4_def t3_def t2)
  have ne': "no_empty_bucket (ot_dependents t')" using t2(3) by (simp add: dep' t4_def t3_def)
  have ie': "index_exact t'" unfolding index_exact_iff using ne' idx(2) by (auto simp: mo bk)
  have sub: "fmdom (ot_orphans t') |\<subseteq>| fmdom (ot_orphans t)"
    by (auto simp: orp fmlookup_dom_iff split: option.splits)
  have card': "fcard (fmdom (ot_orphans t')) \<le> fcard (fmdom (ot_orphans t))" using sub by (rule fcard_mono)
  have empty: "ot_resolution_pending t' = {||} \<and> fcard (fmdom (ot_orphans t')) = 0" if "ot_orphans t' = fmempty"
  proof -
    have "bucket (ot_dependents t') d = {||}" for d
      using that ie' by (auto simp: index_exact_iff missing_of_def)
    then show ?thesis using that ne' by (auto simp: p' no_empty_dom fcard.rep_eq)
  qed
  show "topology_inv t'"
    unfolding topology_inv_def
  proof (intro conjI impI)
    show "index_exact t'" by (rule ie')
    show "entries_ok t'"
      using ent by (auto simp: entries_ok_def fmpred_iff orp after_persisted_def split: option.splits if_splits)
    show "pending_ok t'" using pend sub by (auto simp: pending_ok_def pe)
    show "fcard (fmdom (ot_orphans t')) \<le> MAX_ORPHAN_BLOCKS" using inv card' by (simp add: topology_inv_def)
    assume off: "\<not> ot_resolution_active t'"
    have "ot_orphans t' = fmempty \<or> \<not> ot_resolution_active t"
      using off out(1) by (auto simp: t5_def t4_def t3_def t2 split: if_splits)
    then show "ot_resolution_pending t' = {||}" "fcard (fmdom (ot_orphans t')) < ORPHAN_RESOLUTION_THRESHOLD"
      using empty inv card' by (auto simp: topology_inv_def p' ORPHAN_RESOLUTION_THRESHOLD_def)
  qed
qed

section \<open>Resolution candidates\<close>

lemma take_resolution_candidates_outcome:
  assumes inv: "topology_inv t" and run: "take_resolution_candidates t = (t', hs)"
  shows "topology_inv t'" "distinct hs"
    "fset_of_list hs = (if ot_resolution_active t
       then fmdom (ot_dependents t) |-| fmdom (ot_orphans t) |-| ot_resolution_pending t else {||})"
    "ot_resolution_active t \<Longrightarrow> ot_resolution_pending t' = fmdom (ot_dependents t) |-| fmdom (ot_orphans t)"
    "sorted_wrt (\<lambda>a b. transitive_impact t b < transitive_impact t a \<or> transitive_impact t a = transitive_impact t b \<and> a < b) hs"
    "ot_orphans t' = ot_orphans t" "ot_dependents t' = ot_dependents t" "ot_resolution_active t' = ot_resolution_active t"
proof -
  let ?keep = "\<lambda>h. h |\<notin>| fmdom (ot_orphans t) \<and> h |\<notin>| ot_resolution_pending t"
  let ?c = "map (\<lambda>h. (h, transitive_impact t h)) (filter ?keep (sorted_list_of_fset (fmdom (ot_dependents t))))"
  let ?key = "\<lambda>(h, i). (- int i, h) :: int \<times> block_hash"
  let ?s = "sort_key ?key ?c"
  have hs: "hs = (if ot_resolution_active t then map fst ?s else [])"
    and t': "t' = t\<lparr>ot_resolution_pending := ot_resolution_pending t |\<union>| fset_of_list hs\<rparr>"
    using run by (cases "ot_resolution_active t"; auto simp: take_resolution_candidates_def Let_def)+
  have img: "set (map fst ?s) = fset (fmdom (ot_dependents t) |-| fmdom (ot_orphans t) |-| ot_resolution_pending t)"
    by (auto simp: sorted_list_of_fset.rep_eq image_iff)
  show set: "fset_of_list hs = (if ot_resolution_active t
       then fmdom (ot_dependents t) |-| fmdom (ot_orphans t) |-| ot_resolution_pending t else {||})"
    using img unfolding hs by (auto simp: fset_eq_iff fset_of_list_elem simp del: set_map set_sort)
  have dk: "distinct (map ?key ?s)"
    by (subst distinct_map) (auto simp: inj_on_def distinct_map)
  show "distinct hs" unfolding hs
    by (auto simp: distinct_map inj_on_def)
  have "sorted (map ?key ?s)" by simp
  with dk have "sorted_wrt (<) (map ?key ?s)" by (simp add: strict_sorted_iff)
  then have srt: "sorted_wrt (\<lambda>x y. ?key x < ?key y) ?s" by (simp add: sorted_wrt_map)
  have mem: "snd x = transitive_impact t (fst x)" if "x \<in> set ?s" for x using that by auto
  have "sorted_wrt (\<lambda>x y. transitive_impact t (fst y) < transitive_impact t (fst x) \<or>
      transitive_impact t (fst x) = transitive_impact t (fst y) \<and> fst x < fst y) ?s"
    by (rule sorted_wrt_mono_rel[OF _ srt]) (use mem in \<open>auto simp: less_prod_def' split: prod.splits\<close>)
  then show "sorted_wrt (\<lambda>a b. transitive_impact t b < transitive_impact t a \<or> transitive_impact t a = transitive_impact t b \<and> a < b) hs"
    unfolding hs by (simp add: sorted_wrt_map)
  show "ot_orphans t' = ot_orphans t" "ot_dependents t' = ot_dependents t" "ot_resolution_active t' = ot_resolution_active t"
    by (simp_all add: t')
  show "ot_resolution_pending t' = fmdom (ot_dependents t) |-| fmdom (ot_orphans t)" if "ot_resolution_active t"
    using inv that by (auto simp: t' set topology_inv_def pending_ok_def)
  show "topology_inv t'"
    using inv set by (auto simp: t' topology_inv_def pending_ok_def index_exact_def entries_ok_def missing_of_def split: if_splits)
qed

text \<open>With acyclic references, every orphan waits, directly or through other orphans, on a reference
  whose resolution is pending once the candidates have been taken.\<close>

lemma orphans_wait_on_pending:
  assumes inv: "topology_inv t" and run: "take_resolution_candidates t = (t', hs)" and act: "ot_resolution_active t"
    and acyc: "acyclic (depends (ot_dependents t))" and orphan: "h |\<in>| fmdom (ot_orphans t)"
  shows "\<exists>p. p |\<in>| ot_resolution_pending t' \<and> (p, h) \<in> (depends (ot_dependents t))\<^sup>+"
proof -
  let ?D = "depends (ot_dependents t)"
  have idx: "no_empty_bucket (ot_dependents t)" "\<And>d h. h |\<in>| bucket (ot_dependents t) d \<longleftrightarrow> d |\<in>| missing_of t h"
    and ent: "entries_ok t"
    using inv by (auto simp: topology_inv_def index_exact_iff)
  have "?D \<subseteq> fset (fmdom (ot_dependents t)) \<times> fset (all_dependents (ot_dependents t))"
    by (auto simp: depends_def bucket_def all_dependents_def ffUnion.rep_eq split: option.splits intro: fmdomI bexI[OF _ fmranI])
  then have "finite ?D" by (rule finite_subset) simp
  then have "wf ?D" using acyc by (rule finite_acyclic_wf)
  then show ?thesis using orphan
  proof (induction h rule: wf_induct_rule)
    case (less h)
    from less.prems obtain e where e: "fmlookup (ot_orphans t) h = Some e" by (auto simp: fmlookup_dom_iff)
    then have "missing_of t h \<noteq> {||}" using ent by (auto simp: missing_of_def entries_ok_def fmpred_iff)
    then obtain d where "d |\<in>| missing_of t h" by auto
    then have d: "(d, h) \<in> ?D" using idx(2) by simp
    show ?case
    proof (cases "d |\<in>| fmdom (ot_orphans t)")
      case True
      from less.IH[OF d True] show ?thesis using d by (blast intro: trancl_into_trancl)
    next
      case False
      have "d |\<in>| fmdom (ot_dependents t)" using d idx(1) by (auto simp: no_empty_dom)
      then have "d |\<in>| ot_resolution_pending t'"
        using False take_resolution_candidates_outcome(4)[OF inv run act] by simp
      then show ?thesis using d by blast
    qed
  qed
qed

end
