(* ===== verification/Orphan_Properties.thy ===== *)
theory Orphan_Properties
  imports Orphan_Topology Processing_Faults
begin

text \<open>
  The properties of the orphan topology, and of the fault mappings of the processing workers.
\<close>

section \<open>A sample topology\<close>

text \<open>Block 3 waits on 1, block 4 on 3, and block 5 on 3 and 2; resolution is active.\<close>

definition sample_orphan :: "block_hash \<Rightarrow> validated_node_block" where
  "sample_orphan h =
     \<lparr>vnb_hash = h, vnb_selected_parent = 1, vnb_direct_parents = [1], vnb_blue_merge_set = [], vnb_red_merge_set = [],
      vnb_timestamp = 0, vnb_daa_score = 0, vnb_blue_score = 1, vnb_blue_work = 1\<rparr>"

definition sample_topology :: orphan_topology where
  "sample_topology =
     \<lparr>ot_orphans = fmupd 3 \<lparr>oe_block = sample_orphan 3, oe_missing = {|1|}\<rparr>
        (fmupd 4 \<lparr>oe_block = sample_orphan 4, oe_missing = {|3|}\<rparr>
        (fmupd 5 \<lparr>oe_block = sample_orphan 5, oe_missing = {|2, 3|}\<rparr> fmempty)),
      ot_dependents = fmupd 1 {|3|} (fmupd 2 {|5|} (fmupd 3 {|4, 5|} fmempty)),
      ot_resolution_pending = {|1|}, ot_resolution_active = True\<rparr>"

lemma sample_topology_inv: "topology_inv sample_topology" by code_simp


text \<open>The blocks that wait on a reference, directly or through other orphans.\<close>

definition dependent_count :: "orphan_topology \<Rightarrow> block_hash \<Rightarrow> nat" where
  "dependent_count t h = card {b. (h, b) \<in> (depends (ot_dependents t))\<^sup>+}"

lemma impact_is_count: "transitive_impact t h = dependent_count t h"
  by (simp add: dependent_count_def transitive_impact_counts)

section \<open>Properties of the topology\<close>

text \<open>C16. Admitting an orphan, on every branch: a known orphan changes nothing; at capacity, or without a
  missing reference, it is refused and nothing changes; otherwise it is parked with its missing
  references, its own resolution, if pending, is the only one cancelled, and the invariant is kept. The
  threshold is reported exactly when it is crossed.\<close>

theorem orphan_admission_correct:
  assumes "topology_inv t" and "add_orphan t b ms = (t', r)"
  shows "topology_inv t' \<and>
    r = (if vnb_hash b |\<in>| fmdom (ot_orphans t) then Inr mutation_none
         else if fcard (fmdom (ot_orphans t)) = MAX_ORPHAN_BLOCKS then Inl CapacityExhausted
         else if ms = [] then Inl EmptyMissingSet
         else Inr \<lparr>tm_ready = [], tm_cancel = (if vnb_hash b |\<in>| ot_resolution_pending t then [vnb_hash b] else []),
                   tm_threshold_crossed = (\<not> ot_resolution_active t \<and> ORPHAN_RESOLUTION_THRESHOLD \<le> fcard (fmdom (ot_orphans t)) + 1)\<rparr>) \<and>
    (if vnb_hash b |\<notin>| fmdom (ot_orphans t) \<and> fcard (fmdom (ot_orphans t)) \<noteq> MAX_ORPHAN_BLOCKS \<and> ms \<noteq> []
     then ot_orphans t' = fmupd (vnb_hash b) \<lparr>oe_block = b, oe_missing = fset_of_list ms\<rparr> (ot_orphans t) \<and>
          ot_resolution_pending t' = ot_resolution_pending t |-| {|vnb_hash b|}
     else t' = t)"
proof (cases "vnb_hash b |\<notin>| fmdom (ot_orphans t) \<and> fcard (fmdom (ot_orphans t)) \<noteq> MAX_ORPHAN_BLOCKS \<and> ms \<noteq> []")
  case True
  then obtain m where m: "r = Inr m" "topology_inv t'"
    "ot_orphans t' = fmupd (vnb_hash b) \<lparr>oe_block = b, oe_missing = fset_of_list ms\<rparr> (ot_orphans t)"
    "ot_resolution_pending t' = ot_resolution_pending t |-| {|vnb_hash b|}"
    "tm_ready m = []" "tm_cancel m = (if vnb_hash b |\<in>| ot_resolution_pending t then [vnb_hash b] else [])"
    "tm_threshold_crossed m = (\<not> ot_resolution_active t \<and> ORPHAN_RESOLUTION_THRESHOLD \<le> fcard (fmdom (ot_orphans t')))"
    using add_orphan_outcome[OF assms(1), of b ms] unfolding assms(2) prod.inject by (metis (no_types, lifting))
  have "fcard (fmdom (ot_orphans t')) = fcard (fmdom (ot_orphans t)) + 1" using True by (simp add: m(3) fcard_finsert_disjoint)
  then show ?thesis using m True by simp
next
  case False
  then show ?thesis using assms by (auto simp: add_orphan_def split: if_splits)
qed

theorem orphan_admission_correct_witness:
  "topology_inv (fst (add_orphan sample_topology (sample_orphan 1) [9])) \<and>
   snd (add_orphan sample_topology (sample_orphan 1) [9]) = Inr \<lparr>tm_ready = [], tm_cancel = [1], tm_threshold_crossed = False\<rparr>"
proof -
  have "snd (add_orphan sample_topology (sample_orphan 1) [9]) = Inr \<lparr>tm_ready = [], tm_cancel = [1], tm_threshold_crossed = False\<rparr>"
    by code_simp
  then show ?thesis using orphan_admission_correct[OF sample_topology_inv surjective_pairing] by blast
qed

text \<open>C15. Persisting a block: it leaves the orphans if it was one, every orphan that waited on it waits on
  one reference less, the orphans that waited on nothing else are released, each once, and exactly the
  resolutions that no remaining orphan needs are cancelled.\<close>

theorem orphan_release_correct:
  assumes "topology_inv t" and "block_persisted t hash = (t', m)"
  shows "topology_inv t' \<and> ot_orphans t' = fm_filter_map (after_persisted hash) (ot_orphans t) \<and>
    tm_ready m = map (orphan_block t) (sorted_list_of_fset (released t hash)) \<and>
    tm_cancel m = sorted_list_of_fset (ot_resolution_pending t |-| ot_resolution_pending t') \<and>
    ot_resolution_pending t' = ffilter (\<lambda>h. h \<noteq> hash \<and> h |\<in>| fmdom (ot_dependents t')) (ot_resolution_pending t)"
  using block_persisted_outcome[OF assms] by blast

theorem orphan_release_correct_witness:
  "topology_inv (fst (block_persisted sample_topology 1)) \<and>
   map vnb_hash (tm_ready (snd (block_persisted sample_topology 1))) = [3] \<and>
   tm_cancel (snd (block_persisted sample_topology 1)) = [1]"
proof -
  have "map vnb_hash (tm_ready (snd (block_persisted sample_topology 1))) = [3]"
    "tm_cancel (snd (block_persisted sample_topology 1)) = [1]" by code_simp+
  then show ?thesis using orphan_release_correct[OF sample_topology_inv surjective_pairing] by blast
qed

text \<open>C36. The resolution candidates: once the threshold has been crossed, every missing reference that is
  no orphan itself and not yet pending is taken, once, in the order of the number of
  blocks that wait on it, directly or through other orphans, the largest first and ties by hash, and is
  pending afterwards; before that none is.\<close>

theorem resolution_candidates_correct:
  assumes "topology_inv t" and "take_resolution_candidates t = (t', hs)"
  shows "topology_inv t' \<and> distinct hs \<and>
    fset_of_list hs = (if ot_resolution_active t
       then fmdom (ot_dependents t) |-| fmdom (ot_orphans t) |-| ot_resolution_pending t else {||}) \<and>
    sorted_wrt (\<lambda>a b. dependent_count t b < dependent_count t a \<or> dependent_count t a = dependent_count t b \<and> a < b) hs \<and>
    ot_resolution_pending t' = ot_resolution_pending t |\<union>| fset_of_list hs \<and>
    ot_orphans t' = ot_orphans t \<and> ot_dependents t' = ot_dependents t"
proof -
  have "ot_resolution_pending t' = ot_resolution_pending t |\<union>| fset_of_list hs"
    using assms(2) by (auto simp: take_resolution_candidates_def Let_def split: if_splits)
  then show ?thesis using take_resolution_candidates_outcome[OF assms] unfolding impact_is_count by blast
qed

theorem resolution_candidates_correct_witness:
  "topology_inv (fst (take_resolution_candidates sample_topology)) \<and> snd (take_resolution_candidates sample_topology) = [2]"
proof -
  have "snd (take_resolution_candidates sample_topology) = [2]" by code_simp
  then show ?thesis using resolution_candidates_correct[OF sample_topology_inv surjective_pairing] by blast
qed



section \<open>Properties of the fault mappings\<close>

text \<open>No fault of a worker asks for a plain retry while the session is live: whatever the storage,
  the node, a bounded channel or a child worker reports, recovery is at least a resynchronization.\<close>

theorem live_worker_faults_resync:
  "cf_disposition (storage_fault e True) \<noteq> Retry \<and> cf_disposition (node_fault n True) \<noteq> Retry \<and>
   cf_disposition (bounded_send_fault c True s) \<noteq> Retry \<and> cf_disposition (child_fault_mapped k True) \<noteq> Retry \<and>
   cf_disposition (vspc_session_endpoint_fault True) \<noteq> Retry \<and>
   Retry \<notin> (\<lambda>f. cf_disposition f) ` set_option (node_operation_fault n True)"
proof -
  have "Retry \<notin> (\<lambda>f. cf_disposition f) ` set_option (node_operation_fault n True)"
    using live_faults_never_retry(3)[of n] by fastforce
  then show ?thesis by (simp add: live_faults_never_retry)
qed

end
