(* ===== verification/Dependency_Resolver.thy ===== *)
theory Dependency_Resolver
  imports Block_Processor
begin

text \<open>
  The dependency resolver, \<open>DependencyResolverWorker\<close> of \<open>block_processor/dependency.rs\<close>: a pool of RPC
  tasks, at most eight of which talk to the node at a time. A spawned task waits for a permit, calls the
  node and ends; the steps of the tasks are functions of their own, which interleave with the worker's
  iterations. The task ids, the choice among finished tasks and the receiver behind the resolution
  channel belong to the asynchronous runtime and are parameters. What the worker took and answered is
  logged in order.
\<close>

section \<open>Data\<close>

definition MAX_DEPENDENCY_RPC_CONCURRENCY :: nat where "MAX_DEPENDENCY_RPC_CONCURRENCY = 8"

datatype resolver_work = Resolve block_hash | Cancel block_hash

datatype resolver_command = RcShutdown

type_synonym task_id = nat

datatype task_result = TaskOutput "node_error + validated_node_block" | TaskCancelled | TaskPanicked

datatype task_phase = TaskWaiting | TaskActive | TaskDone task_result

datatype request_event = Took resolver_work | Answered block_hash | Dropped block_hash

record dr_worker =
  dr_commands :: "resolver_command list"
  dr_commands_closed :: bool
  dr_work :: "resolver_work list"
  dr_work_closed :: bool
  dr_sent :: "block_resolution_event list"
  dr_faults :: "child_fault list"
  dr_faults_closed :: bool
  dr_active :: nat
  dr_waiting :: nat
  dr_permits :: nat
  dr_tasks :: "(task_id, task_phase) fmap"
  dr_aborted :: "task_id fset"
  dr_tasks_by_hash :: "(block_hash, task_id) fmap"
  dr_hashes_by_task :: "(task_id, block_hash) fmap"
  dr_cancelled_tasks :: "task_id fset"
  dr_faulted :: bool
  dr_work_open :: bool
  dr_log :: "request_event list"

record 'd dr_env =
  dre_task_id :: "'d \<Rightarrow> task_id fset \<Rightarrow> 'd \<times> task_id"
  dre_join :: "'d \<Rightarrow> task_id fset \<Rightarrow> 'd \<times> task_id"
  dre_resolution_try_send :: "'d \<Rightarrow> block_resolution_event \<Rightarrow> 'd \<times> try_send_error option"

text \<open>A new task has an id that no unjoined task has; joining yields a finished task.\<close>

definition fresh_ids :: "'d dr_env \<Rightarrow> bool" where
  "fresh_ids env = (\<forall>db ids. snd (dre_task_id env db ids) |\<notin>| ids)"

definition joins_finished :: "'d dr_env \<Rightarrow> bool" where
  "joins_finished env = (\<forall>db ids. ids \<noteq> {||} \<longrightarrow> snd (dre_join env db ids) |\<in>| ids)"

definition dr_new :: dr_worker where
  "dr_new =
     \<lparr>dr_commands = [], dr_commands_closed = False, dr_work = [], dr_work_closed = False, dr_sent = [], dr_faults = [],
      dr_faults_closed = False, dr_active = 0, dr_waiting = 0, dr_permits = MAX_DEPENDENCY_RPC_CONCURRENCY,
      dr_tasks = fmempty, dr_aborted = {||}, dr_tasks_by_hash = fmempty, dr_hashes_by_task = fmempty,
      dr_cancelled_tasks = {||}, dr_faulted = False, dr_work_open = True, dr_log = []\<rparr>"

section \<open>Tasks\<close>

text \<open>The end of a task drops the guards it holds: the waiting counter before it has a permit, the active
  counter and the permit after.\<close>

definition release_guards :: "task_phase \<Rightarrow> dr_worker \<Rightarrow> dr_worker" where
  "release_guards phase w =
     (case phase of
        TaskWaiting \<Rightarrow> w\<lparr>dr_waiting := dr_waiting w - 1\<rparr>
      | TaskActive \<Rightarrow> w\<lparr>dr_active := dr_active w - 1, dr_permits := dr_permits w + 1\<rparr>
      | TaskDone _ \<Rightarrow> w)"

definition task_acquire :: "task_id \<Rightarrow> dr_worker \<Rightarrow> dr_worker option" where
  "task_acquire tid w =
     (if fmlookup (dr_tasks w) tid = Some TaskWaiting \<and> 0 < dr_permits w
      then Some (w\<lparr>dr_permits := dr_permits w - 1, dr_waiting := dr_waiting w - 1, dr_active := dr_active w + 1,
                   dr_tasks := fmupd tid TaskActive (dr_tasks w)\<rparr>)
      else None)"

definition task_end :: "task_id \<Rightarrow> task_result \<Rightarrow> dr_worker \<Rightarrow> dr_worker option" where
  "task_end tid result w =
     (case fmlookup (dr_tasks w) tid of
        Some phase \<Rightarrow>
          if (case result of TaskCancelled \<Rightarrow> tid |\<in>| dr_aborted w \<and> (phase = TaskWaiting \<or> phase = TaskActive)
                           | _ \<Rightarrow> phase = TaskActive)
          then Some ((release_guards phase w)\<lparr>dr_tasks := fmupd tid (TaskDone result) (dr_tasks w)\<rparr>)
          else None
      | None \<Rightarrow> None)"

definition abort_all :: "dr_worker \<Rightarrow> dr_worker" where
  "abort_all w = w\<lparr>dr_aborted := dr_aborted w |\<union>| fmdom (dr_tasks w)\<rparr>"

section \<open>Operations\<close>

definition dr_report_fault :: "child_fault_kind \<Rightarrow> dr_worker \<Rightarrow> dr_worker" where
  "dr_report_fault kind w =
     (if dr_faults_closed w then w else w\<lparr>dr_faults := dr_faults w @ [ChildFault DependencyResolver kind]\<rparr>)"

definition dr_fail :: "child_fault_kind \<Rightarrow> dr_worker \<Rightarrow> dr_worker" where
  "dr_fail kind w = abort_all ((dr_report_fault kind w)\<lparr>dr_faulted := True\<rparr>)"

text \<open>One turn of the join loop: the task has ended, whatever its result.\<close>

definition join_discard :: "task_id \<Rightarrow> dr_worker \<Rightarrow> dr_worker" where
  "join_discard tid w =
     (case fmlookup (dr_tasks w) tid of
        None \<Rightarrow> w
      | Some phase \<Rightarrow>
          let w1 = (release_guards phase w)\<lparr>dr_tasks := fmdrop tid (dr_tasks w), dr_aborted := dr_aborted w |-| {|tid|}\<rparr>
          in case fmlookup (dr_hashes_by_task w1) tid of
               None \<Rightarrow> w1
             | Some hash \<Rightarrow> w1\<lparr>dr_hashes_by_task := fmdrop tid (dr_hashes_by_task w1),
                              dr_tasks_by_hash := fmdrop hash (dr_tasks_by_hash w1)\<rparr>)"

definition abort_and_join :: "dr_worker \<Rightarrow> dr_worker" where
  "abort_and_join w =
     (fold join_discard (sorted_list_of_fset (fmdom (dr_tasks w))) (abort_all w))
       \<lparr>dr_tasks_by_hash := fmempty, dr_hashes_by_task := fmempty, dr_cancelled_tasks := {||}\<rparr>"

definition drain_work :: "dr_worker \<Rightarrow> dr_worker" where
  "drain_work w = w\<lparr>dr_work := []\<rparr>"

definition dr_handle_command :: "dr_worker \<Rightarrow> resolver_command \<Rightarrow> dr_worker" where
  "dr_handle_command w command = (case command of RcShutdown \<Rightarrow> drain_work (abort_and_join w))"

definition start_resolution :: "'d dr_env \<Rightarrow> 'd \<Rightarrow> dr_worker \<Rightarrow> block_hash \<Rightarrow> dr_worker \<times> 'd" where
  "start_resolution env db w hash =
     (if hash |\<in>| fmdom (dr_tasks_by_hash w) then (dr_fail ChildInvalidProtocol w, db)
      else
        (case dre_task_id env db (fmdom (dr_tasks w)) of (db', tid) \<Rightarrow>
           (w\<lparr>dr_waiting := dr_waiting w + 1, dr_tasks := fmupd tid TaskWaiting (dr_tasks w),
              dr_tasks_by_hash := fmupd hash tid (dr_tasks_by_hash w),
              dr_hashes_by_task := fmupd tid hash (dr_hashes_by_task w),
              dr_log := dr_log w @ [Took (Resolve hash)]\<rparr>, db')))"

definition handle_work :: "'d dr_env \<Rightarrow> 'd \<Rightarrow> dr_worker \<Rightarrow> resolver_work \<Rightarrow> dr_worker \<times> 'd" where
  "handle_work env db w work =
     (case work of
        Resolve hash \<Rightarrow> start_resolution env db w hash
      | Cancel hash \<Rightarrow>
          let w1 = w\<lparr>dr_log := dr_log w @ [Took (Cancel hash)]\<rparr>
          in (case fmlookup (dr_tasks_by_hash w) hash of
                Some tid \<Rightarrow> w1\<lparr>dr_cancelled_tasks := finsert tid (dr_cancelled_tasks w), dr_aborted := finsert tid (dr_aborted w)\<rparr>
              | None \<Rightarrow> w1, db))"

definition answer :: "'d dr_env \<Rightarrow> 'd \<Rightarrow> dr_worker \<Rightarrow> block_hash \<Rightarrow> node_error + validated_node_block \<Rightarrow> dr_worker \<times> 'd" where
  "answer env db w hash outp =
     (case dre_resolution_try_send env db (DependencyResolved hash outp) of
        (db', None) \<Rightarrow> (w\<lparr>dr_sent := dr_sent w @ [DependencyResolved hash outp], dr_log := dr_log w @ [Answered hash]\<rparr>, db')
      | (db', Some TrySendFull) \<Rightarrow> (dr_fail (ChildSessionDataFull ResolutionPath) w, db')
      | (db', Some TrySendClosed) \<Rightarrow> (dr_fail (ChildSessionDataEndpointLost ResolutionPath) w, db'))"

definition handle_task_result :: "'d dr_env \<Rightarrow> 'd \<Rightarrow> dr_worker \<Rightarrow> task_id \<Rightarrow> task_result \<Rightarrow> dr_worker \<times> 'd" where
  "handle_task_result env db w tid result =
     (let cancelled = (tid |\<in>| dr_cancelled_tasks w);
          w1 = w\<lparr>dr_cancelled_tasks := dr_cancelled_tasks w |-| {|tid|}\<rparr>
      in case fmlookup (dr_hashes_by_task w1) tid of
           None \<Rightarrow> ((dr_report_fault ChildInvalidProtocol w1)\<lparr>dr_faulted := True\<rparr>, db)
         | Some hash \<Rightarrow>
             let w2 = w1\<lparr>dr_hashes_by_task := fmdrop tid (dr_hashes_by_task w1),
                         dr_tasks_by_hash := fmdrop hash (dr_tasks_by_hash w1)\<rparr>
             in if cancelled then (if dr_faulted w2 then w2 else w2\<lparr>dr_log := dr_log w2 @ [Dropped hash]\<rparr>, db)
                else case result of
                       TaskOutput outp \<Rightarrow> if dr_faulted w2 then (w2, db) else answer env db w2 hash outp
                     | TaskCancelled \<Rightarrow> (w2, db)
                     | TaskPanicked \<Rightarrow> (dr_fail (ChildOwnership UnexpectedWorkerTermination) w2, db))"

section \<open>The run loop\<close>

definition is_done :: "task_phase \<Rightarrow> bool" where
  "is_done phase = (case phase of TaskDone _ \<Rightarrow> True | _ \<Rightarrow> False)"

definition finished_tasks :: "dr_worker \<Rightarrow> task_id fset" where
  "finished_tasks w = fmdom (fmfilter (\<lambda>tid. case fmlookup (dr_tasks w) tid of Some p \<Rightarrow> is_done p | None \<Rightarrow> False) (dr_tasks w))"

definition join_next :: "'d dr_env \<Rightarrow> 'd \<Rightarrow> dr_worker \<Rightarrow> dr_worker \<times> 'd" where
  "join_next env db w =
     (case dre_join env db (finished_tasks w) of (db', tid) \<Rightarrow>
        (case fmlookup (dr_tasks w) tid of
           Some (TaskDone result) \<Rightarrow>
             handle_task_result env db'
               (w\<lparr>dr_tasks := fmdrop tid (dr_tasks w), dr_aborted := dr_aborted w |-| {|tid|}\<rparr>) tid result
         | _ \<Rightarrow> (w, db')))"

definition dr_loop_step :: "'d dr_env \<Rightarrow> 'd \<Rightarrow> dr_worker \<Rightarrow> dr_worker \<times> 'd \<times> loop_outcome" where
  "dr_loop_step env db w =
     (case dr_commands w of
        command # rest \<Rightarrow> (dr_handle_command (w\<lparr>dr_commands := rest\<rparr>) command, db, LoopStop)
      | [] \<Rightarrow>
          if dr_commands_closed w then
            (abort_and_join (if dr_faulted w then w else dr_report_fault (ChildOwnership InternalControlPathLost) w), db, LoopStop)
          else if \<not> dr_faulted w \<and> dr_work_open w \<and> dr_work w \<noteq> [] then
            (case handle_work env db (w\<lparr>dr_work := tl (dr_work w)\<rparr>) (hd (dr_work w)) of (w', db') \<Rightarrow> (w', db', LoopContinue))
          else if \<not> dr_faulted w \<and> dr_work_open w \<and> dr_work_closed w then
            (dr_fail (ChildSessionDataEndpointLost ResolverWorkPath) (w\<lparr>dr_work_open := False\<rparr>), db, LoopContinue)
          else if finished_tasks w \<noteq> {||} then
            (case join_next env db w of (w', db') \<Rightarrow> (w', db', LoopContinue))
          else (w, db, LoopBlocked))"

section \<open>What a resolver promises\<close>

text \<open>The abstract resolver: the requests that are outstanding, each with a mark once it is cancelled.
  An outstanding request is answered once, and never after it has been cancelled.\<close>

definition request_step :: "(block_hash, bool) fmap \<Rightarrow> request_event \<Rightarrow> (block_hash, bool) fmap option" where
  "request_step open event =
     (case event of
        Took (Resolve hash) \<Rightarrow> if hash |\<in>| fmdom open then None else Some (fmupd hash False open)
      | Took (Cancel hash) \<Rightarrow> Some (if hash |\<in>| fmdom open then fmupd hash True open else open)
      | Answered hash \<Rightarrow> if fmlookup open hash = Some False then Some (fmdrop hash open) else None
      | Dropped hash \<Rightarrow> if fmlookup open hash = Some True then Some (fmdrop hash open) else None)"

definition open_requests :: "dr_worker \<Rightarrow> (block_hash, bool) fmap" where
  "open_requests w = fmmap (\<lambda>tid. tid |\<in>| dr_cancelled_tasks w) (dr_tasks_by_hash w)"

definition answered_hashes :: "request_event list \<Rightarrow> block_hash list" where
  "answered_hashes log = concat (map (\<lambda>e. case e of Answered h \<Rightarrow> [h] | _ \<Rightarrow> []) log)"

definition sent_hashes :: "block_resolution_event list \<Rightarrow> block_hash list" where
  "sent_hashes events = concat (map (\<lambda>e. case e of DependencyResolved h _ \<Rightarrow> [h] | OrphanReady _ \<Rightarrow> []) events)"

definition in_phase :: "task_phase \<Rightarrow> (task_id, task_phase) fmap \<Rightarrow> nat" where
  "in_phase phase tasks = card {tid. fmlookup tasks tid = Some phase}"

definition counters_ok :: "dr_worker \<Rightarrow> bool" where
  "counters_ok w =
     (dr_waiting w = in_phase TaskWaiting (dr_tasks w) \<and> dr_active w = in_phase TaskActive (dr_tasks w) \<and>
      dr_permits w + dr_active w = MAX_DEPENDENCY_RPC_CONCURRENCY)"

definition tracked :: "dr_worker \<Rightarrow> bool" where
  "tracked w =
     (fmdom (dr_hashes_by_task w) = fmdom (dr_tasks w) \<and>
      (\<forall>tid hash. fmlookup (dr_hashes_by_task w) tid = Some hash \<longleftrightarrow> fmlookup (dr_tasks_by_hash w) hash = Some tid))"

definition aborts_ok :: "dr_worker \<Rightarrow> bool" where
  "aborts_ok w =
     (dr_cancelled_tasks w |\<subseteq>| dr_aborted w \<and> dr_aborted w |\<subseteq>| fmdom (dr_tasks w) \<and>
      (\<not> dr_faulted w \<longrightarrow> dr_aborted w |\<subseteq>| dr_cancelled_tasks w) \<and>
      (\<forall>tid. fmlookup (dr_tasks w) tid = Some (TaskDone TaskCancelled) \<longrightarrow> tid |\<in>| dr_aborted w))"

definition requests_ok :: "dr_worker \<Rightarrow> bool" where
  "requests_ok w =
     (fold_opt request_step fmempty (dr_log w) \<noteq> None \<and>
      (\<not> dr_faulted w \<longrightarrow> fold_opt request_step fmempty (dr_log w) = Some (open_requests w)) \<and>
      sent_hashes (dr_sent w) = answered_hashes (dr_log w))"

definition dr_inv :: "dr_worker \<Rightarrow> bool" where
  "dr_inv w = (counters_ok w \<and> tracked w \<and> aborts_ok w \<and> requests_ok w)"

section \<open>Counting tasks\<close>

lemma phase_finite [simp]: "finite {tid. fmlookup (tasks :: (task_id, task_phase) fmap) tid = Some phase}"
  by (rule finite_subset[of _ "fset (fmdom tasks)"]) (auto intro: fmdomI)

lemma in_phase_drop:
  "in_phase p (fmdrop tid T) + (if fmlookup T tid = Some p then 1 else 0) = in_phase p T"
proof -
  let ?S = "{x. fmlookup T x = Some p}"
  have "{x. fmlookup (fmdrop tid T) x = Some p} = ?S - {tid}" by auto
  then show ?thesis
    using card_Suc_Diff1[OF phase_finite, of tid T p] by (auto simp: in_phase_def)
qed

lemma in_phase_upd:
  "in_phase p (fmupd tid q T) + (if fmlookup T tid = Some p then 1 else 0) = in_phase p T + (if q = p then 1 else 0)"
proof -
  have "{x. fmlookup (fmupd tid q T) x = Some p} = (if q = p then {tid} else {}) \<union> {x. fmlookup (fmdrop tid T) x = Some p}"
    by auto
  moreover have "card ((if q = p then {tid} else {}) \<union> {x. fmlookup (fmdrop tid T) x = Some p}) =
      in_phase p (fmdrop tid T) + (if q = p then 1 else 0)"
    unfolding in_phase_def using phase_finite[of "fmdrop tid T" p] by (simp add: card_insert_if del: fmlookup_drop)
  ultimately have "in_phase p (fmupd tid q T) = in_phase p (fmdrop tid T) + (if q = p then 1 else 0)"
    unfolding in_phase_def by presburger
  then show ?thesis using in_phase_drop[of p tid T] by simp
qed

lemma in_phase_empty [simp]: "in_phase p fmempty = 0"
  by (simp add: in_phase_def)

text \<open>A counter of the tasks in a phase moves with the task that leaves it.\<close>

lemma counters_release:
  assumes "counters_ok w" "fmlookup (dr_tasks w) tid = Some phase"
  shows "counters_ok ((release_guards phase w)\<lparr>dr_tasks := fmdrop tid (dr_tasks w)\<rparr>)"
    "counters_ok ((release_guards phase w)\<lparr>dr_tasks := fmupd tid (TaskDone r) (dr_tasks w)\<rparr>)"
proof -
  note d = in_phase_drop[of TaskWaiting tid "dr_tasks w"] in_phase_drop[of TaskActive tid "dr_tasks w"]
  note u = in_phase_upd[of TaskWaiting tid "TaskDone r" "dr_tasks w"] in_phase_upd[of TaskActive tid "TaskDone r" "dr_tasks w"]
  show "counters_ok ((release_guards phase w)\<lparr>dr_tasks := fmdrop tid (dr_tasks w)\<rparr>)"
    using d assms by (cases phase) (auto simp: counters_ok_def release_guards_def)
  show "counters_ok ((release_guards phase w)\<lparr>dr_tasks := fmupd tid (TaskDone r) (dr_tasks w)\<rparr>)"
    using u assms by (cases phase) (auto simp: counters_ok_def release_guards_def)
qed

lemma release_guards_frame [simp]:
  "dr_tasks (release_guards p w) = dr_tasks w" "dr_aborted (release_guards p w) = dr_aborted w"
  "dr_tasks_by_hash (release_guards p w) = dr_tasks_by_hash w" "dr_hashes_by_task (release_guards p w) = dr_hashes_by_task w"
  "dr_cancelled_tasks (release_guards p w) = dr_cancelled_tasks w" "dr_faulted (release_guards p w) = dr_faulted w"
  "dr_log (release_guards p w) = dr_log w" "dr_sent (release_guards p w) = dr_sent w" "dr_work (release_guards p w) = dr_work w"
  "dr_commands (release_guards p w) = dr_commands w" "dr_work_open (release_guards p w) = dr_work_open w"
  by (simp_all add: release_guards_def split: task_phase.split)

section \<open>The tasks keep the invariant\<close>

lemma task_acquire_inv:
  assumes "dr_inv w" "task_acquire tid w = Some w'"
  shows "dr_inv w'"
proof -
  have t: "fmlookup (dr_tasks w) tid = Some TaskWaiting" "0 < dr_permits w"
    and w': "w' = w\<lparr>dr_permits := dr_permits w - 1, dr_waiting := dr_waiting w - 1, dr_active := dr_active w + 1,
                   dr_tasks := fmupd tid TaskActive (dr_tasks w)\<rparr>"
    using assms(2) by (auto simp: task_acquire_def split: if_splits)
  note u = in_phase_upd[of TaskWaiting tid TaskActive "dr_tasks w"] in_phase_upd[of TaskActive tid TaskActive "dr_tasks w"]
  have "counters_ok w'" using assms(1) t u by (auto simp: dr_inv_def counters_ok_def w')
  moreover have "finsert tid (fmdom (dr_tasks w)) = fmdom (dr_tasks w)" using t(1) by (auto intro: fmdomI)
  ultimately show ?thesis using assms(1)
    by (auto simp: dr_inv_def tracked_def aborts_ok_def requests_ok_def open_requests_def w')
qed

lemma task_end_inv:
  assumes "dr_inv w" "task_end tid r w = Some w'"
  shows "dr_inv w'"
proof -
  obtain phase where t: "fmlookup (dr_tasks w) tid = Some phase" "r = TaskCancelled \<longrightarrow> tid |\<in>| dr_aborted w"
    and w': "w' = (release_guards phase w)\<lparr>dr_tasks := fmupd tid (TaskDone r) (dr_tasks w)\<rparr>"
    using assms(2) by (auto simp: task_end_def split: option.splits if_splits task_result.splits)
  have "counters_ok w'" using counters_release(2)[OF _ t(1)] assms(1) by (simp add: dr_inv_def w')
  moreover have "finsert tid (fmdom (dr_tasks w)) = fmdom (dr_tasks w)" using t(1) by (auto intro: fmdomI)
  ultimately show ?thesis using assms(1) t(2)
    by (auto simp: dr_inv_def tracked_def aborts_ok_def requests_ok_def open_requests_def w')
qed

section \<open>The worker keeps the invariant\<close>

lemma request_log_snoc:
  "fold_opt request_step s (log @ [e]) = Option.bind (fold_opt request_step s log) (\<lambda>r. request_step r e)"
  by (cases "fold_opt request_step s log") (auto simp: fold_opt_append split: option.splits)

lemma hashes_snoc [simp]:
  "answered_hashes (log @ [e]) = answered_hashes log @ answered_hashes [e]"
  "sent_hashes (events @ [v]) = sent_hashes events @ sent_hashes [v]"
  "answered_hashes [Took x] = []" "answered_hashes [Answered h] = [h]" "answered_hashes [Dropped h] = []"
  "sent_hashes [DependencyResolved h r] = [h]"
  by (simp_all add: answered_hashes_def sent_hashes_def)

lemma dr_fail_ok:
  assumes "counters_ok w" "tracked w" "aborts_ok w" "fold_opt request_step fmempty (dr_log w) \<noteq> None"
    "sent_hashes (dr_sent w) = answered_hashes (dr_log w)"
  shows "dr_inv (dr_fail k w)"
  using assms
  by (auto simp: dr_inv_def dr_fail_def abort_all_def dr_report_fault_def counters_ok_def tracked_def aborts_ok_def requests_ok_def
      intro: fmdomI)

lemma dr_fail_inv: "dr_inv w \<Longrightarrow> dr_inv (dr_fail k w)"
  by (rule dr_fail_ok) (simp_all add: dr_inv_def requests_ok_def)

lemma dr_fail_frame [simp]:
  "dr_faulted (dr_fail k w)" "dr_work (dr_fail k w) = dr_work w" "dr_tasks (dr_fail k w) = dr_tasks w"
  "dr_commands (dr_fail k w) = dr_commands w" "dr_work_open (dr_fail k w) = dr_work_open w"
  by (simp_all add: dr_fail_def abort_all_def dr_report_fault_def)

lemma trackedD:
  assumes "tracked w"
  shows "fmlookup (dr_hashes_by_task w) tid = Some h \<longleftrightarrow> fmlookup (dr_tasks_by_hash w) h = Some tid"
    "fmdom (dr_hashes_by_task w) = fmdom (dr_tasks w)"
  using assms by (auto simp: tracked_def)

lemma start_resolution_inv:
  assumes inv: "dr_inv w" and alive: "\<not> dr_faulted w" and fresh: "fresh_ids env" and run: "start_resolution env db w h = (w', db')"
  shows "dr_inv w'"
proof (cases "h |\<in>| fmdom (dr_tasks_by_hash w)")
  case True
  then show ?thesis using run dr_fail_inv[OF inv] by (auto simp: start_resolution_def)
next
  case False
  obtain tid where id: "dre_task_id env db (fmdom (dr_tasks w)) = (db', tid)"
    and w': "w' = w\<lparr>dr_waiting := dr_waiting w + 1, dr_tasks := fmupd tid TaskWaiting (dr_tasks w),
              dr_tasks_by_hash := fmupd h tid (dr_tasks_by_hash w), dr_hashes_by_task := fmupd tid h (dr_hashes_by_task w),
              dr_log := dr_log w @ [Took (Resolve h)]\<rparr>"
    using run False by (auto simp: start_resolution_def split: prod.splits)
  have "tid |\<notin>| fmdom (dr_tasks w)" using fresh id unfolding fresh_ids_def by (metis snd_conv)
  then have new: "fmlookup (dr_tasks w) tid = None" "tid |\<notin>| fmdom (dr_tasks w)" by (simp_all add: fmdom_notD)
  have tr: "tracked w" and ab: "aborts_ok w" using inv by (simp_all add: dr_inv_def)
  have h: "fmlookup (dr_tasks_by_hash w) h = None" using False by (simp add: fmdom_notD)
  have idn: "fmlookup (dr_hashes_by_task w) tid = None" using new trackedD(2)[OF tr] by (simp add: fmdom_notD)
  have "counters_ok w'"
    using inv new in_phase_upd[of TaskWaiting tid TaskWaiting "dr_tasks w"] in_phase_upd[of TaskActive tid TaskWaiting "dr_tasks w"]
    by (auto simp: dr_inv_def counters_ok_def w')
  moreover have "tracked w'" using trackedD[OF tr] h idn by (auto simp: tracked_def w') (metis option.distinct(1))+
  moreover have "aborts_ok w'" using ab new by (auto simp: aborts_ok_def w')
  moreover have "requests_ok w'"
  proof -
    have "tid |\<notin>| dr_cancelled_tasks w" using ab new(2) by (auto simp: aborts_ok_def)
    then have "open_requests w' = fmupd h False (open_requests w)"
      by (intro fmap_ext) (auto simp: open_requests_def w')
    then show ?thesis using inv alive False
      by (auto simp: dr_inv_def requests_ok_def request_log_snoc request_step_def w' open_requests_def)
  qed
  ultimately show ?thesis by (simp add: dr_inv_def)
qed

lemma handle_work_inv:
  assumes inv: "dr_inv w" and alive: "\<not> dr_faulted w" and fresh: "fresh_ids env" and run: "handle_work env db w x = (w', db')"
  shows "dr_inv w'"
proof (cases x)
  case (Resolve h)
  then show ?thesis using run start_resolution_inv[OF inv alive fresh] by (simp add: handle_work_def)
next
  case (Cancel h)
  show ?thesis
  proof (cases "fmlookup (dr_tasks_by_hash w) h")
    case None
    then have w': "w' = w\<lparr>dr_log := dr_log w @ [Took (Cancel h)]\<rparr>" using run Cancel by (simp add: handle_work_def Let_def)
    have "h |\<notin>| fmdom (open_requests w)" using None by (simp add: open_requests_def fmlookup_dom_iff)
    then have "requests_ok w'" using inv alive
      by (simp add: dr_inv_def requests_ok_def w' request_log_snoc request_step_def open_requests_def)
    then show ?thesis using inv by (simp add: dr_inv_def counters_ok_def tracked_def aborts_ok_def w')
  next
    case (Some tid)
    then have w': "w' = w\<lparr>dr_log := dr_log w @ [Took (Cancel h)], dr_cancelled_tasks := finsert tid (dr_cancelled_tasks w),
        dr_aborted := finsert tid (dr_aborted w)\<rparr>" using run Cancel by (simp add: handle_work_def Let_def)
    have tr: "tracked w" using inv by (simp add: dr_inv_def)
    have "tid |\<in>| fmdom (dr_tasks w)" using trackedD[OF tr] Some by (metis fmdomI)
    moreover have "open_requests w' = fmupd h True (open_requests w)"
    proof (rule fmap_ext)
      fix k
      have "fmlookup (dr_tasks_by_hash w) k \<noteq> Some tid" if "k \<noteq> h"
        using that Some trackedD(1)[OF tr, of tid k] trackedD(1)[OF tr, of tid h] by simp
      then show "fmlookup (open_requests w') k = fmlookup (fmupd h True (open_requests w)) k"
        using Some by (cases "fmlookup (dr_tasks_by_hash w) k") (auto simp: open_requests_def w')
    qed
    moreover have "h |\<in>| fmdom (open_requests w)" using Some by (auto simp: open_requests_def intro: fmdomI)
    ultimately have "requests_ok w'" "aborts_ok w'" using inv alive
      by (simp_all add: dr_inv_def requests_ok_def aborts_ok_def w' request_log_snoc request_step_def) auto
    then show ?thesis using inv by (simp add: dr_inv_def counters_ok_def tracked_def w')
  qed
qed

text \<open>Forgetting a joined task.\<close>

definition forget_task :: "task_id \<Rightarrow> block_hash \<Rightarrow> dr_worker \<Rightarrow> dr_worker" where
  "forget_task tid h w =
     w\<lparr>dr_tasks := fmdrop tid (dr_tasks w), dr_aborted := dr_aborted w |-| {|tid|},
       dr_cancelled_tasks := dr_cancelled_tasks w |-| {|tid|}, dr_hashes_by_task := fmdrop tid (dr_hashes_by_task w),
       dr_tasks_by_hash := fmdrop h (dr_tasks_by_hash w)\<rparr>"

lemma forget_task_ok:
  assumes inv: "dr_inv w" and fin: "fmlookup (dr_tasks w) tid = Some (TaskDone r)" and h: "fmlookup (dr_hashes_by_task w) tid = Some h"
  shows "counters_ok (forget_task tid h w)" "tracked (forget_task tid h w)" "aborts_ok (forget_task tid h w)"
    "open_requests (forget_task tid h w) = fmdrop h (open_requests w)" "fmlookup (open_requests w) h = Some (tid |\<in>| dr_cancelled_tasks w)"
proof -
  have tr: "tracked w" using inv by (simp add: dr_inv_def)
  note D = trackedD(1)[OF tr]
  have th: "fmlookup (dr_tasks_by_hash w) h = Some tid" using D h by simp
  have other: "fmlookup (dr_tasks_by_hash w) k \<noteq> Some tid" if "k \<noteq> h" for k using that h D[of tid k] by simp
  have inverse: "fmlookup (dr_hashes_by_task w) x \<noteq> Some h" if "x \<noteq> tid" for x using that th D[of x h] by simp
  show "counters_ok (forget_task tid h w)"
    using counters_release(1)[OF _ fin] inv by (simp add: dr_inv_def forget_task_def counters_ok_def release_guards_def)
  show "tracked (forget_task tid h w)"
    using D trackedD(2)[OF tr] other inverse by (auto simp: tracked_def forget_task_def)
  show "aborts_ok (forget_task tid h w)" using inv by (auto simp: dr_inv_def aborts_ok_def forget_task_def)
  show "fmlookup (open_requests w) h = Some (tid |\<in>| dr_cancelled_tasks w)" using th by (simp add: open_requests_def)
  show "open_requests (forget_task tid h w) = fmdrop h (open_requests w)"
  proof (rule fmap_ext)
    fix k
    show "fmlookup (open_requests (forget_task tid h w)) k = fmlookup (fmdrop h (open_requests w)) k"
      using other[of k] by (cases "fmlookup (dr_tasks_by_hash w) k") (auto simp: open_requests_def forget_task_def)
  qed
qed

lemma answer_inv:
  assumes "counters_ok w" "tracked w" "aborts_ok w" and log: "fold_opt request_step fmempty (dr_log w) = Some open"
    and sent: "sent_hashes (dr_sent w) = answered_hashes (dr_log w)"
    and "fmlookup open h = Some False" "open_requests w = fmdrop h open" and run: "answer env db w h outp = (w', db')"
  shows "dr_inv w' \<and> dr_tasks w' = dr_tasks w \<and> dr_work w' = dr_work w"
proof -
  have fail: "dr_inv (dr_fail k w)" for k by (rule dr_fail_ok) (use assms in simp_all)
  let ?w = "w\<lparr>dr_sent := dr_sent w @ [DependencyResolved h outp], dr_log := dr_log w @ [Answered h]\<rparr>"
  have "dr_inv ?w" using assms
    by (simp add: dr_inv_def counters_ok_def tracked_def aborts_ok_def requests_ok_def request_log_snoc request_step_def open_requests_def)
  then show ?thesis using fail run by (auto simp: answer_def split: prod.splits option.splits try_send_error.splits)
qed

lemma join_inv:
  assumes inv: "dr_inv w" and fin: "fmlookup (dr_tasks w) tid = Some (TaskDone r)"
    and run: "handle_task_result env db (w\<lparr>dr_tasks := fmdrop tid (dr_tasks w), dr_aborted := dr_aborted w |-| {|tid|}\<rparr>) tid r = (w', db')"
  shows "dr_inv w' \<and> dr_tasks w' = fmdrop tid (dr_tasks w) \<and> dr_work w' = dr_work w \<and> (dr_faulted w \<longrightarrow> dr_faulted w')"
proof -
  have "tid |\<in>| fmdom (dr_hashes_by_task w)" using inv fin by (auto simp: dr_inv_def tracked_def intro: fmdomI)
  then obtain h where h: "fmlookup (dr_hashes_by_task w) tid = Some h" by (auto simp: fmlookup_dom_iff)
  let ?v = "forget_task tid h w"
  note f = forget_task_ok[OF inv fin h]
  have v: "dr_log ?v = dr_log w" "dr_sent ?v = dr_sent w" "dr_faulted ?v = dr_faulted w" "dr_tasks ?v = fmdrop tid (dr_tasks w)"
    "dr_work ?v = dr_work w" by (simp_all add: forget_task_def)
  have req: "requests_ok w" and ab: "aborts_ok w" using inv by (simp_all add: dr_inv_def)
  have r: "(w', db') = (if tid |\<in>| dr_cancelled_tasks w then (if dr_faulted ?v then ?v else ?v\<lparr>dr_log := dr_log ?v @ [Dropped h]\<rparr>, db)
      else case r of TaskOutput outp \<Rightarrow> if dr_faulted ?v then (?v, db) else answer env db ?v h outp
        | TaskCancelled \<Rightarrow> (?v, db) | TaskPanicked \<Rightarrow> (dr_fail (ChildOwnership UnexpectedWorkerTermination) ?v, db))"
  proof -
    define u where "u = w\<lparr>dr_tasks := fmdrop tid (dr_tasks w), dr_aborted := dr_aborted w |-| {|tid|}\<rparr>"
    let ?u = "u\<lparr>dr_cancelled_tasks := dr_cancelled_tasks u |-| {|tid|}\<rparr>"
    have u: "fmlookup (dr_hashes_by_task ?u) tid = Some h" "dr_cancelled_tasks u = dr_cancelled_tasks w"
      "?u\<lparr>dr_hashes_by_task := fmdrop tid (dr_hashes_by_task ?u), dr_tasks_by_hash := fmdrop h (dr_tasks_by_hash ?u)\<rparr> = ?v"
      using h by (simp_all add: u_def forget_task_def)
    show ?thesis
      using run[folded u_def, symmetric] unfolding handle_task_result_def Let_def u(1) option.case u(3) unfolding u(2) .
  qed
  have faulted: "dr_inv ?v" if "dr_faulted w" using f req that by (simp add: dr_inv_def requests_ok_def v)
  have fail: "dr_inv (dr_fail k ?v)" for k by (rule dr_fail_ok) (use f req in \<open>simp_all add: requests_ok_def v\<close>)
  show ?thesis
  proof (cases "tid |\<in>| dr_cancelled_tasks w")
    case True
    have "dr_inv (?v\<lparr>dr_log := dr_log ?v @ [Dropped h]\<rparr>)" if "\<not> dr_faulted w"
      using f req True that
      by (simp add: dr_inv_def counters_ok_def tracked_def aborts_ok_def requests_ok_def v request_log_snoc request_step_def open_requests_def)
    then show ?thesis using r True faulted by (auto simp: v)
  next
    case False
    show ?thesis
    proof (cases r)
      case (TaskOutput outp)
      show ?thesis
      proof (cases "dr_faulted w")
        case True
        then show ?thesis using r False TaskOutput faulted by (simp add: v)
      next
        case alive: False
        then have a: "answer env db ?v h outp = (w', db')" using r False TaskOutput by (simp add: v)
        have "dr_inv w' \<and> dr_tasks w' = dr_tasks ?v \<and> dr_work w' = dr_work ?v"
          by (rule answer_inv[OF f(1-3) _ _ _ _ a, of "open_requests w"]) (use f req False alive in \<open>simp_all add: requests_ok_def v\<close>)
        then show ?thesis using alive by (simp add: v)
      qed
    next
      case TaskCancelled
      have "dr_faulted w" using ab fin False TaskCancelled by (auto simp: aborts_ok_def)
      then show ?thesis using r False TaskCancelled faulted by (simp add: v)
    next
      case TaskPanicked
      then show ?thesis using r False fail by (simp add: v)
    qed
  qed
qed

lemma finished_iff: "tid |\<in>| finished_tasks w \<longleftrightarrow> (\<exists>r. fmlookup (dr_tasks w) tid = Some (TaskDone r))"
  by (auto simp: finished_tasks_def fmlookup_dom_iff is_done_def split: option.splits task_phase.splits if_splits)

end
