(* ===== verification/Orphan_Manager.thy ===== *)
theory Orphan_Manager
  imports Orphan_Topology Dependency_Resolver
begin

text \<open>
  The worker of the orphan manager, \<open>OrphanManagerWorker\<close> of \<open>block_processor/orphan.rs\<close>, around the
  orphan topology. Its mailboxes are lists; the work it sends to the dependency resolver, the blocks it
  sends back as ready, the faults it reports and the messages it has taken are logged in order. The
  receivers behind its bounded senders and the resolver's shutdown barrier are parameters. \<open>None\<close> is a
  panic of the source.
\<close>

section \<open>Data\<close>

record orphan_metrics =
  omx_current_occupancy :: nat
  omx_high_water_mark :: nat
  omx_resolution_pending :: nat
  omx_threshold_crossings :: u64

datatype orphan_command = OcShutdown

datatype orphan_manager_state = OmActive | OmFaulted

record om_worker =
  om_commands :: "orphan_command list"
  om_commands_closed :: bool
  om_messages :: "orphan_message list"
  om_messages_closed :: bool
  om_resolver :: bool
  om_resolver_faults :: "child_fault list"
  om_resolver_faults_closed :: bool
  om_faults :: "child_fault list"
  om_faults_closed :: bool
  om_metrics :: orphan_metrics
  om_topology :: orphan_topology
  om_state :: orphan_manager_state
  om_messages_open :: bool
  om_resolver_faults_open :: bool
  om_work :: "resolver_work list"
  om_ready :: "validated_node_block list"
  om_taken :: "orphan_message list"

text \<open>The barrier of the resolver's shutdown also says which faults the resolver reported until its
  worker was joined.\<close>

record 'd om_env =
  ome_work_try_send :: "'d \<Rightarrow> resolver_work \<Rightarrow> 'd \<times> try_send_error option"
  ome_resolution_try_send :: "'d \<Rightarrow> block_resolution_event \<Rightarrow> 'd \<times> try_send_error option"
  ome_resolver_shutdown :: "'d \<Rightarrow> 'd \<times> child_fault list \<times> (child_control_error + unit)"

definition om_new :: om_worker where
  "om_new =
     \<lparr>om_commands = [], om_commands_closed = False, om_messages = [], om_messages_closed = False, om_resolver = True,
      om_resolver_faults = [], om_resolver_faults_closed = False, om_faults = [], om_faults_closed = False,
      om_metrics = \<lparr>omx_current_occupancy = 0, omx_high_water_mark = 0, omx_resolution_pending = 0, omx_threshold_crossings = 0\<rparr>,
      om_topology = topology_default, om_state = OmActive, om_messages_open = True, om_resolver_faults_open = True,
      om_work = [], om_ready = [], om_taken = []\<rparr>"

section \<open>Metrics\<close>

definition om_set_current :: "orphan_metrics \<Rightarrow> orphan_topology \<Rightarrow> orphan_metrics" where
  "om_set_current x t =
     (let occupancy = fcard (fmdom (ot_orphans t))
      in x\<lparr>omx_current_occupancy := occupancy, omx_high_water_mark := max (omx_high_water_mark x) occupancy,
           omx_resolution_pending := fcard (ot_resolution_pending t)\<rparr>)"

definition om_update_metrics :: "orphan_metrics \<Rightarrow> orphan_topology \<Rightarrow> bool \<Rightarrow> orphan_metrics option" where
  "om_update_metrics x t threshold_crossed =
     (let x1 = om_set_current x t
      in if threshold_crossed
         then map_option (\<lambda>c. x1\<lparr>omx_threshold_crossings := c\<rparr>) (checked_add (omx_threshold_crossings x1) 1)
         else Some x1)"

definition om_reset_current :: "orphan_metrics \<Rightarrow> orphan_metrics" where
  "om_reset_current x = x\<lparr>omx_current_occupancy := 0, omx_resolution_pending := 0\<rparr>"

section \<open>Faults and shutdown\<close>

text \<open>Reporting on the unbounded fault channel is lost only when its receiver is gone.\<close>

definition om_report_fault :: "child_fault \<Rightarrow> om_worker \<Rightarrow> om_worker" where
  "om_report_fault fault w = (if om_faults_closed w then w else w\<lparr>om_faults := om_faults w @ [fault]\<rparr>)"

text \<open>Shutting the resolver down joins its worker, so that its end of the fault channel is dropped.\<close>

definition om_shutdown_resolver :: "'d om_env \<Rightarrow> 'd \<Rightarrow> om_worker \<Rightarrow> om_worker \<times> 'd \<times> (child_control_error + unit)" where
  "om_shutdown_resolver env db w =
     (if om_resolver w then
        (case ome_resolver_shutdown env db of (db', faults, result) \<Rightarrow>
           (w\<lparr>om_resolver := False, om_resolver_faults := om_resolver_faults w @ faults, om_resolver_faults_closed := True\<rparr>,
            db', result))
      else (w, db, Inr ()))"

definition om_enter_fault :: "'d om_env \<Rightarrow> 'd \<Rightarrow> child_fault \<Rightarrow> om_worker \<Rightarrow> om_worker \<times> 'd" where
  "om_enter_fault env db fault w =
     (if om_state w = OmFaulted then (w, db)
      else
        (case om_shutdown_resolver env db (om_report_fault fault (w\<lparr>om_state := OmFaulted\<rparr>)) of
           (w', db', Inr _) \<Rightarrow> (w', db')
         | (w', db', Inl error) \<Rightarrow> (om_report_fault (child_fault_of_control error) w', db')))"

definition om_enter_own_fault :: "'d om_env \<Rightarrow> 'd \<Rightarrow> child_fault_kind \<Rightarrow> om_worker \<Rightarrow> om_worker \<times> 'd" where
  "om_enter_own_fault env db kind w = om_enter_fault env db (ChildFault OrphanManager kind) w"

definition om_clear_state :: "om_worker \<Rightarrow> om_worker" where
  "om_clear_state w = w\<lparr>om_topology := topology_default, om_metrics := om_reset_current (om_metrics w)\<rparr>"

definition om_drain_messages :: "om_worker \<Rightarrow> om_worker" where
  "om_drain_messages w = w\<lparr>om_messages := []\<rparr>"

text \<open>The second component is what the shutdown acknowledges; the worker returns.\<close>

definition om_handle_command ::
  "'d om_env \<Rightarrow> 'd \<Rightarrow> om_worker \<Rightarrow> orphan_command \<Rightarrow> om_worker \<times> 'd \<times> (child_control_error + unit)" where
  "om_handle_command env db w command =
     (case command of
        OcShutdown \<Rightarrow> om_shutdown_resolver env db (om_drain_messages (om_clear_state (w\<lparr>om_state := OmFaulted\<rparr>))))"

section \<open>Messages\<close>

definition om_send_work ::
  "'d om_env \<Rightarrow> 'd \<Rightarrow> om_worker \<Rightarrow> resolver_work \<Rightarrow> om_worker \<times> 'd \<times> bool" where
  "om_send_work env db w work =
     (if \<not> om_resolver w then (w, db, False)
      else
        (case ome_work_try_send env db work of
           (db', None) \<Rightarrow> (w\<lparr>om_work := om_work w @ [work]\<rparr>, db', True)
         | (db', Some error) \<Rightarrow>
             (case om_enter_own_fault env db'
                     (case error of
                        TrySendFull \<Rightarrow> ChildSessionDataFull ResolverWorkPath
                      | TrySendClosed \<Rightarrow> ChildSessionDataEndpointLost ResolverWorkPath) w of
                (w', db'') \<Rightarrow> (w', db'', False))))"

definition request_resolution :: "'d om_env \<Rightarrow> 'd \<Rightarrow> om_worker \<Rightarrow> block_hash \<Rightarrow> om_worker \<times> 'd \<times> bool" where
  "request_resolution env db w hash = om_send_work env db w (Resolve hash)"

definition cancel_resolution :: "'d om_env \<Rightarrow> 'd \<Rightarrow> om_worker \<Rightarrow> block_hash \<Rightarrow> om_worker \<times> 'd \<times> bool" where
  "cancel_resolution env db w hash = om_send_work env db w (Cancel hash)"

definition send_ready :: "'d om_env \<Rightarrow> 'd \<Rightarrow> om_worker \<Rightarrow> validated_node_block \<Rightarrow> om_worker \<times> 'd \<times> bool" where
  "send_ready env db w block =
     (case ome_resolution_try_send env db (OrphanReady block) of
        (db', None) \<Rightarrow> (w\<lparr>om_ready := om_ready w @ [block]\<rparr>, db', True)
      | (db', Some error) \<Rightarrow>
          (case om_enter_own_fault env db'
                  (case error of
                     TrySendFull \<Rightarrow> ChildSessionDataFull ResolutionPath
                   | TrySendClosed \<Rightarrow> ChildSessionDataEndpointLost ResolutionPath) w of
             (w', db'') \<Rightarrow> (w', db'', False)))"

text \<open>The loops of \<open>handle_message\<close>: they return from it at the first item that fails.\<close>

fun for_each :: "('d \<Rightarrow> 'w \<Rightarrow> 'x \<Rightarrow> 'w \<times> 'd \<times> bool) \<Rightarrow> 'd \<Rightarrow> 'w \<Rightarrow> 'x list \<Rightarrow> 'w \<times> 'd \<times> bool" where
  "for_each f db w [] = (w, db, True)"
| "for_each f db w (x # xs) =
     (case f db w x of (w', db', True) \<Rightarrow> for_each f db' w' xs | (w', db', False) \<Rightarrow> (w', db', False))"

definition request_candidate :: "'d om_env \<Rightarrow> 'd \<Rightarrow> om_worker \<Rightarrow> block_hash \<Rightarrow> om_worker \<times> 'd \<times> bool" where
  "request_candidate env db w hash =
     request_resolution env db
       (w\<lparr>om_metrics := om_set_current (om_metrics w) (om_topology w)\<rparr>) hash"

definition om_forward ::
  "'d om_env \<Rightarrow> 'd \<Rightarrow> om_worker \<Rightarrow> topology_mutation \<Rightarrow> om_worker \<times> 'd" where
  "om_forward env db w mutation =
     (case for_each (cancel_resolution env) db w (tm_cancel mutation) of
        (w1, db1, False) \<Rightarrow> (w1, db1)
      | (w1, db1, True) \<Rightarrow>
          (case for_each (send_ready env) db1 w1 (tm_ready mutation) of
             (w2, db2, False) \<Rightarrow> (w2, db2)
           | (w2, db2, True) \<Rightarrow>
               (case take_resolution_candidates (om_topology w2) of (t, hashes) \<Rightarrow>
                  (case for_each (request_candidate env) db2 (w2\<lparr>om_topology := t\<rparr>) hashes of
                     (w3, db3, _) \<Rightarrow> (w3, db3)))))"

definition topology_message ::
  "orphan_topology \<Rightarrow> orphan_message \<Rightarrow> orphan_topology \<times> (topology_error + topology_mutation)" where
  "topology_message t message =
     (case message of
        AddOrphan block missing \<Rightarrow> add_orphan t block missing
      | BlockPersisted hash \<Rightarrow> (case block_persisted t hash of (t', m) \<Rightarrow> (t', Inr m)))"

definition om_handle_message :: "'d om_env \<Rightarrow> 'd \<Rightarrow> om_worker \<Rightarrow> orphan_message \<Rightarrow> (om_worker \<times> 'd) option" where
  "om_handle_message env db w message =
     (case topology_message (om_topology w) message of
        (t, Inl CapacityExhausted) \<Rightarrow> Some (om_enter_own_fault env db OrphanCapacityExhausted (w\<lparr>om_topology := t\<rparr>))
      | (t, Inl EmptyMissingSet) \<Rightarrow> Some (om_enter_own_fault env db ChildInvalidProtocol (w\<lparr>om_topology := t\<rparr>))
      | (t, Inr mutation) \<Rightarrow>
          map_option (\<lambda>x. om_forward env db (w\<lparr>om_topology := t, om_metrics := x\<rparr>) mutation)
            (om_update_metrics (om_metrics w) t (tm_threshold_crossed mutation)))"

section \<open>The run loop\<close>

definition om_loop_step :: "'d om_env \<Rightarrow> 'd \<Rightarrow> om_worker \<Rightarrow> (om_worker \<times> 'd \<times> loop_outcome) option" where
  "om_loop_step env db w =
     (case om_commands w of
        command # rest \<Rightarrow>
          (case om_handle_command env db (w\<lparr>om_commands := rest\<rparr>) command of (w', db', _) \<Rightarrow> Some (w', db', LoopStop))
      | [] \<Rightarrow>
          if om_commands_closed w then
            (case om_enter_own_fault env db (ChildOwnership InternalControlPathLost) w of (w', db') \<Rightarrow> Some (w', db', LoopStop))
          else if om_resolver_faults_open w \<and> om_resolver_faults w \<noteq> [] then
            (case om_enter_fault env db (hd (om_resolver_faults w)) (w\<lparr>om_resolver_faults := tl (om_resolver_faults w)\<rparr>) of
               (w', db') \<Rightarrow> Some (w', db', LoopContinue))
          else if om_resolver_faults_open w \<and> om_resolver_faults_closed w then
            (case om_enter_own_fault env db (ChildOwnership UnexpectedWorkerTermination) (w\<lparr>om_resolver_faults_open := False\<rparr>) of
               (w', db') \<Rightarrow> Some (w', db', LoopContinue))
          else if om_state w = OmActive \<and> om_messages_open w \<and> om_messages w \<noteq> [] then
            map_option (\<lambda>(w', db'). (w', db', LoopContinue))
              (om_handle_message env db
                (w\<lparr>om_messages := tl (om_messages w), om_taken := om_taken w @ [hd (om_messages w)]\<rparr>) (hd (om_messages w)))
          else if om_state w = OmActive \<and> om_messages_open w \<and> om_messages_closed w then
            (case om_enter_own_fault env db (ChildSessionDataEndpointLost OrphanInput) (w\<lparr>om_messages_open := False\<rparr>) of
               (w', db') \<Rightarrow> Some (w', db', LoopContinue))
          else Some (w, db, LoopBlocked))"

section \<open>What holds of a run\<close>

text \<open>The protocol with the resolver: a hash is requested only while it is not, and cancelled only while
  it is; the fold gives the hashes requested and not cancelled.\<close>

definition work_step :: "block_hash fset \<Rightarrow> resolver_work \<Rightarrow> block_hash fset option" where
  "work_step requested work =
     (case work of
        Resolve hash \<Rightarrow> if hash |\<in>| requested then None else Some (finsert hash requested)
      | Cancel hash \<Rightarrow> if hash |\<in>| requested then Some (requested |-| {|hash|}) else None)"

definition requested_of :: "resolver_work list \<Rightarrow> block_hash fset option" where
  "requested_of = fold_opt work_step {||}"

definition told :: "orphan_message list \<Rightarrow> block_hash set" where
  "told taken = set (told_persisted taken)"

text \<open>An orphan was admitted with references all of which are in \<open>waiting\<close> or have been persisted.\<close>

definition admitted :: "orphan_message list \<Rightarrow> validated_node_block \<Rightarrow> block_hash set \<Rightarrow> bool" where
  "admitted taken block waiting = (\<exists>missing. AddOrphan block missing \<in> set taken \<and> set missing \<subseteq> waiting \<union> told taken)"

definition released_ok :: "om_worker \<Rightarrow> bool" where
  "released_ok w = (\<forall>block\<in>set (om_ready w). admitted (om_taken w) block {})"

definition entries_admitted :: "orphan_message list \<Rightarrow> orphan_topology \<Rightarrow> bool" where
  "entries_admitted taken t = fmpred (\<lambda>_ e. admitted taken (oe_block e) (fset (oe_missing e))) (ot_orphans t)"

text \<open>No orphan is lost: each one admitted is parked, has been sent back or has been persisted.\<close>

definition accounted :: "orphan_message list \<Rightarrow> orphan_topology \<Rightarrow> validated_node_block list \<Rightarrow> bool" where
  "accounted taken t ready =
     (\<forall>block missing. AddOrphan block missing \<in> set taken \<longrightarrow>
        vnb_hash block |\<in>| fmdom (ot_orphans t) \<or> vnb_hash block \<in> vnb_hash ` set ready \<or> vnb_hash block \<in> told taken)"

definition metrics_exact :: "orphan_metrics \<Rightarrow> orphan_topology \<Rightarrow> bool" where
  "metrics_exact x t =
     (omx_current_occupancy x = fcard (fmdom (ot_orphans t)) \<and> omx_resolution_pending x = fcard (ot_resolution_pending t) \<and>
      omx_current_occupancy x \<le> omx_high_water_mark x \<and> omx_high_water_mark x \<le> MAX_ORPHAN_BLOCKS)"

definition om_safe :: "om_worker \<Rightarrow> bool" where
  "om_safe w =
     (topology_inv (om_topology w) \<and> released_ok w \<and> requested_of (om_work w) \<noteq> None \<and>
      length (om_faults w) \<le> (if om_state w = OmActive then 0 else 2) \<and> om_resolver w = (om_state w = OmActive))"

definition om_inv :: "om_worker \<Rightarrow> bool" where
  "om_inv w =
     (om_safe w \<and>
      (om_state w = OmActive \<longrightarrow>
         requested_of (om_work w) = Some (ot_resolution_pending (om_topology w)) \<and> entries_admitted (om_taken w) (om_topology w) \<and>
         accounted (om_taken w) (om_topology w) (om_ready w) \<and> metrics_exact (om_metrics w) (om_topology w)))"

section \<open>Faults and sends\<close>

lemma told_append [simp]: "told (xs @ ys) = told xs \<union> told ys"
  by (simp add: told_def told_simps)

lemma admitted_mono: "admitted taken b s \<Longrightarrow> s \<subseteq> s' \<union> told rest \<Longrightarrow> admitted (taken @ rest) b s'"
  by (fastforce simp: admitted_def)

lemma requested_snoc: "requested_of (ws @ [x]) = Option.bind (requested_of ws) (\<lambda>p. work_step p x)"
  by (cases "requested_of ws") (auto simp: requested_of_def fold_opt_append split: option.splits)

lemma om_safe_active:
  assumes "om_safe w" and "om_state w = OmActive"
  shows "om_faults w = []" "om_resolver w"
  using assms by (simp_all add: om_safe_def)

lemma om_fault_spec:
  assumes "om_safe w" and "om_enter_fault env db f w = (w', db')"
  shows "om_inv w'" "om_state w' = OmFaulted" "om_messages w' = om_messages w" "om_commands w' = om_commands w"
    "om_messages_open w' = om_messages_open w" "om_resolver_faults_open w' = om_resolver_faults_open w"
    "om_metrics w' = om_metrics w" "om_taken w' = om_taken w"
    "om_state w = OmFaulted \<Longrightarrow> w' = w"
  using assms
  by (cases "om_state w";
      auto simp: om_enter_fault_def om_shutdown_resolver_def om_report_fault_def om_inv_def om_safe_def released_ok_def
        split: prod.splits sum.splits if_splits)+

lemma om_own_fault_spec:
  assumes "om_safe w" and "om_enter_own_fault env db k w = (w', db')"
  shows "om_inv w'" "om_state w' = OmFaulted"
  using om_fault_spec(1,2)[OF assms(1)] assms(2) by (auto simp: om_enter_own_fault_def)

lemma send_work_spec:
  assumes "om_safe w" "om_state w = OmActive" "om_send_work env db w x = (w', db', ok)"
  shows "if ok then w' = w\<lparr>om_work := om_work w @ [x]\<rparr> else om_inv w' \<and> om_state w' = OmFaulted"
  using assms om_own_fault_spec[OF assms(1)] om_safe_active(2)[OF assms(1,2)]
  by (auto simp: om_send_work_def split: prod.splits option.splits)

lemma send_ready_spec:
  assumes "om_safe w" "send_ready env db w b = (w', db', ok)"
  shows "if ok then w' = w\<lparr>om_ready := om_ready w @ [b]\<rparr> else om_inv w' \<and> om_state w' = OmFaulted"
  using assms om_own_fault_spec[OF assms(1)] by (auto simp: send_ready_def split: prod.splits option.splits)

text \<open>A loop whose items keep an invariant when they succeed, and end in a consistent faulted worker
  when they do not.\<close>

lemma for_each_rule:
  assumes "for_each f db w xs = (w', db', ok)" and "I w xs"
    and "\<And>db w x xs w' db' ok. I w (x # xs) \<Longrightarrow> f db w x = (w', db', ok) \<Longrightarrow> if ok then I w' xs else F w'"
  shows "if ok then I w' [] else F w'"
  using assms(1,2)
proof (induction xs arbitrary: db w)
  case (Cons x xs)
  obtain w1 db1 ok1 where r: "f db w x = (w1, db1, ok1)" by (metis prod_cases3)
  show ?case using Cons.prems Cons.IH[of db1 w1] assms(3)[OF Cons.prems(2) r] r by (cases ok1) auto
qed simp

definition om_stopped :: "om_worker \<Rightarrow> bool" where
  "om_stopped w = (om_inv w \<and> om_state w = OmFaulted)"

lemma cancel_loop:
  assumes "for_each (cancel_resolution env) db w hs = (w', db', ok)" and "om_safe w" "om_state w = OmActive"
    and "requested_of (om_work w) = Some p" "distinct hs" "set hs \<subseteq> fset p"
  shows "if ok then w' = w\<lparr>om_work := om_work w'\<rparr> \<and> requested_of (om_work w') = Some (p |-| fset_of_list hs) else om_stopped w'"
proof -
  define I where "I v xs \<longleftrightarrow> (\<exists>ws q. v = w\<lparr>om_work := ws\<rparr> \<and> requested_of ws = Some q \<and> distinct xs \<and> set xs \<subseteq> fset q \<and>
    q |-| fset_of_list xs = p |-| fset_of_list hs)" for v xs
  have start: "I w hs" using assms(4-6) by (auto simp: I_def intro!: exI[of _ "om_work w"])
  have kept: "if ok then I v' xs else om_stopped v'"
    if I: "I v (x # xs)" and r: "cancel_resolution env db v x = (v', db', ok)" for db v x xs v' db' ok
  proof -
    obtain ws q where v: "v = w\<lparr>om_work := ws\<rparr>" "requested_of ws = Some q" "distinct (x # xs)" "set (x # xs) \<subseteq> fset q"
      "q |-| fset_of_list (x # xs) = p |-| fset_of_list hs" using I by (auto simp: I_def)
    have safe: "om_safe v" "om_state v = OmActive" using assms(2,3) v(1,2) by (auto simp: om_safe_def released_ok_def)
    have "if ok then v' = v\<lparr>om_work := om_work v @ [Cancel x]\<rparr> else om_stopped v'"
      using send_work_spec[OF safe, of env db "Cancel x" v' db' ok] r by (simp add: cancel_resolution_def om_stopped_def)
    moreover have "requested_of (ws @ [Cancel x]) = Some (q |-| {|x|})" using v(2,4) by (simp add: requested_snoc work_step_def)
    moreover have "q |-| {|x|} |-| fset_of_list xs = p |-| fset_of_list hs" using v(5) by auto
    ultimately show ?thesis using v by (auto simp: I_def)
  qed
  have "if ok then I w' [] else om_stopped w'" by (rule for_each_rule[OF assms(1), of I om_stopped, OF start kept])
  then show ?thesis by (auto simp: I_def)
qed

lemma set_current_idem [simp]: "om_set_current (om_set_current x t) t = om_set_current x t"
  by (simp add: om_set_current_def Let_def)

lemma request_loop:
  assumes "for_each (request_candidate env) db w hs = (w', db', ok)" and "om_safe w" "om_state w = OmActive"
    and "requested_of (om_work w) = Some p" "distinct hs" "set hs \<inter> fset p = {}"
  shows "if ok then w' = w\<lparr>om_work := om_work w', om_metrics := om_metrics w'\<rparr> \<and>
      requested_of (om_work w') = Some (p |\<union>| fset_of_list hs) \<and>
      (om_metrics w' = om_set_current (om_metrics w) (om_topology w) \<or> om_metrics w' = om_metrics w \<and> hs = []) else om_stopped w'"
proof -
  let ?set = "om_set_current (om_metrics w) (om_topology w)"
  define I where "I v xs \<longleftrightarrow> (\<exists>ws x q. v = w\<lparr>om_work := ws, om_metrics := x\<rparr> \<and> requested_of ws = Some q \<and> distinct xs \<and>
    set xs \<inter> fset q = {} \<and> q |\<union>| fset_of_list xs = p |\<union>| fset_of_list hs \<and> (x = ?set \<or> x = om_metrics w \<and> xs = hs))" for v xs
  have start: "I w hs" using assms(4-6) by (auto simp: I_def intro!: exI[of _ "om_work w"] exI[of _ "om_metrics w"])
  have kept: "if ok then I v' xs else om_stopped v'"
    if I: "I v (h # xs)" and r: "request_candidate env db v h = (v', db', ok)" for db v h xs v' db' ok
  proof -
    obtain ws x q where v: "v = w\<lparr>om_work := ws, om_metrics := x\<rparr>" "requested_of ws = Some q" "distinct (h # xs)"
      "set (h # xs) \<inter> fset q = {}" "q |\<union>| fset_of_list (h # xs) = p |\<union>| fset_of_list hs" "x = ?set \<or> x = om_metrics w"
      using I by (auto simp: I_def)
    let ?v = "w\<lparr>om_work := ws, om_metrics := ?set\<rparr>"
    have safe: "om_safe ?v" "om_state ?v = OmActive" using assms(2,3) v(2) by (auto simp: om_safe_def released_ok_def)
    have "v\<lparr>om_metrics := om_set_current (om_metrics v) (om_topology v)\<rparr> = ?v" using v(1,6) by auto
    then have "if ok then v' = ?v\<lparr>om_work := om_work ?v @ [Resolve h]\<rparr> else om_stopped v'"
      using send_work_spec[OF safe, of env db "Resolve h" v' db' ok] r by (simp add: request_candidate_def request_resolution_def om_stopped_def)
    moreover have "requested_of (ws @ [Resolve h]) = Some (finsert h q)" using v(2,4) by (simp add: requested_snoc work_step_def)
    moreover have "finsert h q |\<union>| fset_of_list xs = p |\<union>| fset_of_list hs" using v(5) by auto
    moreover have "set xs \<inter> fset (finsert h q) = {}" using v(3,4) by auto
    ultimately show ?thesis using v(3) by (auto simp: I_def intro!: exI[of _ "ws @ [Resolve h]"] exI[of _ ?set])
  qed
  have "if ok then I w' [] else om_stopped w'" by (rule for_each_rule[OF assms(1), of I om_stopped, OF start kept])
  then show ?thesis by (auto simp: I_def)
qed

lemma ready_loop:
  assumes "for_each (send_ready env) db w bs = (w', db', ok)" and "om_safe w"
    and "\<And>b. b \<in> set bs \<Longrightarrow> admitted (om_taken w) b {}"
  shows "if ok then w' = w\<lparr>om_ready := om_ready w @ bs\<rparr> else om_stopped w'"
proof -
  define I where "I v xs \<longleftrightarrow> (\<exists>sent. v = w\<lparr>om_ready := om_ready w @ sent\<rparr> \<and> sent @ xs = bs)" for v xs
  have start: "I w bs" by (simp add: I_def)
  have kept: "if ok then I v' xs else om_stopped v'"
    if I: "I v (x # xs)" and r: "send_ready env db v x = (v', db', ok)" for db v x xs v' db' ok
  proof -
    obtain done' where v: "v = w\<lparr>om_ready := om_ready w @ done'\<rparr>" "done' @ x # xs = bs" using I by (auto simp: I_def)
    have "om_safe v" using assms(2,3) v by (auto simp: om_safe_def released_ok_def)
    from send_ready_spec[OF this r] show ?thesis using v by (auto simp: I_def om_stopped_def)
  qed
  have "if ok then I w' [] else om_stopped w'" by (rule for_each_rule[OF assms(1), of I om_stopped, OF start kept])
  then show ?thesis by (auto simp: I_def)
qed


section \<open>Handling a message\<close>

text \<open>What a message does to the topology: the resolutions it cancels are the ones no longer pending, the
  blocks it releases have nothing missing, and no orphan gets lost.\<close>

lemma add_orphan_accepts:
  assumes inv: "topology_inv t" and run: "add_orphan t b ms = (t', Inr m)"
  shows "vnb_hash b |\<in>| fmdom (ot_orphans t) \<and> t' = t \<and> m = mutation_none \<or>
    vnb_hash b |\<notin>| fmdom (ot_orphans t) \<and> topology_inv t' \<and>
    ot_orphans t' = fmupd (vnb_hash b) \<lparr>oe_block = b, oe_missing = fset_of_list ms\<rparr> (ot_orphans t) \<and>
    ot_resolution_pending t' = ot_resolution_pending t |-| {|vnb_hash b|} \<and> tm_ready m = [] \<and>
    tm_cancel m = (if vnb_hash b |\<in>| ot_resolution_pending t then [vnb_hash b] else [])"
proof (cases "vnb_hash b |\<in>| fmdom (ot_orphans t)")
  case True
  then show ?thesis using run by (auto simp: add_orphan_def)
next
  case False
  have room: "fcard (fmdom (ot_orphans t)) \<noteq> MAX_ORPHAN_BLOCKS" using run False by (auto simp: add_orphan_def)
  have "ms \<noteq> []" using run False room by (auto simp: add_orphan_def Let_def)
  from add_orphan_outcome[OF inv False room this] False show ?thesis
    unfolding run prod.inject sum.inject by (elim exE conjE) (simp only: simp_thms)
qed

lemma topology_message_ok:
  assumes inv: "topology_inv t" and run: "topology_message t message = (t', Inr m)"
  shows "topology_inv t'" "distinct (tm_cancel m)" "fset_of_list (tm_cancel m) = ot_resolution_pending t |-| ot_resolution_pending t'"
    "ot_resolution_pending t' |\<subseteq>| ot_resolution_pending t"
proof -
  have "topology_inv t' \<and> distinct (tm_cancel m) \<and> fset_of_list (tm_cancel m) = ot_resolution_pending t |-| ot_resolution_pending t' \<and>
      ot_resolution_pending t' |\<subseteq>| ot_resolution_pending t"
  proof (cases message)
    case (AddOrphan b ms)
    then have "add_orphan t b ms = (t', Inr m)" using run by (simp add: topology_message_def)
    note out = add_orphan_accepts[OF inv this]
    show ?thesis
    proof (cases "vnb_hash b |\<in>| fmdom (ot_orphans t)")
      case True
      then have "t' = t" "m = mutation_none" using out by blast+
      then show ?thesis using inv by (simp add: mutation_none_def)
    next
      case False
      then have "topology_inv t'" and p: "ot_resolution_pending t' = ot_resolution_pending t |-| {|vnb_hash b|}"
        and c: "tm_cancel m = (if vnb_hash b |\<in>| ot_resolution_pending t then [vnb_hash b] else [])" using out by blast+
      then show ?thesis unfolding p c by auto
    qed
  next
    case (BlockPersisted h)
    then have "block_persisted t h = (t', m)" using run by (simp add: topology_message_def split: prod.splits)
    note out = block_persisted_outcome[OF inv this]
    have "ot_resolution_pending t' |\<subseteq>| ot_resolution_pending t" unfolding out(5) by (rule fsubsetI) simp
    moreover have "fset_of_list (tm_cancel m) = ot_resolution_pending t |-| ot_resolution_pending t'"
      unfolding out(4) by (rule fset_eqI) (simp add: fset_of_list_elem)
    ultimately show ?thesis using out(1) unfolding out(4) by simp
  qed
  then show "topology_inv t'" "distinct (tm_cancel m)" "fset_of_list (tm_cancel m) = ot_resolution_pending t |-| ot_resolution_pending t'"
    "ot_resolution_pending t' |\<subseteq>| ot_resolution_pending t" by blast+
qed

lemma topology_error_keeps:
  "topology_message t message = (t', Inl e) \<Longrightarrow> t' = t"
  by (auto simp: topology_message_def add_orphan_def Let_def split: orphan_message.splits if_splits prod.splits)

lemma entries_admittedD: "entries_admitted taken t \<Longrightarrow> fmlookup (ot_orphans t) k = Some e \<Longrightarrow> admitted taken (oe_block e) (fset (oe_missing e))"
  by (auto simp: entries_admitted_def fmpred_iff)

lemma add_orphan_accounts:
  assumes inv: "topology_inv t" and run: "add_orphan t c ms = (t', Inr m)"
    and parked: "entries_admitted taken t" and acc: "accounted taken t ready"
  shows "entries_admitted (taken @ [AddOrphan c ms]) t' \<and> tm_ready m = [] \<and> accounted (taken @ [AddOrphan c ms]) t' ready"
proof -
  note out = add_orphan_accepts[OF inv run]
  have none: "told [AddOrphan c ms] = {}" by (simp add: told_def)
  have keep: "admitted (taken @ [AddOrphan c ms]) (oe_block e) (fset (oe_missing e))" if "fmlookup (ot_orphans t) k = Some e" for k e
    using entries_admittedD[OF parked that] by (rule admitted_mono) auto
  show ?thesis
  proof (cases "vnb_hash c |\<in>| fmdom (ot_orphans t)")
    case True
    then have "t' = t" "m = mutation_none" using out by blast+
    then show ?thesis using keep acc True by (auto simp: fmpred_iff mutation_none_def entries_admitted_def accounted_def none)
  next
    case False
    then have o: "ot_orphans t' = fmupd (vnb_hash c) \<lparr>oe_block = c, oe_missing = fset_of_list ms\<rparr> (ot_orphans t)" "tm_ready m = []"
      using out by blast+
    have "admitted (taken @ [AddOrphan c ms]) c (set ms)" by (auto simp: admitted_def)
    then show ?thesis using keep acc
      by (auto simp: fmpred_iff entries_admitted_def accounted_def none o fset_of_list.rep_eq split: if_splits)
  qed
qed

lemma block_persisted_ready:
  assumes inv: "topology_inv t" and run: "block_persisted t h = (t', m)"
  shows "c \<in> set (tm_ready m) \<longleftrightarrow> (\<exists>k e. fmlookup (ot_orphans t) k = Some e \<and> k \<noteq> h \<and> oe_missing e = {|h|} \<and> c = oe_block e)"
  unfolding block_persisted_outcome(3)[OF inv run]
  by (auto simp: released_def orphan_block_def missing_of_def fmlookup_dom_iff split: option.splits) force+

lemma block_persisted_accounts:
  assumes inv: "topology_inv t" and run: "block_persisted t h = (t', m)"
    and parked: "entries_admitted taken t" and acc: "accounted taken t ready"
  shows "entries_admitted (taken @ [BlockPersisted h]) t'"
    "b \<in> set (tm_ready m) \<Longrightarrow> admitted (taken @ [BlockPersisted h]) b {}"
    "accounted (taken @ [BlockPersisted h]) t' (ready @ tm_ready m)"
proof -
  note orphans = block_persisted_outcome(2)[OF inv run] and ready = block_persisted_ready[OF inv run]
  have ent: "vnb_hash (oe_block e) = k" "oe_missing e \<noteq> {||}" if "fmlookup (ot_orphans t) k = Some e" for k e
    using inv that by (auto simp: topology_inv_def entries_ok_def fmpred_iff)
  have mono: "admitted (taken @ [BlockPersisted h]) (oe_block e) s"
    if "fmlookup (ot_orphans t) k = Some e" "fset (oe_missing e) \<subseteq> insert h s" for k e s
    using entries_admittedD[OF parked that(1)] by (rule admitted_mono) (use that(2) in \<open>auto simp: told_def\<close>)
  show "entries_admitted (taken @ [BlockPersisted h]) t'"
    unfolding entries_admitted_def fmpred_iff orphans by (auto simp: after_persisted_def split: option.splits if_splits intro!: mono)
  show "admitted (taken @ [BlockPersisted h]) b {}" if "b \<in> set (tm_ready m)" using that unfolding ready by (auto intro!: mono)
  have "vnb_hash c |\<in>| fmdom (ot_orphans t') \<or> vnb_hash c \<in> vnb_hash ` set (ready @ tm_ready m) \<or> vnb_hash c \<in> told (taken @ [BlockPersisted h])"
    if "AddOrphan c ms \<in> set taken" for c ms
  proof (cases "fmlookup (ot_orphans t) (vnb_hash c)")
    case None
    then show ?thesis using acc that by (fastforce simp: accounted_def fmlookup_dom_iff)
  next
    case (Some e)
    show ?thesis
    proof (cases "vnb_hash c = h \<or> oe_missing e |-| {|h|} \<noteq> {||}")
      case True
      then show ?thesis using Some by (auto simp: orphans fmlookup_dom_iff after_persisted_def told_def)
    next
      case False
      then have "oe_missing e = {|h|}" using ent(2)[OF Some] by auto
      then have "oe_block e \<in> set (tm_ready m)" using ready False Some by blast
      then have "vnb_hash (oe_block e) \<in> vnb_hash ` set (ready @ tm_ready m)" by simp
      then show ?thesis unfolding ent(1)[OF Some] by blast
    qed
  qed
  then show "accounted (taken @ [BlockPersisted h]) t' (ready @ tm_ready m)" by (auto simp: accounted_def)
qed

lemma topology_message_accounts:
  assumes inv: "topology_inv t" and run: "topology_message t message = (t', Inr m)"
    and "entries_admitted taken t" and "accounted taken t ready"
  shows "entries_admitted (taken @ [message]) t'" "\<And>b. b \<in> set (tm_ready m) \<Longrightarrow> admitted (taken @ [message]) b {}"
    "accounted (taken @ [message]) t' (ready @ tm_ready m)"
  using run add_orphan_accounts[OF inv _ assms(3,4)] block_persisted_accounts[OF inv _ assms(3,4)]
  by (cases message; force simp: topology_message_def split: prod.splits)+

end
