(* ===== verification/Orphan_Run.thy ===== *)
theory Orphan_Run
  imports Orphan_Manager Worker_Loop
begin

text \<open>
  Runs of the orphan manager: its loop interpreted as a \<open>loop_contract\<close>, the workers reachable from a
  new manager, and that the invariant holds of them.
\<close>

section \<open>Handling a message keeps the invariant\<close>

definition om_crossings :: "om_worker \<Rightarrow> nat" where
  "om_crossings w = unat (omx_threshold_crossings (om_metrics w))"

text \<open>What handling a message leaves alone while the worker stays active.\<close>

definition same_mail :: "om_worker \<Rightarrow> om_worker \<Rightarrow> bool" where
  "same_mail w w' =
     (om_commands w' = om_commands w \<and> om_messages w' = om_messages w \<and> om_resolver_faults w' = om_resolver_faults w \<and>
      om_messages_open w' = om_messages_open w \<and> om_resolver_faults_open w' = om_resolver_faults_open w \<and>
      om_crossings w' = om_crossings w)"

definition forwarded :: "om_worker \<Rightarrow> om_worker \<Rightarrow> bool" where
  "forwarded w w' = (om_inv w' \<and> (om_state w' = OmActive \<longrightarrow> same_mail w w'))"

lemma forwarded_stopped: "om_stopped w' \<Longrightarrow> forwarded w w'"
  by (simp add: om_stopped_def forwarded_def)

lemma metrics_set_current:
  "omx_high_water_mark x \<le> MAX_ORPHAN_BLOCKS \<Longrightarrow> fcard (fmdom (ot_orphans t)) \<le> MAX_ORPHAN_BLOCKS \<Longrightarrow> metrics_exact (om_set_current x t) t"
  by (simp add: metrics_exact_def om_set_current_def Let_def)

lemma candidates_ok:
  assumes "om_safe w" "om_state w = OmActive" "requested_of (om_work w) = Some (ot_resolution_pending (om_topology w))"
    and "entries_admitted (om_taken w) (om_topology w)" "accounted (om_taken w) (om_topology w) (om_ready w)"
    and "metrics_exact (om_metrics w) (om_topology w)"
    and tk: "take_resolution_candidates (om_topology w) = (t, hs)"
    and fe: "for_each (request_candidate env) db (w\<lparr>om_topology := t\<rparr>) hs = (w', db', ok)"
  shows "forwarded w w'"
proof -
  let ?t = "om_topology w" and ?w = "w\<lparr>om_topology := t\<rparr>"
  have inv: "topology_inv ?t" using assms(1) by (simp add: om_safe_def)
  note out = take_resolution_candidates_outcome[OF inv tk]
  have pend: "ot_resolution_pending t = ot_resolution_pending ?t |\<union>| fset_of_list hs"
    using tk by (auto simp: take_resolution_candidates_def Let_def split: if_splits)
  have safe: "om_safe ?w" using assms(1) out(1) by (simp add: om_safe_def released_ok_def)
  have new: "set hs \<inter> fset (ot_resolution_pending ?t) = {}"
    using out(3) by (auto simp: fset_of_list.rep_eq[symmetric] split: if_splits)
  have r: "if ok then w' = ?w\<lparr>om_work := om_work w', om_metrics := om_metrics w'\<rparr> \<and>
      requested_of (om_work w') = Some (ot_resolution_pending t) \<and>
      (om_metrics w' = om_set_current (om_metrics w) t \<or> om_metrics w' = om_metrics w \<and> hs = []) else om_stopped w'"
    using request_loop[OF fe safe, of "ot_resolution_pending ?t"] assms(2,3) out(2) new by (cases ok) (simp_all add: pend)
  show ?thesis
  proof (cases ok)
    case True
    then have w': "w' = ?w\<lparr>om_work := om_work w', om_metrics := om_metrics w'\<rparr>" and q: "requested_of (om_work w') = Some (ot_resolution_pending t)"
      and x: "om_metrics w' = om_set_current (om_metrics w) t \<or> om_metrics w' = om_metrics w \<and> hs = []" using r by auto
    have f: "om_topology w' = t" "om_state w' = OmActive" "om_taken w' = om_taken w" "om_ready w' = om_ready w"
      "om_faults w' = om_faults w" "om_resolver w' = om_resolver w" "om_commands w' = om_commands w" "om_messages w' = om_messages w"
      "om_resolver_faults w' = om_resolver_faults w" "om_messages_open w' = om_messages_open w"
      "om_resolver_faults_open w' = om_resolver_faults_open w"
      using assms(2) by (subst w'; simp)+
    have "metrics_exact (om_metrics w') t"
      using x assms(6) out(1,6) pend metrics_set_current[of "om_metrics w" t] by (auto simp: metrics_exact_def topology_inv_def)
    moreover have "om_crossings w' = om_crossings w" using x by (auto simp: om_crossings_def om_set_current_def Let_def)
    ultimately show ?thesis using assms(1,2,4,5) out(1,6) q
      by (simp add: forwarded_def om_inv_def om_safe_def released_ok_def f same_mail_def entries_admitted_def accounted_def)
  next
    case False
    then show ?thesis using r by (simp add: forwarded_stopped)
  qed
qed

lemma forward_ok:
  assumes safe: "om_safe w" "om_state w = OmActive" and q: "requested_of (om_work w) = Some p"
    and cancel: "distinct (tm_cancel m)" "fset_of_list (tm_cancel m) = p |-| ot_resolution_pending (om_topology w)"
      "ot_resolution_pending (om_topology w) |\<subseteq>| p"
    and adm: "entries_admitted (om_taken w) (om_topology w)" "\<And>b. b \<in> set (tm_ready m) \<Longrightarrow> admitted (om_taken w) b {}"
    and acc: "accounted (om_taken w) (om_topology w) (om_ready w @ tm_ready m)"
    and x: "metrics_exact (om_metrics w) (om_topology w)"
    and run: "om_forward env db w m = (w', db')"
  shows "forwarded w w'"
proof -
  obtain w1 db1 ok1 where r1: "for_each (cancel_resolution env) db w (tm_cancel m) = (w1, db1, ok1)" by (metis prod_cases3)
  have sub: "set (tm_cancel m) \<subseteq> fset p" using arg_cong[OF cancel(2), of fset] by (auto simp: fset_of_list.rep_eq)
  have rest: "p |-| (p |-| ot_resolution_pending (om_topology w)) = ot_resolution_pending (om_topology w)" using cancel(3) by auto
  have s1: "if ok1 then w1 = w\<lparr>om_work := om_work w1\<rparr> \<and> requested_of (om_work w1) = Some (ot_resolution_pending (om_topology w)) else om_stopped w1"
    using cancel_loop[OF r1 safe q cancel(1) sub] by (simp add: cancel(2) rest)
  show ?thesis
  proof (cases ok1)
    case False
    then show ?thesis using s1 r1 run by (simp add: om_forward_def forwarded_stopped)
  next
    case True
    define ws where "ws = om_work w1"
    have w1: "w1 = w\<lparr>om_work := ws\<rparr>" and q1: "requested_of ws = Some (ot_resolution_pending (om_topology w))" using s1 True by (auto simp: ws_def)
    obtain w2 db2 ok2 where r2: "for_each (send_ready env) db1 w1 (tm_ready m) = (w2, db2, ok2)" by (metis prod_cases3)
    have safe1: "om_safe w1" using safe(1) q1 by (simp add: w1 om_safe_def released_ok_def)
    have s2: "if ok2 then w2 = w1\<lparr>om_ready := om_ready w1 @ tm_ready m\<rparr> else om_stopped w2"
      using ready_loop[OF r2 safe1] adm(2) by (simp add: w1)
    show ?thesis
    proof (cases ok2)
      case False
      then show ?thesis using s2 r1 r2 run True by (simp add: om_forward_def forwarded_stopped)
    next
      case True2: True
      then have w2: "w2 = w\<lparr>om_work := ws, om_ready := om_ready w @ tm_ready m\<rparr>" using s2 by (simp add: w1)
      obtain t hs where tk: "take_resolution_candidates (om_topology w2) = (t, hs)" by fastforce
      obtain w3 db3 ok3 where r3: "for_each (request_candidate env) db2 (w2\<lparr>om_topology := t\<rparr>) hs = (w3, db3, ok3)" by (metis prod_cases3)
      have "om_safe w2" using safe1 adm(2) by (auto simp: w1 w2 om_safe_def released_ok_def)
      then have "forwarded w2 w3"
        by (rule candidates_ok[OF _ _ _ _ _ _ tk r3]) (use safe q1 adm acc x in \<open>simp_all add: w2\<close>)
      moreover have "w' = w3" using run r1 r2 r3 True True2 tk by (simp add: om_forward_def)
      ultimately show ?thesis by (simp add: forwarded_def same_mail_def w2 om_crossings_def)
    qed
  qed
qed

lemma update_metrics_ok:
  assumes "om_update_metrics y t crossed = Some x" and "metrics_exact y u" and "topology_inv t"
  shows "metrics_exact x t" "unat (omx_threshold_crossings x) \<le> unat (omx_threshold_crossings y) + 1"
proof -
  let ?y = "om_set_current y t"
  have ex: "metrics_exact ?y t"
    using metrics_set_current[of y t] assms(2,3) by (simp add: metrics_exact_def topology_inv_def)
  have cr: "omx_threshold_crossings ?y = omx_threshold_crossings y" by (simp add: om_set_current_def Let_def)
  show "metrics_exact x t" using assms(1) ex by (auto simp: om_update_metrics_def Let_def metrics_exact_def split: if_splits)
  show "unat (omx_threshold_crossings x) \<le> unat (omx_threshold_crossings y) + 1"
    using assms(1) cr by (auto simp: om_update_metrics_def Let_def dest!: unat_checked_add split: if_splits)
qed

definition message_handled :: "om_worker \<Rightarrow> om_worker \<Rightarrow> bool" where
  "message_handled w w' =
     (om_inv w' \<and>
      (om_state w' = OmActive \<longrightarrow> om_crossings w' \<le> om_crossings w + 1 \<and> om_commands w' = om_commands w \<and> om_messages w' = om_messages w \<and>
         om_resolver_faults w' = om_resolver_faults w \<and> om_messages_open w' = om_messages_open w \<and>
         om_resolver_faults_open w' = om_resolver_faults_open w))"

lemma handle_message_ok:
  fixes rest :: "orphan_message list" and message :: orphan_message
  assumes inv: "om_inv w" and active: "om_state w = OmActive"
  defines "v \<equiv> w\<lparr>om_messages := rest, om_taken := om_taken w @ [message]\<rparr>"
  assumes run: "om_handle_message env db v message = Some (w', db')"
  shows "message_handled v w'"
proof -
  obtain t r where m: "topology_message (om_topology w) message = (t, r)" by fastforce
  have safe: "om_safe v" using inv by (auto simp: v_def om_inv_def om_safe_def released_ok_def intro: admitted_mono)
  have tinv: "topology_inv (om_topology w)" using inv by (simp add: om_inv_def om_safe_def)
  show ?thesis
  proof (cases r)
    case (Inl e)
    have "v\<lparr>om_topology := t\<rparr> = v" using topology_error_keeps m Inl by (fastforce simp: v_def)
    then obtain k where "om_enter_own_fault env db k v = (w', db')"
      using run m Inl by (cases e) (auto simp: om_handle_message_def v_def)
    from om_own_fault_spec[OF safe this] show ?thesis by (simp add: message_handled_def)
  next
    case (Inr mu)
    have m: "topology_message (om_topology w) message = (t, Inr mu)" using m Inr by simp
    note out = topology_message_ok[OF tinv m]
    have act: "requested_of (om_work w) = Some (ot_resolution_pending (om_topology w))" "entries_admitted (om_taken w) (om_topology w)"
      "accounted (om_taken w) (om_topology w) (om_ready w)" "metrics_exact (om_metrics w) (om_topology w)"
      using inv active by (simp_all add: om_inv_def)
    note books = topology_message_accounts[OF tinv m act(2,3)]
    obtain x where x: "om_update_metrics (om_metrics w) t (tm_threshold_crossed mu) = Some x"
      and f: "om_forward env db (v\<lparr>om_topology := t, om_metrics := x\<rparr>) mu = (w', db')"
      using run m by (auto simp: om_handle_message_def v_def)
    note xs = update_metrics_ok[OF x act(4) out(1)]
    let ?v = "v\<lparr>om_topology := t, om_metrics := x\<rparr>"
    have "om_safe ?v" using safe out(1) by (simp add: om_safe_def released_ok_def)
    then have "forwarded ?v w'"
      by (rule forward_ok[OF _ _ _ _ _ _ _ _ _ _ f]) (use active act out books xs(1) in \<open>simp_all add: v_def\<close>)
    then show ?thesis using xs(2) by (auto simp: forwarded_def same_mail_def v_def om_crossings_def message_handled_def)
  qed
qed

lemma handle_message_total:
  assumes "om_crossings w + 1 < 2 ^ 64"
  shows "om_handle_message env db w message \<noteq> None"
proof -
  obtain c where "checked_add (omx_threshold_crossings (om_metrics w)) 1 = Some c"
    using checked_add_1_total[of "omx_threshold_crossings (om_metrics w)"] assms by (auto simp: om_crossings_def)
  then show ?thesis
    by (auto simp: om_handle_message_def om_update_metrics_def om_set_current_def Let_def
        split: prod.splits sum.splits topology_error.splits)
qed

section \<open>The run loop\<close>

definition om_fits :: "om_worker \<Rightarrow> bool" where
  "om_fits w = (om_state w = OmActive \<longrightarrow> om_crossings w + length (om_messages w) < 2 ^ 64)"

definition om_size :: "'d \<times> om_worker \<Rightarrow> nat \<times> nat \<times> nat" where
  "om_size = (\<lambda>(_, w). (if om_state w = OmActive then 1 else 0, if om_resolver_faults_open w then 1 else 0,
     length (om_messages w) + length (om_resolver_faults w)))"

abbreviation om_smaller :: "(('d \<times> om_worker) \<times> ('d \<times> om_worker)) set" where
  "om_smaller \<equiv> inv_image (less_than <*lex*> less_than <*lex*> less_than) om_size"

definition om_iteration_ok :: "om_worker \<Rightarrow> om_worker \<Rightarrow> loop_outcome \<Rightarrow> bool" where
  "om_iteration_ok w w' out =
     (om_inv w' \<and> (om_fits w \<longrightarrow> om_fits w') \<and> (out = LoopContinue \<longrightarrow> (((), w'), ((), w)) \<in> om_smaller) \<and>
      (out = LoopBlocked \<longrightarrow> w' = w \<and> om_commands w = [] \<and> (om_state w = OmActive \<and> om_messages_open w \<longrightarrow> om_messages w = [])))"

lemma om_fault_iteration:
  assumes "om_enter_fault env db f v = (w', db')" and "om_inv w"
    and "v = w\<lparr>om_resolver_faults := tl (om_resolver_faults w)\<rparr> \<and> om_resolver_faults w \<noteq> [] \<or>
      v = w\<lparr>om_resolver_faults_open := False\<rparr> \<and> om_resolver_faults_open w \<or>
      v = w\<lparr>om_messages_open := False\<rparr> \<and> om_state w = OmActive"
  shows "om_iteration_ok w w' LoopContinue"
proof -
  have "om_safe v" using assms(2,3) by (auto simp: om_inv_def om_safe_def released_ok_def)
  note f = om_fault_spec[OF this assms(1)]
  show ?thesis
  proof (cases "om_state v")
    case OmActive
    then show ?thesis using f(1,2) assms(3) by (auto simp: om_iteration_ok_def om_fits_def om_size_def)
  next
    case OmFaulted
    then show ?thesis using f(1,2,9) assms(3) by (auto simp: om_iteration_ok_def om_fits_def om_size_def)
  qed
qed

lemma shutdown_inv:
  assumes "om_inv w" "om_handle_command env db w c = (w', db', r)"
  shows "om_inv w' \<and> om_fits w'"
  using assms topology_default_inv
  by (cases c) (auto simp: om_handle_command_def om_shutdown_resolver_def om_drain_messages_def om_clear_state_def om_inv_def om_safe_def
      om_fits_def released_ok_def split: prod.splits if_splits)

lemma om_loop_step_ok:
  assumes inv: "om_inv w" and run: "om_loop_step env db w = Some (w', db', out)"
  shows "om_iteration_ok w w' out"
proof (cases "om_commands w")
  case (Cons c rest)
  obtain v' e r where h: "om_handle_command env db (w\<lparr>om_commands := rest\<rparr>) c = (v', e, r)" by (metis prod_cases3)
  have "om_inv (w\<lparr>om_commands := rest\<rparr>)" using inv by (simp add: om_inv_def om_safe_def released_ok_def)
  from shutdown_inv[OF this h] show ?thesis using run h Cons by (auto simp: om_loop_step_def om_iteration_ok_def)
next
  case Nil
  have safe: "om_safe w" using inv by (simp add: om_inv_def)
  consider (closed) "om_commands_closed w"
    | (fault) "\<not> om_commands_closed w" "om_resolver_faults_open w" "om_resolver_faults w \<noteq> []"
    | (lost) "\<not> om_commands_closed w" "om_resolver_faults_open w" "om_resolver_faults w = []" "om_resolver_faults_closed w"
    | (message) "\<not> om_commands_closed w" "om_resolver_faults_open w \<longrightarrow> om_resolver_faults w = [] \<and> \<not> om_resolver_faults_closed w"
        "om_state w = OmActive" "om_messages_open w" "om_messages w \<noteq> []"
    | (ended) "\<not> om_commands_closed w" "om_resolver_faults_open w \<longrightarrow> om_resolver_faults w = [] \<and> \<not> om_resolver_faults_closed w"
        "om_state w = OmActive" "om_messages_open w" "om_messages w = []" "om_messages_closed w"
    | (blocked) "w' = w" "out = LoopBlocked" "om_state w = OmActive \<and> om_messages_open w \<longrightarrow> om_messages w = []"
    using run Nil by (auto simp: om_loop_step_def split: if_splits)
  then show ?thesis
  proof cases
    case closed
    then have f: "om_enter_own_fault env db (ChildOwnership InternalControlPathLost) w = (w', db')" "out = LoopStop"
      using run Nil by (auto simp: om_loop_step_def split: prod.splits)
    then show ?thesis using om_own_fault_spec[OF safe f(1)] by (simp add: om_iteration_ok_def om_fits_def)
  next
    case fault
    then have f: "om_enter_fault env db (hd (om_resolver_faults w)) (w\<lparr>om_resolver_faults := tl (om_resolver_faults w)\<rparr>) = (w', db')" "out = LoopContinue"
      using run Nil by (auto simp: om_loop_step_def om_enter_own_fault_def split: prod.splits)
    show ?thesis unfolding f(2) by (rule om_fault_iteration[OF f(1) inv]) (use fault in simp)
  next
    case lost
    then have f: "om_enter_fault env db (ChildFault OrphanManager (ChildOwnership UnexpectedWorkerTermination)) (w\<lparr>om_resolver_faults_open := False\<rparr>) = (w', db')" "out = LoopContinue"
      using run Nil by (auto simp: om_loop_step_def om_enter_own_fault_def split: prod.splits)
    show ?thesis unfolding f(2) by (rule om_fault_iteration[OF f(1) inv]) (use lost in simp)
  next
    case message
    then obtain a rest where box: "om_messages w = a # rest" by (cases "om_messages w") auto
    have h: "om_handle_message env db (w\<lparr>om_messages := rest, om_taken := om_taken w @ [a]\<rparr>) a = Some (w', db')" "out = LoopContinue"
      using message run Nil box by (auto simp: om_loop_step_def)
    show ?thesis using handle_message_ok[OF inv message(3) h(1)] message(3) box h(2)
      by (auto simp: om_iteration_ok_def om_fits_def om_size_def message_handled_def om_crossings_def)
  next
    case ended
    then have f: "om_enter_fault env db (ChildFault OrphanManager (ChildSessionDataEndpointLost OrphanInput)) (w\<lparr>om_messages_open := False\<rparr>) = (w', db')" "out = LoopContinue"
      using run Nil by (auto simp: om_loop_step_def om_enter_own_fault_def split: prod.splits)
    show ?thesis unfolding f(2) by (rule om_fault_iteration[OF f(1) inv]) (use ended in simp)
  next
    case blocked
    then show ?thesis using inv Nil by (auto simp: om_iteration_ok_def)
  qed
qed

lemma om_loop_step_total:
  assumes "om_fits w"
  shows "om_loop_step env db w \<noteq> None"
proof -
  have "om_handle_message env db (w\<lparr>om_messages := tl (om_messages w), om_taken := om_taken w @ [hd (om_messages w)]\<rparr>) (hd (om_messages w)) \<noteq> None"
    if "om_state w = OmActive" "om_messages w \<noteq> []"
    using assms that by (intro handle_message_total) (cases "om_messages w"; simp add: om_fits_def om_crossings_def)
  then show ?thesis by (auto simp: om_loop_step_def split: list.splits orphan_command.splits prod.splits)
qed

definition om_step :: "'d om_env \<Rightarrow> 'd \<times> om_worker \<Rightarrow> (('d \<times> om_worker) \<times> loop_outcome) option" where
  "om_step env = (\<lambda>(db, w). map_option (\<lambda>(w', db', outcome). ((db', w'), outcome)) (om_loop_step env db w))"

lemma om_stepE:
  assumes "om_step env s = Some (s', out)"
  shows "om_loop_step env (fst s) (snd s) = Some (snd s', fst s', out)"
  using assms by (auto simp: om_step_def split: prod.splits)

interpretation orphan_loop: loop_contract "om_step env" "\<lambda>(_, w). om_inv w \<and> om_fits w" "\<lambda>_. False" om_smaller
  for env :: "'d om_env"
proof
  show "wf (om_smaller :: (('d \<times> om_worker) \<times> ('d \<times> om_worker)) set)"
    by (intro wf_inv_image wf_lex_prod wf_less_than)
next
  fix s :: "'d \<times> om_worker"
  assume "case s of (_, w) \<Rightarrow> om_inv w \<and> om_fits w"
  then show "\<exists>s' out. om_step env s = Some (s', out)"
    using om_loop_step_total[of "snd s" env "fst s"] by (auto simp: om_step_def)
next
  fix s s' :: "'d \<times> om_worker" and out
  assume "case s of (_, w) \<Rightarrow> om_inv w \<and> om_fits w" "om_step env s = Some (s', out)" "out \<noteq> LoopStop"
  then show "case s' of (_, w) \<Rightarrow> om_inv w \<and> om_fits w"
    using om_loop_step_ok[OF _ om_stepE] by (fastforce simp: om_iteration_ok_def)
next
  fix s s' :: "'d \<times> om_worker"
  assume "case s of (_, w) \<Rightarrow> om_inv w \<and> om_fits w" and r: "om_step env s = Some (s', LoopContinue)"
  then have "om_iteration_ok (snd s) (snd s') LoopContinue" by (intro om_loop_step_ok[OF _ om_stepE[OF r]]) auto
  then have "(((), snd s'), ((), snd s)) \<in> om_smaller" by (simp add: om_iteration_ok_def)
  moreover have "om_size ((), snd x) = om_size x" for x :: "'d \<times> om_worker" by (simp add: om_size_def split: prod.splits)
  ultimately show "(s', s) \<in> om_smaller" by (simp only: in_inv_image)
qed

section \<open>Reachable workers\<close>

inductive om_arrival :: "om_worker \<Rightarrow> om_worker \<Rightarrow> bool" where
  command: "om_arrival w (w\<lparr>om_commands := om_commands w @ [c]\<rparr>)"
| message: "\<not> om_messages_closed w \<Longrightarrow> om_arrival w (w\<lparr>om_messages := om_messages w @ [m]\<rparr>)"
| fault: "\<not> om_resolver_faults_closed w \<Longrightarrow> om_arrival w (w\<lparr>om_resolver_faults := om_resolver_faults w @ [f]\<rparr>)"
| "om_arrival w (w\<lparr>om_commands_closed := True\<rparr>)"
| "om_arrival w (w\<lparr>om_messages_closed := True\<rparr>)"
| "om_arrival w (w\<lparr>om_resolver_faults_closed := True\<rparr>)"
| "om_arrival w (w\<lparr>om_faults_closed := True\<rparr>)"

inductive om_reachable :: "'d om_env \<Rightarrow> 'd \<Rightarrow> om_worker \<Rightarrow> bool" for env where
  start: "om_reachable env db om_new"
| arrival: "om_reachable env db w \<Longrightarrow> om_arrival w w' \<Longrightarrow> om_reachable env db w'"
| iterate: "om_reachable env db w \<Longrightarrow> om_loop_step env db w = Some (w', db', outcome) \<Longrightarrow> om_reachable env db' w'"

lemma om_arrival_inv: "om_arrival w w' \<Longrightarrow> om_inv w' = om_inv w"
  by (erule om_arrival.cases) (simp_all add: om_inv_def om_safe_def released_ok_def)

lemma om_new_inv: "om_inv om_new"
  using topology_default_inv
  by (simp add: om_inv_def om_safe_def om_new_def released_ok_def requested_of_def entries_admitted_def accounted_def metrics_exact_def
      topology_default_def fcard.rep_eq)

lemma reachable_om_inv: "om_reachable env db w \<Longrightarrow> om_inv w"
  by (induction rule: om_reachable.induct) (auto simp: om_new_inv om_arrival_inv om_iteration_ok_def dest: om_loop_step_ok)

end
