(* ===== verification/Resolver_Run.thy ===== *)
theory Resolver_Run
  imports Dependency_Resolver Worker_Loop
begin

text \<open>
  Runs of the dependency resolver: iterations of its loop interleaved with the steps of its tasks, its
  shutdown, and what becomes of a request that follows its own cancellation.
\<close>

section \<open>The run loop\<close>

definition runtime_ok :: "'d dr_env \<Rightarrow> bool" where
  "runtime_ok env = (fresh_ids env \<and> joins_finished env)"

definition dr_size :: "'d \<times> dr_worker \<Rightarrow> nat \<times> nat \<times> nat" where
  "dr_size = (\<lambda>(_, w). (if dr_faulted w then 0 else 1, length (dr_work w), fcard (fmdom (dr_tasks w))))"

abbreviation dr_smaller :: "(('d \<times> dr_worker) \<times> ('d \<times> dr_worker)) set" where
  "dr_smaller \<equiv> inv_image (less_than <*lex*> less_than <*lex*> less_than) dr_size"

lemma fcard_drop: "fmlookup m k = Some v \<Longrightarrow> fcard (fmdom (fmdrop k m)) < fcard (fmdom m)"
  using fcard_fminus1_less[of k "fmdom m"] by (simp add: fmdomI)

lemma dr_inv_mail [simp]:
  "dr_inv (w\<lparr>dr_work := a\<rparr>) = dr_inv w" "dr_inv (w\<lparr>dr_commands := b\<rparr>) = dr_inv w" "dr_inv (w\<lparr>dr_work_open := c\<rparr>) = dr_inv w"
  "dr_inv (w\<lparr>dr_work_closed := c\<rparr>) = dr_inv w" "dr_inv (w\<lparr>dr_commands_closed := c\<rparr>) = dr_inv w" "dr_inv (w\<lparr>dr_faults_closed := c\<rparr>) = dr_inv w"
  by (simp_all add: dr_inv_def counters_ok_def tracked_def aborts_ok_def requests_ok_def open_requests_def)

lemma handle_work_size:
  "handle_work env db w x = (w', db') \<Longrightarrow> dr_work w' = dr_work w"
  by (cases x) (auto simp: handle_work_def start_resolution_def Let_def split: if_splits prod.splits option.splits)

lemma join_next_ok:
  assumes inv: "dr_inv w" and rt: "joins_finished env" and some: "finished_tasks w \<noteq> {||}" and run: "join_next env db w = (w', db')"
  shows "dr_inv w' \<and> ((db', w'), (db, w)) \<in> dr_smaller"
proof -
  obtain db1 tid where j: "dre_join env db (finished_tasks w) = (db1, tid)" by fastforce
  have "tid |\<in>| finished_tasks w" using rt some j unfolding joins_finished_def by (metis snd_conv)
  then obtain r where t: "fmlookup (dr_tasks w) tid = Some (TaskDone r)" by (auto simp: finished_iff)
  have "dr_inv w' \<and> dr_tasks w' = fmdrop tid (dr_tasks w) \<and> dr_work w' = dr_work w \<and> (dr_faulted w \<longrightarrow> dr_faulted w')"
    using run j t by (intro join_inv[OF inv t]) (simp add: join_next_def)
  then show ?thesis using fcard_drop[OF t] by (auto simp: dr_size_def simp del: fmdom_drop)
qed

lemma dr_loop_step_ok:
  assumes inv: "dr_inv w" and rt: "runtime_ok env" and run: "dr_loop_step env db w = (w', db', out)" and going: "out \<noteq> LoopStop"
  shows "dr_inv w'" "out = LoopContinue \<Longrightarrow> ((db', w'), (db, w)) \<in> dr_smaller"
    "out = LoopBlocked \<Longrightarrow> w' = w \<and> dr_commands w = [] \<and> (\<not> dr_faulted w \<and> dr_work_open w \<longrightarrow> dr_work w = []) \<and> finished_tasks w = {||}"
proof -
  have rt': "fresh_ids env" "joins_finished env" using rt by (simp_all add: runtime_ok_def)
  have nil: "dr_commands w = []" "\<not> dr_commands_closed w" using run going by (auto simp: dr_loop_step_def split: list.splits if_splits)
  have "dr_inv w' \<and> (out = LoopContinue \<longrightarrow> ((db', w'), (db, w)) \<in> dr_smaller) \<and>
    (out = LoopBlocked \<longrightarrow> w' = w \<and> (\<not> dr_faulted w \<and> dr_work_open w \<longrightarrow> dr_work w = []) \<and> finished_tasks w = {||})"
  proof (cases "\<not> dr_faulted w \<and> dr_work_open w \<and> dr_work w \<noteq> []")
    case True
    then obtain x rest where box: "dr_work w = x # rest" by (cases "dr_work w") auto
    have h: "handle_work env db (w\<lparr>dr_work := rest\<rparr>) x = (w', db')" "out = LoopContinue"
      using run nil True box by (auto simp: dr_loop_step_def split: prod.splits)
    have "dr_inv w'" using handle_work_inv[OF _ _ rt'(1) h(1)] inv True by simp
    moreover have "dr_work w' = rest" using handle_work_size[OF h(1)] by simp
    ultimately show ?thesis using h(2) box True by (auto simp: dr_size_def)
  next
    case False
    show ?thesis
    proof (cases "\<not> dr_faulted w \<and> dr_work_open w \<and> dr_work_closed w")
      case True
      then have e: "w' = dr_fail (ChildSessionDataEndpointLost ResolverWorkPath) (w\<lparr>dr_work_open := False\<rparr>)" "out = LoopContinue"
        using run nil False by (auto simp: dr_loop_step_def)
      have "dr_inv w'" unfolding e(1) by (rule dr_fail_inv) (simp add: inv)
      then show ?thesis using e True by (auto simp: dr_size_def)
    next
      case quiet: False
      show ?thesis
      proof (cases "finished_tasks w = {||}")
        case True
        then show ?thesis using run nil False quiet inv by (auto simp: dr_loop_step_def split: if_splits)
      next
        case some: False
        then have j: "join_next env db w = (w', db')" "out = LoopContinue"
          using run nil False quiet by (auto simp: dr_loop_step_def split: prod.splits if_splits)
        from join_next_ok[OF inv rt'(2) some j(1)] show ?thesis using j(2) by simp
      qed
    qed
  qed
  then show "dr_inv w'" "out = LoopContinue \<Longrightarrow> ((db', w'), (db, w)) \<in> dr_smaller"
    "out = LoopBlocked \<Longrightarrow> w' = w \<and> dr_commands w = [] \<and> (\<not> dr_faulted w \<and> dr_work_open w \<longrightarrow> dr_work w = []) \<and> finished_tasks w = {||}"
    using nil by blast+
qed

definition dr_step :: "'d dr_env \<Rightarrow> 'd \<times> dr_worker \<Rightarrow> (('d \<times> dr_worker) \<times> loop_outcome) option" where
  "dr_step env = (\<lambda>(db, w). case dr_loop_step env db w of (w', db', outcome) \<Rightarrow> Some ((db', w'), outcome))"

lemma dr_stepE: "dr_step env s = Some (s', out) \<Longrightarrow> dr_loop_step env (fst s) (snd s) = (snd s', fst s', out)"
  by (auto simp: dr_step_def split: prod.splits)

text \<open>The contract holds for any runtime that has the two laws.\<close>

interpretation resolver_loop: loop_contract "dr_step env" "\<lambda>(_, w). runtime_ok env \<and> dr_inv w" "\<lambda>_. False" dr_smaller
  for env :: "'d dr_env"
proof
  show "wf (dr_smaller :: (('d \<times> dr_worker) \<times> ('d \<times> dr_worker)) set)" by (intro wf_inv_image wf_lex_prod wf_less_than)
next
  fix s :: "'d \<times> dr_worker"
  show "\<exists>s' out. dr_step env s = Some (s', out)" by (auto simp: dr_step_def split: prod.splits)
next
  fix s s' :: "'d \<times> dr_worker" and out
  assume a: "case s of (_, w) \<Rightarrow> runtime_ok env \<and> dr_inv w" and r: "dr_step env s = Some (s', out)" "out \<noteq> LoopStop"
  then show "case s' of (_, w) \<Rightarrow> runtime_ok env \<and> dr_inv w"
    using dr_loop_step_ok(1)[OF _ _ dr_stepE[OF r(1)] r(2)] by (auto split: prod.splits)
next
  fix s s' :: "'d \<times> dr_worker"
  assume a: "case s of (_, w) \<Rightarrow> runtime_ok env \<and> dr_inv w" and r: "dr_step env s = Some (s', LoopContinue)"
  have "((fst s', snd s'), (fst s, snd s)) \<in> dr_smaller"
    by (rule dr_loop_step_ok(2)[OF _ _ dr_stepE[OF r]]) (use a in \<open>auto split: prod.splits\<close>)
  then show "(s', s) \<in> dr_smaller" by simp
qed

section \<open>Reachable workers\<close>

inductive dr_arrival :: "dr_worker \<Rightarrow> dr_worker \<Rightarrow> bool" where
  command: "dr_arrival w (w\<lparr>dr_commands := dr_commands w @ [c]\<rparr>)"
| work: "\<not> dr_work_closed w \<Longrightarrow> dr_arrival w (w\<lparr>dr_work := dr_work w @ [x]\<rparr>)"
| "dr_arrival w (w\<lparr>dr_commands_closed := True\<rparr>)"
| "dr_arrival w (w\<lparr>dr_work_closed := True\<rparr>)"
| "dr_arrival w (w\<lparr>dr_faults_closed := True\<rparr>)"

inductive dr_reachable :: "'d dr_env \<Rightarrow> 'd \<Rightarrow> dr_worker \<Rightarrow> bool" for env where
  start: "dr_reachable env db dr_new"
| arrival: "dr_reachable env db w \<Longrightarrow> dr_arrival w w' \<Longrightarrow> dr_reachable env db w'"
| acquire: "dr_reachable env db w \<Longrightarrow> task_acquire tid w = Some w' \<Longrightarrow> dr_reachable env db w'"
| finish: "dr_reachable env db w \<Longrightarrow> task_end tid r w = Some w' \<Longrightarrow> dr_reachable env db w'"
| iterate: "dr_reachable env db w \<Longrightarrow> dr_loop_step env db w = (w', db', outcome) \<Longrightarrow> outcome \<noteq> LoopStop \<Longrightarrow> dr_reachable env db' w'"

lemma dr_new_inv: "dr_inv dr_new"
  by (simp add: dr_inv_def dr_new_def counters_ok_def tracked_def aborts_ok_def requests_ok_def open_requests_def sent_hashes_def
      answered_hashes_def fmap_ext)

lemma dr_arrival_inv: "dr_arrival w w' \<Longrightarrow> dr_inv w' = dr_inv w"
  by (erule dr_arrival.cases) simp_all

lemma reachable_dr_inv:
  assumes "runtime_ok env" "dr_reachable env db w"
  shows "dr_inv w"
  using assms(2)
  by (induction rule: dr_reachable.induct)
    (auto simp: dr_new_inv dr_arrival_inv intro: task_acquire_inv task_end_inv dr_loop_step_ok(1)[OF _ assms(1)])

section \<open>Shutdown\<close>

lemma join_discard_ok:
  assumes "counters_ok w"
  shows "counters_ok (join_discard tid w) \<and> dr_tasks (join_discard tid w) = fmdrop tid (dr_tasks w)"
proof (cases "fmlookup (dr_tasks w) tid")
  case None
  then have "fmdrop tid (dr_tasks w) = dr_tasks w" by (intro fmap_ext) auto
  then show ?thesis using None assms by (simp add: join_discard_def)
next
  case (Some phase)
  from counters_release(1)[OF assms Some] show ?thesis
    using Some by (auto simp: join_discard_def Let_def counters_ok_def split: option.splits)
qed

lemma join_all:
  "counters_ok w \<Longrightarrow> counters_ok (fold join_discard ids w) \<and> dr_tasks (fold join_discard ids w) = fmdrop_set (set ids) (dr_tasks w)"
proof (induction ids arbitrary: w)
  case (Cons tid ids)
  have "fmdrop_set (set ids) (fmdrop tid (dr_tasks w)) = fmdrop_set (set (tid # ids)) (dr_tasks w)" by (intro fmap_ext) auto
  then show ?case using Cons.IH join_discard_ok[OF Cons.prems, of tid] by simp
qed simp

lemma abort_and_join_empties:
  assumes "counters_ok w"
  shows "dr_tasks (abort_and_join w) = fmempty" "dr_active (abort_and_join w) = 0" "dr_waiting (abort_and_join w) = 0"
    "dr_permits (abort_and_join w) = MAX_DEPENDENCY_RPC_CONCURRENCY"
    "dr_tasks_by_hash (abort_and_join w) = fmempty" "dr_hashes_by_task (abort_and_join w) = fmempty"
proof -
  let ?ids = "sorted_list_of_fset (fmdom (dr_tasks w))"
  have "counters_ok (abort_all w)" using assms by (simp add: abort_all_def counters_ok_def)
  note j = join_all[OF this, of ?ids]
  have "fmdrop_set (fset (fmdom (dr_tasks w))) (dr_tasks w) = fmempty" by (intro fmap_ext) (auto simp: fmdom_notD)
  then have t: "dr_tasks (fold join_discard ?ids (abort_all w)) = fmempty" using j by (simp add: abort_all_def sorted_list_of_fset.rep_eq)
  have c: "dr_waiting (fold join_discard ?ids (abort_all w)) = 0" "dr_active (fold join_discard ?ids (abort_all w)) = 0"
    "dr_permits (fold join_discard ?ids (abort_all w)) + dr_active (fold join_discard ?ids (abort_all w)) = MAX_DEPENDENCY_RPC_CONCURRENCY"
    using conjunct1[OF j] unfolding counters_ok_def t by simp_all
  show "dr_tasks (abort_and_join w) = fmempty" "dr_active (abort_and_join w) = 0" "dr_waiting (abort_and_join w) = 0"
    "dr_permits (abort_and_join w) = MAX_DEPENDENCY_RPC_CONCURRENCY"
    "dr_tasks_by_hash (abort_and_join w) = fmempty" "dr_hashes_by_task (abort_and_join w) = fmempty"
    using t c by (simp_all add: abort_and_join_def)
qed

section \<open>A request after its cancellation\<close>

lemma queued_rerequest_faults:
  assumes "dr_commands w = []" "\<not> dr_commands_closed w" "\<not> dr_faulted w" "dr_work_open w" "\<not> dr_faults_closed w"
    and "fmlookup (dr_tasks_by_hash w) h = Some tid" and "dr_work w = Cancel h # Resolve h # rest"
  shows "\<exists>w'. run_loop (dr_step env) 2 (db, w) = Some ((db, w'), LoopContinue) \<and> dr_faulted w' \<and>
    dr_faults w' = dr_faults w @ [ChildFault DependencyResolver ChildInvalidProtocol]"
proof -
  let ?w1 = "w\<lparr>dr_work := Resolve h # rest, dr_log := dr_log w @ [Took (Cancel h)], dr_cancelled_tasks := finsert tid (dr_cancelled_tasks w),
      dr_aborted := finsert tid (dr_aborted w)\<rparr>"
  let ?w2 = "dr_fail ChildInvalidProtocol (?w1\<lparr>dr_work := rest\<rparr>)"
  have "dr_step env (db, w) = Some ((db, ?w1), LoopContinue)"
    using assms by (simp add: dr_step_def dr_loop_step_def handle_work_def Let_def)
  moreover have "dr_step env (db, ?w1) = Some ((db, ?w2), LoopContinue)"
    using assms by (simp add: dr_step_def dr_loop_step_def handle_work_def start_resolution_def fmdomI)
  ultimately have "run_loop (dr_step env) 2 (db, w) = Some ((db, ?w2), LoopContinue)" by (simp add: numeral_2_eq_2)
  moreover have "dr_faults ?w2 = dr_faults w @ [ChildFault DependencyResolver ChildInvalidProtocol]"
    using assms(5) by (simp add: dr_fail_def abort_all_def dr_report_fault_def)
  ultimately show ?thesis by (intro exI[of _ ?w2]) simp
qed

end
