(* ===== verification/Resolution_Properties.thy ===== *)
theory Resolution_Properties
  imports Orphan_Run Resolver_Run Orphan_Properties
begin

text \<open>
  The properties of the orphan manager and of the dependency resolver, over every run of each.
\<close>

section \<open>Samples\<close>

definition sample_om_env :: "unit om_env" where
  "sample_om_env =
     \<lparr>ome_work_try_send = (\<lambda>db _. (db, None)), ome_resolution_try_send = (\<lambda>db _. (db, None)),
      ome_resolver_shutdown = (\<lambda>db. (db, [], Inr ()))\<rparr>"

text \<open>Block 3 is parked on block 1, which is then persisted.\<close>

definition sample_mail :: "orphan_message list" where
  "sample_mail = [AddOrphan (sample_orphan 3) [1], BlockPersisted 1]"

definition om_after :: "om_worker \<Rightarrow> om_worker" where
  "om_after w = (case om_loop_step sample_om_env () w of Some (w', _, _) \<Rightarrow> w' | None \<Rightarrow> w)"

definition om_loaded :: om_worker where
  "om_loaded = om_new\<lparr>om_messages := sample_mail\<rparr>"

definition om_finished :: om_worker where
  "om_finished = om_after (om_after om_loaded)"

lemma om_loaded_reachable: "om_reachable sample_om_env () om_loaded"
proof -
  define w where "w = om_new\<lparr>om_messages := [AddOrphan (sample_orphan 3) [1]]\<rparr>"
  have "om_reachable sample_om_env () w"
    using om_reachable.arrival[OF om_reachable.start om_arrival.message[of om_new "AddOrphan (sample_orphan 3) [1]"]]
    by (simp add: om_new_def w_def)
  then show ?thesis
    using om_reachable.arrival[OF _ om_arrival.message[of w "BlockPersisted 1"]]
    by (simp add: om_new_def w_def om_loaded_def sample_mail_def)
qed

lemma om_finished_reachable: "om_reachable sample_om_env () om_finished"
proof -
  have "om_loop_step sample_om_env () om_loaded = Some (om_after om_loaded, (), LoopContinue)" by code_simp
  from om_reachable.iterate[OF om_loaded_reachable this] have r: "om_reachable sample_om_env () (om_after om_loaded)" .
  have "om_loop_step sample_om_env () (om_after om_loaded) = Some (om_finished, (), LoopContinue)" by code_simp
  from om_reachable.iterate[OF r this] show ?thesis .
qed

definition sample_dr_env :: "unit dr_env" where
  "sample_dr_env =
     \<lparr>dre_task_id = (\<lambda>db ids. (db, Suc (fold max (sorted_list_of_fset ids) 0))),
      dre_join = (\<lambda>db ids. (db, hd (sorted_list_of_fset ids))), dre_resolution_try_send = (\<lambda>db _. (db, None))\<rparr>"

lemma sample_runtime: "runtime_ok sample_dr_env"
proof -
  have base: "(m :: nat) \<le> fold max xs m" for xs m
    by (induction xs arbitrary: m) (auto intro: order_trans[OF max.cobounded2])
  have le: "(x :: nat) \<le> fold max xs m" if "x \<in> set xs" for x xs m
    using that by (induction xs arbitrary: m) (auto intro: order_trans[OF max.cobounded1 base])
  have "Suc (fold max (sorted_list_of_fset ids) 0) |\<notin>| ids" for ids :: "nat fset"
    using le[of "Suc (fold max (sorted_list_of_fset ids) 0)" "sorted_list_of_fset ids" 0] by (auto simp: sorted_list_of_fset.rep_eq)
  moreover have "hd (sorted_list_of_fset ids) |\<in>| ids" if "ids \<noteq> {||}" for ids :: "nat fset"
    using that hd_in_set[of "sorted_list_of_fset ids"] by (auto simp: sorted_list_of_fset.rep_eq)
  ultimately show ?thesis by (simp add: runtime_ok_def fresh_ids_def joins_finished_def sample_dr_env_def)
qed

text \<open>Two requests are taken; the first one gets its permit.\<close>

definition dr_after :: "dr_worker \<Rightarrow> dr_worker" where
  "dr_after w = fst (dr_loop_step sample_dr_env () w)"

definition dr_loaded :: dr_worker where
  "dr_loaded = dr_new\<lparr>dr_work := [Resolve 1, Resolve 2]\<rparr>"

definition dr_taken :: dr_worker where
  "dr_taken = dr_after (dr_after dr_loaded)"

lemma dr_taken_reachable: "dr_reachable sample_dr_env () dr_taken"
proof -
  define w where "w = dr_new\<lparr>dr_work := [Resolve 1]\<rparr>"
  have "dr_reachable sample_dr_env () w"
    using dr_reachable.arrival[OF dr_reachable.start dr_arrival.work[of dr_new "Resolve 1"]] by (simp add: dr_new_def w_def)
  then have r: "dr_reachable sample_dr_env () dr_loaded"
    using dr_reachable.arrival[OF _ dr_arrival.work[of w "Resolve 2"]] by (simp add: dr_new_def w_def dr_loaded_def)
  have "dr_loop_step sample_dr_env () dr_loaded = (dr_after dr_loaded, (), LoopContinue)" by code_simp
  from dr_reachable.iterate[OF r this] have r: "dr_reachable sample_dr_env () (dr_after dr_loaded)" by simp
  have "dr_loop_step sample_dr_env () (dr_after dr_loaded) = (dr_taken, (), LoopContinue)" by code_simp
  from dr_reachable.iterate[OF r this] show ?thesis by simp
qed

text \<open>A manager with three orphans that has requested the two references they wait on.\<close>

definition sample_waiting :: om_worker where
  "sample_waiting =
     om_new\<lparr>om_topology := sample_topology\<lparr>ot_resolution_pending := {|1, 2|}\<rparr>, om_work := [Resolve 1, Resolve 2],
       om_metrics := \<lparr>omx_current_occupancy = 3, omx_high_water_mark = 3, omx_resolution_pending = 2, omx_threshold_crossings = 1\<rparr>,
       om_taken := [AddOrphan (sample_orphan 3) [1], AddOrphan (sample_orphan 4) [3], AddOrphan (sample_orphan 5) [2, 3]]\<rparr>"

lemma sample_waiting_inv: "om_inv sample_waiting"
proof -
  have top: "topology_inv (om_topology sample_waiting)" by code_simp
  have met: "metrics_exact (om_metrics sample_waiting) (om_topology sample_waiting)" by code_simp
  have req: "requested_of (om_work sample_waiting) = Some (ot_resolution_pending (om_topology sample_waiting))" by code_simp
  have ent: "entries_admitted (om_taken sample_waiting) (om_topology sample_waiting)"
    by (auto simp: entries_admitted_def fmpred_iff sample_waiting_def sample_topology_def admitted_def split: if_splits)
  have acc: "accounted (om_taken sample_waiting) (om_topology sample_waiting) (om_ready sample_waiting)"
    by (auto simp: accounted_def sample_waiting_def sample_topology_def sample_orphan_def)
  show ?thesis using top met req ent acc
    by (simp add: om_inv_def om_safe_def released_ok_def) (simp add: sample_waiting_def om_new_def)
qed

section \<open>The orphan manager\<close>

text \<open>C14. The orphan manager keeps to its protocol with the resolver: it never requests a hash that is
  already requested and never cancels one that is not, and while it is active the requests not cancelled
  are exactly the references whose resolution its topology has pending.\<close>

theorem orphan_manager_protocol:
  assumes "om_reachable env db w"
  shows "requested_of (om_work w) \<noteq> None \<and> topology_inv (om_topology w) \<and>
    (om_state w = OmActive \<longrightarrow> requested_of (om_work w) = Some (ot_resolution_pending (om_topology w)))"
  using reachable_om_inv[OF assms] by (simp add: om_inv_def om_safe_def)

theorem orphan_manager_protocol_witness:
  "requested_of (om_work om_finished) = Some (ot_resolution_pending (om_topology om_finished))"
proof -
  have "om_state om_finished = OmActive" by code_simp
  then show ?thesis using orphan_manager_protocol[OF om_finished_reachable] by blast
qed

text \<open>C13. No orphan is released early and none is lost: every block the manager sends back was admitted
  with references all of which have been reported persisted, and while the manager is active every block
  admitted is parked, has been sent back, or has itself been reported persisted.\<close>

theorem orphans_released_and_kept:
  assumes "om_reachable env db w"
  shows "(\<forall>block\<in>set (om_ready w). \<exists>missing. AddOrphan block missing \<in> set (om_taken w) \<and>
      set missing \<subseteq> set (told_persisted (om_taken w))) \<and>
    (om_state w = OmActive \<longrightarrow> (\<forall>block missing. AddOrphan block missing \<in> set (om_taken w) \<longrightarrow>
      vnb_hash block |\<in>| fmdom (ot_orphans (om_topology w)) \<or> vnb_hash block \<in> vnb_hash ` set (om_ready w) \<or>
      vnb_hash block \<in> set (told_persisted (om_taken w))))"
  using reachable_om_inv[OF assms]
  by (simp add: om_inv_def om_safe_def released_ok_def admitted_def accounted_def told_def)

theorem orphans_released_and_kept_witness:
  "om_ready om_finished = [sample_orphan 3] \<and>
   (\<exists>missing. AddOrphan (sample_orphan 3) missing \<in> set (om_taken om_finished) \<and>
      set missing \<subseteq> set (told_persisted (om_taken om_finished)))"
proof -
  have "om_ready om_finished = [sample_orphan 3]" by code_simp
  then show ?thesis using orphans_released_and_kept[OF om_finished_reachable] by simp
qed

text \<open>While the threshold counter has room for the messages queued, the manager's run loop never
  panics and comes to rest: finitely many iterations end in a return or in a wait, also after a fault.\<close>

theorem orphan_manager_rests:
  assumes "om_reachable env db w" and "om_fits w"
  shows "\<exists>n s outcome. run_loop (om_step env) n (db, w) = Some (s, outcome) \<and> outcome \<noteq> LoopContinue"
  using orphan_loop.run_loop_rests[of "(db, w)" env] reachable_om_inv[OF assms(1)] assms(2) by auto

theorem orphan_manager_rests_witness:
  "\<exists>n s outcome. run_loop (om_step sample_om_env) n ((), om_loaded) = Some (s, outcome) \<and> outcome \<noteq> LoopContinue"
proof -
  have "om_fits om_loaded" by (simp add: om_fits_def om_crossings_def om_loaded_def om_new_def sample_mail_def)
  then show ?thesis by (rule orphan_manager_rests[OF om_loaded_reachable])
qed

section \<open>The dependency resolver\<close>

text \<open>C10. The resolver refines the abstract one, in which a request is outstanding from its start to its
  one answer, and is never answered once it has been cancelled: whatever the tasks do, its log is a run
  of the abstract resolver, its answers are those of the log, and until it faults its tables represent the
  outstanding requests.\<close>

theorem resolver_refines_requests:
  assumes "runtime_ok env" and "dr_reachable env db w"
  shows "fold_opt request_step fmempty (dr_log w) \<noteq> None \<and> sent_hashes (dr_sent w) = answered_hashes (dr_log w) \<and>
    (\<not> dr_faulted w \<longrightarrow> fold_opt request_step fmempty (dr_log w) = Some (open_requests w))"
  using reachable_dr_inv[OF assms] by (simp add: dr_inv_def requests_ok_def)

theorem resolver_refines_requests_witness:
  "fold_opt request_step fmempty [Took (Resolve 1), Took (Resolve 2)] = Some (open_requests dr_taken)"
proof -
  have "dr_log dr_taken = [Took (Resolve 1), Took (Resolve 2)]" "\<not> dr_faulted dr_taken" by code_simp+
  then show ?thesis using resolver_refines_requests[OF sample_runtime dr_taken_reachable] by simp
qed

text \<open>C29. At most eight RPC tasks are active at a time, the two counters are exact, the two tables are
  inverse to each other and cover the unjoined tasks, so that no task is ever joined without a tracked
  hash; a shutdown leaves no task, no entry and no permit behind.\<close>

theorem resolver_tasks_bounded:
  assumes "runtime_ok env" and "dr_reachable env db w"
  shows "dr_active w = in_phase TaskActive (dr_tasks w) \<and> dr_waiting w = in_phase TaskWaiting (dr_tasks w) \<and> dr_active w \<le> 8 \<and>
    fmdom (dr_hashes_by_task w) = fmdom (dr_tasks w) \<and>
    (\<forall>tid hash. fmlookup (dr_hashes_by_task w) tid = Some hash \<longleftrightarrow> fmlookup (dr_tasks_by_hash w) hash = Some tid) \<and>
    (let w' = dr_handle_command w RcShutdown
     in dr_tasks w' = fmempty \<and> dr_tasks_by_hash w' = fmempty \<and> dr_active w' = 0 \<and> dr_waiting w' = 0 \<and> dr_permits w' = 8)"
  using reachable_dr_inv[OF assms] abort_and_join_empties[of w]
  by (simp add: dr_inv_def counters_ok_def tracked_def MAX_DEPENDENCY_RPC_CONCURRENCY_def dr_handle_command_def drain_work_def Let_def)

theorem resolver_tasks_bounded_witness:
  "in_phase TaskWaiting (dr_tasks dr_taken) = 2 \<and> dr_waiting (dr_handle_command dr_taken RcShutdown) = 0"
proof -
  have "dr_waiting dr_taken = 2" by code_simp
  then show ?thesis using resolver_tasks_bounded[OF sample_runtime dr_taken_reachable] by (simp add: Let_def)
qed

text \<open>C39. A cancelled request keeps its entry until its aborted task has been joined, and queued work is
  taken before tasks are joined. So a cancellation and a new request for the same hash that are queued
  together fault the resolver, and the block processor maps that fault to a fatal one.\<close>

theorem rerequest_after_cancel_is_fatal:
  assumes "dr_commands w = []" and "\<not> dr_commands_closed w" and "\<not> dr_faulted w" and "dr_work_open w" and "\<not> dr_faults_closed w"
    and "fmlookup (dr_tasks_by_hash w) h = Some tid" and "dr_work w = Cancel h # Resolve h # rest"
  shows "\<exists>w' fault. run_loop (dr_step env) 2 (db, w) = Some ((db, w'), LoopContinue) \<and> dr_faulted w' \<and>
    dr_faults w' = dr_faults w @ [fault] \<and> cf_disposition (child_fault_mapped fault is_live) = Fatal"
  using queued_rerequest_faults[OF assms, of env db]
  by (fastforce simp: child_fault_mapped_def ownership_component_fault_def)

text \<open>The manager sends exactly such work: when the block that needed a pending reference is persisted and
  another orphan then needs the same reference.\<close>

definition sample_manager :: om_worker where
  "sample_manager = sample_waiting\<lparr>om_messages := [BlockPersisted 3, AddOrphan (sample_orphan 6) [1]]\<rparr>"

definition dr_queued :: dr_worker where
  "dr_queued = dr_taken\<lparr>dr_work := drop 2 (om_work (om_after (om_after sample_manager)))\<rparr>"

theorem rerequest_after_cancel_is_fatal_witness:
  "om_work (om_after (om_after sample_manager)) = [Resolve 1, Resolve 2, Cancel 1, Resolve 1] \<and>
   (\<exists>w' fault. run_loop (dr_step sample_dr_env) 2 ((), dr_queued) = Some (((), w'), LoopContinue) \<and> dr_faulted w' \<and>
      dr_faults w' = dr_faults dr_queued @ [fault] \<and> cf_disposition (child_fault_mapped fault True) = Fatal)"
proof -
  have m: "om_work (om_after (om_after sample_manager)) = [Resolve 1, Resolve 2, Cancel 1, Resolve 1]" by code_simp
  have d: "dr_commands dr_queued = []" "\<not> dr_commands_closed dr_queued" "\<not> dr_faulted dr_queued" "dr_work_open dr_queued"
    "\<not> dr_faults_closed dr_queued" "fmlookup (dr_tasks_by_hash dr_queued) 1 = Some 1" "dr_work dr_queued = Cancel 1 # Resolve 1 # []"
    by code_simp+
  show ?thesis using m rerequest_after_cancel_is_fatal[OF d, of sample_dr_env "()" True] by blast
qed

end
