(* ===== verification/Client_Registry.thy ===== *)
theory Client_Registry
  imports Delta_Estimate
begin

text \<open>
  Server-sent-event clients of a publication, \<open>crates/kgi-api-core/src/client.rs\<close>: the bounded mailbox of
  a connection with its coalescing graph wakeup, the publication-local registry of wake schedules, and
  the operations that publish a lifecycle state or a Head revision to every registered client.

  Mailboxes are shared between a connection and the registries that hold a weak reference to them, so they
  live in a store; a mailbox whose connection is gone is absent from it, which is how \<open>Weak::upgrade\<close> fails.
  Notifications and cancelled connections are logged. The identifiers are 64-bit keys; their \<open>base64\<close> text,
  which only the wire shows, is not modelled.
\<close>

section \<open>Mailboxes\<close>

definition MAX_SSE_CLIENTS :: nat where "MAX_SSE_CLIENTS = 1024"
definition SSE_CLIENT_BUFFER_CAPACITY :: nat where "SSE_CLIENT_BUFFER_CAPACITY = 8"

datatype publication_wakeup = PublicationWakeup (pw_publication_id: u64) (pw_revision: u64)

datatype sse_message =
    SseClientRegistration u64
  | SsePublicationWakeup publication_wakeup
  | SsePublicationState u64 u64 graph_publication_state

datatype sse_mailbox_item = RequiredItem sse_message | GraphWakeup publication_wakeup

record sse_mailbox =
  mb_closed :: bool
  mb_queue :: "sse_mailbox_item list"

datatype sse_mailbox_admission_error = MailboxClosed | MailboxFull

definition sse_mailbox_new :: sse_mailbox where
  "sse_mailbox_new = \<lparr>mb_closed = False, mb_queue = []\<rparr>"

definition mailbox_admit_required ::
  "sse_mailbox \<Rightarrow> sse_message list \<Rightarrow> sse_mailbox \<times> (sse_mailbox_admission_error + unit)" where
  "mailbox_admit_required m messages =
     (if mb_closed m then (m, Inl MailboxClosed)
      else if SSE_CLIENT_BUFFER_CAPACITY - length (mb_queue m) < length messages then (m, Inl MailboxFull)
      else (m\<lparr>mb_queue := mb_queue m @ map RequiredItem messages\<rparr>, Inr ()))"

text \<open>Whether an item is the coalescible wakeup of a publication, and the queue without the first such item.\<close>

fun is_graph_wakeup :: "u64 \<Rightarrow> sse_mailbox_item \<Rightarrow> bool" where
  "is_graph_wakeup p (GraphWakeup w) \<longleftrightarrow> pw_publication_id w = p"
| "is_graph_wakeup p (RequiredItem _) \<longleftrightarrow> False"

fun remove_first :: "('a \<Rightarrow> bool) \<Rightarrow> 'a list \<Rightarrow> 'a list option" where
  "remove_first P [] = None"
| "remove_first P (x # xs) = (if P x then Some xs else map_option ((#) x) (remove_first P xs))"

definition coalesce_queued_graph_wakeup :: "sse_mailbox \<Rightarrow> publication_wakeup \<Rightarrow> sse_mailbox \<times> bool" where
  "coalesce_queued_graph_wakeup m wakeup =
     (case remove_first (is_graph_wakeup (pw_publication_id wakeup)) (mb_queue m) of
        None \<Rightarrow> (m, False)
      | Some rest \<Rightarrow> (m\<lparr>mb_queue := rest @ [GraphWakeup wakeup]\<rparr>, True))"

definition mailbox_admit_graph_wakeup ::
  "sse_mailbox \<Rightarrow> publication_wakeup \<Rightarrow> sse_mailbox \<times> (sse_mailbox_admission_error + unit)" where
  "mailbox_admit_graph_wakeup m wakeup =
     (if mb_closed m then (m, Inl MailboxClosed)
      else case coalesce_queued_graph_wakeup m wakeup of
        (m', True) \<Rightarrow> (m', Inr ())
      | (m', False) \<Rightarrow>
          if length (mb_queue m') = SSE_CLIENT_BUFFER_CAPACITY then (m', Inl MailboxFull)
          else (m'\<lparr>mb_queue := mb_queue m' @ [GraphWakeup wakeup]\<rparr>, Inr ()))"

definition mailbox_coalesce_graph_wakeup ::
  "sse_mailbox \<Rightarrow> publication_wakeup \<Rightarrow> sse_mailbox \<times> (sse_mailbox_admission_error + bool)" where
  "mailbox_coalesce_graph_wakeup m wakeup =
     (if mb_closed m then (m, Inl MailboxClosed)
      else case coalesce_queued_graph_wakeup m wakeup of (m', coalesced) \<Rightarrow> (m', Inr coalesced))"

definition mailbox_remove_graph_wakeup :: "sse_mailbox \<Rightarrow> u64 \<Rightarrow> sse_mailbox \<times> bool" where
  "mailbox_remove_graph_wakeup m publication_id =
     (case remove_first (is_graph_wakeup publication_id) (mb_queue m) of
        None \<Rightarrow> (m, False)
      | Some rest \<Rightarrow> (m\<lparr>mb_queue := rest\<rparr>, True))"

definition mailbox_close :: "sse_mailbox \<Rightarrow> sse_mailbox" where
  "mailbox_close m = (if mb_closed m then m else m\<lparr>mb_closed := True\<rparr>)"

datatype mailbox_recv = RecvMessage sse_message | RecvFinished | RecvWaits

fun item_message :: "sse_mailbox_item \<Rightarrow> sse_message" where
  "item_message (RequiredItem message) = message"
| "item_message (GraphWakeup wakeup) = SsePublicationWakeup wakeup"

definition mailbox_recv_step :: "sse_mailbox \<Rightarrow> sse_mailbox \<times> mailbox_recv" where
  "mailbox_recv_step m =
     (case mb_queue m of
        item # rest \<Rightarrow> (m\<lparr>mb_queue := rest\<rparr>, RecvMessage (item_message item))
      | [] \<Rightarrow> (m, if mb_closed m then RecvFinished else RecvWaits))"

section \<open>The registry\<close>

record delta_wake_schedule =
  dws_wake_at_revision_id :: u64
  dws_wake_sent :: bool

record sse_client_registration =
  scr_schedule :: delta_wake_schedule
  scr_mailbox :: nat
  scr_disconnect :: nat

record sse_client_registry =
  reg_publication_id :: u64
  reg_publication_state :: graph_publication_state
  reg_head_revision_id :: u64
  reg_clients :: "(u64, sse_client_registration) fmap"

record sse_world =
  sw_mailboxes :: "(nat, sse_mailbox) fmap"
  sw_notified :: "nat list"
  sw_cancelled :: "nat list"

datatype sse_client_registration_error = RegistrationCapacity | RegistrationMailbox sse_mailbox_admission_error

datatype sse_client_replacement_error =
  ReplacementMissing | ReplacementCapacity | ReplacementMailbox sse_mailbox_admission_error

datatype delta_schedule_action = ReplaceSchedule u64 bool | ValidateOnly

datatype delta_completion_result = DeltaAccepted | DeltaRegistrationMissing

definition sse_client_registry_new :: "u64 \<Rightarrow> graph_publication_state \<Rightarrow> u64 \<Rightarrow> sse_client_registry" where
  "sse_client_registry_new publication_id publication_state head_revision_id =
     \<lparr>reg_publication_id = publication_id, reg_publication_state = publication_state,
      reg_head_revision_id = head_revision_id, reg_clients = fmempty\<rparr>"

definition store_mailbox :: "nat \<Rightarrow> sse_mailbox \<Rightarrow> sse_world \<Rightarrow> sse_world" where
  "store_mailbox i m w = w\<lparr>sw_mailboxes := fmupd i m (sw_mailboxes w)\<rparr>"

definition notify_receiver :: "nat \<Rightarrow> sse_world \<Rightarrow> sse_world" where
  "notify_receiver i w = w\<lparr>sw_notified := sw_notified w @ [i]\<rparr>"

definition cancel_connection :: "nat \<Rightarrow> sse_world \<Rightarrow> sse_world" where
  "cancel_connection token w = w\<lparr>sw_cancelled := sw_cancelled w @ [token]\<rparr>"

text \<open>\<open>HashMap::retain\<close>: each entry is kept, possibly changed, or dropped.\<close>

definition retain_step ::
  "('r \<Rightarrow> 'w \<Rightarrow> 'r option \<times> 'w) \<Rightarrow> 'k \<times> 'r \<Rightarrow> ('k, 'r) fmap \<times> 'w \<Rightarrow> ('k, 'r) fmap \<times> 'w" where
  "retain_step f entry acc =
     (case f (snd entry) (snd acc) of
        (Some r, w) \<Rightarrow> (fmupd (fst entry) r (fst acc), w)
      | (None, w) \<Rightarrow> (fst acc, w))"

definition retain_entries ::
  "('r \<Rightarrow> 'w \<Rightarrow> 'r option \<times> 'w) \<Rightarrow> ('k::linorder, 'r) fmap \<Rightarrow> 'w \<Rightarrow> ('k, 'r) fmap \<times> 'w" where
  "retain_entries f m w = fold (retain_step f) (sorted_list_of_fmap m) (fmempty, w)"

definition retain_live :: "sse_client_registration \<Rightarrow> sse_world \<Rightarrow> sse_client_registration option \<times> sse_world" where
  "retain_live r w =
     (case fmlookup (sw_mailboxes w) (scr_mailbox r) of
        None \<Rightarrow> (None, cancel_connection (scr_disconnect r) w)
      | Some _ \<Rightarrow> (Some r, w))"

text \<open>\<open>generate_identifier\<close> draws until a key is free; the random source is a stream of draws, of which a
  prefix that holds a free one is enough.\<close>

fun generate_identifier :: "sse_client_registry \<Rightarrow> u64 list \<Rightarrow> u64 option" where
  "generate_identifier reg [] = None"
| "generate_identifier reg (candidate # draws) =
     (if candidate |\<in>| fmdom (reg_clients reg) then generate_identifier reg draws else Some candidate)"

definition initial_batch :: "sse_client_registry \<Rightarrow> u64 \<Rightarrow> sse_message list" where
  "initial_batch reg identifier =
     [SseClientRegistration identifier,
      SsePublicationState (reg_publication_id reg) (reg_head_revision_id reg) (reg_publication_state reg),
      SsePublicationWakeup (PublicationWakeup (reg_publication_id reg) (reg_head_revision_id reg))]"

definition registry_register ::
  "sse_client_registry \<Rightarrow> u64 \<Rightarrow> nat \<Rightarrow> nat \<Rightarrow> u64 list \<Rightarrow> sse_world \<Rightarrow>
   (sse_client_registry \<times> sse_world \<times> (sse_client_registration_error + u64)) option" where
  "registry_register reg client_revision_id mailbox disconnect draws w = do {
     let (clients, w1) = retain_entries retain_live (reg_clients reg) w;
     let reg1 = reg\<lparr>reg_clients := clients\<rparr>;
     if fcard (fmdom clients) = MAX_SSE_CLIENTS then Some (reg1, w1, Inl RegistrationCapacity)
     else do {
       identifier \<leftarrow> generate_identifier reg1 draws;
       m \<leftarrow> fmlookup (sw_mailboxes w1) mailbox;
       case mailbox_admit_required m (initial_batch reg1 identifier) of
         (m', Inr _) \<Rightarrow>
           Some (reg1\<lparr>reg_clients := fmupd identifier
                   \<lparr>scr_schedule = \<lparr>dws_wake_at_revision_id = client_revision_id, dws_wake_sent = True\<rparr>,
                    scr_mailbox = mailbox, scr_disconnect = disconnect\<rparr> clients\<rparr>,
                 notify_receiver mailbox (store_mailbox mailbox m' w1), Inr identifier)
       | (m', Inl error) \<Rightarrow> Some (reg1, cancel_connection disconnect w1, Inl (RegistrationMailbox error)) } }"

definition registry_remove :: "sse_client_registry \<Rightarrow> u64 \<Rightarrow> sse_client_registry \<times> bool" where
  "registry_remove reg identifier =
     (reg\<lparr>reg_clients := fmdrop identifier (reg_clients reg)\<rparr>, identifier |\<in>| fmdom (reg_clients reg))"

definition publish_state_step ::
  "sse_message \<Rightarrow> sse_client_registration \<Rightarrow> sse_world \<Rightarrow> sse_client_registration option \<times> sse_world" where
  "publish_state_step message r w =
     (case fmlookup (sw_mailboxes w) (scr_mailbox r) of
        None \<Rightarrow> (None, cancel_connection (scr_disconnect r) w)
      | Some m \<Rightarrow>
          (case mailbox_admit_required m [message] of
             (m', Inl _) \<Rightarrow> (None, cancel_connection (scr_disconnect r) w)
           | (m', Inr _) \<Rightarrow> (Some r, notify_receiver (scr_mailbox r) (store_mailbox (scr_mailbox r) m' w))))"

definition registry_publish_state ::
  "sse_client_registry \<Rightarrow> graph_publication_state \<Rightarrow> u64 \<Rightarrow> sse_world \<Rightarrow> (sse_client_registry \<times> sse_world) option" where
  "registry_publish_state reg publication_state revision w =
     (if reg_head_revision_id reg \<noteq> revision then None
      else
        let message = SsePublicationState (reg_publication_id reg) revision publication_state;
            (clients, w') = retain_entries (publish_state_step message) (reg_clients reg) w
        in Some (reg\<lparr>reg_publication_state := publication_state, reg_clients := clients\<rparr>, w'))"

definition advance_head_step ::
  "u64 \<Rightarrow> u64 \<Rightarrow> sse_client_registration \<Rightarrow> sse_world \<Rightarrow> sse_client_registration option \<times> sse_world" where
  "advance_head_step publication_id revision r w =
     (case fmlookup (sw_mailboxes w) (scr_mailbox r) of
        None \<Rightarrow> (None, cancel_connection (scr_disconnect r) w)
      | Some m \<Rightarrow>
          let wakeup = PublicationWakeup publication_id revision;
              schedule = scr_schedule r;
              (m', queued) =
                (if dws_wake_sent schedule then mailbox_coalesce_graph_wakeup m wakeup
                 else if dws_wake_at_revision_id schedule \<le> revision then
                   (case mailbox_admit_graph_wakeup m wakeup of (m', result) \<Rightarrow> (m', map_sum id (\<lambda>_. True) result))
                 else (m, Inr False))
          in case queued of
               Inl _ \<Rightarrow> (None, cancel_connection (scr_disconnect r) w)
             | Inr queued \<Rightarrow>
                 let w' = store_mailbox (scr_mailbox r) m' w;
                     schedule' = (if \<not> dws_wake_sent schedule \<and> dws_wake_at_revision_id schedule \<le> revision
                                  then schedule\<lparr>dws_wake_sent := True\<rparr> else schedule)
                 in (Some (r\<lparr>scr_schedule := schedule'\<rparr>), if queued then notify_receiver (scr_mailbox r) w' else w'))"

definition registry_advance_head ::
  "sse_client_registry \<Rightarrow> u64 \<Rightarrow> sse_world \<Rightarrow> (sse_client_registry \<times> sse_world) option" where
  "registry_advance_head reg revision w =
     (if revision < reg_head_revision_id reg then None
      else
        let (clients, w') = retain_entries (advance_head_step (reg_publication_id reg) revision) (reg_clients reg) w
        in Some (reg\<lparr>reg_head_revision_id := revision, reg_clients := clients\<rparr>, w'))"

definition drop_registration ::
  "sse_client_registry \<Rightarrow> u64 \<Rightarrow> nat \<Rightarrow> sse_world \<Rightarrow> sse_client_registry \<times> sse_world \<times> delta_completion_result" where
  "drop_registration reg identifier disconnect w =
     (reg\<lparr>reg_clients := fmdrop identifier (reg_clients reg)\<rparr>, cancel_connection disconnect w, DeltaRegistrationMissing)"

definition complete_delta ::
  "sse_client_registry \<Rightarrow> u64 \<Rightarrow> delta_schedule_action \<Rightarrow> sse_world \<Rightarrow>
   sse_client_registry \<times> sse_world \<times> delta_completion_result" where
  "complete_delta reg identifier action w =
     (case fmlookup (reg_clients reg) identifier of
        None \<Rightarrow> (reg, w, DeltaRegistrationMissing)
      | Some r \<Rightarrow>
          (case fmlookup (sw_mailboxes w) (scr_mailbox r) of
             None \<Rightarrow> drop_registration reg identifier (scr_disconnect r) w
           | Some m \<Rightarrow>
               if mb_closed m then drop_registration reg identifier (scr_disconnect r) w
               else case action of
                 ValidateOnly \<Rightarrow> (reg, w, DeltaAccepted)
               | ReplaceSchedule wake_at wake_sent \<Rightarrow>
                   let (m1, _) = mailbox_remove_graph_wakeup m (reg_publication_id reg);
                       w1 = store_mailbox (scr_mailbox r) m1 w;
                       install = (\<lambda>sent. reg\<lparr>reg_clients := fmupd identifier
                         (r\<lparr>scr_schedule := \<lparr>dws_wake_at_revision_id = wake_at, dws_wake_sent = sent\<rparr>\<rparr>)
                         (reg_clients reg)\<rparr>)
                   in if \<not> wake_sent \<and> wake_at \<le> reg_head_revision_id reg then
                        (case mailbox_admit_graph_wakeup m1
                                (PublicationWakeup (reg_publication_id reg) (reg_head_revision_id reg)) of
                           (m2, Inl _) \<Rightarrow> drop_registration reg identifier (scr_disconnect r) w1
                         | (m2, Inr _) \<Rightarrow>
                             (install True, notify_receiver (scr_mailbox r) (store_mailbox (scr_mailbox r) m2 w1), DeltaAccepted))
                      else (install wake_sent, w1, DeltaAccepted)))"

definition registry_validate ::
  "sse_client_registry \<Rightarrow> u64 \<Rightarrow> sse_world \<Rightarrow> sse_client_registry \<times> sse_world \<times> bool" where
  "registry_validate reg identifier w =
     (case complete_delta reg identifier ValidateOnly w of (reg', w', result) \<Rightarrow> (reg', w', result = DeltaAccepted))"

definition replace_registration_into ::
  "sse_client_registry \<Rightarrow> u64 \<Rightarrow> sse_client_registry \<Rightarrow> u64 list \<Rightarrow> sse_world \<Rightarrow>
   (sse_client_registry \<times> sse_client_registry \<times> sse_world \<times> (sse_client_replacement_error + u64)) option" where
  "replace_registration_into old old_identifier new draws w =
     (if reg_publication_id old = reg_publication_id new then None
      else case fmlookup (reg_clients old) old_identifier of
        None \<Rightarrow> Some (old, new, w, Inl ReplacementMissing)
      | Some r \<Rightarrow> do {
          let old' = old\<lparr>reg_clients := fmdrop old_identifier (reg_clients old)\<rparr>;
          case fmlookup (sw_mailboxes w) (scr_mailbox r) of
            None \<Rightarrow> Some (old', new, cancel_connection (scr_disconnect r) w, Inl ReplacementMissing)
          | Some m \<Rightarrow> do {
              let (clients, w1) = retain_entries retain_live (reg_clients new) w;
              let new1 = new\<lparr>reg_clients := clients\<rparr>;
              let (m1, _) = mailbox_remove_graph_wakeup m (reg_publication_id old);
              let w2 = store_mailbox (scr_mailbox r) m1 w1;
              if fcard (fmdom clients) = MAX_SSE_CLIENTS then
                Some (old', new1, cancel_connection (scr_disconnect r) w2, Inl ReplacementCapacity)
              else do {
                identifier \<leftarrow> generate_identifier new1 draws;
                case mailbox_admit_required m1 (initial_batch new1 identifier) of
                  (m2, Inl error) \<Rightarrow>
                    Some (old', new1, cancel_connection (scr_disconnect r) w2, Inl (ReplacementMailbox error))
                | (m2, Inr _) \<Rightarrow>
                    Some (old',
                      new1\<lparr>reg_clients := fmupd identifier
                        \<lparr>scr_schedule = \<lparr>dws_wake_at_revision_id = reg_head_revision_id new1, dws_wake_sent = True\<rparr>,
                         scr_mailbox = scr_mailbox r, scr_disconnect = scr_disconnect r\<rparr> clients\<rparr>,
                      notify_receiver (scr_mailbox r) (store_mailbox (scr_mailbox r) m2 w2), Inr identifier) } } })"

section \<open>Mailbox lemmas\<close>

text \<open>The revisions of the coalescible wakeups of a publication that are queued.\<close>

fun queued_revisions :: "u64 \<Rightarrow> sse_mailbox_item list \<Rightarrow> u64 list" where
  "queued_revisions p [] = []"
| "queued_revisions p (GraphWakeup w # q) =
     (if pw_publication_id w = p then pw_revision w # queued_revisions p q else queued_revisions p q)"
| "queued_revisions p (RequiredItem m # q) = queued_revisions p q"

definition mailbox_ok :: "sse_mailbox \<Rightarrow> bool" where
  "mailbox_ok m \<longleftrightarrow>
     length (mb_queue m) \<le> SSE_CLIENT_BUFFER_CAPACITY \<and> (\<forall>p. length (queued_revisions p (mb_queue m)) \<le> 1)"

lemma queued_revisions_append [simp]: "queued_revisions p (q @ r) = queued_revisions p q @ queued_revisions p r"
  by (induction p q rule: queued_revisions.induct) auto

lemma queued_revisions_required [simp]: "queued_revisions p (map RequiredItem ms) = []"
  by (induction ms) auto

lemma remove_first_wakeup:
  "case remove_first (is_graph_wakeup p) q of
     None \<Rightarrow> queued_revisions p q = []
   | Some rest \<Rightarrow> queued_revisions p q \<noteq> [] \<and> queued_revisions p rest = tl (queued_revisions p q) \<and>
       length q = Suc (length rest) \<and> (\<forall>p'. p' \<noteq> p \<longrightarrow> queued_revisions p' rest = queued_revisions p' q)"
  by (induction p q rule: queued_revisions.induct) (auto split: option.splits)

lemma admit_required_outcome:
  assumes "mailbox_admit_required m ms = (m', result)"
  shows "result = Inr () \<Longrightarrow> mb_queue m' = mb_queue m @ map RequiredItem ms \<and> (mailbox_ok m \<longrightarrow> mailbox_ok m')"
    and "result = Inl e \<Longrightarrow> m' = m"
  using assms by (auto simp: mailbox_admit_required_def mailbox_ok_def split: if_splits)

lemma coalesce_outcome:
  assumes "coalesce_queued_graph_wakeup m (PublicationWakeup p r) = (m', b)" "mailbox_ok m"
  shows "mailbox_ok m' \<and> mb_closed m' = mb_closed m \<and> b = (queued_revisions p (mb_queue m) \<noteq> []) \<and>
     queued_revisions p (mb_queue m') = (if b then [r] else []) \<and> (\<not> b \<longrightarrow> m' = m) \<and>
     (b \<longrightarrow> last (mb_queue m') = GraphWakeup (PublicationWakeup p r) \<and> mb_queue m' \<noteq> [])"
proof (cases "remove_first (is_graph_wakeup p) (mb_queue m)")
  case None
  then show ?thesis using assms remove_first_wakeup[of p "mb_queue m"] by (simp add: coalesce_queued_graph_wakeup_def)
next
  case (Some rest)
  then have q: "queued_revisions p (mb_queue m) \<noteq> []" "queued_revisions p rest = tl (queued_revisions p (mb_queue m))"
      "length (mb_queue m) = Suc (length rest)"
      "\<And>p'. p' \<noteq> p \<Longrightarrow> queued_revisions p' rest = queued_revisions p' (mb_queue m)"
    using remove_first_wakeup[of p "mb_queue m"] by auto
  have "length (queued_revisions p (mb_queue m)) \<le> 1" using assms(2) by (simp add: mailbox_ok_def)
  then have one: "queued_revisions p rest = []" using q(1,2) by (cases "queued_revisions p (mb_queue m)") auto
  have m': "m' = m\<lparr>mb_queue := rest @ [GraphWakeup (PublicationWakeup p r)]\<rparr>" "b"
    using assms(1) Some by (auto simp: coalesce_queued_graph_wakeup_def)
  have "length (queued_revisions p' (mb_queue m')) \<le> 1" for p'
    using assms(2) one q(4)[of p'] by (cases "p' = p") (simp_all add: m'(1) mailbox_ok_def)
  then show ?thesis using m' one q assms(2) by (simp add: mailbox_ok_def)
qed

lemma admit_wakeup_outcome:
  assumes "mailbox_admit_graph_wakeup m (PublicationWakeup p r) = (m', result)" "mailbox_ok m"
  shows "result = Inr () \<Longrightarrow> mailbox_ok m' \<and> mb_closed m' = mb_closed m \<and> queued_revisions p (mb_queue m') = [r] \<and>
      mb_queue m' \<noteq> [] \<and> last (mb_queue m') = GraphWakeup (PublicationWakeup p r)"
    and "result = Inl e \<Longrightarrow> m' = m"
proof -
  obtain m1 b where c: "coalesce_queued_graph_wakeup m (PublicationWakeup p r) = (m1, b)" by fastforce
  note o = coalesce_outcome[OF c assms(2)]
  have ok: "mailbox_ok (m1\<lparr>mb_queue := mb_queue m1 @ [GraphWakeup (PublicationWakeup p r)]\<rparr>)"
    if "\<not> b" "length (mb_queue m1) \<noteq> SSE_CLIENT_BUFFER_CAPACITY"
    using that o by (auto simp: mailbox_ok_def)
  show "result = Inr () \<Longrightarrow> mailbox_ok m' \<and> mb_closed m' = mb_closed m \<and> queued_revisions p (mb_queue m') = [r] \<and>
      mb_queue m' \<noteq> [] \<and> last (mb_queue m') = GraphWakeup (PublicationWakeup p r)"
    using assms(1) c o ok by (cases b) (auto simp: mailbox_admit_graph_wakeup_def split: if_splits)
  show "result = Inl e \<Longrightarrow> m' = m"
    using assms(1) c o by (cases b) (auto simp: mailbox_admit_graph_wakeup_def split: if_splits)
qed

lemma remove_wakeup_outcome:
  assumes "mailbox_remove_graph_wakeup m p = (m', b)" "mailbox_ok m"
  shows "mailbox_ok m' \<and> mb_closed m' = mb_closed m \<and> queued_revisions p (mb_queue m') = []"
proof (cases "remove_first (is_graph_wakeup p) (mb_queue m)")
  case None
  then show ?thesis using assms remove_first_wakeup[of p "mb_queue m"] by (simp add: mailbox_remove_graph_wakeup_def)
next
  case (Some rest)
  then have r: "queued_revisions p rest = tl (queued_revisions p (mb_queue m))"
      "length (mb_queue m) = Suc (length rest)"
      "\<And>p'. p' \<noteq> p \<Longrightarrow> queued_revisions p' rest = queued_revisions p' (mb_queue m)"
    using remove_first_wakeup[of p "mb_queue m"] by auto
  have one: "queued_revisions p rest = []" using assms(2) r(1) by (simp add: mailbox_ok_def) (metis length_tl diff_is_0_eq length_0_conv One_nat_def)
  have "length (queued_revisions p' rest) \<le> 1" for p'
    using assms(2) one r(3)[of p'] by (cases "p' = p") (simp_all add: mailbox_ok_def)
  then show ?thesis using assms Some one r(2) by (auto simp: mailbox_remove_graph_wakeup_def mailbox_ok_def)
qed

end
