(* ===== verification/Response_Cache.thy ===== *)
theory Response_Cache
  imports Delta_Estimate
begin

text \<open>
  The response cache of a publication, \<open>crates/kgi-api-core/src/cache.rs\<close>: source-keyed canonical deltas and
  depth-keyed Head snapshots, each slot with a completed value and at most one construction job, expiry of
  old sources by a search over their numeric domain, and invalidation at a replay barrier.

  A job is an identifier into the table of job states, which is what \<open>Arc::ptr_eq\<close> compares. A builder task
  is what it captured when it was elected. The \<open>gzip\<close> body of a response is represented by the value it
  encodes: the history entries of a delta, the view of a snapshot. An \<open>expect\<close> or assertion that fails is
  \<open>None\<close>.
\<close>

section \<open>Values\<close>

definition DELTA_CACHE_MAX_AGE_MS :: u64 where "DELTA_CACHE_MAX_AGE_MS = 300000"
definition CACHED_HEAD_SNAPSHOT_MAX_AGE_MS :: u64 where "CACHED_HEAD_SNAPSHOT_MAX_AGE_MS = 90000"
definition CACHED_HEAD_WINDOW_DEPTHS :: "u32 list" where "CACHED_HEAD_WINDOW_DEPTHS = [20, 50, 100, 150, 200, 250]"

record cached_delta =
  cd_from_revision_id :: u64
  cd_to_revision_id :: u64
  cd_size_limited :: bool
  cd_uncompressed_json_bytes :: u64
  cd_body :: "graph_history_entry list"

definition is_adequate_for :: "cached_delta \<Rightarrow> u64 \<Rightarrow> bool" where
  "is_adequate_for d target \<longleftrightarrow> target \<le> cd_to_revision_id d \<or> cd_size_limited d"

definition reclassified_size_limited :: "cached_delta \<Rightarrow> cached_delta option" where
  "reclassified_size_limited d = (if cd_size_limited d then None else Some (d\<lparr>cd_size_limited := True\<rparr>))"

record cached_head_snapshot =
  chs_depth :: u32
  chs_revision :: u64
  chs_revision_timestamp_ms :: u64
  chs_low_level :: u32
  chs_high_level :: u32
  chs_uncompressed_json_bytes :: u64
  chs_body :: graph_view

record head_eligibility_boundary =
  heb_head_revision_timestamp_ms :: u64
  heb_replay_floor_revision :: u64
  heb_oldest_available_revision :: u64

definition boundary_admits :: "head_eligibility_boundary \<Rightarrow> cached_head_snapshot \<Rightarrow> bool option" where
  "boundary_admits b snapshot =
     map_option (\<lambda>age_ms. heb_replay_floor_revision b \<le> chs_revision snapshot \<and>
         heb_oldest_available_revision b \<le> chs_revision snapshot \<and> age_ms < CACHED_HEAD_SNAPSHOT_MAX_AGE_MS)
       (checked_sub (heb_head_revision_timestamp_ms b) (chs_revision_timestamp_ms snapshot))"

datatype graph_encoding_error = Serialization | UncompressedResponseTooLarge | Compression

datatype encoding_scheduler_error =
    AdmissionSaturated
  | QueueTimeout
  | EncodingCancelled
  | EncodingShuttingDown
  | EncodingFailed graph_encoding_error
  | BlockingExecutorFailed
  | WorkerFailed

datatype cache_build_error = BuildCancelled | BuildEncoding encoding_scheduler_error

datatype cache_wait_error = WaitCancelled | WaitBuild cache_build_error | InvalidatedByReplayFloor u64

section \<open>Jobs and slots\<close>

datatype 'v cache_job_state = JobPending | JobComplete "cache_build_error + 'v" | JobInvalidated u64

record running_delta_job =
  rdj_target_revision :: u64
  rdj_size_limited :: bool
  rdj_job :: nat

record delta_cache_slot =
  dcs_first_revision_timestamp_ms :: u64
  dcs_completed :: "cached_delta option"
  dcs_running :: "running_delta_job option"

record head_cache_slot =
  hcs_completed :: "cached_head_snapshot option"
  hcs_running :: "nat option"

record delta_builder =
  dbl_source_revision :: u64
  dbl_target_revision :: u64
  dbl_size_limited :: bool
  dbl_entries :: "graph_history_entry list"

record head_builder =
  hbl_depth :: u32
  hbl_capture :: graph_view

record graph_cache =
  gc_deltas :: "(u64, delta_cache_slot) fmap"
  gc_heads :: "(u32, head_cache_slot) fmap"
  gc_delta_jobs :: "(nat, cached_delta cache_job_state) fmap"
  gc_head_jobs :: "(nat, cached_head_snapshot cache_job_state) fmap"
  gc_next_job :: nat
  gc_delta_builders :: "(nat, delta_builder) fmap"
  gc_head_builders :: "(nat, head_builder) fmap"
  gc_cancelled_jobs :: "nat list"

datatype 'v cache_access = AccessCompleted 'v | AccessJob nat

datatype 'v head_cache_lookup = HeadCompleted 'v | HeadRunning nat | HeadConstructionRequired

datatype delta_cache_lookup = DeltaCompleted cached_delta | DeltaRunning nat | DeltaConstructionRequired "u64 option"

definition graph_cache_new :: graph_cache where
  "graph_cache_new =
     \<lparr>gc_deltas = fmempty, gc_heads = fmempty, gc_delta_jobs = fmempty, gc_head_jobs = fmempty, gc_next_job = 0,
      gc_delta_builders = fmempty, gc_head_builders = fmempty, gc_cancelled_jobs = []\<rparr>"

text \<open>\<open>CacheJob::complete\<close>, \<open>invalidate_by_replay_floor\<close> and one look of \<open>wait\<close>, which stays pending (\<open>None\<close>)
  until the job is terminal.\<close>

fun job_complete :: "'v cache_job_state \<Rightarrow> cache_build_error + 'v \<Rightarrow> 'v cache_job_state option" where
  "job_complete JobPending result = Some (JobComplete result)"
| "job_complete (JobInvalidated barrier) result = Some (JobInvalidated barrier)"
| "job_complete (JobComplete _) result = None"

fun job_invalidate :: "'v cache_job_state \<Rightarrow> u64 \<Rightarrow> 'v cache_job_state option" where
  "job_invalidate JobPending barrier = Some (JobInvalidated barrier)"
| "job_invalidate (JobComplete _) barrier = None"
| "job_invalidate (JobInvalidated _) barrier = None"

fun job_wait :: "'v cache_job_state \<Rightarrow> (cache_wait_error + 'v) option" where
  "job_wait JobPending = None"
| "job_wait (JobComplete (Inr value)) = Some (Inr value)"
| "job_wait (JobComplete (Inl error)) = Some (Inl (WaitBuild error))"
| "job_wait (JobInvalidated barrier) = Some (Inl (InvalidatedByReplayFloor barrier))"

section \<open>Expiry\<close>

definition is_expired :: "delta_cache_slot \<Rightarrow> u64 \<Rightarrow> bool option" where
  "is_expired slot head_revision_timestamp_ms =
     map_option (\<lambda>age. DELTA_CACHE_MAX_AGE_MS \<le> age)
       (checked_sub head_revision_timestamp_ms (dcs_first_revision_timestamp_ms slot))"

text \<open>\<open>BTreeMap::range(k..).next()\<close>.\<close>

definition first_from :: "(u64, 'v) fmap \<Rightarrow> u64 \<Rightarrow> (u64 \<times> 'v) option" where
  "first_from m k = List.find (\<lambda>e. k \<le> fst e) (sorted_list_of_fmap m)"

lemma midpoint_between:
  assumes "e \<le> r" "1 < r - (e :: u64)"
  shows "unat (e + (r - e) div 2) = unat e + (unat r - unat e) div 2"
    and "unat e < unat (e + (r - e) div 2)" "unat (e + (r - e) div 2) < unat r"
proof -
  have d: "unat (r - e) = unat r - unat e" "unat e \<le> unat r" using assms(1) by (simp_all add: unat_sub word_le_nat_alt)
  have big: "1 < unat r - unat e" using assms(2) d by (simp add: word_less_nat_alt)
  have h: "unat ((r - e) div 2) = (unat r - unat e) div 2" using d by (simp add: unat_div)
  have "unat e + (unat r - unat e) div 2 < unat r" using big d(2) by linarith
  then have "unat e + unat ((r - e) div 2) < 2 ^ 64" using h unsigned_less[of r, where 'a = nat] by simp
  then show eq: "unat (e + (r - e) div 2) = unat e + (unat r - unat e) div 2"
    using h by (simp add: unat_word_ariths)
  show "unat e < unat (e + (r - e) div 2)" "unat (e + (r - e) div 2) < unat r"
    unfolding eq using big d(2) by linarith+
qed

lemma midpoint_smaller:
  assumes "e \<le> r" "1 < r - (e :: u64)"
  shows "unat r - unat (e + (r - e) div 2) < unat r - unat e" "unat (e + (r - e) div 2) - unat e < unat r - unat e"
  using midpoint_between(2,3)[OF assms] by linarith+

function prune_search :: "(u64, delta_cache_slot) fmap \<Rightarrow> u64 \<Rightarrow> u64 \<Rightarrow> u64 \<Rightarrow> u64 option" where
  "prune_search slots timestamp expired retained =
     (if \<not> expired \<le> retained then None
      else if \<not> 1 < retained - expired then Some retained
      else
        let midpoint = expired + (retained - expired) div 2
        in case first_from slots midpoint of
             None \<Rightarrow> None
           | Some (_, candidate) \<Rightarrow>
               (case is_expired candidate timestamp of
                  None \<Rightarrow> None
                | Some True \<Rightarrow> prune_search slots timestamp midpoint retained
                | Some False \<Rightarrow> prune_search slots timestamp expired midpoint))"
  by pat_completeness auto

termination
  by (relation "measure (\<lambda>(_, _, expired, retained). unat retained - unat expired)")
     (simp_all add: midpoint_smaller)

declare prune_search.simps [simp del]

definition prune_expired :: "(u64, delta_cache_slot) fmap \<Rightarrow> u64 \<Rightarrow> (u64, delta_cache_slot) fmap option" where
  "prune_expired slots timestamp =
     (case sorted_list_of_fmap slots of
        [] \<Rightarrow> Some slots
      | (first_source, first_slot) # entries \<Rightarrow> do {
          first_expired \<leftarrow> is_expired first_slot timestamp;
          if \<not> first_expired then Some slots
          else do {
            let (last_source, last_slot) = last ((first_source, first_slot) # entries);
            last_expired \<leftarrow> is_expired last_slot timestamp;
            if last_expired then Some fmempty
            else do {
              retained \<leftarrow> prune_search slots timestamp first_source last_source;
              (first_retained_source, _) \<leftarrow> first_from slots retained;
              Some (fmfilter (\<lambda>s. first_retained_source \<le> s) slots) } } })"

section \<open>Deltas\<close>

definition delta_lookup ::
  "graph_cache \<Rightarrow> u64 \<Rightarrow> u64 \<Rightarrow> u64 \<Rightarrow> (graph_cache \<times> delta_cache_lookup) option" where
  "delta_lookup c source target timestamp = do {
     slots \<leftarrow> prune_expired (gc_deltas c) timestamp;
     let c1 = c\<lparr>gc_deltas := slots\<rparr>;
     Some (c1,
       case fmlookup slots source of
         None \<Rightarrow> DeltaConstructionRequired None
       | Some slot \<Rightarrow>
           (case dcs_completed slot of
              Some completed \<Rightarrow>
                if is_adequate_for completed target then DeltaCompleted completed
                else (case dcs_running slot of
                        Some running \<Rightarrow> DeltaRunning (rdj_job running)
                      | None \<Rightarrow> DeltaConstructionRequired (Some (cd_to_revision_id completed)))
            | None \<Rightarrow>
                (case dcs_running slot of
                   Some running \<Rightarrow> DeltaRunning (rdj_job running)
                 | None \<Rightarrow> DeltaConstructionRequired None))) }"

text \<open>Installing a fresh pending job in a slot, with the builder task it is given.\<close>

definition install_delta_job ::
  "graph_cache \<Rightarrow> u64 \<Rightarrow> u64 \<Rightarrow> cached_delta option \<Rightarrow> delta_builder \<Rightarrow> graph_cache" where
  "install_delta_job c source first_timestamp completed builder =
     (let job = gc_next_job c
      in c\<lparr>gc_deltas := fmupd source
             \<lparr>dcs_first_revision_timestamp_ms = first_timestamp, dcs_completed = completed,
              dcs_running = Some \<lparr>rdj_target_revision = dbl_target_revision builder,
                rdj_size_limited = dbl_size_limited builder, rdj_job = job\<rparr>\<rparr> (gc_deltas c),
           gc_delta_jobs := fmupd job JobPending (gc_delta_jobs c), gc_next_job := job + 1\<rparr>)"

definition delta_finish_slot ::
  "graph_cache \<Rightarrow> u64 \<Rightarrow> nat \<Rightarrow> cache_build_error + cached_delta \<Rightarrow> graph_cache option" where
  "delta_finish_slot c source job result =
     (case fmlookup (gc_deltas c) source of
        None \<Rightarrow> Some c
      | Some slot \<Rightarrow>
          (case dcs_running slot of
             None \<Rightarrow> Some c
           | Some running \<Rightarrow>
               if rdj_job running \<noteq> job then Some c
               else do {
                 completed \<leftarrow>
                   (case result of
                      Inl _ \<Rightarrow> Some (dcs_completed slot)
                    | Inr value \<Rightarrow>
                        if cd_from_revision_id value \<noteq> source \<or> cd_to_revision_id value \<noteq> rdj_target_revision running \<or>
                           cd_size_limited value \<noteq> rdj_size_limited running then None
                        else Some (case dcs_completed slot of
                               None \<Rightarrow> Some value
                             | Some old \<Rightarrow> if cd_to_revision_id old < cd_to_revision_id value then Some value else Some old));
                 Some (c\<lparr>gc_deltas :=
                   (case completed of
                      None \<Rightarrow> fmdrop source (gc_deltas c)
                    | Some _ \<Rightarrow> fmupd source (slot\<lparr>dcs_completed := completed, dcs_running := None\<rparr>) (gc_deltas c))\<rparr>) }))"

definition finish_delta_job ::
  "graph_cache \<Rightarrow> u64 \<Rightarrow> nat \<Rightarrow> cache_build_error + cached_delta \<Rightarrow> graph_cache option" where
  "finish_delta_job c source job result = do {
     c1 \<leftarrow> delta_finish_slot c source job result;
     state \<leftarrow> fmlookup (gc_delta_jobs c1) job;
     state' \<leftarrow> job_complete state result;
     Some (c1\<lparr>gc_delta_jobs := fmupd job state' (gc_delta_jobs c1), gc_delta_builders := fmdrop job (gc_delta_builders c1)\<rparr>) }"

text \<open>\<open>elect_delta\<close>: the election under the lock, then the builder task of a job it installed; a closed job
  tracker finishes that job as cancelled at once.\<close>

definition elect_delta ::
  "graph_cache \<Rightarrow> bool \<Rightarrow> u64 \<Rightarrow> delta_builder \<Rightarrow> (graph_cache \<times> cached_delta cache_access) option" where
  "elect_delta c accepting first_timestamp builder = do {
     let source = dbl_source_revision builder;
     let target = dbl_target_revision builder;
     let job = gc_next_job c;
     let spawn = (\<lambda>c1. if accepting
                       then Some (c1\<lparr>gc_delta_builders := fmupd job builder (gc_delta_builders c1)\<rparr>, AccessJob job)
                       else map_option (\<lambda>c2. (c2, AccessJob job)) (finish_delta_job c1 source job (Inl BuildCancelled)));
     case fmlookup (gc_deltas c) source of
       None \<Rightarrow> spawn (install_delta_job c source first_timestamp None builder)
     | Some slot \<Rightarrow>
         (case dcs_completed slot of
            Some completed \<Rightarrow>
              if dbl_size_limited builder \<and> cd_to_revision_id completed = target \<and> \<not> cd_size_limited completed then do {
                reclassified \<leftarrow> reclassified_size_limited completed;
                Some (c\<lparr>gc_deltas := fmupd source (slot\<lparr>dcs_completed := Some reclassified\<rparr>) (gc_deltas c)\<rparr>,
                      AccessCompleted reclassified) }
              else if is_adequate_for completed target then Some (c, AccessCompleted completed)
              else (case dcs_running slot of
                      Some running \<Rightarrow> Some (c, AccessJob (rdj_job running))
                    | None \<Rightarrow> spawn (install_delta_job c source (dcs_first_revision_timestamp_ms slot) (Some completed) builder))
          | None \<Rightarrow>
              (case dcs_running slot of
                 Some running \<Rightarrow> Some (c, AccessJob (rdj_job running))
               | None \<Rightarrow> spawn (install_delta_job c source (dcs_first_revision_timestamp_ms slot) None builder))) }"

section \<open>Head snapshots\<close>

definition head_lookup ::
  "graph_cache \<Rightarrow> u32 \<Rightarrow> head_eligibility_boundary \<Rightarrow>
   (graph_cache \<times> cached_head_snapshot head_cache_lookup) option" where
  "head_lookup c depth boundary =
     (if depth \<notin> set CACHED_HEAD_WINDOW_DEPTHS then None
      else case fmlookup (gc_heads c) depth of
        None \<Rightarrow> Some (c, HeadConstructionRequired)
      | Some slot \<Rightarrow> do {
          eligible \<leftarrow> (case hcs_completed slot of
                         None \<Rightarrow> Some None
                       | Some completed \<Rightarrow>
                           map_option (\<lambda>ok. if ok then Some completed else None) (boundary_admits boundary completed));
          Some (case eligible of
                  Some completed \<Rightarrow> (c, HeadCompleted completed)
                | None \<Rightarrow>
                    (case hcs_running slot of
                       Some job \<Rightarrow>
                         (c\<lparr>gc_heads := fmupd depth (slot\<lparr>hcs_completed := None\<rparr>) (gc_heads c)\<rparr>, HeadRunning job)
                     | None \<Rightarrow> (c\<lparr>gc_heads := fmdrop depth (gc_heads c)\<rparr>, HeadConstructionRequired))) })"

definition head_finish_slot ::
  "graph_cache \<Rightarrow> u32 \<Rightarrow> nat \<Rightarrow> cache_build_error + cached_head_snapshot \<Rightarrow> graph_cache option" where
  "head_finish_slot c depth job result =
     (case fmlookup (gc_heads c) depth of
        None \<Rightarrow> Some c
      | Some slot \<Rightarrow>
          if hcs_running slot \<noteq> Some job then Some c
          else do {
            completed \<leftarrow>
              (case result of
                 Inl _ \<Rightarrow> Some (hcs_completed slot)
               | Inr value \<Rightarrow> if chs_depth value \<noteq> depth then None else Some (Some value));
            Some (c\<lparr>gc_heads :=
              (case completed of
                 None \<Rightarrow> fmdrop depth (gc_heads c)
               | Some _ \<Rightarrow> fmupd depth \<lparr>hcs_completed = completed, hcs_running = None\<rparr> (gc_heads c))\<rparr>) })"

definition finish_head_job ::
  "graph_cache \<Rightarrow> u32 \<Rightarrow> nat \<Rightarrow> cache_build_error + cached_head_snapshot \<Rightarrow> graph_cache option" where
  "finish_head_job c depth job result = do {
     c1 \<leftarrow> head_finish_slot c depth job result;
     state \<leftarrow> fmlookup (gc_head_jobs c1) job;
     state' \<leftarrow> job_complete state result;
     Some (c1\<lparr>gc_head_jobs := fmupd job state' (gc_head_jobs c1), gc_head_builders := fmdrop job (gc_head_builders c1)\<rparr>) }"

definition elect_head ::
  "graph_cache \<Rightarrow> bool \<Rightarrow> head_eligibility_boundary \<Rightarrow> head_builder \<Rightarrow>
   (graph_cache \<times> cached_head_snapshot cache_access) option" where
  "elect_head c accepting boundary builder =
     (let depth = hbl_depth builder
      in if depth \<notin> set CACHED_HEAD_WINDOW_DEPTHS then None
         else do {
           let slot = (case fmlookup (gc_heads c) depth of
                         Some slot \<Rightarrow> slot | None \<Rightarrow> \<lparr>hcs_completed = None, hcs_running = None\<rparr>);
           eligible \<leftarrow> (case hcs_completed slot of
                          None \<Rightarrow> Some None
                        | Some completed \<Rightarrow>
                            map_option (\<lambda>ok. if ok then Some completed else None) (boundary_admits boundary completed));
           case eligible of
             Some completed \<Rightarrow> Some (c, AccessCompleted completed)
           | None \<Rightarrow>
               (case hcs_running slot of
                  Some job \<Rightarrow>
                    Some (c\<lparr>gc_heads := fmupd depth (slot\<lparr>hcs_completed := None\<rparr>) (gc_heads c)\<rparr>, AccessJob job)
                | None \<Rightarrow>
                    let job = gc_next_job c;
                        c1 = c\<lparr>gc_heads := fmupd depth \<lparr>hcs_completed = None, hcs_running = Some job\<rparr> (gc_heads c),
                               gc_head_jobs := fmupd job JobPending (gc_head_jobs c), gc_next_job := job + 1\<rparr>
                    in if accepting
                       then Some (c1\<lparr>gc_head_builders := fmupd job builder (gc_head_builders c1)\<rparr>, AccessJob job)
                       else map_option (\<lambda>c2. (c2, AccessJob job)) (finish_head_job c1 depth job (Inl BuildCancelled))) })"

section \<open>Replay-floor invalidation\<close>

definition running_delta_jobs :: "(u64, delta_cache_slot) fmap \<Rightarrow> nat list" where
  "running_delta_jobs slots =
     List.map_filter (\<lambda>(_, slot). map_option rdj_job (dcs_running slot)) (sorted_list_of_fmap slots)"

definition running_head_jobs :: "(u32, head_cache_slot) fmap \<Rightarrow> nat list" where
  "running_head_jobs slots = List.map_filter (\<lambda>(_, slot). hcs_running slot) (sorted_list_of_fmap slots)"

definition retain_head_slot :: "u64 \<Rightarrow> head_cache_slot \<Rightarrow> head_cache_slot option" where
  "retain_head_slot barrier slot =
     (case hcs_completed slot of
        Some value \<Rightarrow>
          if chs_revision value < barrier then None else Some \<lparr>hcs_completed = Some value, hcs_running = None\<rparr>
      | None \<Rightarrow> None)"

definition terminalize :: "u64 \<Rightarrow> nat \<Rightarrow> (nat, 'v cache_job_state) fmap \<Rightarrow> (nat, 'v cache_job_state) fmap option" where
  "terminalize barrier job jobs = do {
     state \<leftarrow> fmlookup jobs job;
     state' \<leftarrow> job_invalidate state barrier;
     Some (fmupd job state' jobs) }"

text \<open>Detaching, terminalizing and then cancelling the work of what was detached.\<close>

definition invalidate_replay_floor :: "graph_cache \<Rightarrow> u64 \<Rightarrow> graph_cache option" where
  "invalidate_replay_floor c barrier = do {
     let delta_jobs = running_delta_jobs (fmfilter (\<lambda>s. s < barrier) (gc_deltas c));
     let head_jobs = running_head_jobs (gc_heads c);
     deltas \<leftarrow> fold_opt (\<lambda>jobs job. terminalize barrier job jobs) (gc_delta_jobs c) delta_jobs;
     heads \<leftarrow> fold_opt (\<lambda>jobs job. terminalize barrier job jobs) (gc_head_jobs c) head_jobs;
     Some (c\<lparr>gc_deltas := fmfilter (\<lambda>s. barrier \<le> s) (gc_deltas c),
             gc_heads := fm_filter_map (\<lambda>_. retain_head_slot barrier) (gc_heads c),
             gc_delta_jobs := deltas, gc_head_jobs := heads,
             gc_cancelled_jobs := gc_cancelled_jobs c @ delta_jobs @ head_jobs\<rparr>) }"

end
