(* ===== verification/Publication_Core.thy ===== *)
theory Publication_Core
  imports Client_Registry Response_Cache Graph_Build
begin

text \<open>
  One graph publication, \<open>crates/kgi-api-core/src/publication/mod.rs\<close>: the core (lifecycle state, canonical
  Head view and history), the captures taken from it, the lifecycle transitions, the application of a
  committed update with its effects on history, cache and clients, and the selection of canonical deltas and
  Head tiers.

  A publication is updated under its mutation and core locks, so each operation is atomic; the operations
  that only read the core may run against a cache other readers have changed. Timestamps are read from the
  publication clock and are arguments. What an encoding task delivers is an argument of the step that
  finishes it. Mailboxes and connections are the \<open>sse_world\<close>.
\<close>

section \<open>State\<close>

record publication =
  pn_publication_id :: u64
  pn_state :: graph_publication_state
  pn_view :: graph_view
  pn_history :: graph_history
  pn_cache :: graph_cache
  pn_clients :: sse_client_registry

datatype publication_projection_error =
  ProjectionRevisionMismatch u64 u64 | ProjectionViewUpdate graph_view_update_error

record graph_delta_target_capture =
  gtc_publication_id :: u64
  gtc_state :: graph_publication_state
  gtc_revision :: u64
  gtc_revision_timestamp_ms :: u64
  gtc_head_level :: u32
  gtc_replay_floor_revision :: u64

record graph_view_capture =
  gvc_publication_id :: u64
  gvc_replay_floor_revision :: u64
  gvc_oldest_available_revision :: u64
  gvc_view :: graph_view

record graph_level_capture =
  glc_publication_id :: u64
  glc_revision :: u64
  glc_levels :: "(u32 \<times> level) list"

datatype 'v replay_floor_admission = FloorAdmitted 'v | FloorRejected u64

datatype delta_replay_floor_admission =
  DeltaFloorAdmitted cached_delta graph_delta_target_capture | DeltaFloorRejected u64

record canonical_delta_request =
  cdr_head :: graph_delta_target_capture
  cdr_selected :: delta_revision_range
  cdr_active_interval :: u64

datatype canonical_delta_selection =
    SelFutureCursor
  | SelClientRegistrationMissing
  | SelUpToDate graph_delta_target_capture
  | SelReplayBarrier
  | SelWaitForWakeup graph_delta_target_capture
  | SelSourceExpired
  | SelAccess canonical_delta_request "cached_delta cache_access"

datatype canonical_delta_reentry = ReentrySourceExpired | ReentryAccess "cached_delta cache_access"

text \<open>The semantic identity behind a Head validator.\<close>

type_synonym head_etag_input = "u64 \<times> u64 \<times> level_extent"

datatype head_tier_selection =
  HeadTierAccess "cached_head_snapshot cache_access" | HeadTierConditionMatched head_etag_input

section \<open>Captures\<close>

definition capture_delta_target :: "publication \<Rightarrow> graph_delta_target_capture" where
  "capture_delta_target pn =
     \<lparr>gtc_publication_id = pn_publication_id pn, gtc_state = pn_state pn,
      gtc_revision = gv_current_revision_id (pn_view pn),
      gtc_revision_timestamp_ms = gv_current_revision_timestamp_ms (pn_view pn),
      gtc_head_level = gv_high_level (pn_view pn),
      gtc_replay_floor_revision = gh_replay_floor_revision (pn_history pn)\<rparr>"

definition head_eligibility :: "publication \<Rightarrow> head_eligibility_boundary" where
  "head_eligibility pn =
     \<lparr>heb_head_revision_timestamp_ms = gv_current_revision_timestamp_ms (pn_view pn),
      heb_replay_floor_revision = gh_replay_floor_revision (pn_history pn),
      heb_oldest_available_revision = oldest_available_revision (pn_history pn)\<rparr>"

definition head_tier_extent :: "publication \<Rightarrow> u32 \<Rightarrow> level_extent option" where
  "head_tier_extent pn depth =
     (let high = gv_high_level (pn_view pn);
          low = max (saturating_sub high (depth - 1)) (gv_low_level (pn_view pn))
      in case level_extent_new low high of Inr extent \<Rightarrow> Some extent | Inl _ \<Rightarrow> None)"

definition view_capture :: "publication \<Rightarrow> graph_view \<Rightarrow> graph_view_capture" where
  "view_capture pn view =
     \<lparr>gvc_publication_id = pn_publication_id pn, gvc_replay_floor_revision = gh_replay_floor_revision (pn_history pn),
      gvc_oldest_available_revision = oldest_available_revision (pn_history pn), gvc_view = view\<rparr>"

definition capture_subview :: "publication \<Rightarrow> level_extent \<Rightarrow> (graph_view_extract_error + graph_view_capture) option" where
  "capture_subview pn extent = map_option (map_sum id (view_capture pn)) (extract_subview (pn_view pn) extent)"

definition capture_view :: "publication \<Rightarrow> graph_view_capture option" where
  "capture_view pn =
     (case capture_subview pn (gv_extent (pn_view pn)) of Some (Inr capture) \<Rightarrow> Some capture | _ \<Rightarrow> None)"

definition capture_head_tier :: "publication \<Rightarrow> u32 \<Rightarrow> graph_view_capture option" where
  "capture_head_tier pn depth = do {
     extent \<leftarrow> head_tier_extent pn depth;
     case capture_subview pn extent of Some (Inr capture) \<Rightarrow> Some capture | _ \<Rightarrow> None }"

fun collect_levels :: "graph_view \<Rightarrow> u32 list \<Rightarrow> u32 + (u32 \<times> level) list" where
  "collect_levels v [] = Inr []"
| "collect_levels v (l # ls) =
     (case gv_level v l of
        None \<Rightarrow> Inl l
      | Some value \<Rightarrow> (case collect_levels v ls of Inl missing \<Rightarrow> Inl missing | Inr rest \<Rightarrow> Inr ((l, value) # rest)))"

definition capture_levels :: "publication \<Rightarrow> u32 list \<Rightarrow> u32 + graph_level_capture" where
  "capture_levels pn requested =
     map_sum id (\<lambda>levels. \<lparr>glc_publication_id = pn_publication_id pn,
         glc_revision = gv_current_revision_id (pn_view pn), glc_levels = levels\<rparr>)
       (collect_levels (pn_view pn) requested)"

section \<open>Applying committed updates\<close>

datatype original_update = OriginalBlock block_committed | OriginalVspc vspc_committed

fun original_update_apply ::
  "original_update \<Rightarrow> graph_view \<Rightarrow> u64 \<Rightarrow> (graph_view \<times> (graph_view_update_error + graph_delta option)) option" where
  "original_update_apply (OriginalBlock committed) view ts = apply_head_block_committed view committed ts"
| "original_update_apply (OriginalVspc committed) view ts = apply_head_vspc_committed view committed ts"

record applied_lineage_update =
  alu_target_revision :: u64
  alu_replay_floor_advance :: "u64 option"

definition lineage_apply ::
  "graph_view \<Rightarrow> graph_history \<Rightarrow> original_update \<Rightarrow> u64 \<Rightarrow>
   (graph_view \<times> graph_history \<times> (publication_projection_error + applied_lineage_update option)) option" where
  "lineage_apply view history update ts =
     (let view_revision = gv_current_revision_id view;
          history_revision = gh_current_revision_id history
      in if view_revision \<noteq> history_revision then
           Some (view, history, Inl (ProjectionRevisionMismatch view_revision history_revision))
         else case original_update_apply update view ts of
           None \<Rightarrow> None
         | Some (view', Inl error) \<Rightarrow> Some (view', history, Inl (ProjectionViewUpdate error))
         | Some (view', Inr None) \<Rightarrow> Some (view', history, Inr None)
         | Some (view', Inr (Some delta)) \<Rightarrow> do {
             let target_revision = gd_to_revision_id delta;
             estimated \<leftarrow> estimate_raw_delta_bytes delta;
             let replayability = classify_replayability estimated;
             (history', appended) \<leftarrow> history_append history delta estimated replayability;
             case appended of
               Inl _ \<Rightarrow> None
             | Inr _ \<Rightarrow>
                 Some (view', history_prune history' (gv_low_level view'),
                   Inr (Some \<lparr>alu_target_revision = target_revision,
                     alu_replay_floor_advance = (if replayability = ReplayBarrier then Some target_revision else None)\<rparr>)) })"

definition publication_new ::
  "u64 \<Rightarrow> graph_publication_state \<Rightarrow> u64 \<Rightarrow> graph_view \<Rightarrow> graph_history \<Rightarrow>
   (publication_projection_error + publication) option" where
  "publication_new publication_id initial_state now_ms view history =
     (if initial_state = Stale then None
      else if gv_tracking_policy view \<noteq> Head then None
      else if gv_current_revision_id view \<noteq> gh_current_revision_id history then
        Some (Inl (ProjectionRevisionMismatch (gv_current_revision_id view) (gh_current_revision_id history)))
      else if \<not> gv_current_revision_timestamp_ms view \<le> now_ms then None
      else Some (Inr
        \<lparr>pn_publication_id = publication_id, pn_state = initial_state, pn_view = view, pn_history = history,
         pn_cache = graph_cache_new,
         pn_clients = sse_client_registry_new publication_id initial_state (gv_current_revision_id view)\<rparr>))"

fun sample_nonzero_publication_id :: "u64 list \<Rightarrow> u64 option" where
  "sample_nonzero_publication_id [] = None"
| "sample_nonzero_publication_id (candidate # draws) =
     (if candidate \<noteq> 0 then Some candidate else sample_nonzero_publication_id draws)"

definition publish_to_clients ::
  "publication \<Rightarrow> sse_world \<Rightarrow> graph_publication_state \<Rightarrow> (publication \<times> sse_world) option" where
  "publish_to_clients pn w state = do {
     (clients, w') \<leftarrow> registry_publish_state (pn_clients pn) state (gv_current_revision_id (pn_view pn)) w;
     Some (pn\<lparr>pn_clients := clients\<rparr>, w') }"

definition transition_live :: "publication \<Rightarrow> sse_world \<Rightarrow> (publication \<times> sse_world) option" where
  "transition_live pn w =
     (if pn_state pn \<noteq> Synchronizing then None else publish_to_clients (pn\<lparr>pn_state := Live\<rparr>) w Live)"

definition transition_stale :: "publication \<Rightarrow> sse_world \<Rightarrow> (publication \<times> sse_world \<times> bool) option" where
  "transition_stale pn w =
     (if pn_state pn = Stale then Some (pn, w, False)
      else do {
        (pn', w') \<leftarrow> publish_to_clients (pn\<lparr>pn_state := Stale\<rparr>) w Stale;
        Some (pn', w', True) })"

definition apply_original_update ::
  "publication \<Rightarrow> sse_world \<Rightarrow> original_update \<Rightarrow> u64 \<Rightarrow>
   (publication \<times> sse_world \<times> (publication_projection_error + u64 option)) option" where
  "apply_original_update pn w update ts =
     (if pn_state pn = Stale then None
      else case lineage_apply (pn_view pn) (pn_history pn) update ts of
        None \<Rightarrow> None
      | Some (view, history, Inl error) \<Rightarrow> Some (pn\<lparr>pn_view := view, pn_history := history\<rparr>, w, Inl error)
      | Some (view, history, Inr None) \<Rightarrow> Some (pn\<lparr>pn_view := view, pn_history := history\<rparr>, w, Inr None)
      | Some (view, history, Inr (Some applied)) \<Rightarrow> do {
          cache \<leftarrow> (case alu_replay_floor_advance applied of
                      None \<Rightarrow> Some (pn_cache pn)
                    | Some floor_revision \<Rightarrow> invalidate_replay_floor (pn_cache pn) floor_revision);
          (clients, w') \<leftarrow> registry_advance_head (pn_clients pn) (alu_target_revision applied) w;
          Some (pn\<lparr>pn_view := view, pn_history := history, pn_cache := cache, pn_clients := clients\<rparr>, w',
                Inr (Some (alu_target_revision applied))) })"

definition apply_block_committed ::
  "publication \<Rightarrow> sse_world \<Rightarrow> block_committed \<Rightarrow> u64 \<Rightarrow>
   (publication \<times> sse_world \<times> (publication_projection_error + u64 option)) option" where
  "apply_block_committed pn w committed ts = apply_original_update pn w (OriginalBlock committed) ts"

definition apply_vspc_committed ::
  "publication \<Rightarrow> sse_world \<Rightarrow> vspc_committed \<Rightarrow> u64 \<Rightarrow>
   (publication \<times> sse_world \<times> (publication_projection_error + u64 option)) option" where
  "apply_vspc_committed pn w committed ts = apply_original_update pn w (OriginalVspc committed) ts"

section \<open>Replay-floor admission\<close>

definition admit_cached_delta_replay_floor :: "publication \<Rightarrow> cached_delta \<Rightarrow> delta_replay_floor_admission option" where
  "admit_cached_delta_replay_floor pn candidate =
     (let delivery_head = capture_delta_target pn
      in if \<not> cd_to_revision_id candidate \<le> gtc_revision delivery_head then None
         else if cd_from_revision_id candidate < gtc_replay_floor_revision delivery_head
         then Some (DeltaFloorRejected (gtc_replay_floor_revision delivery_head))
         else Some (DeltaFloorAdmitted candidate delivery_head))"

definition admit_replay_floor :: "publication \<Rightarrow> u64 \<Rightarrow> 'v \<Rightarrow> 'v replay_floor_admission" where
  "admit_replay_floor pn candidate_revision candidate =
     (let floor_revision = gh_replay_floor_revision (pn_history pn)
      in if candidate_revision < floor_revision then FloorRejected floor_revision else FloorAdmitted candidate)"

definition admit_cached_head_replay_floor ::
  "publication \<Rightarrow> cached_head_snapshot \<Rightarrow> cached_head_snapshot replay_floor_admission" where
  "admit_cached_head_replay_floor pn candidate = admit_replay_floor pn (chs_revision candidate) candidate"

section \<open>Canonical deltas\<close>

definition elect_canonical_delta_from_history ::
  "publication \<Rightarrow> bool \<Rightarrow> canonical_delta_request \<Rightarrow> u64 option \<Rightarrow>
   (publication \<times> (graph_history_range_error + canonical_delta_reentry)) option" where
  "elect_canonical_delta_from_history pn accepting request current_target = do {
     let head = cdr_head request;
     let sel = cdr_selected request;
     let source = dr_source_revision sel;
     ladder \<leftarrow> ladder_new source (gtc_revision head) current_target (cdr_active_interval request);
     targets \<leftarrow> fitting_targets ladder sel;
     range \<leftarrow> fitting_range (pn_history pn) source targets (\<lambda>estimated. estimated < SOFT_DELTA_ESTIMATED_BYTES);
     case range of
       Inl error \<Rightarrow> Some (pn, Inl error)
     | Inr None \<Rightarrow> None
     | Inr (Some fitting) \<Rightarrow>
         (case gfr_entries fitting of
            [] \<Rightarrow> None
          | first # _ \<Rightarrow> do {
              let first_timestamp = gd_revision_timestamp_ms (he_delta first);
              age_ms \<leftarrow> checked_sub (gtc_revision_timestamp_ms head) first_timestamp;
              if DELTA_CACHE_MAX_AGE_MS \<le> age_ms then Some (pn, Inr ReentrySourceExpired)
              else do {
                (cache, access) \<leftarrow> elect_delta (pn_cache pn) accepting first_timestamp
                  \<lparr>dbl_source_revision = source, dbl_target_revision = gfr_target_revision fitting,
                   dbl_size_limited = gfr_shortened fitting, dbl_entries = gfr_entries fitting\<rparr>;
                Some (pn\<lparr>pn_cache := cache\<rparr>, Inr (ReentryAccess access)) } }) }"

definition select_canonical_delta ::
  "publication \<Rightarrow> sse_world \<Rightarrow> bool \<Rightarrow> u64 \<Rightarrow> u64 option \<Rightarrow> u64 \<Rightarrow>
   (publication \<times> sse_world \<times> (graph_history_range_error + canonical_delta_selection)) option" where
  "select_canonical_delta pn w accepting source client active_interval =
     (let head = capture_delta_target pn
      in if gtc_revision head < source then Some (pn, w, Inr SelFutureCursor)
         else
           let (clients, w1, valid) =
                 (case client of
                    None \<Rightarrow> (pn_clients pn, w, True)
                  | Some identifier \<Rightarrow> registry_validate (pn_clients pn) identifier w);
               pn1 = pn\<lparr>pn_clients := clients\<rparr>
           in if \<not> valid then Some (pn1, w1, Inr SelClientRegistrationMissing)
              else do {
                slots \<leftarrow> prune_expired (gc_deltas (pn_cache pn1)) (gtc_revision_timestamp_ms head);
                let pn2 = pn1\<lparr>pn_cache := (pn_cache pn1)\<lparr>gc_deltas := slots\<rparr>\<rparr>;
                if source = gtc_revision head then Some (pn2, w1, Inr (SelUpToDate head))
                else if source < gtc_replay_floor_revision head then Some (pn2, w1, Inr SelReplayBarrier)
                else do {
                  ladder \<leftarrow> ladder_new source (gtc_revision head) None active_interval;
                  selection \<leftarrow> select ladder (gtc_state head);
                  case selection of
                    WaitForWakeup _ \<Rightarrow> Some (pn2, w1, Inr (SelWaitForWakeup head))
                  | Range sel \<Rightarrow> do {
                      let request = \<lparr>cdr_head = head, cdr_selected = sel, cdr_active_interval = active_interval\<rparr>;
                      (cache, answer) \<leftarrow> delta_lookup (pn_cache pn2) source (dr_target_revision sel)
                        (gtc_revision_timestamp_ms head);
                      let pn3 = pn2\<lparr>pn_cache := cache\<rparr>;
                      case answer of
                        DeltaCompleted completed \<Rightarrow>
                          Some (pn3, w1, Inr (SelAccess request (AccessCompleted completed)))
                      | DeltaRunning job \<Rightarrow> Some (pn3, w1, Inr (SelAccess request (AccessJob job)))
                      | DeltaConstructionRequired current_target \<Rightarrow> do {
                          (pn4, result) \<leftarrow> elect_canonical_delta_from_history pn3 accepting request current_target;
                          Some (pn4, w1,
                            case result of
                              Inl error \<Rightarrow> Inl error
                            | Inr ReentrySourceExpired \<Rightarrow> Inr SelSourceExpired
                            | Inr (ReentryAccess access) \<Rightarrow> Inr (SelAccess request access)) } } } })"

definition reenter_canonical_delta ::
  "publication \<Rightarrow> bool \<Rightarrow> canonical_delta_request \<Rightarrow>
   (publication \<times> (graph_history_range_error + canonical_delta_reentry)) option" where
  "reenter_canonical_delta pn accepting request =
     (let head = cdr_head request;
          sel = cdr_selected request;
          source = dr_source_revision sel
      in if gtc_publication_id head \<noteq> pn_publication_id pn \<or> \<not> source < dr_target_revision sel \<or>
            \<not> dr_target_revision sel \<le> gtc_revision head \<or>
            \<not> gtc_revision head \<le> gv_current_revision_id (pn_view pn) then None
         else do {
           (cache, answer) \<leftarrow> delta_lookup (pn_cache pn) source (dr_target_revision sel) (gtc_revision_timestamp_ms head);
           let pn1 = pn\<lparr>pn_cache := cache\<rparr>;
           case answer of
             DeltaCompleted completed \<Rightarrow> Some (pn1, Inr (ReentryAccess (AccessCompleted completed)))
           | DeltaRunning job \<Rightarrow> Some (pn1, Inr (ReentryAccess (AccessJob job)))
           | DeltaConstructionRequired current_target \<Rightarrow>
               elect_canonical_delta_from_history pn1 accepting request current_target })"

text \<open>The end of a delta build: the encoded batch, or the error that stopped the task.\<close>

definition build_delta :: "delta_builder \<Rightarrow> cache_build_error + u64 \<Rightarrow> (cache_build_error + cached_delta) option" where
  "build_delta builder encoded =
     (case encoded of
        Inl error \<Rightarrow> Some (Inl error)
      | Inr uncompressed_bytes \<Rightarrow>
          (case dbl_entries builder of
             [] \<Rightarrow> None
           | first # _ \<Rightarrow> Some (Inr
               \<lparr>cd_from_revision_id = he_from first, cd_to_revision_id = dbl_target_revision builder,
                cd_size_limited = dbl_size_limited builder, cd_uncompressed_json_bytes = uncompressed_bytes,
                cd_body = dbl_entries builder\<rparr>)))"

definition finish_delta_build :: "publication \<Rightarrow> nat \<Rightarrow> cache_build_error + u64 \<Rightarrow> publication option" where
  "finish_delta_build pn job encoded = do {
     builder \<leftarrow> fmlookup (gc_delta_builders (pn_cache pn)) job;
     result \<leftarrow> build_delta builder encoded;
     cache \<leftarrow> finish_delta_job (pn_cache pn) (dbl_source_revision builder) job result;
     Some (pn\<lparr>pn_cache := cache\<rparr>) }"

section \<open>Head tiers\<close>

definition head_tier ::
  "publication \<Rightarrow> bool \<Rightarrow> u32 \<Rightarrow> (head_etag_input \<Rightarrow> bool) \<Rightarrow> (publication \<times> head_tier_selection) option" where
  "head_tier pn accepting depth condition_matches = do {
     let boundary = head_eligibility pn;
     (cache, answer) \<leftarrow> head_lookup (pn_cache pn) depth boundary;
     let pn1 = pn\<lparr>pn_cache := cache\<rparr>;
     case answer of
       HeadCompleted completed \<Rightarrow> Some (pn1, HeadTierAccess (AccessCompleted completed))
     | HeadRunning job \<Rightarrow> Some (pn1, HeadTierAccess (AccessJob job))
     | HeadConstructionRequired \<Rightarrow> do {
         extent \<leftarrow> head_tier_extent pn1 depth;
         let etag = (pn_publication_id pn1, gv_current_revision_id (pn_view pn1), extent);
         if condition_matches etag then Some (pn1, HeadTierConditionMatched etag)
         else do {
           capture \<leftarrow> capture_head_tier pn1 depth;
           (cache', access) \<leftarrow> elect_head (pn_cache pn1) accepting boundary
             \<lparr>hbl_depth = depth, hbl_capture = gvc_view capture\<rparr>;
           Some (pn1\<lparr>pn_cache := cache'\<rparr>, HeadTierAccess access) } } }"

text \<open>One round of \<open>build_head_tier\<close>: the encoded snapshot is cached when it is still eligible, and captured
  again otherwise.\<close>

definition head_snapshot_of :: "head_builder \<Rightarrow> u64 \<Rightarrow> cached_head_snapshot" where
  "head_snapshot_of builder uncompressed_bytes =
     (let view = hbl_capture builder
      in \<lparr>chs_depth = hbl_depth builder, chs_revision = gv_current_revision_id view,
          chs_revision_timestamp_ms = gv_current_revision_timestamp_ms view, chs_low_level = gv_low_level view,
          chs_high_level = gv_high_level view, chs_uncompressed_json_bytes = uncompressed_bytes, chs_body = view\<rparr>)"

definition build_head_tier_round :: "publication \<Rightarrow> nat \<Rightarrow> cache_build_error + u64 \<Rightarrow> publication option" where
  "build_head_tier_round pn job encoded = do {
     builder \<leftarrow> fmlookup (gc_head_builders (pn_cache pn)) job;
     case encoded of
       Inl error \<Rightarrow> do {
         cache \<leftarrow> finish_head_job (pn_cache pn) (hbl_depth builder) job (Inl error);
         Some (pn\<lparr>pn_cache := cache\<rparr>) }
     | Inr uncompressed_bytes \<Rightarrow> do {
         let candidate = head_snapshot_of builder uncompressed_bytes;
         eligible \<leftarrow> boundary_admits (head_eligibility pn) candidate;
         if eligible then do {
           cache \<leftarrow> finish_head_job (pn_cache pn) (hbl_depth builder) job (Inr candidate);
           Some (pn\<lparr>pn_cache := cache\<rparr>) }
         else do {
           capture \<leftarrow> capture_head_tier pn (hbl_depth builder);
           Some (pn\<lparr>pn_cache := (pn_cache pn)\<lparr>gc_head_builders :=
             fmupd job (builder\<lparr>hbl_capture := gvc_view capture\<rparr>) (gc_head_builders (pn_cache pn))\<rparr>\<rparr>) } } }"

end
