(* ===== verification/Cache_Laws.thy ===== *)
theory Cache_Laws
  imports Response_Cache
begin

text \<open>
  Laws of the response cache: pruning by search keeps exactly the unexpired sources, and the jobs, slots and
  builder tasks stay consistent, so that no completion or invalidation ever finds a job in the wrong state.
\<close>

section \<open>Expiry is exact\<close>

lemma sorted_keys [simp]: "sorted (map fst (sorted_list_of_fmap m))"
  by (simp add: sorted_list_of_fmap_def comp_def sorted_list_of_fset.rep_eq)

lemma sorted_last: "sorted (map fst xs) \<Longrightarrow> x \<in> set xs \<Longrightarrow> fst x \<le> fst (last xs)"
  by (induction xs) auto

lemma first_from_SomeD:
  assumes "first_from m k = Some (s, v)"
  shows "fmlookup m s = Some v" "k \<le> s" "\<And>s' v'. fmlookup m s' = Some v' \<Longrightarrow> k \<le> s' \<Longrightarrow> s \<le> s'"
proof -
  from assms obtain i where i: "i < length (sorted_list_of_fmap m)" "sorted_list_of_fmap m ! i = (s, v)" "k \<le> s"
      "\<forall>j<i. \<not> k \<le> fst (sorted_list_of_fmap m ! j)"
    unfolding first_from_def find_Some_iff by (metis fst_conv)
  show "fmlookup m s = Some v" using i(1,2) by (metis nth_mem set_sorted_list_of_fmap)
  show "k \<le> s" by (rule i(3))
  fix s' v' assume s': "fmlookup m s' = Some v'" "k \<le> s'"
  then obtain j where j: "j < length (sorted_list_of_fmap m)" "sorted_list_of_fmap m ! j = (s', v')"
    by (metis in_set_conv_nth set_sorted_list_of_fmap)
  then have "i \<le> j" using i(4) s'(2) by (metis fst_conv not_le)
  then have "map fst (sorted_list_of_fmap m) ! i \<le> map fst (sorted_list_of_fmap m) ! j"
    using j(1) by (intro sorted_nth_mono sorted_keys) simp_all
  then show "s \<le> s'" using i j by simp
qed

lemma first_from_ex:
  assumes "fmlookup m s' = Some v'" "k \<le> s'"
  shows "\<exists>s v. first_from m k = Some (s, v)"
proof (cases "first_from m k")
  case None
  then have "(s', v') \<notin> set (sorted_list_of_fmap m)" using assms(2) by (auto simp: first_from_def find_None_iff)
  then show ?thesis using assms(1) by (simp add: set_sorted_list_of_fmap)
qed auto

definition slot_expired :: "u64 \<Rightarrow> delta_cache_slot \<Rightarrow> bool" where
  "slot_expired timestamp slot \<longleftrightarrow> DELTA_CACHE_MAX_AGE_MS \<le> timestamp - dcs_first_revision_timestamp_ms slot"

definition slots_ordered :: "(u64, delta_cache_slot) fmap \<Rightarrow> u64 \<Rightarrow> bool" where
  "slots_ordered slots timestamp \<longleftrightarrow>
     (\<forall>s v. fmlookup slots s = Some v \<longrightarrow> dcs_first_revision_timestamp_ms v \<le> timestamp) \<and>
     (\<forall>s s' v v'. fmlookup slots s = Some v \<longrightarrow> fmlookup slots s' = Some v' \<longrightarrow> s \<le> s' \<longrightarrow>
        dcs_first_revision_timestamp_ms v \<le> dcs_first_revision_timestamp_ms v')"

lemma is_expired_eq:
  "slots_ordered slots timestamp \<Longrightarrow> fmlookup slots s = Some v \<Longrightarrow>
     is_expired v timestamp = Some (slot_expired timestamp v)"
  by (auto simp: slots_ordered_def is_expired_def slot_expired_def checked_sub_def)

lemma slot_expired_mono:
  assumes "slots_ordered slots timestamp" "fmlookup slots s = Some v" "fmlookup slots s' = Some v'" "s \<le> s'"
    and "slot_expired timestamp v'"
  shows "slot_expired timestamp v"
proof -
  have le: "dcs_first_revision_timestamp_ms v \<le> dcs_first_revision_timestamp_ms v'"
    "dcs_first_revision_timestamp_ms v' \<le> timestamp" using assms by (auto simp: slots_ordered_def)
  then have "timestamp - dcs_first_revision_timestamp_ms v' \<le> timestamp - dcs_first_revision_timestamp_ms v"
    by (simp add: word_le_nat_alt unat_sub)
  then show ?thesis using assms(5) by (simp add: slot_expired_def)
qed

lemma prune_search_spec:
  assumes ord: "slots_ordered slots timestamp"
    and "expired \<le> retained"
    and "\<And>s v. fmlookup slots s = Some v \<Longrightarrow> s \<le> expired \<Longrightarrow> slot_expired timestamp v"
    and "\<exists>s v. fmlookup slots s = Some v \<and> retained \<le> s"
    and "\<And>s v. fmlookup slots s = Some v \<Longrightarrow> retained \<le> s \<Longrightarrow> \<not> slot_expired timestamp v"
  shows "\<exists>r. prune_search slots timestamp expired retained = Some r \<and>
      (\<exists>s v. fmlookup slots s = Some v \<and> r \<le> s) \<and>
      (\<forall>s v. fmlookup slots s = Some v \<longrightarrow> (slot_expired timestamp v \<longleftrightarrow> s < r))"
  using assms
proof (induction slots timestamp expired retained rule: prune_search.induct)
  case (1 slots timestamp expired retained)
  note prems = "1.prems"
  show ?case
  proof (cases "1 < retained - expired")
    case False
    then have "unat retained - unat expired \<le> 1"
      using prems(2) by (simp add: word_less_nat_alt unat_sub)
    then have "s \<le> expired" if "s < retained" for s
      using that by (simp add: word_less_nat_alt word_le_nat_alt)
    then have "slot_expired timestamp v \<longleftrightarrow> s < retained" if "fmlookup slots s = Some v" for s v
      using prems(3,5) that by (metis not_le)
    then show ?thesis using False prems(2,4) by (subst prune_search.simps) auto
  next
    case True
    let ?mid = "expired + (retained - expired) div 2"
    note mid = midpoint_between(2,3)[OF prems(2) True]
    have le: "expired \<le> ?mid" "?mid \<le> retained" using mid by (simp_all add: word_le_nat_alt)
    obtain s0 v0 where s0: "fmlookup slots s0 = Some v0" "retained \<le> s0" using prems(4) by blast
    then obtain s1 v1 where f: "first_from slots ?mid = Some (s1, v1)"
      using first_from_ex[of slots s0 v0 ?mid] order_trans[OF le(2) s0(2)] by blast
    note fd = first_from_SomeD[OF f]
    note ex = is_expired_eq[OF prems(1) fd(1)]
    show ?thesis
    proof (cases "slot_expired timestamp v1")
      case e: True
      have "\<exists>r. prune_search slots timestamp ?mid retained = Some r \<and>
          (\<exists>s v. fmlookup slots s = Some v \<and> r \<le> s) \<and>
          (\<forall>s v. fmlookup slots s = Some v \<longrightarrow> (slot_expired timestamp v \<longleftrightarrow> s < r))"
      proof (rule "1.IH"(1)[OF _ _ refl f refl _ _ prems(1) le(2) _ prems(4,5)])
        show "slot_expired timestamp v" if "fmlookup slots s = Some v" "s \<le> ?mid" for s v
          using slot_expired_mono[OF prems(1) that(1) fd(1) _ e] that(2) fd(2) by simp
      qed (use True prems(2) ex e in auto)
      then show ?thesis using True prems(2) f ex e by (subst prune_search.simps) (simp add: Let_def)
    next
      case e: False
      have "\<exists>r. prune_search slots timestamp expired ?mid = Some r \<and>
          (\<exists>s v. fmlookup slots s = Some v \<and> r \<le> s) \<and>
          (\<forall>s v. fmlookup slots s = Some v \<longrightarrow> (slot_expired timestamp v \<longleftrightarrow> s < r))"
      proof (rule "1.IH"(2)[OF _ _ refl f refl _ _ prems(1) le(1) prems(3)])
        show "\<exists>s v. fmlookup slots s = Some v \<and> ?mid \<le> s" using fd by blast
        show "\<not> slot_expired timestamp v" if "fmlookup slots s = Some v" "?mid \<le> s" for s v
          using slot_expired_mono[OF prems(1) fd(1) that(1) fd(3)[OF that]] e by blast
      qed (use True prems(2) ex e in auto)
      then show ?thesis using True prems(2) f ex e by (subst prune_search.simps) (simp add: Let_def)
    qed
  qed
qed

text \<open>The search keeps exactly the unexpired sources.\<close>

lemma prune_expired_exact:
  assumes ord: "slots_ordered slots timestamp"
  shows "prune_expired slots timestamp = Some (fm_keep (\<lambda>slot. \<not> slot_expired timestamp slot) slots)"
proof (cases "sorted_list_of_fmap slots")
  case Nil
  then have "fmlookup slots s = None" for s using set_sorted_list_of_fmap[of s _ slots] by (cases "fmlookup slots s") auto
  then have "fm_keep (\<lambda>slot. \<not> slot_expired timestamp slot) slots = slots"
    by (intro fmap_ext) simp
  then show ?thesis using Nil by (simp add: prune_expired_def)
next
  case (Cons e es)
  obtain s0 v0 where e: "e = (s0, v0)" by fastforce
  obtain s1 v1 where l: "last (e # es) = (s1, v1)" by fastforce
  have in0: "fmlookup slots s0 = Some v0" using Cons e by (metis list.set_intros(1) set_sorted_list_of_fmap)
  have in1: "fmlookup slots s1 = Some v1" using Cons l by (metis last_in_set list.discI set_sorted_list_of_fmap)
  have least: "s0 \<le> s" "s \<le> s1" if s: "fmlookup slots s = Some v" for s v
  proof -
    have m: "(s, v) \<in> set (e # es)" using s Cons set_sorted_list_of_fmap by metis
    have so: "sorted (map fst (e # es))" using sorted_keys[of slots] Cons by simp
    from m so show "s0 \<le> s" by (auto simp: e)
    from sorted_last[OF so m] show "s \<le> s1" unfolding l by simp
  qed
  note ex = is_expired_eq[OF ord in0] is_expired_eq[OF ord in1]
  consider (fresh) "\<not> slot_expired timestamp v0" | (all) "slot_expired timestamp v1" "slot_expired timestamp v0"
    | (some) "slot_expired timestamp v0" "\<not> slot_expired timestamp v1" by blast
  then show ?thesis
  proof cases
    case fresh
    then have "\<not> slot_expired timestamp v" if "fmlookup slots s = Some v" for s v
      using slot_expired_mono[OF ord in0 that] least(1)[OF that] by blast
    then have "fm_keep (\<lambda>slot. \<not> slot_expired timestamp slot) slots = slots"
      by (intro fmap_ext) (auto split: option.splits)
    then show ?thesis using fresh Cons e ex by (simp add: prune_expired_def)
  next
    case all
    then have "slot_expired timestamp v" if "fmlookup slots s = Some v" for s v
      using slot_expired_mono[OF ord that in1] least(2)[OF that] by blast
    then have "fm_keep (\<lambda>slot. \<not> slot_expired timestamp slot) slots = fmempty"
      by (intro fmap_ext) (auto split: option.splits)
    then show ?thesis using all Cons e l ex by (simp add: prune_expired_def)
  next
    case some
    have "\<exists>r. prune_search slots timestamp s0 s1 = Some r \<and> (\<exists>s v. fmlookup slots s = Some v \<and> r \<le> s) \<and>
        (\<forall>s v. fmlookup slots s = Some v \<longrightarrow> (slot_expired timestamp v \<longleftrightarrow> s < r))"
    proof (rule prune_search_spec[OF ord least(2)[OF in0]])
      show "slot_expired timestamp v" if "fmlookup slots s = Some v" "s \<le> s0" for s v
        using slot_expired_mono[OF ord that(1) in0 that(2)] some(1) by blast
      show "\<not> slot_expired timestamp v" if "fmlookup slots s = Some v" "s1 \<le> s" for s v
        using slot_expired_mono[OF ord in1 that] some(2) by blast
    qed (use in1 in auto)
    then obtain r s v where r: "prune_search slots timestamp s0 s1 = Some r" "fmlookup slots s = Some v" "r \<le> s"
        "\<And>s v. fmlookup slots s = Some v \<Longrightarrow> slot_expired timestamp v \<longleftrightarrow> s < r" by blast
    obtain s2 v2 where f: "first_from slots r = Some (s2, v2)" using first_from_ex[OF r(2,3)] by blast
    note fd = first_from_SomeD[OF f]
    have "fmfilter (\<lambda>s. s2 \<le> s) slots = fm_keep (\<lambda>slot. \<not> slot_expired timestamp slot) slots"
    proof (rule fmap_ext)
      fix s
      show "fmlookup (fmfilter (\<lambda>s. s2 \<le> s) slots) s = fmlookup (fm_keep (\<lambda>slot. \<not> slot_expired timestamp slot) slots) s"
        using r(4)[of s] fd(2) fd(3)[of s] by (cases "fmlookup slots s") (auto simp: not_less)
    qed
    then show ?thesis using some Cons e l ex r(1) f by (simp add: prune_expired_def)
  qed
qed

section \<open>Consistency of slots, jobs and builders\<close>

text \<open>The invariant is relative to what a source, a delta value and a snapshot are required to satisfy
  (\<open>T\<close>, \<open>V\<close> and \<open>H\<close>). Every running job of a slot is pending and has the builder task that was elected for
  the slot; a builder's job is not complete; and what is cached or delivered satisfies its requirement.\<close>

definition delta_slot_ok ::
  "(u64 \<Rightarrow> u64 \<Rightarrow> bool) \<Rightarrow> (u64 \<Rightarrow> u64 \<Rightarrow> graph_history_entry list \<Rightarrow> bool) \<Rightarrow>
   (nat, cached_delta cache_job_state) fmap \<Rightarrow> (nat, delta_builder) fmap \<Rightarrow> u64 \<Rightarrow> delta_cache_slot \<Rightarrow> bool" where
  "delta_slot_ok T V jobs builders s slot \<longleftrightarrow>
     T s (dcs_first_revision_timestamp_ms slot) \<and> (dcs_completed slot \<noteq> None \<or> dcs_running slot \<noteq> None) \<and>
     (case dcs_completed slot of
        None \<Rightarrow> True
      | Some d \<Rightarrow> cd_from_revision_id d = s \<and> V s (cd_to_revision_id d) (cd_body d)) \<and>
     (case dcs_running slot of
        None \<Rightarrow> True
      | Some r \<Rightarrow> fmlookup jobs (rdj_job r) = Some JobPending \<and>
          (case fmlookup builders (rdj_job r) of
             None \<Rightarrow> False
           | Some b \<Rightarrow> dbl_source_revision b = s \<and> dbl_target_revision b = rdj_target_revision r \<and>
               dbl_size_limited b = rdj_size_limited r))"

definition builder_job_ok :: "'v cache_job_state option \<Rightarrow> bool" where
  "builder_job_ok state = (case state of Some JobPending \<Rightarrow> True | Some (JobInvalidated _) \<Rightarrow> True | _ \<Rightarrow> False)"

definition delivered_ok :: "('v \<Rightarrow> bool) \<Rightarrow> 'v cache_job_state \<Rightarrow> bool" where
  "delivered_ok P state = (case state of JobComplete (Inr v) \<Rightarrow> P v | _ \<Rightarrow> True)"

definition deltas_inv ::
  "(u64 \<Rightarrow> u64 \<Rightarrow> bool) \<Rightarrow> (u64 \<Rightarrow> u64 \<Rightarrow> graph_history_entry list \<Rightarrow> bool) \<Rightarrow> nat \<Rightarrow> (u64, delta_cache_slot) fmap \<Rightarrow>
   (nat, cached_delta cache_job_state) fmap \<Rightarrow> (nat, delta_builder) fmap \<Rightarrow> bool" where
  "deltas_inv T V next_id slots jobs builders \<longleftrightarrow>
     (\<forall>j st. fmlookup jobs j = Some st \<longrightarrow>
        j < next_id \<and> delivered_ok (\<lambda>d. V (cd_from_revision_id d) (cd_to_revision_id d) (cd_body d)) st) \<and>
     (\<forall>j b. fmlookup builders j = Some b \<longrightarrow> builder_job_ok (fmlookup jobs j) \<and>
        V (dbl_source_revision b) (dbl_target_revision b) (dbl_entries b)) \<and>
     (\<forall>s slot. fmlookup slots s = Some slot \<longrightarrow> delta_slot_ok T V jobs builders s slot)"

definition head_slot_ok ::
  "(u32 \<Rightarrow> cached_head_snapshot \<Rightarrow> bool) \<Rightarrow> (nat, cached_head_snapshot cache_job_state) fmap \<Rightarrow>
   (nat, head_builder) fmap \<Rightarrow> u32 \<Rightarrow> head_cache_slot \<Rightarrow> bool" where
  "head_slot_ok H jobs builders depth slot \<longleftrightarrow>
     (hcs_completed slot \<noteq> None \<or> hcs_running slot \<noteq> None) \<and>
     (case hcs_completed slot of None \<Rightarrow> True | Some v \<Rightarrow> H depth v) \<and>
     (case hcs_running slot of
        None \<Rightarrow> True
      | Some j \<Rightarrow> fmlookup jobs j = Some JobPending \<and> map_option hbl_depth (fmlookup builders j) = Some depth)"

definition heads_inv ::
  "(u32 \<Rightarrow> cached_head_snapshot \<Rightarrow> bool) \<Rightarrow> nat \<Rightarrow> (u32, head_cache_slot) fmap \<Rightarrow>
   (nat, cached_head_snapshot cache_job_state) fmap \<Rightarrow> (nat, head_builder) fmap \<Rightarrow> bool" where
  "heads_inv H next_id slots jobs builders \<longleftrightarrow>
     (\<forall>j st. fmlookup jobs j = Some st \<longrightarrow> j < next_id \<and> delivered_ok (\<lambda>v. H (chs_depth v) v) st) \<and>
     (\<forall>j b. fmlookup builders j = Some b \<longrightarrow> builder_job_ok (fmlookup jobs j)) \<and>
     (\<forall>d slot. fmlookup slots d = Some slot \<longrightarrow> head_slot_ok H jobs builders d slot)"

definition cache_inv ::
  "(u64 \<Rightarrow> u64 \<Rightarrow> bool) \<Rightarrow> (u64 \<Rightarrow> u64 \<Rightarrow> graph_history_entry list \<Rightarrow> bool) \<Rightarrow>
   (u32 \<Rightarrow> cached_head_snapshot \<Rightarrow> bool) \<Rightarrow> graph_cache \<Rightarrow> bool" where
  "cache_inv T V H c \<longleftrightarrow>
     deltas_inv T V (gc_next_job c) (gc_deltas c) (gc_delta_jobs c) (gc_delta_builders c) \<and>
     heads_inv H (gc_next_job c) (gc_heads c) (gc_head_jobs c) (gc_head_builders c)"

lemma cache_new_inv: "cache_inv T V H graph_cache_new"
  by (simp add: cache_inv_def deltas_inv_def heads_inv_def graph_cache_new_def)

lemma deltas_invI:
  assumes "\<And>j st. fmlookup jobs j = Some st \<Longrightarrow>
      j < n \<and> delivered_ok (\<lambda>d. V (cd_from_revision_id d) (cd_to_revision_id d) (cd_body d)) st"
    and "\<And>j b. fmlookup builders j = Some b \<Longrightarrow> builder_job_ok (fmlookup jobs j) \<and>
      V (dbl_source_revision b) (dbl_target_revision b) (dbl_entries b)"
    and "\<And>s slot. fmlookup slots s = Some slot \<Longrightarrow> delta_slot_ok T V jobs builders s slot"
  shows "deltas_inv T V n slots jobs builders"
  using assms by (simp add: deltas_inv_def)

lemma deltas_invD:
  assumes "deltas_inv T V n slots jobs builders"
  shows "fmlookup jobs j = Some st \<Longrightarrow>
      j < n \<and> delivered_ok (\<lambda>d. V (cd_from_revision_id d) (cd_to_revision_id d) (cd_body d)) st"
    and "fmlookup builders j = Some b \<Longrightarrow> builder_job_ok (fmlookup jobs j) \<and>
      V (dbl_source_revision b) (dbl_target_revision b) (dbl_entries b)"
    and "fmlookup slots s = Some slot \<Longrightarrow> delta_slot_ok T V jobs builders s slot"
  using assms by (simp_all add: deltas_inv_def)

lemma heads_invI:
  assumes "\<And>j st. fmlookup jobs j = Some st \<Longrightarrow> j < n \<and> delivered_ok (\<lambda>v. H (chs_depth v) v) st"
    and "\<And>j b. fmlookup builders j = Some b \<Longrightarrow> builder_job_ok (fmlookup jobs j)"
    and "\<And>d slot. fmlookup slots d = Some slot \<Longrightarrow> head_slot_ok H jobs builders d slot"
  shows "heads_inv H n slots jobs builders"
  using assms by (simp add: heads_inv_def)

lemma heads_invD:
  assumes "heads_inv H n slots jobs builders"
  shows "fmlookup jobs j = Some st \<Longrightarrow> j < n \<and> delivered_ok (\<lambda>v. H (chs_depth v) v) st"
    and "fmlookup builders j = Some b \<Longrightarrow> builder_job_ok (fmlookup jobs j)"
    and "fmlookup slots d = Some slot \<Longrightarrow> head_slot_ok H jobs builders d slot"
  using assms by (simp_all add: heads_inv_def)

lemma delivered_ok_mono: "delivered_ok P st \<Longrightarrow> (\<And>v. P v \<Longrightarrow> Q v) \<Longrightarrow> delivered_ok Q st"
  by (auto simp: delivered_ok_def split: cache_job_state.splits sum.splits)

lemma delta_slot_ok_mono:
  assumes "delta_slot_ok T V jobs builders s slot" "T' s (dcs_first_revision_timestamp_ms slot)"
    and "\<And>t es. V s t es \<Longrightarrow> V' s t es"
  shows "delta_slot_ok T' V' jobs builders s slot"
  using assms by (auto simp: delta_slot_ok_def split: option.splits)

lemma head_slot_ok_mono:
  "head_slot_ok H jobs builders d slot \<Longrightarrow> (\<And>v. H d v \<Longrightarrow> H' d v) \<Longrightarrow> head_slot_ok H' jobs builders d slot"
  by (auto simp: head_slot_ok_def split: option.splits)

lemma deltas_inv_mono:
  assumes "deltas_inv T V n slots jobs builders" "n \<le> n'"
    and mono: "\<And>s t es. V s t es \<Longrightarrow> V' s t es"
    and sub: "\<And>s slot. fmlookup slots' s = Some slot \<Longrightarrow> fmlookup slots s = Some slot \<and>
       (T s (dcs_first_revision_timestamp_ms slot) \<longrightarrow> T' s (dcs_first_revision_timestamp_ms slot))"
  shows "deltas_inv T' V' n' slots' jobs builders"
proof (rule deltas_invI)
  note d = deltas_invD[OF assms(1)]
  show "j < n' \<and> delivered_ok (\<lambda>d. V' (cd_from_revision_id d) (cd_to_revision_id d) (cd_body d)) st"
    if "fmlookup jobs j = Some st" for j st
    using d(1)[OF that] assms(2) delivered_ok_mono mono by (metis (no_types, lifting) le_trans less_le_trans)
  show "builder_job_ok (fmlookup jobs j) \<and> V' (dbl_source_revision b) (dbl_target_revision b) (dbl_entries b)"
    if "fmlookup builders j = Some b" for j b
    using d(2)[OF that] mono by blast
  show "delta_slot_ok T' V' jobs builders s slot" if "fmlookup slots' s = Some slot" for s slot
  proof -
    have "delta_slot_ok T V jobs builders s slot" using d(3) sub[OF that] by blast
    then show ?thesis by (rule delta_slot_ok_mono) (use sub[OF that] mono \<open>delta_slot_ok T V jobs builders s slot\<close> in \<open>auto simp: delta_slot_ok_def\<close>)
  qed
qed

lemma heads_inv_mono:
  assumes "heads_inv H n slots jobs builders" "n \<le> n'" "\<And>d v. H d v \<Longrightarrow> H' d v"
  shows "heads_inv H' n' slots jobs builders"
proof (rule heads_invI)
  note d = heads_invD[OF assms(1)]
  show "j < n' \<and> delivered_ok (\<lambda>v. H' (chs_depth v) v) st" if "fmlookup jobs j = Some st" for j st
    using d(1)[OF that] assms(2,3) delivered_ok_mono[of "\<lambda>v. H (chs_depth v) v" st "\<lambda>v. H' (chs_depth v) v"] by auto
  show "builder_job_ok (fmlookup jobs j)" if "fmlookup builders j = Some b" for j b by (rule d(2)[OF that])
  show "head_slot_ok H' jobs builders k slot" if "fmlookup slots k = Some slot" for k slot
    by (rule head_slot_ok_mono[OF d(3)[OF that]]) (rule assms(3))
qed

lemma cache_inv_mono:
  assumes "cache_inv T V H c" "\<And>s t. T s t \<Longrightarrow> T' s t" "\<And>s t es. V s t es \<Longrightarrow> V' s t es" "\<And>d v. H d v \<Longrightarrow> H' d v"
  shows "cache_inv T' V' H' c"
  unfolding cache_inv_def
proof
  show "deltas_inv T' V' (gc_next_job c) (gc_deltas c) (gc_delta_jobs c) (gc_delta_builders c)"
    by (rule deltas_inv_mono[of T V]) (use assms in \<open>auto simp: cache_inv_def\<close>)
  show "heads_inv H' (gc_next_job c) (gc_heads c) (gc_head_jobs c) (gc_head_builders c)"
    by (rule heads_inv_mono[of H]) (use assms in \<open>auto simp: cache_inv_def\<close>)
qed

section \<open>Lookup and completion\<close>

lemma delta_lookup_outcome:
  assumes inv: "cache_inv T V H c" and ord: "slots_ordered (gc_deltas c) timestamp"
  shows "\<exists>answer. delta_lookup c source target timestamp =
      Some (c\<lparr>gc_deltas := fm_keep (\<lambda>slot. \<not> slot_expired timestamp slot) (gc_deltas c)\<rparr>, answer) \<and>
    cache_inv T V H (c\<lparr>gc_deltas := fm_keep (\<lambda>slot. \<not> slot_expired timestamp slot) (gc_deltas c)\<rparr>) \<and>
    (case answer of
       DeltaCompleted d \<Rightarrow> cd_from_revision_id d = source \<and> V source (cd_to_revision_id d) (cd_body d) \<and> is_adequate_for d target
     | DeltaRunning job \<Rightarrow> fmlookup (gc_delta_jobs c) job = Some JobPending
     | DeltaConstructionRequired None \<Rightarrow> True
     | DeltaConstructionRequired (Some current) \<Rightarrow> current < target \<and>
         (\<exists>body slot. V source current body \<and> fmlookup (gc_deltas c) source = Some slot))"
proof -
  let ?slots = "fm_keep (\<lambda>slot. \<not> slot_expired timestamp slot) (gc_deltas c)"
  have d: "deltas_inv T V (gc_next_job c) (gc_deltas c) (gc_delta_jobs c) (gc_delta_builders c)"
    using inv by (simp add: cache_inv_def)
  have "deltas_inv T V (gc_next_job c) ?slots (gc_delta_jobs c) (gc_delta_builders c)"
    by (rule deltas_inv_mono[OF d]) (auto split: option.splits if_splits)
  then have inv': "cache_inv T V H (c\<lparr>gc_deltas := ?slots\<rparr>)" using inv by (simp add: cache_inv_def)
  have ok: "delta_slot_ok T V (gc_delta_jobs c) (gc_delta_builders c) source slot \<and> fmlookup (gc_deltas c) source = Some slot"
    if "fmlookup ?slots source = Some slot" for slot
    using that deltas_invD(3)[OF d] by (auto split: option.splits if_splits)
  have run: "delta_lookup c source target timestamp = Some (c\<lparr>gc_deltas := ?slots\<rparr>, answer)"
    if "answer = (case fmlookup ?slots source of
         None \<Rightarrow> DeltaConstructionRequired None
       | Some slot \<Rightarrow>
           (case dcs_completed slot of
              Some completed \<Rightarrow>
                if is_adequate_for completed target then DeltaCompleted completed
                else (case dcs_running slot of
                        Some running \<Rightarrow> DeltaRunning (rdj_job running)
                      | None \<Rightarrow> DeltaConstructionRequired (Some (cd_to_revision_id completed)))
            | None \<Rightarrow>
                (case dcs_running slot of
                   Some running \<Rightarrow> DeltaRunning (rdj_job running)
                 | None \<Rightarrow> DeltaConstructionRequired None)))" for answer
    unfolding that by (simp add: delta_lookup_def prune_expired_exact[OF ord] Let_def)
  show ?thesis
  proof (cases "fmlookup ?slots source")
    case None
    then show ?thesis using run[OF refl] inv' by (intro exI[of _ "DeltaConstructionRequired None"]) simp
  next
    case (Some slot)
    note sl = ok[OF Some]
    show ?thesis
    proof (cases "dcs_completed slot")
      case nc: None
      then obtain r where r: "dcs_running slot = Some r" "fmlookup (gc_delta_jobs c) (rdj_job r) = Some JobPending"
        using sl by (auto simp: delta_slot_ok_def)
      then show ?thesis using run[OF refl] inv' Some nc by (intro exI[of _ "DeltaRunning (rdj_job r)"]) simp
    next
      case (Some d)
      have d: "cd_from_revision_id d = source" "V source (cd_to_revision_id d) (cd_body d)"
        using sl Some by (auto simp: delta_slot_ok_def)
      show ?thesis
      proof (cases "is_adequate_for d target")
        case True
        then show ?thesis using run[OF refl] inv' \<open>fmlookup ?slots source = Some slot\<close> Some d
          by (intro exI[of _ "DeltaCompleted d"]) simp
      next
        case False
        then have lt: "cd_to_revision_id d < target" by (simp add: is_adequate_for_def not_le)
        show ?thesis
        proof (cases "dcs_running slot")
          case None
          then show ?thesis using run[OF refl] inv' \<open>fmlookup ?slots source = Some slot\<close> Some d False lt sl
            by (intro exI[of _ "DeltaConstructionRequired (Some (cd_to_revision_id d))"]) auto
        next
          case r: (Some r)
          then have "fmlookup (gc_delta_jobs c) (rdj_job r) = Some JobPending" using sl by (simp add: delta_slot_ok_def)
          then show ?thesis using run[OF refl] inv' \<open>fmlookup ?slots source = Some slot\<close> Some False r
            by (intro exI[of _ "DeltaRunning (rdj_job r)"]) simp
        qed
      qed
    qed
  qed
qed

lemma job_complete_ok:
  "builder_job_ok (fmlookup jobs j) \<Longrightarrow> (\<And>v. result = Inr v \<Longrightarrow> P v) \<Longrightarrow>
     \<exists>st st'. fmlookup jobs j = Some st \<and> job_complete st result = Some st' \<and> delivered_ok P st'"
  by (auto simp: builder_job_ok_def delivered_ok_def split: option.splits cache_job_state.splits sum.splits)

lemma delta_slot_ok_other:
  assumes "delta_slot_ok T V jobs builders s slot" "\<And>r. dcs_running slot = Some r \<Longrightarrow> rdj_job r \<noteq> j"
  shows "delta_slot_ok T V (fmupd j st jobs) (fmdrop j builders) s slot"
    and "delta_slot_ok T V (fmupd j st jobs) (fmupd j b builders) s slot"
    and "delta_slot_ok T V (fmupd j st jobs) builders s slot"
  using assms by (auto simp: delta_slot_ok_def split: option.splits)

lemma delta_slot_builder:
  assumes "delta_slot_ok T V jobs builders s slot" "dcs_running slot = Some r" "fmlookup builders (rdj_job r) = Some b"
  shows "dbl_source_revision b = s \<and> dbl_target_revision b = rdj_target_revision r \<and> dbl_size_limited b = rdj_size_limited r"
  using assms by (auto simp: delta_slot_ok_def)

definition delta_result_ok :: "delta_builder \<Rightarrow> cache_build_error + cached_delta \<Rightarrow> bool" where
  "delta_result_ok b result =
     (case result of
        Inl _ \<Rightarrow> True
      | Inr v \<Rightarrow> cd_from_revision_id v = dbl_source_revision b \<and> cd_to_revision_id v = dbl_target_revision b \<and>
          cd_size_limited v = dbl_size_limited b \<and> cd_body v = dbl_entries b)"

lemma finish_delta_job_outcome:
  assumes inv: "cache_inv T V H c" and b: "fmlookup (gc_delta_builders c) j = Some b" and res: "delta_result_ok b result"
  shows "\<exists>c'. finish_delta_job c (dbl_source_revision b) j result = Some c' \<and> cache_inv T V H c' \<and>
    gc_next_job c' = gc_next_job c \<and> gc_delta_builders c' = fmdrop j (gc_delta_builders c) \<and>
    gc_head_builders c' = gc_head_builders c \<and> fmdom (gc_deltas c') |\<subseteq>| fmdom (gc_deltas c)"
proof -
  let ?s = "dbl_source_revision b" and ?jobs = "gc_delta_jobs c" and ?builders = "gc_delta_builders c"
  have d: "deltas_inv T V (gc_next_job c) (gc_deltas c) ?jobs ?builders" using inv by (simp add: cache_inv_def)
  have vb: "builder_job_ok (fmlookup ?jobs j)" "V ?s (dbl_target_revision b) (dbl_entries b)"
    using deltas_invD(2)[OF d b] by auto
  have vres: "V (cd_from_revision_id v) (cd_to_revision_id v) (cd_body v)" if "result = Inr v" for v
    using res vb(2) that by (simp add: delta_result_ok_def)
  obtain st st' where st: "fmlookup ?jobs j = Some st" "job_complete st result = Some st'"
      "delivered_ok (\<lambda>d. V (cd_from_revision_id d) (cd_to_revision_id d) (cd_body d)) st'"
    using job_complete_ok[OF vb(1), of result "\<lambda>d. V (cd_from_revision_id d) (cd_to_revision_id d) (cd_body d)"] vres by blast
  have other: "rdj_job r \<noteq> j" if "fmlookup (gc_deltas c) s = Some slot" "dcs_running slot = Some r" "s \<noteq> ?s" for s slot r
    using delta_slot_builder[OF deltas_invD(3)[OF d that(1)] that(2), of b] b that(3) by blast
  have parts: "deltas_inv T V (gc_next_job c) slots' (fmupd j st' ?jobs) (fmdrop j ?builders)"
    if slots': "\<And>s slot. fmlookup slots' s = Some slot \<Longrightarrow>
      delta_slot_ok T V (fmupd j st' ?jobs) (fmdrop j ?builders) s slot" for slots'
  proof (rule deltas_invI)
    show "k < gc_next_job c \<and> delivered_ok (\<lambda>d. V (cd_from_revision_id d) (cd_to_revision_id d) (cd_body d)) s"
      if "fmlookup (fmupd j st' ?jobs) k = Some s" for k s
      using that deltas_invD(1)[OF d st(1)] deltas_invD(1)[OF d, of k s] st(3) by (auto split: if_splits)
    show "builder_job_ok (fmlookup (fmupd j st' ?jobs) k) \<and> V (dbl_source_revision x) (dbl_target_revision x) (dbl_entries x)"
      if "fmlookup (fmdrop j ?builders) k = Some x" for k x
      using that deltas_invD(2)[OF d, of k x] by (auto split: if_splits)
  qed (rule slots')
  have rest: "delta_slot_ok T V (fmupd j st' ?jobs) (fmdrop j ?builders) s slot"
    if "fmlookup (gc_deltas c) s = Some slot" "s \<noteq> ?s \<or> (\<forall>r. dcs_running slot = Some r \<longrightarrow> rdj_job r \<noteq> j)" for s slot
    using delta_slot_ok_other(1)[OF deltas_invD(3)[OF d that(1)], of j st'] other[OF that(1)] that(2) by blast
  have "\<exists>slots'. delta_finish_slot c ?s j result = Some (c\<lparr>gc_deltas := slots'\<rparr>) \<and> fmdom slots' |\<subseteq>| fmdom (gc_deltas c) \<and>
      (\<forall>s slot. fmlookup slots' s = Some slot \<longrightarrow> delta_slot_ok T V (fmupd j st' ?jobs) (fmdrop j ?builders) s slot)"
  proof (cases "\<exists>slot r. fmlookup (gc_deltas c) ?s = Some slot \<and> dcs_running slot = Some r \<and> rdj_job r = j")
    case False
    then have "delta_finish_slot c ?s j result = Some (c\<lparr>gc_deltas := gc_deltas c\<rparr>)"
      by (auto simp: delta_finish_slot_def split: option.splits)
    moreover have "delta_slot_ok T V (fmupd j st' ?jobs) (fmdrop j ?builders) s slot" if "fmlookup (gc_deltas c) s = Some slot" for s slot
      using rest[OF that] False that by blast
    ultimately show ?thesis by blast
  next
    case True
    then obtain slot r where r: "fmlookup (gc_deltas c) ?s = Some slot" "dcs_running slot = Some r" "rdj_job r = j" by blast
    note sok = deltas_invD(3)[OF d r(1)]
    have match: "dbl_target_revision b = rdj_target_revision r" "dbl_size_limited b = rdj_size_limited r"
      using delta_slot_builder[OF sok r(2), of b] b r(3) by auto
    define completed where "completed = (case result of Inl _ \<Rightarrow> dcs_completed slot | Inr v \<Rightarrow>
        (case dcs_completed slot of None \<Rightarrow> Some v
         | Some old \<Rightarrow> if cd_to_revision_id old < cd_to_revision_id v then Some v else Some old))"
    define slots' where "slots' = (case completed of None \<Rightarrow> fmdrop ?s (gc_deltas c)
        | Some _ \<Rightarrow> fmupd ?s (slot\<lparr>dcs_completed := completed, dcs_running := None\<rparr>) (gc_deltas c))"
    have "delta_finish_slot c ?s j result = Some (c\<lparr>gc_deltas := slots'\<rparr>)"
      using r match res
      by (auto simp: delta_finish_slot_def slots'_def completed_def delta_result_ok_def split: sum.splits option.splits)
    moreover have "fmdom slots' |\<subseteq>| fmdom (gc_deltas c)"
      using fmdomI[OF r(1)] by (auto simp: slots'_def split: option.splits)
    moreover have new: "delta_slot_ok T V (fmupd j st' ?jobs) (fmdrop j ?builders) ?s (slot\<lparr>dcs_completed := completed, dcs_running := None\<rparr>)"
      if "completed \<noteq> None"
      using that sok vres res
      by (auto simp: delta_slot_ok_def completed_def delta_result_ok_def split: sum.splits option.splits if_splits)
    have "delta_slot_ok T V (fmupd j st' ?jobs) (fmdrop j ?builders) s sl" if "fmlookup slots' s = Some sl" for s sl
    proof (cases "s = ?s")
      case True
      then show ?thesis using that new by (auto simp: slots'_def split: option.splits)
    next
      case False
      then have "fmlookup (gc_deltas c) s = Some sl" using that by (auto simp: slots'_def split: option.splits)
      then show ?thesis using rest False by blast
    qed
    ultimately show ?thesis by blast
  qed
  then obtain slots' where s': "delta_finish_slot c ?s j result = Some (c\<lparr>gc_deltas := slots'\<rparr>)" "fmdom slots' |\<subseteq>| fmdom (gc_deltas c)"
      "\<And>s slot. fmlookup slots' s = Some slot \<Longrightarrow> delta_slot_ok T V (fmupd j st' ?jobs) (fmdrop j ?builders) s slot" by blast
  show ?thesis using s' st parts[OF s'(3)] inv by (auto simp: finish_delta_job_def cache_inv_def)
qed

section \<open>Election\<close>

text \<open>A fresh job for a slot, spawned or, by a closed tracker, finished at once.\<close>

definition spawn_delta ::
  "graph_cache \<Rightarrow> bool \<Rightarrow> u64 \<Rightarrow> cached_delta option \<Rightarrow> delta_builder \<Rightarrow> (graph_cache \<times> cached_delta cache_access) option" where
  "spawn_delta c accepting first_timestamp completed builder =
     (let job = gc_next_job c;
          c1 = install_delta_job c (dbl_source_revision builder) first_timestamp completed builder
      in if accepting
         then Some (c1\<lparr>gc_delta_builders := fmupd job builder (gc_delta_builders c1)\<rparr>, AccessJob job)
         else map_option (\<lambda>c2. (c2, AccessJob job))
                (finish_delta_job c1 (dbl_source_revision builder) job (Inl BuildCancelled)))"

lemma elect_delta_eq:
  "elect_delta c accepting first_timestamp b =
     (case fmlookup (gc_deltas c) (dbl_source_revision b) of
        None \<Rightarrow> spawn_delta c accepting first_timestamp None b
      | Some slot \<Rightarrow>
          (case dcs_completed slot of
             Some completed \<Rightarrow>
               if dbl_size_limited b \<and> cd_to_revision_id completed = dbl_target_revision b \<and> \<not> cd_size_limited completed then
                 Some (c\<lparr>gc_deltas := fmupd (dbl_source_revision b)
                        (slot\<lparr>dcs_completed := Some (completed\<lparr>cd_size_limited := True\<rparr>)\<rparr>) (gc_deltas c)\<rparr>,
                       AccessCompleted (completed\<lparr>cd_size_limited := True\<rparr>))
               else if is_adequate_for completed (dbl_target_revision b) then Some (c, AccessCompleted completed)
               else (case dcs_running slot of
                       Some running \<Rightarrow> Some (c, AccessJob (rdj_job running))
                     | None \<Rightarrow> spawn_delta c accepting (dcs_first_revision_timestamp_ms slot) (Some completed) b)
           | None \<Rightarrow>
               (case dcs_running slot of
                  Some running \<Rightarrow> Some (c, AccessJob (rdj_job running))
                | None \<Rightarrow> spawn_delta c accepting (dcs_first_revision_timestamp_ms slot) None b)))"
  by (auto simp: elect_delta_def spawn_delta_def Let_def reclassified_size_limited_def install_delta_job_def
      split: option.splits)

lemma spawn_delta_outcome:
  assumes inv: "cache_inv T V H c" and new: "T (dbl_source_revision b) first_timestamp"
      "V (dbl_source_revision b) (dbl_target_revision b) (dbl_entries b)"
    and old: "case completed of None \<Rightarrow> True
      | Some d \<Rightarrow> cd_from_revision_id d = dbl_source_revision b \<and> V (dbl_source_revision b) (cd_to_revision_id d) (cd_body d)"
  shows "\<exists>c'. spawn_delta c accepting first_timestamp completed b = Some (c', AccessJob (gc_next_job c)) \<and>
    cache_inv T V H c' \<and> gc_next_job c \<in> fset (fmdom (gc_delta_jobs c')) \<and> gc_next_job c' = gc_next_job c + 1"
proof -
  let ?n = "gc_next_job c" and ?s = "dbl_source_revision b" and ?jobs = "gc_delta_jobs c" and ?builders = "gc_delta_builders c"
  let ?run = "Some \<lparr>rdj_target_revision = dbl_target_revision b, rdj_size_limited = dbl_size_limited b, rdj_job = ?n\<rparr>"
  let ?slot = "\<lambda>run. \<lparr>dcs_first_revision_timestamp_ms = first_timestamp, dcs_completed = completed, dcs_running = run\<rparr>"
  have d: "deltas_inv T V ?n (gc_deltas c) ?jobs ?builders" and h: "heads_inv H ?n (gc_heads c) (gc_head_jobs c) (gc_head_builders c)"
    using inv by (simp_all add: cache_inv_def)
  have h': "heads_inv H (?n + 1) (gc_heads c) (gc_head_jobs c) (gc_head_builders c)" by (rule heads_inv_mono[OF h]) simp_all
  have fresh: "fmlookup ?jobs ?n = None" using deltas_invD(1)[OF d, of ?n] by (cases "fmlookup ?jobs ?n") auto
  then have freshb: "fmlookup ?builders ?n = None"
    using deltas_invD(2)[OF d, of ?n] by (cases "fmlookup ?builders ?n") (auto simp: builder_job_ok_def)
  have nr: "rdj_job r \<noteq> ?n" if "fmlookup (gc_deltas c) s = Some slot" "dcs_running slot = Some r" for s slot r
    using deltas_invD(3)[OF d that(1)] that(2) fresh by (auto simp: delta_slot_ok_def)
  have jobs: "k < ?n + 1 \<and> delivered_ok (\<lambda>d. V (cd_from_revision_id d) (cd_to_revision_id d) (cd_body d)) x"
    if "fmlookup (fmupd ?n st ?jobs) k = Some x" "delivered_ok (\<lambda>d. V (cd_from_revision_id d) (cd_to_revision_id d) (cd_body d)) st"
    for st k x
    using that deltas_invD(1)[OF d, of k x] by (auto split: if_splits)
  show ?thesis
  proof (cases accepting)
    case True
    have "deltas_inv T V (?n + 1) (fmupd ?s (?slot ?run) (gc_deltas c)) (fmupd ?n JobPending ?jobs) (fmupd ?n b ?builders)"
    proof (rule deltas_invI)
      show "builder_job_ok (fmlookup (fmupd ?n JobPending ?jobs) k) \<and> V (dbl_source_revision x) (dbl_target_revision x) (dbl_entries x)"
        if "fmlookup (fmupd ?n b ?builders) k = Some x" for k x
        using that deltas_invD(2)[OF d, of k x] new(2) by (auto simp: builder_job_ok_def split: if_splits)
      show "delta_slot_ok T V (fmupd ?n JobPending ?jobs) (fmupd ?n b ?builders) s slot"
        if "fmlookup (fmupd ?s (?slot ?run) (gc_deltas c)) s = Some slot" for s slot
      proof (cases "s = ?s")
        case True
        then have "slot = ?slot ?run" using that by simp
        then show ?thesis using new old True by (simp add: delta_slot_ok_def)
      next
        case False
        then have o: "fmlookup (gc_deltas c) s = Some slot" using that by simp
        show ?thesis by (rule delta_slot_ok_other(2)[OF deltas_invD(3)[OF d o] nr[OF o]])
      qed
    qed (erule jobs, simp add: delivered_ok_def)
    then show ?thesis using True h' by (simp add: spawn_delta_def install_delta_job_def Let_def cache_inv_def)
  next
    case False
    define slots' where "slots' = (case completed of None \<Rightarrow> fmdrop ?s (fmupd ?s (?slot ?run) (gc_deltas c))
        | Some _ \<Rightarrow> fmupd ?s (?slot None) (fmupd ?s (?slot ?run) (gc_deltas c)))"
    have "deltas_inv T V (?n + 1) slots' (fmupd ?n (JobComplete (Inl BuildCancelled)) ?jobs) (fmdrop ?n ?builders)"
    proof (rule deltas_invI)
      show "builder_job_ok (fmlookup (fmupd ?n (JobComplete (Inl BuildCancelled)) ?jobs) k) \<and>
          V (dbl_source_revision x) (dbl_target_revision x) (dbl_entries x)"
        if "fmlookup (fmdrop ?n ?builders) k = Some x" for k x
        using that deltas_invD(2)[OF d, of k x] by (auto split: if_splits)
      show "delta_slot_ok T V (fmupd ?n (JobComplete (Inl BuildCancelled)) ?jobs) (fmdrop ?n ?builders) s slot"
        if "fmlookup slots' s = Some slot" for s slot
      proof (cases "s = ?s")
        case True
        then have "slot = ?slot None" "completed \<noteq> None" using that by (auto simp: slots'_def split: option.splits)
        then show ?thesis using new old True by (simp add: delta_slot_ok_def)
      next
        case False
        then have o: "fmlookup (gc_deltas c) s = Some slot" using that by (auto simp: slots'_def split: option.splits)
        show ?thesis by (rule delta_slot_ok_other(1)[OF deltas_invD(3)[OF d o] nr[OF o]])
      qed
    qed (erule jobs, simp add: delivered_ok_def)
    moreover have "spawn_delta c accepting first_timestamp completed b =
        Some (c\<lparr>gc_deltas := slots', gc_delta_jobs := fmupd ?n (JobComplete (Inl BuildCancelled)) (fmupd ?n JobPending ?jobs),
          gc_next_job := ?n + 1, gc_delta_builders := fmdrop ?n ?builders\<rparr>, AccessJob ?n)"
      using False
      by (auto simp: spawn_delta_def install_delta_job_def Let_def finish_delta_job_def delta_finish_slot_def slots'_def
          split: option.splits)
    moreover have "fmupd ?n (JobComplete (Inl BuildCancelled)) (fmupd ?n JobPending ?jobs) = fmupd ?n (JobComplete (Inl BuildCancelled)) ?jobs"
      by (rule fmap_ext) simp
    ultimately show ?thesis using h' by (simp add: cache_inv_def)
  qed
qed

lemma elect_delta_outcome:
  assumes inv: "cache_inv T V H c" and new: "T (dbl_source_revision b) first_timestamp"
      "V (dbl_source_revision b) (dbl_target_revision b) (dbl_entries b)"
  shows "\<exists>c' access. elect_delta c accepting first_timestamp b = Some (c', access) \<and> cache_inv T V H c' \<and>
    (case access of
       AccessCompleted d \<Rightarrow> cd_from_revision_id d = dbl_source_revision b \<and>
         V (dbl_source_revision b) (cd_to_revision_id d) (cd_body d) \<and> is_adequate_for d (dbl_target_revision b)
     | AccessJob job \<Rightarrow> job \<in> fset (fmdom (gc_delta_jobs c')))"
proof -
  let ?s = "dbl_source_revision b"
  have d: "deltas_inv T V (gc_next_job c) (gc_deltas c) (gc_delta_jobs c) (gc_delta_builders c)"
    using inv by (simp add: cache_inv_def)
  show ?thesis
  proof (cases "fmlookup (gc_deltas c) ?s")
    case None
    then show ?thesis using spawn_delta_outcome[OF inv new, of None accepting] by (auto simp: elect_delta_eq)
  next
    case (Some slot)
    note ok = deltas_invD(3)[OF d Some]
    have ts: "T ?s (dcs_first_revision_timestamp_ms slot)" using ok by (simp add: delta_slot_ok_def)
    have runs: "rdj_job r \<in> fset (fmdom (gc_delta_jobs c))" if "dcs_running slot = Some r" for r
      using ok that by (auto simp: delta_slot_ok_def intro: fmdomI)
    show ?thesis
    proof (cases "dcs_completed slot")
      case None
      then show ?thesis using \<open>fmlookup (gc_deltas c) ?s = Some slot\<close> inv runs spawn_delta_outcome[OF inv ts new(2), of None accepting]
        by (cases "dcs_running slot") (auto simp: elect_delta_eq)
    next
      case done_: (Some old)
      have old: "cd_from_revision_id old = ?s" "V ?s (cd_to_revision_id old) (cd_body old)" using ok done_ by (auto simp: delta_slot_ok_def)
      show ?thesis
      proof (cases "dbl_size_limited b \<and> cd_to_revision_id old = dbl_target_revision b \<and> \<not> cd_size_limited old")
        case True
        let ?slot = "slot\<lparr>dcs_completed := Some (old\<lparr>cd_size_limited := True\<rparr>)\<rparr>"
        have "delta_slot_ok T V (gc_delta_jobs c) (gc_delta_builders c) ?s ?slot"
          using ok old by (auto simp: delta_slot_ok_def)
        then have "deltas_inv T V (gc_next_job c) (fmupd ?s ?slot (gc_deltas c)) (gc_delta_jobs c) (gc_delta_builders c)"
          using d by (auto simp: deltas_inv_def)
        then show ?thesis using True Some done_ inv old by (auto simp: elect_delta_eq cache_inv_def is_adequate_for_def)
      next
        case False
        show ?thesis
        proof (cases "is_adequate_for old (dbl_target_revision b)")
          case True
          then show ?thesis using False Some done_ inv old by (auto simp: elect_delta_eq)
        next
          case na: False
          then show ?thesis
            using False Some done_ inv old runs spawn_delta_outcome[OF inv ts new(2), of "Some old" accepting]
            by (cases "dcs_running slot") (auto simp: elect_delta_eq)
        qed
      qed
    qed
  qed
qed

section \<open>Replay-floor invalidation\<close>

lemma fold_terminalize:
  assumes "distinct js" "\<And>j. j \<in> set js \<Longrightarrow> fmlookup jobs j = Some JobPending"
  shows "\<exists>jobs'. fold_opt (\<lambda>jobs job. terminalize barrier job jobs) jobs js = Some jobs' \<and>
    (\<forall>j. fmlookup jobs' j = (if j \<in> set js then Some (JobInvalidated barrier) else fmlookup jobs j))"
  using assms
proof (induction js arbitrary: jobs)
  case (Cons j js)
  let ?jobs1 = "fmupd j (JobInvalidated barrier) jobs"
  have t: "terminalize barrier j jobs = Some ?jobs1" using Cons.prems(2)[of j] by (simp add: terminalize_def)
  have "\<exists>jobs'. fold_opt (\<lambda>jobs job. terminalize barrier job jobs) ?jobs1 js = Some jobs' \<and>
    (\<forall>j. fmlookup jobs' j = (if j \<in> set js then Some (JobInvalidated barrier) else fmlookup ?jobs1 j))"
    by (rule Cons.IH) (use Cons.prems in auto)
  then obtain jobs' where "fold_opt (\<lambda>jobs job. terminalize barrier job jobs) ?jobs1 js = Some jobs'"
    "\<And>j. fmlookup jobs' j = (if j \<in> set js then Some (JobInvalidated barrier) else fmlookup ?jobs1 j)" by blast
  then show ?case using t by auto
qed auto

lemma distinct_map_filter:
  assumes "distinct xs" "\<And>x y j. x \<in> set xs \<Longrightarrow> y \<in> set xs \<Longrightarrow> f x = Some j \<Longrightarrow> f y = Some j \<Longrightarrow> x = y"
  shows "distinct (List.map_filter f xs)"
  using assms
proof (induction xs)
  case (Cons x xs)
  have "j \<notin> set (List.map_filter f xs)" if "f x = Some j" for j
  proof
    assume "j \<in> set (List.map_filter f xs)"
    then obtain y where "y \<in> set xs" "f y = Some j" by (auto simp: List.map_filter_def)
    then show False using Cons.prems(1) Cons.prems(2)[of x y j] that by auto
  qed
  moreover have "distinct (List.map_filter f xs)" by (rule Cons.IH) (use Cons.prems in auto)
  ultimately show ?case by (cases "f x") (auto simp: List.map_filter_simps)
qed (simp add: List.map_filter_simps)

lemma running_delta_jobs_ok:
  assumes d: "deltas_inv T V n slots jobs builders"
  shows "distinct (running_delta_jobs (fmfilter P slots))"
    and "j \<in> set (running_delta_jobs (fmfilter P slots)) \<longleftrightarrow>
      (\<exists>s slot r. fmlookup slots s = Some slot \<and> P s \<and> dcs_running slot = Some r \<and> rdj_job r = j)"
proof -
  have dist: "distinct (sorted_list_of_fmap (fmfilter P slots))"
    using distinct_sorted_list_of_fmap[of "fmfilter P slots"] by (simp add: distinct_map)
  have source: "\<exists>b. fmlookup builders j = Some b \<and> dbl_source_revision b = s"
    if "(s, slot) \<in> set (sorted_list_of_fmap (fmfilter P slots))" "map_option rdj_job (dcs_running slot) = Some j" for s slot j
    using that deltas_invD(3)[OF d, of s slot]
    by (auto simp: set_sorted_list_of_fmap delta_slot_ok_def split: option.splits if_splits)
  show "distinct (running_delta_jobs (fmfilter P slots))"
    unfolding running_delta_jobs_def
  proof (rule distinct_map_filter[OF dist], clarsimp)
    fix s slot s' slot' r r'
    assume a: "(s, slot) \<in> set (sorted_list_of_fmap (fmfilter P slots))" "(s', slot') \<in> set (sorted_list_of_fmap (fmfilter P slots))"
      "dcs_running slot = Some r" "dcs_running slot' = Some r'" "rdj_job r' = rdj_job r"
    then have "s = s'" using source[OF a(1), of "rdj_job r"] source[OF a(2), of "rdj_job r"] by auto
    then show "s = s' \<and> slot = slot'" using a(1,2) by (simp add: set_sorted_list_of_fmap)
  qed
  show "j \<in> set (running_delta_jobs (fmfilter P slots)) \<longleftrightarrow>
      (\<exists>s slot r. fmlookup slots s = Some slot \<and> P s \<and> dcs_running slot = Some r \<and> rdj_job r = j)"
    by (auto simp: running_delta_jobs_def List.map_filter_def set_sorted_list_of_fmap image_iff split: if_splits) force+
qed

lemma running_head_jobs_ok:
  assumes d: "heads_inv H n slots jobs builders"
  shows "distinct (running_head_jobs slots)"
    and "j \<in> set (running_head_jobs slots) \<longleftrightarrow> (\<exists>k slot. fmlookup slots k = Some slot \<and> hcs_running slot = Some j)"
proof -
  have dist: "distinct (sorted_list_of_fmap slots)" using distinct_sorted_list_of_fmap[of slots] by (simp add: distinct_map)
  have depth: "map_option hbl_depth (fmlookup builders j) = Some k"
    if "(k, slot) \<in> set (sorted_list_of_fmap slots)" "hcs_running slot = Some j" for k slot j
    using that heads_invD(3)[OF d, of k slot] by (simp add: set_sorted_list_of_fmap head_slot_ok_def)
  show "distinct (running_head_jobs slots)"
    unfolding running_head_jobs_def
  proof (rule distinct_map_filter[OF dist], clarsimp)
    fix k slot k' slot' j
    assume a: "(k, slot) \<in> set (sorted_list_of_fmap slots)" "(k', slot') \<in> set (sorted_list_of_fmap slots)"
      "hcs_running slot = Some j" "hcs_running slot' = Some j"
    then have "k = k'" using depth[OF a(1,3)] depth[OF a(2,4)] by simp
    then show "k = k' \<and> slot = slot'" using a(1,2) by (simp add: set_sorted_list_of_fmap)
  qed
  show "j \<in> set (running_head_jobs slots) \<longleftrightarrow> (\<exists>k slot. fmlookup slots k = Some slot \<and> hcs_running slot = Some j)"
    by (auto simp: running_head_jobs_def List.map_filter_def set_sorted_list_of_fmap image_iff) (metis option.sel)+
qed

lemma delta_slot_pending:
  "delta_slot_ok T V jobs builders s slot \<Longrightarrow> dcs_running slot = Some r \<Longrightarrow> fmlookup jobs (rdj_job r) = Some JobPending"
  by (simp add: delta_slot_ok_def)

lemma head_slot_pending:
  "head_slot_ok H jobs builders d slot \<Longrightarrow> hcs_running slot = Some j \<Longrightarrow> fmlookup jobs j = Some JobPending"
  by (simp add: head_slot_ok_def)

lemma delivered_ok_terminalized:
  "(\<And>j st. fmlookup jobs j = Some st \<Longrightarrow> j < n \<and> delivered_ok P st) \<Longrightarrow> fmlookup jobs' k = Some x \<Longrightarrow>
   (\<And>j. fmlookup jobs' j = (if j \<in> set js then Some (JobInvalidated barrier) else fmlookup jobs j)) \<Longrightarrow>
   (\<And>j. j \<in> set js \<Longrightarrow> fmlookup jobs j = Some JobPending) \<Longrightarrow> k < n \<and> delivered_ok P x"
  by (fastforce simp: delivered_ok_def split: if_splits)

lemma builder_job_ok_terminalized:
  "builder_job_ok (fmlookup jobs k) \<Longrightarrow>
   fmlookup jobs' k = (if k \<in> set js then Some (JobInvalidated barrier) else fmlookup jobs k) \<Longrightarrow>
   builder_job_ok (fmlookup jobs' k)"
  by (simp add: builder_job_ok_def)

lemma invalidate_outcome:
  assumes inv: "cache_inv T V H c" and T': "\<And>s ts. T s ts \<Longrightarrow> barrier \<le> s \<Longrightarrow> T' s ts"
  shows "\<exists>c'. invalidate_replay_floor c barrier = Some c' \<and> cache_inv T' V H c' \<and>
    gc_deltas c' = fmfilter (\<lambda>s. barrier \<le> s) (gc_deltas c) \<and>
    (\<forall>k slot. fmlookup (gc_heads c') k = Some slot \<longrightarrow> hcs_running slot = None \<and>
       (\<exists>v. hcs_completed slot = Some v \<and> barrier \<le> chs_revision v)) \<and>
    (\<forall>s slot r. fmlookup (gc_deltas c) s = Some slot \<longrightarrow> dcs_running slot = Some r \<longrightarrow> s < barrier \<longrightarrow>
       fmlookup (gc_delta_jobs c') (rdj_job r) = Some (JobInvalidated barrier) \<and> rdj_job r \<in> set (gc_cancelled_jobs c'))"
proof -
  let ?n = "gc_next_job c" and ?dj = "running_delta_jobs (fmfilter (\<lambda>s. s < barrier) (gc_deltas c))"
  let ?hj = "running_head_jobs (gc_heads c)"
  have d: "deltas_inv T V ?n (gc_deltas c) (gc_delta_jobs c) (gc_delta_builders c)"
    and h: "heads_inv H ?n (gc_heads c) (gc_head_jobs c) (gc_head_builders c)"
    using inv by (simp_all add: cache_inv_def)
  note rd = running_delta_jobs_ok[OF d, where P = "\<lambda>s. s < barrier"] and rh = running_head_jobs_ok[OF h]
  have pd: "fmlookup (gc_delta_jobs c) j = Some JobPending" if "j \<in> set ?dj" for j
    using that rd(2) delta_slot_pending[OF deltas_invD(3)[OF d]] by metis
  have ph: "fmlookup (gc_head_jobs c) j = Some JobPending" if "j \<in> set ?hj" for j
    using that rh(2) head_slot_pending[OF heads_invD(3)[OF h]] by metis
  obtain dj' where dj: "fold_opt (\<lambda>jobs job. terminalize barrier job jobs) (gc_delta_jobs c) ?dj = Some dj'"
      "\<And>j. fmlookup dj' j = (if j \<in> set ?dj then Some (JobInvalidated barrier) else fmlookup (gc_delta_jobs c) j)"
    using fold_terminalize[OF rd(1) pd] by blast
  obtain hj' where hj: "fold_opt (\<lambda>jobs job. terminalize barrier job jobs) (gc_head_jobs c) ?hj = Some hj'"
      "\<And>j. fmlookup hj' j = (if j \<in> set ?hj then Some (JobInvalidated barrier) else fmlookup (gc_head_jobs c) j)"
    using fold_terminalize[OF rh(1) ph] by blast
  have "deltas_inv T' V ?n (fmfilter (\<lambda>s. barrier \<le> s) (gc_deltas c)) dj' (gc_delta_builders c)"
  proof (rule deltas_invI)
    show "k < ?n \<and> delivered_ok (\<lambda>d. V (cd_from_revision_id d) (cd_to_revision_id d) (cd_body d)) x" if "fmlookup dj' k = Some x" for k x
      by (rule delivered_ok_terminalized[OF deltas_invD(1)[OF d] that dj(2) pd])
    show "builder_job_ok (fmlookup dj' k) \<and> V (dbl_source_revision b) (dbl_target_revision b) (dbl_entries b)"
      if "fmlookup (gc_delta_builders c) k = Some b" for k b
      using deltas_invD(2)[OF d that] builder_job_ok_terminalized[OF _ dj(2)] by blast
    show "delta_slot_ok T' V dj' (gc_delta_builders c) s slot" if "fmlookup (fmfilter (\<lambda>s. barrier \<le> s) (gc_deltas c)) s = Some slot" for s slot
    proof -
      have o: "fmlookup (gc_deltas c) s = Some slot" "barrier \<le> s" using that by (auto split: if_splits)
      note ok = deltas_invD(3)[OF d o(1)]
      have "fmlookup dj' (rdj_job r) = Some JobPending" if r: "dcs_running slot = Some r" for r
      proof -
        have "rdj_job r \<notin> set ?dj"
        proof
          assume "rdj_job r \<in> set ?dj"
          then obtain s2 slot2 r2 where s2: "fmlookup (gc_deltas c) s2 = Some slot2" "s2 < barrier" "dcs_running slot2 = Some r2"
            "rdj_job r2 = rdj_job r" using rd(2) by blast
          obtain b where "fmlookup (gc_delta_builders c) (rdj_job r) = Some b" using ok r by (auto simp: delta_slot_ok_def split: option.splits)
          then have "s2 = s"
            using delta_slot_builder[OF deltas_invD(3)[OF d s2(1)] s2(3), of b] delta_slot_builder[OF ok r, of b] s2(4) by simp
          then show False using s2(2) o(2) by simp
        qed
        then show ?thesis using dj(2) ok r by (simp add: delta_slot_ok_def)
      qed
      then show ?thesis using ok T' o(2) by (auto simp: delta_slot_ok_def split: option.splits)
    qed
  qed
  moreover have "heads_inv H ?n (fm_filter_map (\<lambda>_. retain_head_slot barrier) (gc_heads c)) hj' (gc_head_builders c)"
  proof (rule heads_invI)
    show "k < ?n \<and> delivered_ok (\<lambda>v. H (chs_depth v) v) x" if "fmlookup hj' k = Some x" for k x
      by (rule delivered_ok_terminalized[OF heads_invD(1)[OF h] that hj(2) ph])
    show "builder_job_ok (fmlookup hj' k)" if "fmlookup (gc_head_builders c) k = Some b" for k b
      by (rule builder_job_ok_terminalized[OF heads_invD(2)[OF h that] hj(2)])
    show "head_slot_ok H hj' (gc_head_builders c) k slot"
      if "fmlookup (fm_filter_map (\<lambda>_. retain_head_slot barrier) (gc_heads c)) k = Some slot" for k slot
      using that heads_invD(3)[OF h, of k]
      by (auto simp: retain_head_slot_def head_slot_ok_def split: option.splits if_splits)
  qed
  moreover have "hcs_running slot = None \<and> (\<exists>v. hcs_completed slot = Some v \<and> barrier \<le> chs_revision v)"
    if "fmlookup (fm_filter_map (\<lambda>_. retain_head_slot barrier) (gc_heads c)) k = Some slot" for k slot
    using that by (auto simp: retain_head_slot_def not_less split: option.splits if_splits)
  moreover have "rdj_job r \<in> set ?dj" if "fmlookup (gc_deltas c) s = Some slot" "dcs_running slot = Some r" "s < barrier" for s slot r
    using that rd(2) by blast
  ultimately show ?thesis using dj hj by (auto simp: invalidate_replay_floor_def Let_def cache_inv_def)
qed

section \<open>Head snapshots\<close>

lemma head_slot_ok_other:
  assumes "head_slot_ok H jobs builders d slot" "hcs_running slot \<noteq> Some j"
  shows "head_slot_ok H (fmupd j st jobs) (fmdrop j builders) d slot"
    and "head_slot_ok H (fmupd j st jobs) (fmupd j b builders) d slot"
  using assms by (auto simp: head_slot_ok_def split: option.splits)

lemma head_lookup_outcome:
  assumes inv: "cache_inv T V H c" and depth: "depth \<in> set CACHED_HEAD_WINDOW_DEPTHS"
    and ts: "\<And>d v. H d v \<Longrightarrow> chs_revision_timestamp_ms v \<le> heb_head_revision_timestamp_ms boundary"
  shows "\<exists>c' answer. head_lookup c depth boundary = Some (c', answer) \<and> cache_inv T V H c' \<and> gc_deltas c' = gc_deltas c \<and>
    (case answer of
       HeadCompleted v \<Rightarrow> H depth v \<and> boundary_admits boundary v = Some True
     | HeadRunning job \<Rightarrow> fmlookup (gc_head_jobs c) job = Some JobPending
     | HeadConstructionRequired \<Rightarrow> fmlookup (gc_heads c') depth = None)"
proof (cases "fmlookup (gc_heads c) depth")
  case None
  then show ?thesis using inv depth by (simp add: head_lookup_def)
next
  case (Some slot)
  have h: "heads_inv H (gc_next_job c) (gc_heads c) (gc_head_jobs c) (gc_head_builders c)" using inv by (simp add: cache_inv_def)
  note ok = heads_invD(3)[OF h Some]
  have adm: "\<exists>b. boundary_admits boundary v = Some b" if "hcs_completed slot = Some v" for v
    using ok that ts by (auto simp: head_slot_ok_def boundary_admits_def checked_sub_def)
  have upd: "cache_inv T V H (c\<lparr>gc_heads := slots'\<rparr>)"
    if "\<And>k sl. fmlookup slots' k = Some sl \<Longrightarrow> head_slot_ok H (gc_head_jobs c) (gc_head_builders c) k sl" for slots'
    using inv that by (auto simp: cache_inv_def heads_inv_def)
  have drop: "cache_inv T V H (c\<lparr>gc_heads := fmdrop depth (gc_heads c)\<rparr>)"
    by (rule upd) (use heads_invD(3)[OF h] in \<open>auto split: if_splits\<close>)
  have runs: "cache_inv T V H (c\<lparr>gc_heads := fmupd depth (slot\<lparr>hcs_completed := None\<rparr>) (gc_heads c)\<rparr>) \<and>
      fmlookup (gc_head_jobs c) j = Some JobPending" if "hcs_running slot = Some j" for j
    using ok that heads_invD(3)[OF h] by (auto intro!: upd simp: head_slot_ok_def split: if_splits)
  show ?thesis
  proof (cases "hcs_completed slot")
    case None
    then show ?thesis using Some depth ok runs by (auto simp: head_lookup_def head_slot_ok_def)
  next
    case v: (Some v)
    obtain b where b: "boundary_admits boundary v = Some b" using adm[OF v] by blast
    show ?thesis
    proof (cases b)
      case True
      then show ?thesis using Some v b depth inv ok by (auto simp: head_lookup_def head_slot_ok_def)
    next
      case False
      then show ?thesis using Some v b depth runs drop by (cases "hcs_running slot") (auto simp: head_lookup_def)
    qed
  qed
qed

lemma finish_head_job_outcome:
  assumes inv: "cache_inv T V H c" and b: "fmlookup (gc_head_builders c) j = Some b"
    and res: "\<And>v. result = Inr v \<Longrightarrow> chs_depth v = hbl_depth b \<and> H (hbl_depth b) v"
  shows "\<exists>c'. finish_head_job c (hbl_depth b) j result = Some c' \<and> cache_inv T V H c' \<and> gc_deltas c' = gc_deltas c \<and>
    gc_delta_builders c' = gc_delta_builders c \<and> gc_head_builders c' = fmdrop j (gc_head_builders c)"
proof -
  let ?k = "hbl_depth b" and ?jobs = "gc_head_jobs c" and ?builders = "gc_head_builders c"
  have h: "heads_inv H (gc_next_job c) (gc_heads c) ?jobs ?builders" using inv by (simp add: cache_inv_def)
  obtain st st' where st: "fmlookup ?jobs j = Some st" "job_complete st result = Some st'" "delivered_ok (\<lambda>v. H (chs_depth v) v) st'"
    using job_complete_ok[OF heads_invD(2)[OF h b], of result "\<lambda>v. H (chs_depth v) v"] res by fastforce
  have other: "hcs_running slot \<noteq> Some j" if "fmlookup (gc_heads c) k = Some slot" "k \<noteq> ?k" for k slot
    using heads_invD(3)[OF h that(1)] that(2) b by (auto simp: head_slot_ok_def)
  have parts: "heads_inv H (gc_next_job c) slots' (fmupd j st' ?jobs) (fmdrop j ?builders)"
    if slots': "\<And>k slot. fmlookup slots' k = Some slot \<Longrightarrow> head_slot_ok H (fmupd j st' ?jobs) (fmdrop j ?builders) k slot" for slots'
  proof (rule heads_invI)
    show "k < gc_next_job c \<and> delivered_ok (\<lambda>v. H (chs_depth v) v) x" if "fmlookup (fmupd j st' ?jobs) k = Some x" for k x
      using that heads_invD(1)[OF h st(1)] heads_invD(1)[OF h, of k x] st(3) by (auto split: if_splits)
    show "builder_job_ok (fmlookup (fmupd j st' ?jobs) k)" if "fmlookup (fmdrop j ?builders) k = Some x" for k x
      using that heads_invD(2)[OF h, of k x] by (auto split: if_splits)
  qed (rule slots')
  have rest: "head_slot_ok H (fmupd j st' ?jobs) (fmdrop j ?builders) k slot"
    if "fmlookup (gc_heads c) k = Some slot" "hcs_running slot \<noteq> Some j" for k slot
    by (rule head_slot_ok_other(1)[OF heads_invD(3)[OF h that(1)] that(2)])
  have "\<exists>slots'. head_finish_slot c ?k j result = Some (c\<lparr>gc_heads := slots'\<rparr>) \<and>
      (\<forall>k slot. fmlookup slots' k = Some slot \<longrightarrow> head_slot_ok H (fmupd j st' ?jobs) (fmdrop j ?builders) k slot)"
  proof (cases "\<exists>slot. fmlookup (gc_heads c) ?k = Some slot \<and> hcs_running slot = Some j")
    case False
    then have "head_finish_slot c ?k j result = Some (c\<lparr>gc_heads := gc_heads c\<rparr>)"
      by (auto simp: head_finish_slot_def split: option.splits)
    moreover have "head_slot_ok H (fmupd j st' ?jobs) (fmdrop j ?builders) k slot" if "fmlookup (gc_heads c) k = Some slot" for k slot
      using rest[OF that] other[OF that] False that by blast
    ultimately show ?thesis by blast
  next
    case True
    then obtain slot where sl: "fmlookup (gc_heads c) ?k = Some slot" "hcs_running slot = Some j" by blast
    define completed where "completed = (case result of Inl _ \<Rightarrow> hcs_completed slot | Inr v \<Rightarrow> Some v)"
    define slots' where "slots' = (case completed of None \<Rightarrow> fmdrop ?k (gc_heads c)
        | Some _ \<Rightarrow> fmupd ?k \<lparr>hcs_completed = completed, hcs_running = None\<rparr> (gc_heads c))"
    have "head_finish_slot c ?k j result = Some (c\<lparr>gc_heads := slots'\<rparr>)"
      using sl res by (auto simp: head_finish_slot_def slots'_def completed_def split: sum.splits option.splits)
    moreover have "head_slot_ok H (fmupd j st' ?jobs) (fmdrop j ?builders) k sl'" if "fmlookup slots' k = Some sl'" for k sl'
    proof (cases "k = ?k")
      case True
      then have "sl' = \<lparr>hcs_completed = completed, hcs_running = None\<rparr>" "completed \<noteq> None"
        using that by (auto simp: slots'_def split: option.splits)
      then show ?thesis using heads_invD(3)[OF h sl(1)] res True
        by (auto simp: head_slot_ok_def completed_def split: sum.splits option.splits)
    next
      case False
      then have "fmlookup (gc_heads c) k = Some sl'" using that by (auto simp: slots'_def split: option.splits)
      then show ?thesis using rest other False by blast
    qed
    ultimately show ?thesis by blast
  qed
  then obtain slots' where s': "head_finish_slot c ?k j result = Some (c\<lparr>gc_heads := slots'\<rparr>)"
      "\<And>k slot. fmlookup slots' k = Some slot \<Longrightarrow> head_slot_ok H (fmupd j st' ?jobs) (fmdrop j ?builders) k slot" by blast
  show ?thesis using s' st parts[OF s'(2)] inv by (auto simp: finish_head_job_def cache_inv_def)
qed

lemma spawn_head_outcome:
  assumes inv: "cache_inv T V H c" and none: "\<And>slot. fmlookup (gc_heads c) (hbl_depth b) = Some slot \<Longrightarrow> hcs_running slot = None"
  defines "n \<equiv> gc_next_job c"
  defines "c1 \<equiv> c\<lparr>gc_heads := fmupd (hbl_depth b) \<lparr>hcs_completed = None, hcs_running = Some n\<rparr> (gc_heads c),
                   gc_head_jobs := fmupd n JobPending (gc_head_jobs c), gc_next_job := n + 1\<rparr>"
  shows "cache_inv T V H (c1\<lparr>gc_head_builders := fmupd n b (gc_head_builders c1)\<rparr>)"
    and "\<exists>c2. finish_head_job c1 (hbl_depth b) n (Inl BuildCancelled) = Some c2 \<and> cache_inv T V H c2 \<and>
      gc_deltas c2 = gc_deltas c \<and> n |\<in>| fmdom (gc_head_jobs c2)"
proof -
  let ?k = "hbl_depth b" and ?jobs = "gc_head_jobs c" and ?builders = "gc_head_builders c"
  have d: "deltas_inv T V n (gc_deltas c) (gc_delta_jobs c) (gc_delta_builders c)" and h: "heads_inv H n (gc_heads c) ?jobs ?builders"
    using inv by (simp_all add: cache_inv_def n_def)
  have d': "deltas_inv T V (n + 1) (gc_deltas c) (gc_delta_jobs c) (gc_delta_builders c)" by (rule deltas_inv_mono[OF d]) simp_all
  have fresh: "fmlookup ?jobs n = None" using heads_invD(1)[OF h, of n] by (cases "fmlookup ?jobs n") auto
  then have freshb: "fmlookup ?builders n = None"
    using heads_invD(2)[OF h, of n] by (cases "fmlookup ?builders n") (auto simp: builder_job_ok_def)
  have nr: "hcs_running slot \<noteq> Some n" if "fmlookup (gc_heads c) k = Some slot" for k slot
    using head_slot_pending[OF heads_invD(3)[OF h that]] fresh by auto
  have jobs: "k < n + 1 \<and> delivered_ok (\<lambda>v. H (chs_depth v) v) x"
    if "fmlookup (fmupd n st ?jobs) k = Some x" "delivered_ok (\<lambda>v. H (chs_depth v) v) st" for st k x
    using that heads_invD(1)[OF h, of k x] by (auto split: if_splits)
  have "heads_inv H (n + 1) (fmupd ?k \<lparr>hcs_completed = None, hcs_running = Some n\<rparr> (gc_heads c)) (fmupd n JobPending ?jobs) (fmupd n b ?builders)"
  proof (rule heads_invI)
    show "builder_job_ok (fmlookup (fmupd n JobPending ?jobs) k)" if "fmlookup (fmupd n b ?builders) k = Some x" for k x
      using that heads_invD(2)[OF h, of k x] by (auto simp: builder_job_ok_def split: if_splits)
    show "head_slot_ok H (fmupd n JobPending ?jobs) (fmupd n b ?builders) k slot"
      if "fmlookup (fmupd ?k \<lparr>hcs_completed = None, hcs_running = Some n\<rparr> (gc_heads c)) k = Some slot" for k slot
    proof (cases "k = ?k")
      case True
      then have "slot = \<lparr>hcs_completed = None, hcs_running = Some n\<rparr>" using that by simp
      then show ?thesis using True by (simp add: head_slot_ok_def)
    next
      case False
      then have o: "fmlookup (gc_heads c) k = Some slot" using that by simp
      show ?thesis by (rule head_slot_ok_other(2)[OF heads_invD(3)[OF h o] nr[OF o]])
    qed
  qed (erule jobs, simp add: delivered_ok_def)
  then show "cache_inv T V H (c1\<lparr>gc_head_builders := fmupd n b (gc_head_builders c1)\<rparr>)"
    using d' by (simp add: cache_inv_def c1_def)
  have "heads_inv H (n + 1) (fmdrop ?k (gc_heads c)) (fmupd n (JobComplete (Inl BuildCancelled)) ?jobs) (fmdrop n ?builders)"
  proof (rule heads_invI)
    show "builder_job_ok (fmlookup (fmupd n (JobComplete (Inl BuildCancelled)) ?jobs) k)" if "fmlookup (fmdrop n ?builders) k = Some x" for k x
      using that heads_invD(2)[OF h, of k x] by (auto split: if_splits)
    show "head_slot_ok H (fmupd n (JobComplete (Inl BuildCancelled)) ?jobs) (fmdrop n ?builders) k slot"
      if "fmlookup (fmdrop ?k (gc_heads c)) k = Some slot" for k slot
    proof -
      have o: "fmlookup (gc_heads c) k = Some slot" using that by (auto split: if_splits)
      show ?thesis by (rule head_slot_ok_other(1)[OF heads_invD(3)[OF h o] nr[OF o]])
    qed
  qed (erule jobs, simp add: delivered_ok_def)
  moreover have "fmdrop ?k (fmupd ?k \<lparr>hcs_completed = None, hcs_running = Some n\<rparr> (gc_heads c)) = fmdrop ?k (gc_heads c)"
    "fmupd n (JobComplete (Inl BuildCancelled)) (fmupd n JobPending ?jobs) = fmupd n (JobComplete (Inl BuildCancelled)) ?jobs"
    by (rule fmap_ext, simp)+
  ultimately show "\<exists>c2. finish_head_job c1 (hbl_depth b) n (Inl BuildCancelled) = Some c2 \<and> cache_inv T V H c2 \<and>
      gc_deltas c2 = gc_deltas c \<and> n |\<in>| fmdom (gc_head_jobs c2)"
    using d' by (simp add: finish_head_job_def head_finish_slot_def c1_def cache_inv_def)
qed

lemma elect_head_outcome:
  assumes inv: "cache_inv T V H c" and depth: "hbl_depth b \<in> set CACHED_HEAD_WINDOW_DEPTHS"
    and ts: "\<And>d v. H d v \<Longrightarrow> chs_revision_timestamp_ms v \<le> heb_head_revision_timestamp_ms boundary"
  shows "\<exists>c' access. elect_head c accepting boundary b = Some (c', access) \<and> cache_inv T V H c' \<and> gc_deltas c' = gc_deltas c \<and>
    (case access of
       AccessCompleted v \<Rightarrow> H (hbl_depth b) v \<and> boundary_admits boundary v = Some True
     | AccessJob job \<Rightarrow> job |\<in>| fmdom (gc_head_jobs c'))"
proof -
  have h: "heads_inv H (gc_next_job c) (gc_heads c) (gc_head_jobs c) (gc_head_builders c)" using inv by (simp add: cache_inv_def)
  define slot where "slot = (case fmlookup (gc_heads c) (hbl_depth b) of
      Some slot \<Rightarrow> slot | None \<Rightarrow> \<lparr>hcs_completed = None, hcs_running = None\<rparr>)"
  have adm: "H (hbl_depth b) v \<and> (\<exists>x. boundary_admits boundary v = Some x)" if "hcs_completed slot = Some v" for v
    using that heads_invD(3)[OF h, of "hbl_depth b"] ts
    by (auto simp: slot_def head_slot_ok_def boundary_admits_def checked_sub_def split: option.splits)
  define eligible where "eligible = (case hcs_completed slot of
      None \<Rightarrow> Some None
    | Some completed \<Rightarrow> map_option (\<lambda>ok. if ok then Some completed else None) (boundary_admits boundary completed))"
  show ?thesis
  proof (cases "\<exists>v. eligible = Some (Some v)")
    case True
    then obtain v where v: "eligible = Some (Some v)" "H (hbl_depth b) v" "boundary_admits boundary v = Some True"
      using adm by (auto simp: eligible_def split: option.splits if_splits)
    then show ?thesis using depth inv by (simp add: elect_head_def Let_def slot_def[symmetric] eligible_def[symmetric])
  next
    case False
    then have e: "eligible = Some None" using adm by (auto simp: eligible_def split: option.splits if_splits)
    show ?thesis
    proof (cases "hcs_running slot")
      case (Some job)
      then have sl: "fmlookup (gc_heads c) (hbl_depth b) = Some slot" by (auto simp: slot_def split: option.splits)
      note ok = heads_invD(3)[OF h sl]
      have "head_slot_ok H (gc_head_jobs c) (gc_head_builders c) (hbl_depth b) (slot\<lparr>hcs_completed := None\<rparr>)"
        using ok Some by (simp add: head_slot_ok_def)
      then have "cache_inv T V H (c\<lparr>gc_heads := fmupd (hbl_depth b) (slot\<lparr>hcs_completed := None\<rparr>) (gc_heads c)\<rparr>)"
        using inv by (auto simp: cache_inv_def heads_inv_def)
      then show ?thesis using Some depth e fmdomI[OF head_slot_pending[OF ok Some]]
        by (simp add: elect_head_def Let_def slot_def[symmetric] eligible_def[symmetric])
    next
      case None
      have nr: "hcs_running sl = None" if "fmlookup (gc_heads c) (hbl_depth b) = Some sl" for sl
        using None that by (simp add: slot_def)
      show ?thesis using None depth e spawn_head_outcome[OF inv nr]
        by (cases accepting) (auto simp: elect_head_def Let_def slot_def[symmetric] eligible_def[symmetric])
    qed
  qed
qed

end
