(* ===== verification/Client_Wakeups.thy ===== *)
theory Client_Wakeups
  imports Client_Registry "HOL-Library.Sublist"
begin

text \<open>
  Correctness of the client registry: what one pass over the clients does to each of them, the invariant
  that no scheduled wakeup is lost and none that is queued is out of date, and its preservation by every
  operation of the registry and of the connections.
\<close>

section \<open>A pass over the clients\<close>

text \<open>What a pass needs of the step it applies to each client: the step looks at the client's own mailbox
  only, changes no other one, and cancels the connection of a client it drops.\<close>

locale mailbox_local =
  fixes f :: "sse_client_registration \<Rightarrow> sse_world \<Rightarrow> sse_client_registration option \<times> sse_world"
    and marks :: "sse_client_registration \<Rightarrow> sse_mailbox option \<Rightarrow> nat list"
  assumes reads: "fmlookup (sw_mailboxes w) (scr_mailbox r) = fmlookup (sw_mailboxes w') (scr_mailbox r) \<Longrightarrow>
      fst (f r w) = fst (f r w') \<and>
      fmlookup (sw_mailboxes (snd (f r w))) (scr_mailbox r) = fmlookup (sw_mailboxes (snd (f r w'))) (scr_mailbox r)"
    and frame: "i \<noteq> scr_mailbox r \<Longrightarrow> fmlookup (sw_mailboxes (snd (f r w))) i = fmlookup (sw_mailboxes w) i"
    and keeps: "fst (f r w) = Some r' \<Longrightarrow> scr_mailbox r' = scr_mailbox r \<and> scr_disconnect r' = scr_disconnect r"
    and marks_logged: "sw_notified (snd (f r w)) = sw_notified w @ marks r (fmlookup (sw_mailboxes w) (scr_mailbox r))"
    and cancels: "sw_cancelled (snd (f r w)) =
      sw_cancelled w @ (if fst (f r w) = None then [scr_disconnect r] else [])"
begin

lemma fold_retain:
  assumes "distinct (map fst es)" "distinct (map (scr_mailbox \<circ> snd) es)" "\<And>k r. (k, r) \<in> set es \<Longrightarrow> fmlookup cl k = None"
    and "fold (retain_step f) es (cl, w) = (cl', w')"
  shows "(\<forall>(k, r) \<in> set es. fmlookup cl' k = fst (f r w) \<and>
        fmlookup (sw_mailboxes w') (scr_mailbox r) = fmlookup (sw_mailboxes (snd (f r w))) (scr_mailbox r) \<and>
        (fst (f r w) = None \<longrightarrow> scr_disconnect r \<in> set (sw_cancelled w')) \<and>
        set (marks r (fmlookup (sw_mailboxes w) (scr_mailbox r))) \<subseteq> set (sw_notified w')) \<and>
      (\<forall>k. k \<notin> fst ` set es \<longrightarrow> fmlookup cl' k = fmlookup cl k) \<and>
      (\<forall>i. i \<notin> (scr_mailbox \<circ> snd) ` set es \<longrightarrow> fmlookup (sw_mailboxes w') i = fmlookup (sw_mailboxes w) i) \<and>
      set (sw_cancelled w) \<subseteq> set (sw_cancelled w') \<and> set (sw_notified w) \<subseteq> set (sw_notified w')"
  using assms
proof (induction es arbitrary: cl w)
  case (Cons e es)
  obtain k r where e: "e = (k, r)" by fastforce
  obtain ro w1 where s: "f r w = (ro, w1)" by fastforce
  define cl1 where "cl1 = (case ro of Some r' \<Rightarrow> fmupd k r' cl | None \<Rightarrow> cl)"
  have step: "retain_step f e (cl, w) = (cl1, w1)"
    by (simp add: retain_step_def e s cl1_def split: option.splits)
  have ih: "(\<forall>(k, r) \<in> set es. fmlookup cl' k = fst (f r w1) \<and>
        fmlookup (sw_mailboxes w') (scr_mailbox r) = fmlookup (sw_mailboxes (snd (f r w1))) (scr_mailbox r) \<and>
        (fst (f r w1) = None \<longrightarrow> scr_disconnect r \<in> set (sw_cancelled w')) \<and>
        set (marks r (fmlookup (sw_mailboxes w1) (scr_mailbox r))) \<subseteq> set (sw_notified w')) \<and>
      (\<forall>k. k \<notin> fst ` set es \<longrightarrow> fmlookup cl' k = fmlookup cl1 k) \<and>
      (\<forall>i. i \<notin> (scr_mailbox \<circ> snd) ` set es \<longrightarrow> fmlookup (sw_mailboxes w') i = fmlookup (sw_mailboxes w1) i) \<and>
      set (sw_cancelled w1) \<subseteq> set (sw_cancelled w') \<and> set (sw_notified w1) \<subseteq> set (sw_notified w')"
  proof (rule Cons.IH)
    show "fmlookup cl1 k' = None" if "(k', r') \<in> set es" for k' r'
      using that Cons.prems(1,3) by (force simp: cl1_def e split: option.splits)
  qed (use Cons.prems step in auto)
  have same: "fmlookup (sw_mailboxes w1) (scr_mailbox r') = fmlookup (sw_mailboxes w) (scr_mailbox r')"
    if "(k', r') \<in> set es" for k' r'
    using frame[of "scr_mailbox r'" r w] that Cons.prems(2) by (force simp: e s)
  have logs: "set (sw_cancelled w) \<subseteq> set (sw_cancelled w1)" "set (sw_notified w) \<subseteq> set (sw_notified w1)"
      "ro = None \<Longrightarrow> scr_disconnect r \<in> set (sw_cancelled w1)"
      "set (marks r (fmlookup (sw_mailboxes w) (scr_mailbox r))) \<subseteq> set (sw_notified w1)"
    using cancels[of r w] marks_logged[of r w] by (auto simp: s)
  have k: "k \<notin> fst ` set es" "scr_mailbox r \<notin> (scr_mailbox \<circ> snd) ` set es" using Cons.prems(1,2) by (auto simp: e)
  have "fmlookup cl k = None" using Cons.prems(3)[of k r] by (simp add: e)
  then have here: "fmlookup cl' k = ro" "fmlookup (sw_mailboxes w') (scr_mailbox r) = fmlookup (sw_mailboxes w1) (scr_mailbox r)"
    using ih k by (auto simp: cl1_def split: option.splits)
  have there: "fmlookup cl' k' = fst (f r' w) \<and>
        fmlookup (sw_mailboxes w') (scr_mailbox r') = fmlookup (sw_mailboxes (snd (f r' w))) (scr_mailbox r') \<and>
        (fst (f r' w) = None \<longrightarrow> scr_disconnect r' \<in> set (sw_cancelled w')) \<and>
        set (marks r' (fmlookup (sw_mailboxes w) (scr_mailbox r'))) \<subseteq> set (sw_notified w')"
    if "(k', r') \<in> set es" for k' r'
    using bspec[OF conjunct1[OF ih] that] same[OF that] reads[OF same[OF that]] by simp
  have "fmlookup cl' k' = fmlookup cl k'" if "k' \<notin> fst ` set (e # es)" for k'
    using that ih by (auto simp: e cl1_def split: option.splits)
  moreover have "fmlookup (sw_mailboxes w') i = fmlookup (sw_mailboxes w) i" if "i \<notin> (scr_mailbox \<circ> snd) ` set (e # es)" for i
    using that ih frame[of i r w] by (auto simp: e s)
  moreover have "set (sw_cancelled w) \<subseteq> set (sw_cancelled w')" "set (sw_notified w) \<subseteq> set (sw_notified w')"
    "ro = None \<longrightarrow> scr_disconnect r \<in> set (sw_cancelled w')"
    "set (marks r (fmlookup (sw_mailboxes w) (scr_mailbox r))) \<subseteq> set (sw_notified w')"
    using logs ih by blast+
  ultimately show ?case using here there by (intro conjI ballI) (auto simp: e s dest!: there)
qed auto

end

definition mailboxes_distinct :: "(u64, sse_client_registration) fmap \<Rightarrow> bool" where
  "mailboxes_distinct clients \<longleftrightarrow>
     (\<forall>k k' r r'. fmlookup clients k = Some r \<longrightarrow> fmlookup clients k' = Some r' \<longrightarrow> scr_mailbox r = scr_mailbox r' \<longrightarrow> k = k')"

definition owned_mailboxes :: "(u64, sse_client_registration) fmap \<Rightarrow> nat set" where
  "owned_mailboxes clients = scr_mailbox ` fmran' clients"

lemma owned_iff: "i \<in> owned_mailboxes clients \<longleftrightarrow> (\<exists>k r. fmlookup clients k = Some r \<and> scr_mailbox r = i)"
  by (auto simp: owned_mailboxes_def fmran'_def ran_def image_iff)

context mailbox_local
begin

lemma retain_outcome:
  assumes "mailboxes_distinct clients" and "retain_entries f clients w = (clients', w')"
  shows "\<And>k. fmlookup clients' k = Option.bind (fmlookup clients k) (\<lambda>r. fst (f r w))"
    and "\<And>k r. fmlookup clients k = Some r \<Longrightarrow>
      fmlookup (sw_mailboxes w') (scr_mailbox r) = fmlookup (sw_mailboxes (snd (f r w))) (scr_mailbox r) \<and>
      (fst (f r w) = None \<longrightarrow> scr_disconnect r \<in> set (sw_cancelled w')) \<and>
      set (marks r (fmlookup (sw_mailboxes w) (scr_mailbox r))) \<subseteq> set (sw_notified w')"
    and "\<And>i. i \<notin> owned_mailboxes clients \<Longrightarrow> fmlookup (sw_mailboxes w') i = fmlookup (sw_mailboxes w) i"
    and "set (sw_cancelled w) \<subseteq> set (sw_cancelled w')" "set (sw_notified w) \<subseteq> set (sw_notified w')"
proof -
  let ?es = "sorted_list_of_fmap clients"
  have "inj_on (scr_mailbox \<circ> snd) (set ?es)"
    using assms(1) by (fastforce simp: inj_on_def set_sorted_list_of_fmap mailboxes_distinct_def)
  then have d: "distinct (map (scr_mailbox \<circ> snd) ?es)"
    using distinct_sorted_list_of_fmap[of clients] by (simp add: distinct_map)
  have fo: "fold (retain_step f) ?es (fmempty, w) = (clients', w')" using assms(2) by (simp add: retain_entries_def)
  have sp: "(\<forall>(k, r) \<in> set ?es. fmlookup clients' k = fst (f r w) \<and>
        fmlookup (sw_mailboxes w') (scr_mailbox r) = fmlookup (sw_mailboxes (snd (f r w))) (scr_mailbox r) \<and>
        (fst (f r w) = None \<longrightarrow> scr_disconnect r \<in> set (sw_cancelled w')) \<and>
        set (marks r (fmlookup (sw_mailboxes w) (scr_mailbox r))) \<subseteq> set (sw_notified w')) \<and>
      (\<forall>k. k \<notin> fst ` set ?es \<longrightarrow> fmlookup clients' k = fmlookup fmempty k) \<and>
      (\<forall>i. i \<notin> (scr_mailbox \<circ> snd) ` set ?es \<longrightarrow> fmlookup (sw_mailboxes w') i = fmlookup (sw_mailboxes w) i) \<and>
      set (sw_cancelled w) \<subseteq> set (sw_cancelled w') \<and> set (sw_notified w) \<subseteq> set (sw_notified w')"
    by (rule fold_retain[OF distinct_sorted_list_of_fmap d _ fo]) simp
  show "fmlookup clients' k = Option.bind (fmlookup clients k) (\<lambda>r. fst (f r w))" for k
  proof (cases "fmlookup clients k")
    case None
    then have "k \<notin> fst ` set ?es" by (auto simp: set_sorted_list_of_fmap)
    then show ?thesis using sp None by simp
  next
    case (Some r)
    then have "(k, r) \<in> set ?es" by (simp add: set_sorted_list_of_fmap)
    then show ?thesis using sp Some by auto
  qed
  show "fmlookup (sw_mailboxes w') (scr_mailbox r) = fmlookup (sw_mailboxes (snd (f r w))) (scr_mailbox r) \<and>
      (fst (f r w) = None \<longrightarrow> scr_disconnect r \<in> set (sw_cancelled w')) \<and>
      set (marks r (fmlookup (sw_mailboxes w) (scr_mailbox r))) \<subseteq> set (sw_notified w')"
    if "fmlookup clients k = Some r" for k r
    using bspec[OF conjunct1[OF sp], of "(k, r)"] that by (simp add: set_sorted_list_of_fmap)
  show "fmlookup (sw_mailboxes w') i = fmlookup (sw_mailboxes w) i" if "i \<notin> owned_mailboxes clients" for i
  proof -
    have "i \<notin> (scr_mailbox \<circ> snd) ` set ?es" using that by (fastforce simp: owned_iff set_sorted_list_of_fmap)
    then show ?thesis using sp by blast
  qed
  show "set (sw_cancelled w) \<subseteq> set (sw_cancelled w')" "set (sw_notified w) \<subseteq> set (sw_notified w')" using sp by auto
qed

lemma retain_distinct:
  assumes "mailboxes_distinct clients" and "retain_entries f clients w = (clients', w')"
  shows "mailboxes_distinct clients'" "owned_mailboxes clients' \<subseteq> owned_mailboxes clients"
    "fmdom clients' |\<subseteq>| fmdom clients"
proof -
  note lk = retain_outcome(1)[OF assms]
  have old: "\<exists>r0. fmlookup clients k = Some r0 \<and> scr_mailbox r0 = scr_mailbox r" if "fmlookup clients' k = Some r" for k r
    using that lk[of k] keeps by (auto simp: bind_eq_Some_conv)
  show "mailboxes_distinct clients'"
    unfolding mailboxes_distinct_def
  proof (intro allI impI)
    fix k k' r r'
    assume a: "fmlookup clients' k = Some r" "fmlookup clients' k' = Some r'" "scr_mailbox r = scr_mailbox r'"
    then show "k = k'" using old[OF a(1)] old[OF a(2)] assms(1) by (auto simp: mailboxes_distinct_def)
  qed
  show "owned_mailboxes clients' \<subseteq> owned_mailboxes clients"
    using old by (auto simp: owned_iff) (metis)
  show "fmdom clients' |\<subseteq>| fmdom clients"
    by (metis fmdom_notI fmdom_notD fsubsetI lk bind.bind_lzero)
qed

end

lemmas world_defs = store_mailbox_def notify_receiver_def cancel_connection_def

interpretation live_pass: mailbox_local retain_live "\<lambda>_ _. []"
  by unfold_locales (auto simp: retain_live_def world_defs split: option.splits)

interpretation state_pass: mailbox_local "publish_state_step message"
    "\<lambda>r mo. case mo of None \<Rightarrow> [] | Some m \<Rightarrow>
       if snd (mailbox_admit_required m [message]) = Inr () then [scr_mailbox r] else []"
  by unfold_locales (auto simp: publish_state_step_def world_defs split: option.splits prod.splits sum.splits)

text \<open>The mailbox and the answer of one client when the Head advances.\<close>

definition advance_mailbox ::
  "u64 \<Rightarrow> u64 \<Rightarrow> sse_client_registration \<Rightarrow> sse_mailbox \<Rightarrow> sse_mailbox \<times> (sse_mailbox_admission_error + bool)" where
  "advance_mailbox publication_id revision r m =
     (let wakeup = PublicationWakeup publication_id revision
      in if dws_wake_sent (scr_schedule r) then mailbox_coalesce_graph_wakeup m wakeup
         else if dws_wake_at_revision_id (scr_schedule r) \<le> revision then
           (case mailbox_admit_graph_wakeup m wakeup of (m', result) \<Rightarrow> (m', map_sum id (\<lambda>_. True) result))
         else (m, Inr False))"

definition advance_registration :: "u64 \<Rightarrow> sse_client_registration \<Rightarrow> sse_client_registration" where
  "advance_registration revision r =
     (if \<not> dws_wake_sent (scr_schedule r) \<and> dws_wake_at_revision_id (scr_schedule r) \<le> revision
      then r\<lparr>scr_schedule := (scr_schedule r)\<lparr>dws_wake_sent := True\<rparr>\<rparr> else r)"

lemma advance_head_step_eq:
  "advance_head_step p revision r w =
     (case fmlookup (sw_mailboxes w) (scr_mailbox r) of
        None \<Rightarrow> (None, cancel_connection (scr_disconnect r) w)
      | Some m \<Rightarrow>
          (case advance_mailbox p revision r m of
             (_, Inl _) \<Rightarrow> (None, cancel_connection (scr_disconnect r) w)
           | (m', Inr queued) \<Rightarrow>
               (Some (advance_registration revision r),
                (if queued then notify_receiver (scr_mailbox r) else id) (store_mailbox (scr_mailbox r) m' w))))"
  by (auto simp: advance_head_step_def advance_mailbox_def advance_registration_def Let_def split: option.splits prod.splits sum.splits)

interpretation head_pass: mailbox_local "advance_head_step p revision"
    "\<lambda>r mo. case mo of None \<Rightarrow> [] | Some m \<Rightarrow>
       if snd (advance_mailbox p revision r m) = Inr True then [scr_mailbox r] else []"
  by unfold_locales
     (auto simp: advance_head_step_eq world_defs advance_registration_def split: option.splits prod.splits sum.splits)

section \<open>The invariant\<close>

text \<open>A client whose wakeup is not sent waits for a revision the Head has not reached, and has no wakeup
  queued; a queued wakeup is unique and carries the current Head.\<close>

definition client_ok :: "u64 \<Rightarrow> u64 \<Rightarrow> sse_client_registration \<Rightarrow> sse_mailbox option \<Rightarrow> bool" where
  "client_ok p head r mo \<longleftrightarrow>
     (dws_wake_sent (scr_schedule r) \<or> head < dws_wake_at_revision_id (scr_schedule r)) \<and>
     (case mo of
        None \<Rightarrow> True
      | Some m \<Rightarrow> queued_revisions p (mb_queue m) = [] \<or>
          dws_wake_sent (scr_schedule r) \<and> queued_revisions p (mb_queue m) = [head])"

definition clients_ok :: "u64 \<Rightarrow> u64 \<Rightarrow> (u64, sse_client_registration) fmap \<Rightarrow> (nat, sse_mailbox) fmap \<Rightarrow> bool" where
  "clients_ok p head clients mbs \<longleftrightarrow>
     mailboxes_distinct clients \<and> fcard (fmdom clients) \<le> MAX_SSE_CLIENTS \<and>
     fmpred (\<lambda>_ r. client_ok p head r (fmlookup mbs (scr_mailbox r))) clients"

definition registry_inv :: "sse_client_registry \<Rightarrow> sse_world \<Rightarrow> bool" where
  "registry_inv reg w \<longleftrightarrow>
     clients_ok (reg_publication_id reg) (reg_head_revision_id reg) (reg_clients reg) (sw_mailboxes w)"

definition mailboxes_ok :: "(nat, sse_mailbox) fmap \<Rightarrow> bool" where
  "mailboxes_ok mbs \<longleftrightarrow> fmpred (\<lambda>_ m. mailbox_ok m) mbs"

lemma mailboxes_okI: "(\<And>i m. fmlookup mbs i = Some m \<Longrightarrow> mailbox_ok m) \<Longrightarrow> mailboxes_ok mbs"
  by (simp add: mailboxes_ok_def fmpred_iff)

lemma mailboxes_okD: "mailboxes_ok mbs \<Longrightarrow> fmlookup mbs i = Some m \<Longrightarrow> mailbox_ok m"
  by (simp add: mailboxes_ok_def fmpred_iff)

text \<open>What a step of a pass has to do for one client, and that the pass then keeps the invariant.\<close>

definition step_serves ::
  "u64 \<Rightarrow> u64 \<Rightarrow> sse_client_registration \<Rightarrow> sse_client_registration option \<times> sse_world \<Rightarrow> bool" where
  "step_serves p head r result \<longleftrightarrow>
     (case fmlookup (sw_mailboxes (snd result)) (scr_mailbox r) of None \<Rightarrow> True | Some m \<Rightarrow> mailbox_ok m) \<and>
     (case fst result of
        None \<Rightarrow> True
      | Some r' \<Rightarrow> client_ok p head r' (fmlookup (sw_mailboxes (snd result)) (scr_mailbox r)))"

context mailbox_local
begin

lemma pass_inv:
  assumes inv: "clients_ok p head clients (sw_mailboxes w)" "mailboxes_ok (sw_mailboxes w)"
    and serves: "\<And>r. client_ok p head r (fmlookup (sw_mailboxes w) (scr_mailbox r)) \<Longrightarrow> step_serves p head' r (f r w)"
    and pass: "retain_entries f clients w = (clients', w')"
  shows "clients_ok p head' clients' (sw_mailboxes w') \<and> mailboxes_ok (sw_mailboxes w')"
proof -
  have d: "mailboxes_distinct clients" using inv(1) by (simp add: clients_ok_def)
  have ok: "client_ok p head r (fmlookup (sw_mailboxes w) (scr_mailbox r))" if "fmlookup clients k = Some r" for k r
    using inv(1) that by (auto simp: clients_ok_def fmpred_iff)
  note lk = retain_outcome[OF d pass]
  have "mailbox_ok m" if m: "fmlookup (sw_mailboxes w') i = Some m" for i m
  proof (cases "i \<in> owned_mailboxes clients")
    case True
    then obtain k r where r: "fmlookup clients k = Some r" "scr_mailbox r = i" by (auto simp: owned_iff)
    then have "fmlookup (sw_mailboxes (snd (f r w))) i = Some m" using lk(2)[OF r(1)] m by simp
    then show ?thesis using serves[OF ok[OF r(1)]] r(2) by (simp add: step_serves_def)
  next
    case False
    then show ?thesis using lk(3) m mailboxes_okD[OF inv(2)] by simp
  qed
  moreover have "client_ok p head' r' (fmlookup (sw_mailboxes w') (scr_mailbox r'))" if r': "fmlookup clients' k = Some r'" for k r'
  proof -
    obtain r where r: "fmlookup clients k = Some r" "fst (f r w) = Some r'" using r' lk(1)[of k] by (auto simp: bind_eq_Some_conv)
    then show ?thesis using serves[OF ok[OF r(1)]] lk(2)[OF r(1)] keeps[OF r(2)] by (simp add: step_serves_def)
  qed
  moreover have "fcard (fmdom clients') \<le> MAX_SSE_CLIENTS"
    using fcard_mono[OF retain_distinct(3)[OF d pass]] inv(1) by (simp add: clients_ok_def)
  ultimately show ?thesis
    using retain_distinct(1)[OF d pass] by (auto simp: clients_ok_def fmpred_iff intro: mailboxes_okI)
qed

end

lemma live_serves:
  assumes "mailboxes_ok (sw_mailboxes w)" "client_ok p head r (fmlookup (sw_mailboxes w) (scr_mailbox r))"
  shows "step_serves p head r (retain_live r w)"
  using assms by (auto simp: step_serves_def retain_live_def world_defs dest: mailboxes_okD split: option.splits)

lemma client_ok_required:
  "client_ok p head r (Some m) \<Longrightarrow> mb_queue m' = mb_queue m @ map RequiredItem ms \<Longrightarrow> client_ok p head r (Some m')"
  by (simp add: client_ok_def)

lemma state_serves:
  assumes "mailboxes_ok (sw_mailboxes w)" "client_ok p head r (fmlookup (sw_mailboxes w) (scr_mailbox r))"
  shows "step_serves p head r (publish_state_step message r w)"
proof (cases "fmlookup (sw_mailboxes w) (scr_mailbox r)")
  case None
  then show ?thesis by (simp add: step_serves_def publish_state_step_def world_defs)
next
  case (Some m)
  obtain m' res where a: "mailbox_admit_required m [message] = (m', res)" by fastforce
  have ok: "mailbox_ok m" by (rule mailboxes_okD[OF assms(1) Some])
  show ?thesis
  proof (cases res)
    case (Inl e)
    then show ?thesis using Some a ok by (simp add: step_serves_def publish_state_step_def world_defs)
  next
    case (Inr u)
    then have "mb_queue m' = mb_queue m @ map RequiredItem [message]" "mailbox_ok m'"
      using admit_required_outcome(1)[OF a] ok by auto
    then show ?thesis using Some a Inr assms(2) client_ok_required
      by (simp add: step_serves_def publish_state_step_def world_defs) (metis client_ok_required list.simps(8,9))
  qed
qed

lemma advance_mailbox_outcome:
  assumes ok: "mailbox_ok m" "client_ok p head r (Some m)" and le: "head \<le> revision"
    and adv: "advance_mailbox p revision r m = (m', Inr queued)"
  shows "mailbox_ok m' \<and> client_ok p revision (advance_registration revision r) (Some m') \<and>
      (\<not> dws_wake_sent (scr_schedule r) \<and> dws_wake_at_revision_id (scr_schedule r) \<le> revision \<longrightarrow>
         queued \<and> mb_queue m' \<noteq> [] \<and> last (mb_queue m') = GraphWakeup (PublicationWakeup p revision))"
proof (cases "dws_wake_sent (scr_schedule r)")
  case True
  then obtain b where c: "coalesce_queued_graph_wakeup m (PublicationWakeup p revision) = (m', b)"
    using adv by (auto simp: advance_mailbox_def mailbox_coalesce_graph_wakeup_def split: if_splits prod.splits)
  then show ?thesis using coalesce_outcome[OF c ok(1)] True ok(2)
    by (auto simp: client_ok_def advance_registration_def)
next
  case False
  show ?thesis
  proof (cases "dws_wake_at_revision_id (scr_schedule r) \<le> revision")
    case True
    then obtain u where c: "mailbox_admit_graph_wakeup m (PublicationWakeup p revision) = (m', Inr u)" and q: "queued"
      using adv False by (auto simp: advance_mailbox_def map_sum_def split: prod.splits sum.splits)
    then show ?thesis using admit_wakeup_outcome(1)[OF c ok(1)] False True
      by (simp add: client_ok_def advance_registration_def)
  next
    case nr: False
    then show ?thesis using adv False ok by (auto simp: advance_mailbox_def client_ok_def advance_registration_def)
  qed
qed

lemma head_serves:
  assumes "mailboxes_ok (sw_mailboxes w)" "client_ok p head r (fmlookup (sw_mailboxes w) (scr_mailbox r))" "head \<le> revision"
  shows "step_serves p revision r (advance_head_step p revision r w)"
proof (cases "fmlookup (sw_mailboxes w) (scr_mailbox r)")
  case None
  then show ?thesis by (simp add: step_serves_def advance_head_step_eq world_defs)
next
  case (Some m)
  have ok: "mailbox_ok m" "client_ok p head r (Some m)" using mailboxes_okD[OF assms(1) Some] assms(2) Some by simp_all
  obtain m' res where a: "advance_mailbox p revision r m = (m', res)" by fastforce
  show ?thesis
  proof (cases res)
    case (Inl e)
    then show ?thesis using Some a ok by (simp add: step_serves_def advance_head_step_eq world_defs)
  next
    case (Inr q)
    then show ?thesis using Some a advance_mailbox_outcome[OF ok assms(3), of m' q]
      by (simp add: step_serves_def advance_head_step_eq world_defs)
  qed
qed

section \<open>The operations keep the invariant\<close>

lemma clients_ok_drop: "clients_ok p head clients mbs \<Longrightarrow> clients_ok p head (fmdrop k clients) mbs"
  by (auto simp: clients_ok_def mailboxes_distinct_def fmpred_iff intro: order_trans[OF fcard_mono])

text \<open>A change of one mailbox that no other client owns, together with its own client.\<close>

lemma clients_ok_update:
  assumes "clients_ok p head clients mbs" "client_ok p head r (Some m)"
    and "\<And>k' r'. fmlookup clients k' = Some r' \<Longrightarrow> scr_mailbox r' = scr_mailbox r \<Longrightarrow> k' = k"
    and "k |\<in>| fmdom clients \<or> fcard (fmdom clients) < MAX_SSE_CLIENTS"
  shows "clients_ok p head (fmupd k r clients) (fmupd (scr_mailbox r) m mbs)"
proof -
  have "fcard (finsert k (fmdom clients)) \<le> MAX_SSE_CLIENTS"
    using assms(1,4) by (auto simp: clients_ok_def fcard_finsert_if finsert_absorb)
  moreover have "mailboxes_distinct (fmupd k r clients)"
    using assms(1,3) by (auto simp: clients_ok_def mailboxes_distinct_def)
  moreover have "client_ok p head r' (fmlookup (fmupd (scr_mailbox r) m mbs) (scr_mailbox r'))"
    if "fmlookup (fmupd k r clients) k' = Some r'" for k' r'
    using that assms(1,2) assms(3)[of k' r'] by (cases "k' = k") (auto simp: clients_ok_def fmpred_iff)
  ultimately show ?thesis by (auto simp: clients_ok_def fmpred_iff)
qed

text \<open>A change of a mailbox that leaves its wakeups alone or removes them.\<close>

lemma clients_ok_mailbox:
  assumes "clients_ok p head clients mbs" "fmlookup mbs i = Some m"
    and "queued_revisions p (mb_queue m') = queued_revisions p (mb_queue m) \<or> queued_revisions p (mb_queue m') = []"
  shows "clients_ok p head clients (fmupd i m' mbs)"
proof -
  have "client_ok p head r (fmlookup (fmupd i m' mbs) (scr_mailbox r))" if "fmlookup clients k = Some r" for k r
    using assms that by (fastforce simp: clients_ok_def client_ok_def fmpred_iff split: if_splits)
  then show ?thesis using assms(1) by (auto simp: clients_ok_def fmpred_iff)
qed

lemma clients_ok_disconnect: "clients_ok p head clients mbs \<Longrightarrow> clients_ok p head clients (fmdrop i mbs)"
  by (auto simp: clients_ok_def client_ok_def fmpred_iff split: option.splits)

lemma clients_ok_connect:
  assumes "clients_ok p head clients mbs"
  shows "clients_ok p head clients (fmupd i sse_mailbox_new mbs)"
proof -
  have "client_ok p head r (fmlookup (fmupd i sse_mailbox_new mbs) (scr_mailbox r))" if "fmlookup clients k = Some r" for k r
    using assms that by (auto simp: clients_ok_def client_ok_def fmpred_iff sse_mailbox_new_def)
  then show ?thesis using assms by (auto simp: clients_ok_def fmpred_iff)
qed

lemma mailboxes_ok_upd: "mailboxes_ok mbs \<Longrightarrow> mailbox_ok m \<Longrightarrow> mailboxes_ok (fmupd i m mbs)"
  by (auto simp: mailboxes_ok_def fmpred_iff)

lemma mailboxes_ok_drop: "mailboxes_ok mbs \<Longrightarrow> mailboxes_ok (fmdrop i mbs)"
  by (auto simp: mailboxes_ok_def fmpred_iff)

lemma recv_step_outcome:
  assumes "mailbox_recv_step m = (m', out)" "mailbox_ok m"
  shows "mailbox_ok m'" "queued_revisions p (mb_queue m') = queued_revisions p (mb_queue m) \<or> queued_revisions p (mb_queue m') = []"
proof -
  have q: "queued_revisions p xs = queued_revisions p (x # xs) \<or> queued_revisions p xs = []"
    if "length (queued_revisions p (x # xs)) \<le> 1" for x xs p
    using that by (cases x) (auto split: if_splits)
  have le: "length (queued_revisions p xs) \<le> length (queued_revisions p (x # xs))" for x xs p by (cases x) auto
  show "mailbox_ok m'"
    using assms by (auto simp: mailbox_recv_step_def mailbox_ok_def split: list.splits) (meson le order_trans)
  show "queued_revisions p (mb_queue m') = queued_revisions p (mb_queue m) \<or> queued_revisions p (mb_queue m') = []"
  proof (cases "mb_queue m")
    case (Cons x xs)
    then have "length (queued_revisions p (x # xs)) \<le> 1" using assms(2) unfolding mailbox_ok_def by metis
    from q[OF this] show ?thesis using assms(1) Cons by (auto simp: mailbox_recv_step_def)
  qed (use assms(1) in \<open>auto simp: mailbox_recv_step_def\<close>)
qed

lemma advance_head_inv:
  assumes "registry_inv reg w" "mailboxes_ok (sw_mailboxes w)" "registry_advance_head reg revision w = Some (reg', w')"
  shows "registry_inv reg' w' \<and> mailboxes_ok (sw_mailboxes w')"
proof -
  obtain clients where c: "retain_entries (advance_head_step (reg_publication_id reg) revision) (reg_clients reg) w = (clients, w')"
      "reg' = reg\<lparr>reg_head_revision_id := revision, reg_clients := clients\<rparr>" "reg_head_revision_id reg \<le> revision"
    using assms(3) by (auto simp: registry_advance_head_def Let_def split: if_splits prod.splits)
  show ?thesis
    using head_pass.pass_inv[OF assms(1)[unfolded registry_inv_def] assms(2) head_serves[OF assms(2) _ c(3)] c(1)] c(2)
    by (simp add: registry_inv_def)
qed

lemma publish_state_inv:
  assumes "registry_inv reg w" "mailboxes_ok (sw_mailboxes w)" "registry_publish_state reg st revision w = Some (reg', w')"
  shows "registry_inv reg' w' \<and> mailboxes_ok (sw_mailboxes w')"
proof -
  obtain clients where
    c: "retain_entries (publish_state_step (SsePublicationState (reg_publication_id reg) revision st)) (reg_clients reg) w = (clients, w')"
      "reg' = reg\<lparr>reg_publication_state := st, reg_clients := clients\<rparr>"
    using assms(3) by (auto simp: registry_publish_state_def Let_def split: if_splits prod.splits)
  show ?thesis
    using state_pass.pass_inv[OF assms(1)[unfolded registry_inv_def] assms(2) state_serves[OF assms(2)] c(1)] c(2)
    by (simp add: registry_inv_def)
qed

lemma complete_delta_inv:
  assumes inv: "registry_inv reg w" "mailboxes_ok (sw_mailboxes w)" and run: "complete_delta reg identifier action w = (reg', w', result)"
  shows "registry_inv reg' w' \<and> mailboxes_ok (sw_mailboxes w')"
proof (cases "fmlookup (reg_clients reg) identifier")
  case None
  then show ?thesis using assms by (simp add: complete_delta_def)
next
  case r: (Some r)
  let ?p = "reg_publication_id reg" and ?head = "reg_head_revision_id reg" and ?mbs = "sw_mailboxes w"
  have co: "clients_ok ?p ?head (reg_clients reg) ?mbs" using inv(1) by (simp add: registry_inv_def)
  have dropped: "registry_inv reg1 w1 \<and> mailboxes_ok (sw_mailboxes w1)"
    if "drop_registration reg identifier (scr_disconnect r) w0 = (reg1, w1, res)"
      "clients_ok ?p ?head (reg_clients reg) (sw_mailboxes w0)" "mailboxes_ok (sw_mailboxes w0)" for reg1 w1 res w0
    using that clients_ok_drop by (auto simp: drop_registration_def registry_inv_def world_defs)
  show ?thesis
  proof (cases "fmlookup ?mbs (scr_mailbox r)")
    case None
    then show ?thesis using dropped[OF _ co inv(2)] run r by (simp add: complete_delta_def)
  next
    case m: (Some m)
    have ok: "mailbox_ok m" by (rule mailboxes_okD[OF inv(2) m])
    show ?thesis
    proof (cases "mb_closed m \<or> action = ValidateOnly")
      case True
      then show ?thesis using dropped[OF _ co inv(2)] run r m inv by (cases "mb_closed m") (auto simp: complete_delta_def)
    next
      case False
      then obtain at sent where act: "action = ReplaceSchedule at sent" by (cases action) auto
      obtain m1 b where m1: "mailbox_remove_graph_wakeup m ?p = (m1, b)" by fastforce
      note o1 = remove_wakeup_outcome[OF m1 ok]
      let ?w1 = "store_mailbox (scr_mailbox r) m1 w"
      let ?r = "\<lambda>s. r\<lparr>scr_schedule := \<lparr>dws_wake_at_revision_id = at, dws_wake_sent = s\<rparr>\<rparr>"
      have co1: "clients_ok ?p ?head (reg_clients reg) (sw_mailboxes ?w1)" "mailboxes_ok (sw_mailboxes ?w1)"
        using clients_ok_mailbox[OF co m, of m1] o1 mailboxes_ok_upd[OF inv(2)] by (simp_all add: world_defs)
      have only: "k' = identifier" if "fmlookup (reg_clients reg) k' = Some r'" "scr_mailbox r' = scr_mailbox r" for k' r'
        using co that r by (auto simp: clients_ok_def mailboxes_distinct_def)
      have upd: "clients_ok ?p ?head (fmupd identifier (?r s) (reg_clients reg)) (fmupd (scr_mailbox r) m2 mbs)"
        if "client_ok ?p ?head (?r s) (Some m2)" "clients_ok ?p ?head (reg_clients reg) mbs" for s m2 mbs
      proof -
        have "clients_ok ?p ?head (fmupd identifier (?r s) (reg_clients reg)) (fmupd (scr_mailbox (?r s)) m2 mbs)"
        proof (rule clients_ok_update[OF that(2,1)])
          show "k' = identifier" if "fmlookup (reg_clients reg) k' = Some r'" "scr_mailbox r' = scr_mailbox (?r s)" for k' r'
            by (rule only[OF that(1)]) (use that(2) in simp)
        qed (use fmdomI[OF r] in simp)
        then show ?thesis by simp
      qed
      show ?thesis
      proof (cases "\<not> sent \<and> at \<le> ?head")
        case True
        obtain m2 res where m2: "mailbox_admit_graph_wakeup m1 (PublicationWakeup ?p ?head) = (m2, res)" by fastforce
        show ?thesis
        proof (cases res)
          case (Inl e)
          then show ?thesis using dropped[OF _ co1] run r m False act m1 m2 True by (simp add: complete_delta_def)
        next
          case (Inr u)
          then have "client_ok ?p ?head (?r True) (Some m2)" "mailbox_ok m2"
            using admit_wakeup_outcome(1)[OF m2] o1 by (auto simp: client_ok_def)
          moreover from this have "mailboxes_ok (fmupd (scr_mailbox r) m2 (sw_mailboxes w))" by (intro mailboxes_ok_upd inv(2))
          ultimately show ?thesis using upd[OF _ co1(1)] run r m False act m1 m2 True Inr
            by (auto simp: complete_delta_def registry_inv_def world_defs)
        qed
      next
        case nf: False
        then have "client_ok ?p ?head (?r sent) (Some m1)" using o1 by (auto simp: client_ok_def)
        then show ?thesis using upd[OF _ co] co1(2) run r m False act m1 nf
          by (auto simp: complete_delta_def registry_inv_def world_defs)
      qed
    qed
  qed
qed

lemma generate_identifier_free:
  "generate_identifier reg draws = Some k \<Longrightarrow> fmlookup (reg_clients reg) k = None \<and> k \<in> set draws"
  by (induction draws) (auto split: if_splits simp: fmdom_notD)

lemma generate_identifier_total:
  "\<exists>k \<in> set draws. fmlookup (reg_clients reg) k = None \<Longrightarrow> \<exists>k. generate_identifier reg draws = Some k"
  by (induction draws) (auto simp: fmlookup_dom_iff)

text \<open>Installing a client whose connection is not registered yet, after its first messages were admitted.\<close>

lemma install_client:
  assumes co: "clients_ok p head clients mbs" "mailboxes_ok mbs"
    and free: "i \<notin> owned_mailboxes clients" "fcard (fmdom clients) \<noteq> MAX_SSE_CLIENTS"
    and m: "mailbox_ok m" "queued_revisions p (mb_queue m) = []"
    and admit: "mailbox_admit_required m messages = (m', Inr u)"
    and r: "scr_mailbox r = i" "dws_wake_sent (scr_schedule r)"
  shows "clients_ok p head (fmupd k r clients) (fmupd i m' mbs) \<and> mailboxes_ok (fmupd i m' mbs)"
proof -
  have m': "mb_queue m' = mb_queue m @ map RequiredItem messages" "mailbox_ok m'"
    using admit_required_outcome(1)[OF admit] m(1) by auto
  have "client_ok p head r (Some m')" using r(2) m(2) m'(1) by (simp add: client_ok_def)
  moreover have "k' = k" if "fmlookup clients k' = Some r'" "scr_mailbox r' = scr_mailbox r" for k' r'
    using that free(1) r(1) by (auto simp: owned_iff)
  moreover have "fcard (fmdom clients) < MAX_SSE_CLIENTS" using co(1) free(2) by (simp add: clients_ok_def)
  ultimately show ?thesis using clients_ok_update[OF co(1), of r m' k] r(1) mailboxes_ok_upd[OF co(2) m'(2)] by auto
qed

lemma register_inv:
  assumes inv: "registry_inv reg w" "mailboxes_ok (sw_mailboxes w)"
    and run: "registry_register reg rev_id i token draws w = Some (reg', w', result)"
    and fresh: "i \<notin> owned_mailboxes (reg_clients reg)"
    and none: "\<And>m. fmlookup (sw_mailboxes w) i = Some m \<Longrightarrow> queued_revisions (reg_publication_id reg) (mb_queue m) = []"
  shows "registry_inv reg' w' \<and> mailboxes_ok (sw_mailboxes w')"
proof -
  let ?p = "reg_publication_id reg" and ?head = "reg_head_revision_id reg"
  obtain clients w1 where pass: "retain_entries retain_live (reg_clients reg) w = (clients, w1)" by fastforce
  have co: "clients_ok ?p ?head (reg_clients reg) (sw_mailboxes w)" using inv(1) by (simp add: registry_inv_def)
  then have d: "mailboxes_distinct (reg_clients reg)" by (simp add: clients_ok_def)
  have co1: "clients_ok ?p ?head clients (sw_mailboxes w1)" "mailboxes_ok (sw_mailboxes w1)"
    using live_pass.pass_inv[OF co inv(2) live_serves[OF inv(2)] pass] by auto
  have i1: "i \<notin> owned_mailboxes clients" using live_pass.retain_distinct(2)[OF d pass] fresh by blast
  have same: "fmlookup (sw_mailboxes w1) i = fmlookup (sw_mailboxes w) i" by (rule live_pass.retain_outcome(3)[OF d pass fresh])
  let ?reg1 = "reg\<lparr>reg_clients := clients\<rparr>"
  show ?thesis
  proof (cases "fcard (fmdom clients) = MAX_SSE_CLIENTS")
    case True
    then show ?thesis using run pass co1 by (auto simp: registry_register_def registry_inv_def Let_def)
  next
    case False
    then obtain k m where k: "generate_identifier ?reg1 draws = Some k" "fmlookup (sw_mailboxes w1) i = Some m"
      using run pass by (auto simp: registry_register_def bind_eq_Some_conv Let_def)
    obtain m' res where a: "mailbox_admit_required m (initial_batch ?reg1 k) = (m', res)" by fastforce
    show ?thesis
    proof (cases res)
      case (Inl e)
      then show ?thesis using run pass False k a co1 by (auto simp: registry_register_def registry_inv_def Let_def world_defs)
    next
      case (Inr u)
      let ?r = "\<lparr>scr_schedule = \<lparr>dws_wake_at_revision_id = rev_id, dws_wake_sent = True\<rparr>, scr_mailbox = i, scr_disconnect = token\<rparr>"
      have "clients_ok ?p ?head (fmupd k ?r clients) (fmupd i m' (sw_mailboxes w1)) \<and> mailboxes_ok (fmupd i m' (sw_mailboxes w1))"
        by (rule install_client[OF co1 i1 False mailboxes_okD[OF co1(2) k(2)] none[folded same, OF k(2)] a[unfolded Inr]]) simp_all
      then show ?thesis using run pass False k a Inr by (auto simp: registry_register_def registry_inv_def Let_def world_defs)
    qed
  qed
qed

section \<open>Reachable states\<close>

text \<open>The registry of one publication with the connections around it. A connection registers its own mailbox
  once, before anything else has been queued there.\<close>

inductive client_step :: "sse_client_registry \<times> sse_world \<Rightarrow> sse_client_registry \<times> sse_world \<Rightarrow> bool" where
  cs_connect: "i |\<notin>| fmdom (sw_mailboxes w) \<Longrightarrow> client_step (reg, w) (reg, store_mailbox i sse_mailbox_new w)"
| cs_recv: "fmlookup (sw_mailboxes w) i = Some m \<Longrightarrow> mailbox_recv_step m = (m', out) \<Longrightarrow>
    client_step (reg, w) (reg, store_mailbox i m' w)"
| cs_close: "fmlookup (sw_mailboxes w) i = Some m \<Longrightarrow>
    client_step (reg, w) (reg, notify_receiver i (store_mailbox i (mailbox_close m) w))"
| cs_disconnect: "client_step (reg, w) (reg, w\<lparr>sw_mailboxes := fmdrop i (sw_mailboxes w)\<rparr>)"
| cs_register: "i \<notin> owned_mailboxes (reg_clients reg) \<Longrightarrow> fmlookup (sw_mailboxes w) i = Some sse_mailbox_new \<Longrightarrow>
    registry_register reg client_revision i token draws w = Some (reg', w', result) \<Longrightarrow> client_step (reg, w) (reg', w')"
| cs_remove: "client_step (reg, w) (fst (registry_remove reg k), w)"
| cs_complete: "complete_delta reg k action w = (reg', w', result) \<Longrightarrow> client_step (reg, w) (reg', w')"
| cs_publish: "registry_publish_state reg st revision w = Some (reg', w') \<Longrightarrow> client_step (reg, w) (reg', w')"
| cs_advance: "registry_advance_head reg revision w = Some (reg', w') \<Longrightarrow> client_step (reg, w) (reg', w')"

inductive client_reachable :: "sse_client_registry \<times> sse_world \<Rightarrow> bool" where
  cr_new: "client_reachable (sse_client_registry_new p st head, \<lparr>sw_mailboxes = fmempty, sw_notified = [], sw_cancelled = []\<rparr>)"
| cr_step: "client_reachable s \<Longrightarrow> client_step s s' \<Longrightarrow> client_reachable s'"

lemma client_step_inv:
  assumes "client_step s s'" "registry_inv (fst s) (snd s) \<and> mailboxes_ok (sw_mailboxes (snd s))"
  shows "registry_inv (fst s') (snd s') \<and> mailboxes_ok (sw_mailboxes (snd s'))"
  using assms
proof (cases rule: client_step.cases)
  case (cs_connect i w reg)
  then show ?thesis using assms(2) clients_ok_connect
    by (auto simp: registry_inv_def world_defs sse_mailbox_new_def mailbox_ok_def intro!: mailboxes_ok_upd)
next
  case (cs_recv w i m m' out reg)
  then have "mailbox_ok m" using assms(2) by (auto dest: mailboxes_okD)
  then show ?thesis using cs_recv assms(2) recv_step_outcome[OF cs_recv(4)]
    by (auto simp: registry_inv_def world_defs intro: clients_ok_mailbox mailboxes_ok_upd)
next
  case (cs_close w i m reg)
  then have "mailbox_ok m" using assms(2) by (auto dest: mailboxes_okD)
  then have "mailbox_ok (mailbox_close m)" by (simp add: mailbox_close_def mailbox_ok_def)
  then show ?thesis using cs_close assms(2)
    by (auto simp: registry_inv_def world_defs mailbox_close_def intro: clients_ok_mailbox mailboxes_ok_upd)
next
  case (cs_disconnect reg w i)
  then show ?thesis using assms(2) by (auto simp: registry_inv_def intro: clients_ok_disconnect mailboxes_ok_drop)
next
  case (cs_register i reg w client_revision token draws reg' w' result)
  then show ?thesis using assms(2) register_inv[OF _ _ cs_register(5,3)] by (auto simp: sse_mailbox_new_def)
next
  case (cs_remove reg w k)
  then show ?thesis using assms(2) by (auto simp: registry_remove_def registry_inv_def intro: clients_ok_drop)
next
  case (cs_complete reg k action w reg' w' result)
  then show ?thesis using assms(2) complete_delta_inv[OF _ _ cs_complete(3)] by auto
next
  case (cs_publish reg st revision w reg' w')
  then show ?thesis using assms(2) publish_state_inv[OF _ _ cs_publish(3)] by auto
next
  case (cs_advance reg revision w reg' w')
  then show ?thesis using assms(2) advance_head_inv[OF _ _ cs_advance(3)] by auto
qed

lemma client_reachable_inv:
  "client_reachable s \<Longrightarrow> registry_inv (fst s) (snd s) \<and> mailboxes_ok (sw_mailboxes (snd s))"
proof (induction rule: client_reachable.induct)
  case (cr_new p st head)
  show ?case
    by (simp add: registry_inv_def clients_ok_def sse_client_registry_new_def mailboxes_distinct_def mailboxes_ok_def)
qed (use client_step_inv in blast)

text \<open>What a new Head does for each registered client.\<close>

lemma advance_head_serves:
  assumes "registry_inv reg w" "mailboxes_ok (sw_mailboxes w)" "reg_head_revision_id reg \<le> revision"
  shows "\<exists>reg' w'. registry_advance_head reg revision w = Some (reg', w') \<and> reg_head_revision_id reg' = revision \<and>
     (\<forall>k r. fmlookup (reg_clients reg) k = Some r \<longrightarrow>
       (case fmlookup (reg_clients reg') k of
          None \<Rightarrow> scr_disconnect r \<in> set (sw_cancelled w')
        | Some r' \<Rightarrow> \<not> dws_wake_sent (scr_schedule r) \<and> dws_wake_at_revision_id (scr_schedule r) \<le> revision \<longrightarrow>
            dws_wake_sent (scr_schedule r') \<and> scr_mailbox r \<in> set (sw_notified w') \<and>
            (\<exists>m. fmlookup (sw_mailboxes w') (scr_mailbox r) = Some m \<and> mb_queue m \<noteq> [] \<and>
               last (mb_queue m) = GraphWakeup (PublicationWakeup (reg_publication_id reg) revision))))"
proof -
  let ?p = "reg_publication_id reg" and ?f = "advance_head_step (reg_publication_id reg) revision"
  obtain clients w' where pass: "retain_entries ?f (reg_clients reg) w = (clients, w')" by fastforce
  have co: "clients_ok ?p (reg_head_revision_id reg) (reg_clients reg) (sw_mailboxes w)" using assms(1) by (simp add: registry_inv_def)
  then have d: "mailboxes_distinct (reg_clients reg)" by (simp add: clients_ok_def)
  note lk = head_pass.retain_outcome[OF d pass]
  have "case fmlookup clients k of
          None \<Rightarrow> scr_disconnect r \<in> set (sw_cancelled w')
        | Some r' \<Rightarrow> \<not> dws_wake_sent (scr_schedule r) \<and> dws_wake_at_revision_id (scr_schedule r) \<le> revision \<longrightarrow>
            dws_wake_sent (scr_schedule r') \<and> scr_mailbox r \<in> set (sw_notified w') \<and>
            (\<exists>m. fmlookup (sw_mailboxes w') (scr_mailbox r) = Some m \<and> mb_queue m \<noteq> [] \<and>
               last (mb_queue m) = GraphWakeup (PublicationWakeup ?p revision))"
    if r: "fmlookup (reg_clients reg) k = Some r" for k r
  proof (cases "fst (?f r w)")
    case None
    then show ?thesis using lk(1)[of k] lk(2)[OF r] r by simp
  next
    case (Some r')
    then obtain m m' q where m: "fmlookup (sw_mailboxes w) (scr_mailbox r) = Some m" "advance_mailbox ?p revision r m = (m', Inr q)"
        "r' = advance_registration revision r"
        "fmlookup (sw_mailboxes (snd (?f r w))) (scr_mailbox r) = Some m'"
      by (auto simp: advance_head_step_eq world_defs split: option.splits prod.splits sum.splits if_splits)
    have "client_ok ?p (reg_head_revision_id reg) r (Some m)" using co r m(1) unfolding clients_ok_def fmpred_iff by metis
    from advance_mailbox_outcome[OF mailboxes_okD[OF assms(2) m(1)] this assms(3) m(2)]
    show ?thesis using lk(1)[of k] lk(2)[OF r] r Some m by (auto simp: advance_registration_def)
  qed
  then show ?thesis using pass assms(3) by (auto simp: registry_advance_head_def Let_def)
qed

text \<open>Moving a client to a replacement publication.\<close>

lemma replace_registration_outcome:
  assumes inv: "registry_inv new w" "mailboxes_ok (sw_mailboxes w)" and ids: "reg_publication_id old \<noteq> reg_publication_id new"
    and r: "fmlookup (reg_clients old) k = Some r" and fresh: "scr_mailbox r \<notin> owned_mailboxes (reg_clients new)"
    and run: "replace_registration_into old k new draws w = Some (old', new', w', result)"
  shows "fmlookup (reg_clients old') k = None \<and>
     (case result of
        Inl _ \<Rightarrow> scr_disconnect r \<in> set (sw_cancelled w')
      | Inr k' \<Rightarrow> \<exists>m r'. fmlookup (sw_mailboxes w') (scr_mailbox r) = Some m \<and> queued_revisions (reg_publication_id old) (mb_queue m) = [] \<and>
          fmlookup (reg_clients new') k' = Some r' \<and> scr_mailbox r' = scr_mailbox r \<and> scr_disconnect r' = scr_disconnect r \<and>
          suffix (map RequiredItem (initial_batch new k')) (mb_queue m) \<and> scr_mailbox r \<in> set (sw_notified w'))"
proof (cases "fmlookup (sw_mailboxes w) (scr_mailbox r)")
  case None
  then show ?thesis using ids r run by (auto simp: replace_registration_into_def world_defs Let_def)
next
  case m: (Some m)
  obtain clients w1 where pass: "retain_entries retain_live (reg_clients new) w = (clients, w1)" by fastforce
  obtain m1 b where m1: "mailbox_remove_graph_wakeup m (reg_publication_id old) = (m1, b)" by fastforce
  note o1 = remove_wakeup_outcome[OF m1 mailboxes_okD[OF inv(2) m]]
  let ?new1 = "new\<lparr>reg_clients := clients\<rparr>"
  show ?thesis
  proof (cases "fcard (fmdom clients) = MAX_SSE_CLIENTS")
    case True
    then show ?thesis using ids r run m pass m1 by (auto simp: replace_registration_into_def world_defs Let_def)
  next
    case False
    then obtain k' where k': "generate_identifier ?new1 draws = Some k'"
      using ids r run m pass m1 by (auto simp: replace_registration_into_def bind_eq_Some_conv Let_def)
    obtain m2 res where a: "mailbox_admit_required m1 (initial_batch ?new1 k') = (m2, res)" by fastforce
    show ?thesis
    proof (cases res)
      case (Inl e)
      then show ?thesis using ids r run m pass m1 False k' a by (auto simp: replace_registration_into_def world_defs Let_def)
    next
      case (Inr u)
      have "mb_queue m2 = mb_queue m1 @ map RequiredItem (initial_batch ?new1 k')" using admit_required_outcome(1)[OF a] Inr by simp
      moreover have "initial_batch ?new1 k' = initial_batch new k'" by (simp add: initial_batch_def)
      ultimately show ?thesis using ids r run m pass m1 False k' a Inr o1
        by (auto simp: replace_registration_into_def world_defs Let_def suffix_def)
    qed
  qed
qed

end
