(* ===== verification/Publication_Lineage.thy ===== *)
theory Publication_Lineage
  imports Publication_Core Cache_Laws Client_Wakeups
begin

text \<open>
  The lineage behind a publication. Beside the core runs what an observer would have recorded of it: every
  view it has shown and every delta it has produced. Committed updates extend the record by exactly the delta
  that replays them, the history keeps an end piece of it, and timestamps never decrease along it.
\<close>

section \<open>The record of a publication\<close>

abbreviation view_ts :: "graph_view \<Rightarrow> u64" where
  "view_ts v \<equiv> gv_current_revision_timestamp_ms v"

definition recorded :: "graph_view list \<Rightarrow> graph_history_entry list \<Rightarrow> bool" where
  "recorded us log \<longleftrightarrow>
     length us = length log + 1 \<and>
     (\<forall>i < length log. view_step (us ! i) (he_delta (log ! i)) = Some (us ! (i + 1)) \<and>
        gd_revision_timestamp_ms (he_delta (log ! i)) = view_ts (us ! (i + 1))) \<and>
     (\<forall>i < length us. unat (gv_current_revision_id (us ! i)) = i) \<and>
     sorted (map view_ts us)"

definition history_of :: "graph_history_entry list \<Rightarrow> graph_history \<Rightarrow> bool" where
  "history_of log h \<longleftrightarrow>
     history_inv h \<and> unat (gh_current_revision_id h) = length log \<and> gh_entries h = drop (base_revision h) log \<and>
     (\<forall>i < length log. unat (gh_replay_floor_revision h) \<le> i \<longrightarrow> he_estimated_raw_bytes (log ! i) < SOFT_DELTA_ESTIMATED_BYTES)"

lemma recorded_ts_mono: "recorded us log \<Longrightarrow> i \<le> j \<Longrightarrow> j < length us \<Longrightarrow> view_ts (us ! i) \<le> view_ts (us ! j)"
  using sorted_nth_mono[of "map view_ts us" i j] by (simp add: recorded_def)

lemma recorded_from: "recorded us log \<Longrightarrow> i < length log \<Longrightarrow> unat (he_from (log ! i)) = i"
  using apply_delta_revision(1)[of "us ! i" "he_delta (log ! i)" "us ! (i + 1)"] by (simp add: recorded_def view_step_iff)

lemma recorded_replays:
  assumes "recorded us log" "i \<le> j" "j \<le> length log"
  shows "fold_opt view_step (us ! i) (map he_delta (take (j - i) (drop i log))) = Some (us ! j)"
proof -
  have "fold_opt view_step (us ! i) (take (j - i) (drop (i - 0) (map he_delta log))) = Some (us ! j)"
    by (rule views.replay_slice) (use assms in \<open>auto simp: recorded_def\<close>)
  then show ?thesis by (simp add: take_map drop_map)
qed

lemma history_slice_record:
  assumes "history_of log h" "base_revision h \<le> i"
  shows "history_slice h i j = take (j - i) (drop i log)"
  using assms by (simp add: history_slice_def history_of_def)

section \<open>Extending the record\<close>

lemma apply_delta_timestamp:
  assumes "apply_delta v d = Some (v', Inr ())"
  shows "gv_current_revision_timestamp_ms v' = gd_revision_timestamp_ms d"
  using assms by (auto simp: apply_delta_def bind_eq_Some_conv Let_def split: if_splits option.splits prod.splits)

lemma recorded_snoc:
  assumes rec: "recorded us log" and step: "apply_delta (last us) (he_delta e) = Some (v, Inr ())"
    and rev: "unat (gv_current_revision_id v) = unat (gv_current_revision_id (last us)) + 1" and ts: "view_ts (last us) \<le> view_ts v"
  shows "recorded (us @ [v]) (log @ [e])"
proof -
  have len: "length us = length log + 1" using rec by (simp add: recorded_def)
  then have last: "last us = us ! length log" by (metis add_diff_cancel_right' last_conv_nth list.size(3) add_is_0 one_neq_zero)
  have "view_step ((us @ [v]) ! i) (he_delta ((log @ [e]) ! i)) = Some ((us @ [v]) ! (i + 1)) \<and>
      gd_revision_timestamp_ms (he_delta ((log @ [e]) ! i)) = view_ts ((us @ [v]) ! (i + 1))" if "i < length (log @ [e])" for i
    using that rec step len last apply_delta_timestamp[OF step]
    by (cases "i < length log") (auto simp: recorded_def nth_append view_step_iff less_Suc_eq)
  moreover have "unat (gv_current_revision_id ((us @ [v]) ! i)) = i" if "i < length (us @ [v])" for i
    using that rec len last rev by (cases "i < length us") (auto simp: recorded_def nth_append less_Suc_eq)
  moreover have "sorted (map view_ts (us @ [v]))"
  proof -
    have "view_ts x \<le> view_ts v" if "x \<in> set us" for x
    proof -
      obtain i where "i < length us" "x = us ! i" using \<open>x \<in> set us\<close> by (metis in_set_conv_nth)
      then have "view_ts x \<le> view_ts (us ! length log)" using recorded_ts_mono[OF rec, of i "length log"] len by simp
      then show ?thesis using ts last by simp
    qed
    then show ?thesis using rec by (simp add: recorded_def sorted_append)
  qed
  ultimately show ?thesis using len by (simp add: recorded_def)
qed

lemma history_prune_record:
  assumes "history_of log h"
  shows "history_of log (history_prune h low)"
proof -
  define n where "n = length (takeWhile (\<lambda>e. gd_head_level (he_delta e) < low) (gh_entries h))"
  have es: "gh_entries (history_prune h low) = drop n (gh_entries h)"
    by (simp add: history_prune_def n_def dropWhile_eq_drop)
  have n: "n \<le> length (gh_entries h)" by (simp add: n_def length_takeWhile_le)
  have "base_revision (history_prune h low) = base_revision h + n"
    using assms n es by (simp add: base_revision_def history_prune_def history_inv_def history_of_def)
  then show ?thesis using assms es history_prune_inv by (simp add: history_of_def add.commute) (simp add: history_prune_def)
qed

lemma history_append_record:
  assumes h: "history_of log h" and src: "gh_current_revision_id h = gd_from_revision_id d"
    and tgt: "unat (gd_to_revision_id d) = unat (gd_from_revision_id d) + 1"
    and cost: "unat (gh_current_cumulative_estimated_bytes h) + unat bytes < 2 ^ 64"
  shows "\<exists>h' e. history_append h d bytes (classify_replayability bytes) = Some (h', Inr ()) \<and> he_delta e = d \<and>
    history_of (log @ [e]) h' \<and>
    gh_replay_floor_revision h' =
      (if classify_replayability bytes = ReplayBarrier then gd_to_revision_id d else gh_replay_floor_revision h)"
proof -
  have inv: "history_inv h" and len: "unat (gh_current_revision_id h) = length log" "gh_entries h = drop (base_revision h) log"
    and small: "\<And>i. i < length log \<Longrightarrow> unat (gh_replay_floor_revision h) \<le> i \<Longrightarrow> he_estimated_raw_bytes (log ! i) < SOFT_DELTA_ESTIMATED_BYTES"
    using h by (auto simp: history_of_def)
  have base: "base_revision h \<le> length log" using length_entries[OF inv] len(1) by simp
  let ?rep = "classify_replayability bytes"
  from history_append_outcome[OF inv src tgt cost, of ?rep] obtain h' where
    h': "history_append h d bytes ?rep = Some (h', Inr ())" "history_inv h'" "gh_current_revision_id h' = gd_to_revision_id d"
    and cs: "case ?rep of
         Replayable \<Rightarrow> gh_replay_floor_revision h' = gh_replay_floor_revision h \<and> base_revision h' = base_revision h \<and>
           (\<exists>e. gh_entries h' = gh_entries h @ [e] \<and> he_delta e = d \<and> he_estimated_raw_bytes e = bytes)
       | ReplayBarrier \<Rightarrow> gh_entries h' = [] \<and> gh_replay_floor_revision h' = gd_to_revision_id d"
    by blast
  have cur: "unat (gh_current_revision_id h') = length log + 1" using h'(3) tgt src len(1) by simp
  show ?thesis
  proof (cases ?rep)
    case Replayable
    then obtain e where e: "gh_entries h' = gh_entries h @ [e]" "he_delta e = d" "he_estimated_raw_bytes e = bytes"
        "gh_replay_floor_revision h' = gh_replay_floor_revision h" "base_revision h' = base_revision h"
      using cs by auto
    have "bytes < SOFT_DELTA_ESTIMATED_BYTES" using Replayable by (simp add: classify_replayability_def split: if_splits)
    then have "he_estimated_raw_bytes ((log @ [e]) ! i) < SOFT_DELTA_ESTIMATED_BYTES"
      if "i < length (log @ [e])" "unat (gh_replay_floor_revision h') \<le> i" for i
      using that small[of i] e by (auto simp: nth_append less_Suc_eq)
    then have "history_of (log @ [e]) h'" using h'(2) cur e len(2) base by (simp add: history_of_def)
    then show ?thesis using h'(1) e Replayable by auto
  next
    case ReplayBarrier
    let ?e = "\<lparr>he_delta = d, he_estimated_raw_bytes = bytes, he_cumulative_estimated_bytes = 0\<rparr>"
    have floor': "gh_replay_floor_revision h' = gd_to_revision_id d" "gh_entries h' = []" using cs ReplayBarrier by auto
    then have "base_revision h' = length log + 1" using cur by (simp add: base_revision_def)
    moreover have "unat (gh_replay_floor_revision h') = length log + 1" using floor' h'(3) cur by simp
    ultimately have "history_of (log @ [?e]) h'" using h'(2) cur floor' by (simp add: history_of_def)
    moreover have "he_delta ?e = d" by simp
    ultimately show ?thesis using h'(1) floor' ReplayBarrier by (metis)
  qed
qed

section \<open>Applying one committed update\<close>

text \<open>What the processing pipeline guarantees of an update it publishes: a block is new and its projection is
  coherent with the view, and the 64-bit counters have room.\<close>

fun update_coherent :: "graph_view \<Rightarrow> original_update \<Rightarrow> bool" where
  "update_coherent v (OriginalBlock c) \<longleftrightarrow> head_coherent v c"
| "update_coherent v (OriginalVspc c) \<longleftrightarrow> counters_fit v"

definition history_room :: "graph_view \<Rightarrow> graph_history \<Rightarrow> original_update \<Rightarrow> u64 \<Rightarrow> bool" where
  "history_room v h update ts =
     (case original_update_apply update v ts of
        Some (_, Inr (Some d)) \<Rightarrow> unat (gh_current_cumulative_estimated_bytes h) + exact_estimate d < 2 ^ 64
      | _ \<Rightarrow> True)"

lemma original_update_outcome:
  assumes inv: "head_inv v" and coh: "update_coherent v update"
  shows "\<exists>v' d. original_update_apply update v ts = Some (v', Inr d) \<and> head_inv v' \<and>
    (case d of
       None \<Rightarrow> v' = v
     | Some delta \<Rightarrow> apply_delta v delta = Some (v', Inr ()) \<and>
         gd_from_revision_id delta = gv_current_revision_id v \<and> gd_to_revision_id delta = gv_current_revision_id v + 1 \<and>
         gv_current_revision_id v' = gv_current_revision_id v + 1 \<and> view_ts v' = ts \<and>
         unat (gv_current_revision_id v) + 1 < 2 ^ 64)"
proof (cases update)
  case (OriginalBlock c)
  then have c: "head_coherent v c" using coh by simp
  then have "unat (gv_current_revision_id v) + 1 < 2 ^ 64" by (simp add: head_coherent_def commit_coherent_def)
  then show ?thesis using head_commit_outcome[OF inv c, of ts] OriginalBlock by (auto split: option.splits)
next
  case (OriginalVspc c)
  then have c: "counters_fit v" using coh by simp
  then have "unat (gv_current_revision_id v) + 1 < 2 ^ 64" by (simp add: counters_fit_def)
  then show ?thesis using head_vspc_outcome[OF inv c, of c ts] OriginalVspc by (auto split: option.splits)
qed

lemma lineage_apply_outcome:
  assumes rec: "recorded us log" "history_of log h" and inv: "head_inv (last us)" and coh: "update_coherent (last us) update"
    and room: "history_room (last us) h update ts" and ts: "view_ts (last us) \<le> ts"
  shows "\<exists>v' h' r. lineage_apply (last us) h update ts = Some (v', h', Inr r) \<and> head_inv v' \<and>
    (case r of
       None \<Rightarrow> v' = last us \<and> h' = h
     | Some a \<Rightarrow> alu_target_revision a = gv_current_revision_id v' \<and>
         unat (gv_current_revision_id v') = unat (gv_current_revision_id (last us)) + 1 \<and> view_ts v' = ts \<and>
         (\<exists>e. recorded (us @ [v']) (log @ [e]) \<and> history_of (log @ [e]) h') \<and>
         (case alu_replay_floor_advance a of
            None \<Rightarrow> gh_replay_floor_revision h' = gh_replay_floor_revision h
          | Some f \<Rightarrow> f = gv_current_revision_id v' \<and> gh_replay_floor_revision h' = f))"
proof -
  let ?v = "last us"
  have len: "length us = length log + 1" using rec(1) by (simp add: recorded_def)
  then have last: "?v = us ! length log" by (metis add_diff_cancel_right' last_conv_nth list.size(3) add_is_0 one_neq_zero)
  have cur: "gv_current_revision_id ?v = gh_current_revision_id h"
    using rec len last by (simp add: recorded_def history_of_def word_unat_eq_iff)
  obtain v' d where run: "original_update_apply update ?v ts = Some (v', Inr d)" "head_inv v'"
    and d: "case d of
       None \<Rightarrow> v' = ?v
     | Some delta \<Rightarrow> apply_delta ?v delta = Some (v', Inr ()) \<and>
         gd_from_revision_id delta = gv_current_revision_id ?v \<and> gd_to_revision_id delta = gv_current_revision_id ?v + 1 \<and>
         gv_current_revision_id v' = gv_current_revision_id ?v + 1 \<and> view_ts v' = ts \<and>
         unat (gv_current_revision_id ?v) + 1 < 2 ^ 64"
    using original_update_outcome[OF inv coh, of ts] by blast
  show ?thesis
  proof (cases d)
    case None
    then show ?thesis using run d cur by (simp add: lineage_apply_def)
  next
    case (Some delta)
    then have dl: "apply_delta ?v delta = Some (v', Inr ())" "gd_from_revision_id delta = gv_current_revision_id ?v"
        "gd_to_revision_id delta = gv_current_revision_id ?v + 1" "gv_current_revision_id v' = gv_current_revision_id ?v + 1"
        "view_ts v' = ts" "unat (gv_current_revision_id ?v) + 1 < 2 ^ 64"
      using d by auto
    have succ: "unat (gv_current_revision_id ?v + 1) = unat (gv_current_revision_id ?v) + 1"
      using dl(6) by (simp add: unat_word_ariths)
    have est: "unat (gh_current_cumulative_estimated_bytes h) + exact_estimate delta < 2 ^ 64"
      using room run(1) Some by (simp add: history_room_def)
    define bytes :: u64 where "bytes = of_nat (exact_estimate delta)"
    have eb: "estimate_raw_delta_bytes delta = Some bytes" using est by (simp add: estimate_closed_form bytes_def)
    have ub: "unat bytes = exact_estimate delta" using est by (simp add: bytes_def unat_of_nat)
    obtain h' e where h': "history_append h delta bytes (classify_replayability bytes) = Some (h', Inr ())" "he_delta e = delta"
        "history_of (log @ [e]) h'"
        "gh_replay_floor_revision h' =
           (if classify_replayability bytes = ReplayBarrier then gd_to_revision_id delta else gh_replay_floor_revision h)"
      using history_append_record[OF rec(2), of delta bytes] cur dl succ est ub by auto
    have "recorded (us @ [v']) (log @ [e])"
      by (rule recorded_snoc[OF rec(1)]) (use dl h'(2) succ ts in auto)
    moreover have "history_of (log @ [e]) (history_prune h' (gv_low_level v'))" by (rule history_prune_record[OF h'(3)])
    moreover have "gh_replay_floor_revision (history_prune h' (gv_low_level v')) = gh_replay_floor_revision h'"
      by (simp add: history_prune_def)
    ultimately show ?thesis using run Some cur eb h' dl succ by (auto simp: lineage_apply_def Let_def)
  qed
qed

end
