(* ===== verification/Publication_Laws.thy ===== *)
theory Publication_Laws
  imports Publication_Lineage
begin

text \<open>
  The invariant of a publication and its operations: the core agrees with the record, the response cache
  holds only what the record justifies, the clients observe the current Head. Updates and transitions keep it;
  selecting a canonical delta never fails on it and answers with a body that replays.
\<close>

section \<open>What the cache may hold\<close>

definition slot_time :: "graph_view list \<Rightarrow> graph_history \<Rightarrow> u64 \<Rightarrow> u64 \<Rightarrow> bool" where
  "slot_time us h s ts \<longleftrightarrow>
     gh_replay_floor_revision h \<le> s \<and> unat s + 1 < length us \<and> ts = view_ts (us ! (unat s + 1))"

definition delta_value :: "graph_history_entry list \<Rightarrow> u64 \<Rightarrow> u64 \<Rightarrow> graph_history_entry list \<Rightarrow> bool" where
  "delta_value log s t es \<longleftrightarrow>
     s < t \<and> unat t \<le> length log \<and> es = take (unat t - unat s) (drop (unat s) log) \<and>
     entries_cost es < unat SOFT_DELTA_ESTIMATED_BYTES \<and>
     (case target_boundaries s of Some ts \<Rightarrow> t \<in> set ts | None \<Rightarrow> False)"

text \<open>The extent of a tier below the Head of a view, and a captured tier.\<close>

definition tier_extent :: "graph_view \<Rightarrow> u32 \<Rightarrow> level_extent" where
  "tier_extent v depth =
     LevelExtent (max (saturating_sub (gv_high_level v) (depth - 1)) (gv_low_level v)) (gv_high_level v)"

definition tier_capture :: "graph_view list \<Rightarrow> u32 \<Rightarrow> graph_view \<Rightarrow> bool" where
  "tier_capture us depth w \<longleftrightarrow>
     (\<exists>i < length us. extract_subview (us ! i) (tier_extent (us ! i) depth) = Some (Inr w) \<and>
        gv_current_revision_id w = gv_current_revision_id (us ! i) \<and> view_ts w = view_ts (us ! i))"

definition head_value :: "graph_view list \<Rightarrow> u32 \<Rightarrow> cached_head_snapshot \<Rightarrow> bool" where
  "head_value us depth v \<longleftrightarrow>
     chs_depth v = depth \<and> tier_capture us depth (chs_body v) \<and>
     chs_revision v = gv_current_revision_id (chs_body v) \<and> chs_revision_timestamp_ms v = view_ts (chs_body v)"

definition builders_ok :: "graph_view list \<Rightarrow> (nat, head_builder) fmap \<Rightarrow> bool" where
  "builders_ok us builders \<longleftrightarrow>
     (\<forall>j b. fmlookup builders j = Some b \<longrightarrow>
        hbl_depth b \<in> set CACHED_HEAD_WINDOW_DEPTHS \<and> tier_capture us (hbl_depth b) (hbl_capture b))"

definition publication_inv :: "graph_view list \<Rightarrow> graph_history_entry list \<Rightarrow> publication \<Rightarrow> bool" where
  "publication_inv us log pn \<longleftrightarrow>
     recorded us log \<and> history_of log (pn_history pn) \<and> last us = pn_view pn \<and> head_inv (pn_view pn) \<and>
     fcard (fmdom (gv_edges (pn_view pn))) < 2 ^ 64 \<and>
     cache_inv (slot_time us (pn_history pn)) (delta_value log) (head_value us) (pn_cache pn) \<and>
     builders_ok us (gc_head_builders (pn_cache pn)) \<and>
     reg_publication_id (pn_clients pn) = pn_publication_id pn \<and> reg_publication_state (pn_clients pn) = pn_state pn \<and>
     reg_head_revision_id (pn_clients pn) = gv_current_revision_id (pn_view pn)"

definition clients_inv :: "publication \<Rightarrow> sse_world \<Rightarrow> bool" where
  "clients_inv pn w \<longleftrightarrow> registry_inv (pn_clients pn) w \<and> mailboxes_ok (sw_mailboxes w)"

lemma publication_invD:
  assumes "publication_inv us log pn"
  shows "recorded us log" "history_of log (pn_history pn)" "last us = pn_view pn" "head_inv (pn_view pn)"
    "fcard (fmdom (gv_edges (pn_view pn))) < 2 ^ 64"
    "cache_inv (slot_time us (pn_history pn)) (delta_value log) (head_value us) (pn_cache pn)"
    "builders_ok us (gc_head_builders (pn_cache pn))"
    "reg_publication_id (pn_clients pn) = pn_publication_id pn" "reg_publication_state (pn_clients pn) = pn_state pn"
    "reg_head_revision_id (pn_clients pn) = gv_current_revision_id (pn_view pn)"
  using assms by (simp_all add: publication_inv_def)

lemma publication_last:
  assumes "publication_inv us log pn"
  shows "us \<noteq> []" "pn_view pn = us ! length log" "length us = length log + 1"
    "unat (gv_current_revision_id (pn_view pn)) = length log"
    "gv_current_revision_id (pn_view pn) = gh_current_revision_id (pn_history pn)"
proof -
  note d = publication_invD[OF assms]
  show len: "length us = length log + 1" using d(1) by (simp add: recorded_def)
  then show "us \<noteq> []" by auto
  then show v: "pn_view pn = us ! length log" using d(3) len by (metis add_diff_cancel_right' last_conv_nth)
  show r: "unat (gv_current_revision_id (pn_view pn)) = length log" using d(1) len by (simp add: v recorded_def)
  show "gv_current_revision_id (pn_view pn) = gh_current_revision_id (pn_history pn)"
    using r d(2) by (simp add: history_of_def word_unat_eq_iff)
qed

lemma view_ts_le_head:
  assumes "publication_inv us log pn" "i < length us"
  shows "view_ts (us ! i) \<le> view_ts (pn_view pn)"
  using recorded_ts_mono[OF publication_invD(1)[OF assms(1)], of i "length log"] publication_last[OF assms(1)] assms(2) by simp

lemma delta_value_append: "delta_value log s t es \<Longrightarrow> delta_value (log @ more_entries) s t es"
proof -
  assume v: "delta_value log s t es"
  then have "unat s \<le> length log" "unat t \<le> length log" by (auto simp: delta_value_def word_less_nat_alt)
  then have "take (unat t - unat s) (drop (unat s) (log @ more_entries)) = take (unat t - unat s) (drop (unat s) log)" by simp
  then show ?thesis using v unfolding delta_value_def by auto
qed

lemma slot_time_append:
  "slot_time us h s ts \<Longrightarrow> gh_replay_floor_revision h' \<le> s \<Longrightarrow> slot_time (us @ [v]) h' s ts"
  by (auto simp: slot_time_def nth_append)

lemma tier_capture_append: "tier_capture us depth w \<Longrightarrow> tier_capture (us @ [v]) depth w"
  unfolding tier_capture_def by (metis length_append_singleton less_SucI nth_append)

lemma head_value_append: "head_value us depth s \<Longrightarrow> head_value (us @ [v]) depth s"
  by (auto simp: head_value_def intro: tier_capture_append)

lemma publication_slots_ordered:
  assumes inv: "publication_inv us log pn"
  shows "slots_ordered (gc_deltas (pn_cache pn)) (view_ts (pn_view pn))"
proof -
  note d = publication_invD[OF inv]
  have ts: "slot_time us (pn_history pn) s (dcs_first_revision_timestamp_ms slot)"
    if "fmlookup (gc_deltas (pn_cache pn)) s = Some slot" for s slot
    using d(6) that by (auto simp: cache_inv_def deltas_inv_def delta_slot_ok_def)
  show ?thesis
    unfolding slots_ordered_def
  proof (intro conjI allI impI)
    show "dcs_first_revision_timestamp_ms v \<le> view_ts (pn_view pn)" if "fmlookup (gc_deltas (pn_cache pn)) s = Some v" for s v
      using ts[OF that] view_ts_le_head[OF inv, of "unat s + 1"] by (auto simp: slot_time_def)
    show "dcs_first_revision_timestamp_ms v \<le> dcs_first_revision_timestamp_ms v'"
      if "fmlookup (gc_deltas (pn_cache pn)) s = Some v" "fmlookup (gc_deltas (pn_cache pn)) s' = Some v'" "s \<le> s'" for s s' v v'
      using ts[OF that(1)] ts[OF that(2)] that(3) recorded_ts_mono[OF d(1), of "unat s + 1" "unat s' + 1"]
      by (auto simp: slot_time_def word_le_nat_alt)
  qed
qed

section \<open>Updates\<close>

text \<open>The edges stay countable; with \<open>update_coherent\<close> it is part of what an update may assume.\<close>

lemma update_edges:
  assumes "head_inv v" "update_coherent v update" "original_update_apply update v ts = Some (v', Inr d)"
    "fcard (fmdom (gv_edges v)) < 2 ^ 64"
  shows "fcard (fmdom (gv_edges v')) < 2 ^ 64"
proof (cases update)
  case (OriginalBlock c)
  then have c: "head_coherent v c" using assms(2) by simp
  then have cc: "commit_coherent v c" by (simp add: head_coherent_def)
  have "gv_edges v' = head_edges v c" using head_commit_outcome[OF assms(1) c, of ts] assms(3) OriginalBlock by auto
  then show ?thesis using fcard_head_edges[OF cc] by simp
next
  case (OriginalVspc c)
  then show ?thesis using head_vspc_outcome[OF assms(1), of c ts] assms(2,3,4) by auto
qed

lemma lineage_apply_view:
  assumes "lineage_apply v h update ts = Some (v', h', Inr r)"
  shows "\<exists>d. original_update_apply update v ts = Some (v', Inr d)"
  using assms by (auto simp: lineage_apply_def Let_def bind_eq_Some_conv split: if_splits option.splits sum.splits prod.splits)
    (metis (full_types) old.unit.exhaust sum.exhaust)+

lemma apply_update_outcome:
  assumes inv: "publication_inv us log pn" "clients_inv pn w" and live: "pn_state pn \<noteq> Stale"
    and coh: "update_coherent (pn_view pn) update" and room: "history_room (pn_view pn) (pn_history pn) update ts"
    and ts: "view_ts (pn_view pn) \<le> ts"
  shows "\<exists>pn' w' r. apply_original_update pn w update ts = Some (pn', w', Inr r) \<and> clients_inv pn' w' \<and>
    pn_state pn' = pn_state pn \<and> pn_publication_id pn' = pn_publication_id pn \<and>
    (case r of
       None \<Rightarrow> pn' = pn \<and> w' = w
     | Some target \<Rightarrow> target = gv_current_revision_id (pn_view pn') \<and>
         (\<exists>e. publication_inv (us @ [pn_view pn']) (log @ [e]) pn'))"
proof -
  note d = publication_invD[OF inv(1)] and l = publication_last[OF inv(1)]
  obtain v' h' r where run: "lineage_apply (pn_view pn) (pn_history pn) update ts = Some (v', h', Inr r)" "head_inv v'"
    and r: "case r of
       None \<Rightarrow> v' = pn_view pn \<and> h' = pn_history pn
     | Some a \<Rightarrow> alu_target_revision a = gv_current_revision_id v' \<and>
         unat (gv_current_revision_id v') = unat (gv_current_revision_id (pn_view pn)) + 1 \<and> view_ts v' = ts \<and>
         (\<exists>e. recorded (us @ [v']) (log @ [e]) \<and> history_of (log @ [e]) h') \<and>
         (case alu_replay_floor_advance a of
            None \<Rightarrow> gh_replay_floor_revision h' = gh_replay_floor_revision (pn_history pn)
          | Some f \<Rightarrow> f = gv_current_revision_id v' \<and> gh_replay_floor_revision h' = f)"
    using lineage_apply_outcome[OF d(1,2), of update ts, unfolded d(3), OF d(4) coh room ts] by blast
  have edges: "fcard (fmdom (gv_edges v')) < 2 ^ 64"
    using update_edges[OF d(4) coh _ d(5)] lineage_apply_view[OF run(1)] by blast
  show ?thesis
  proof (cases r)
    case None
    then have "pn\<lparr>pn_view := v', pn_history := h'\<rparr> = pn" using r by simp
    then show ?thesis using run None live inv by (simp add: apply_original_update_def)
  next
    case (Some a)
    then obtain e where e: "recorded (us @ [v']) (log @ [e])" "history_of (log @ [e]) h'" using r by auto
    have a: "alu_target_revision a = gv_current_revision_id v'"
      "unat (gv_current_revision_id v') = unat (gv_current_revision_id (pn_view pn)) + 1" using r Some by auto
    have T': "slot_time (us @ [v']) h' s t" if "slot_time us (pn_history pn) s t" "gh_replay_floor_revision h' \<le> s" for s t
      by (rule slot_time_append[OF that])
    have mono: "cache_inv T (delta_value (log @ [e])) (head_value (us @ [v'])) c" if "cache_inv T (delta_value log) (head_value us) c" for T c
      by (rule cache_inv_mono[OF that]) (auto intro: delta_value_append head_value_append)
    have "\<exists>cache. (case alu_replay_floor_advance a of
               None \<Rightarrow> Some (pn_cache pn)
             | Some f \<Rightarrow> invalidate_replay_floor (pn_cache pn) f) = Some cache \<and>
          cache_inv (slot_time (us @ [v']) h') (delta_value (log @ [e])) (head_value (us @ [v'])) cache \<and>
          gc_head_builders cache = gc_head_builders (pn_cache pn)"
    proof (cases "alu_replay_floor_advance a")
      case None
      have same: "gh_replay_floor_revision h' = gh_replay_floor_revision (pn_history pn)" using r Some None by simp
      have "cache_inv (slot_time (us @ [v']) h') (delta_value log) (head_value us) (pn_cache pn)"
        by (rule cache_inv_mono[OF d(6)]) (auto simp: same slot_time_def nth_append)
      then show ?thesis using None mono by auto
    next
      case (Some f)
      have f: "gh_replay_floor_revision h' = f" using r \<open>r = Some a\<close> Some by simp
      obtain cache where c: "invalidate_replay_floor (pn_cache pn) f = Some cache"
          "cache_inv (slot_time (us @ [v']) h') (delta_value log) (head_value us) cache"
        using invalidate_outcome[OF d(6), of f "slot_time (us @ [v']) h'"] T' f by blast
      have "gc_head_builders cache = gc_head_builders (pn_cache pn)"
        using c(1) by (auto simp: invalidate_replay_floor_def Let_def bind_eq_Some_conv)
      then show ?thesis using Some c mono by auto
    qed
    then obtain cache where c: "(case alu_replay_floor_advance a of
               None \<Rightarrow> Some (pn_cache pn)
             | Some f \<Rightarrow> invalidate_replay_floor (pn_cache pn) f) = Some cache"
          "cache_inv (slot_time (us @ [v']) h') (delta_value (log @ [e])) (head_value (us @ [v'])) cache"
          "gc_head_builders cache = gc_head_builders (pn_cache pn)" by blast
    have le: "reg_head_revision_id (pn_clients pn) \<le> gv_current_revision_id v'"
      using a(2) d(10) by (simp add: word_le_nat_alt)
    obtain reg' w' where adv: "registry_advance_head (pn_clients pn) (gv_current_revision_id v') w = Some (reg', w')"
        "reg_head_revision_id reg' = gv_current_revision_id v'"
      using advance_head_serves[OF _ _ le, of w] inv(2) by (auto simp: clients_inv_def)
    have reg: "registry_inv reg' w' \<and> mailboxes_ok (sw_mailboxes w')"
      using advance_head_inv[OF _ _ adv(1)] inv(2) by (auto simp: clients_inv_def)
    have same: "reg_publication_id reg' = reg_publication_id (pn_clients pn)"
        "reg_publication_state reg' = reg_publication_state (pn_clients pn)"
      using adv(1) by (auto simp: registry_advance_head_def Let_def split: if_splits prod.splits)
    let ?pn = "pn\<lparr>pn_view := v', pn_history := h', pn_cache := cache, pn_clients := reg'\<rparr>"
    have "builders_ok (us @ [v']) (gc_head_builders cache)"
      using d(7) c(3) by (auto simp: builders_ok_def intro: tier_capture_append)
    then have "publication_inv (us @ [v']) (log @ [e]) ?pn"
      using e run(2) edges c adv(2) same d by (simp add: publication_inv_def)
    moreover have "apply_original_update pn w update ts = Some (?pn, w', Inr (Some (gv_current_revision_id v')))"
      using live run(1) Some c(1) adv(1) a(1) by (simp add: apply_original_update_def)
    ultimately show ?thesis using reg by (auto simp: clients_inv_def)
  qed
qed

end
