(* ===== verification/Publication_Deltas.thy ===== *)
theory Publication_Deltas
  imports Publication_Laws
begin

text \<open>
  Canonical deltas of a publication: the ladder, the history and the response cache together always answer
  a request without failing, and with a body that replays the record from the request's source.
\<close>

section \<open>The descent reaches a target that fits\<close>

lemma takeWhile_descending:
  "sorted_wrt (>) xs \<Longrightarrow> takeWhile (\<lambda>t. c \<le> t) xs = filter (\<lambda>t. c \<le> (t :: u64)) xs"
proof (induction xs)
  case (Cons x xs)
  show ?case
  proof (cases "c \<le> x")
    case False
    then have "filter (\<lambda>t. c \<le> t) xs = []" using Cons.prems by (auto simp: filter_empty_conv)
    then show ?thesis using False by simp
  qed (use Cons in simp)
qed simp

lemma fitting_targets_reach:
  assumes new: "ladder_new source head current interval = Some l" and fits: "unat source + 128 < 2 ^ 64"
    and sel: "select l state = Some (Range r)" and cur: "\<And>c. current = Some c \<Longrightarrow> c \<le> dr_target_revision r"
  shows "\<exists>ts. fitting_targets l r = Some ts \<and> set ts \<subseteq> set (dl_targets l) \<and>
    (\<exists>t \<in> set ts. case current of None \<Rightarrow> unat t = unat source + 1 | Some c \<Rightarrow> t = c)"
proof -
  note l = ladder_new_SomeD[OF new]
  obtain succ where succ: "ordinary_successor source = Some succ" using ordinary_successor_total[OF fits] by blast
  from select_outcome[OF new fits succ, of state] sel have
    r: "dr_source_revision r = source" "dr_target_revision r \<in> set (dl_targets l)" "dr_target_revision r \<le> head" by auto
  from target_boundaries_spec[OF fits] l(3) succ have
    part: "sorted_wrt (>) (dl_targets l)" and last: "unat (last (dl_targets l)) = unat source + 1"
    by (auto simp: ladder_part_def)
  obtain i where i: "position (dr_target_revision r) (dl_targets l) = Some i" "i < length (dl_targets l)"
    "dl_targets l ! i = dr_target_revision r" using position_Some[OF r(2)] by blast
  let ?keep = "\<lambda>t. case current of None \<Rightarrow> True | Some c \<Rightarrow> c \<le> t"
  let ?ts = "takeWhile ?keep (drop i (dl_targets l))"
  have run: "fitting_targets l r = Some ?ts"
    using i(1) r l(4,5,7) cur by (auto simp: fitting_targets_def split: option.splits)
  have sub: "set ?ts \<subseteq> set (dl_targets l)" using set_drop_subset[of i "dl_targets l"] by (auto dest!: set_takeWhileD)
  have "\<exists>t \<in> set ?ts. case current of None \<Rightarrow> unat t = unat source + 1 | Some c \<Rightarrow> t = c"
  proof (cases current)
    case None
    have all: "takeWhile (\<lambda>t. True) xs = xs" for xs :: "u64 list" by (simp add: takeWhile_eq_all_conv)
    have "?ts = drop i (dl_targets l)" using None by (simp add: all)
    moreover have "last (dl_targets l) = last (drop i (dl_targets l))" using i(2) by simp
    then have "last (dl_targets l) \<in> set (drop i (dl_targets l))" using i(2) by (metis drop_eq_Nil last_in_set not_le)
    ultimately show ?thesis using None last by (auto simp: all)
  next
    case (Some c)
    then have c: "c \<in> set (dl_targets l)" "c \<le> dr_target_revision r" using l(8) cur by auto
    obtain j where j: "j < length (dl_targets l)" "dl_targets l ! j = c" using c(1) by (metis in_set_conv_nth)
    have "i \<le> j"
    proof (rule ccontr)
      assume "\<not> i \<le> j"
      then have "dl_targets l ! i < dl_targets l ! j" using part i(2) by (simp add: sorted_wrt_iff_nth_less)
      then show False using i(3) j(2) c(2) by simp
    qed
    then have "c \<in> set (drop i (dl_targets l))" using j by (auto simp: in_set_conv_nth intro!: exI[of _ "j - i"])
    moreover have "?ts = filter (\<lambda>t. c \<le> t) (drop i (dl_targets l))"
      using Some takeWhile_descending[OF sorted_wrt_drop[OF part]] by simp
    ultimately show ?thesis using Some by simp
  qed
  then show ?thesis using run sub by blast
qed

section \<open>Costs on the record\<close>

lemma entries_cost_slice: "entries_cost (take k (drop n es)) \<le> entries_cost es"
proof -
  have "entries_cost (drop n es) \<le> entries_cost es" using entries_cost_split[of es n] by simp
  moreover have "entries_cost (take k (drop n es)) \<le> entries_cost (drop n es)" using entries_cost_split[of "drop n es" k] by simp
  ultimately show ?thesis by simp
qed

lemma slice_cost_record:
  assumes h: "history_of log h" and lo: "oldest_available_revision h \<le> s"
  shows "unat (slice_cost h s t) = entries_cost (take (unat t - unat s) (drop (unat s) log))"
proof -
  have inv: "history_inv h" using h by (simp add: history_of_def)
  have base: "base_revision h \<le> unat s" using lo oldest_available[OF inv] by (simp add: word_le_nat_alt)
  have eq: "history_slice h (unat s) (unat t) = take (unat t - unat s) (drop (unat s) log)"
    by (rule history_slice_record[OF h base])
  have "entries_cost (history_slice h (unat s) (unat t)) \<le> entries_cost (gh_entries h)"
    unfolding history_slice_def by (rule entries_cost_slice)
  also have "\<dots> < 2 ^ 64"
    using inv unsigned_less[of "gh_current_cumulative_estimated_bytes h", where 'a = nat] by (simp add: history_inv_def)
  finally show ?thesis by (simp add: slice_cost_def eq unat_of_nat)
qed

lemma delta_value_replays:
  assumes "recorded us log" "delta_value log s t es"
  shows "fold_opt view_step (us ! unat s) (map he_delta es) = Some (us ! unat t)"
  using recorded_replays[OF assms(1), of "unat s" "unat t"] assms(2) by (auto simp: delta_value_def word_less_nat_alt)

section \<open>Election from the history\<close>

text \<open>A request as the publication made it: a Head of the record and a range selected for it.\<close>

definition request_ok :: "graph_view list \<Rightarrow> publication \<Rightarrow> canonical_delta_request \<Rightarrow> bool" where
  "request_ok us pn request \<longleftrightarrow>
     unat (dr_source_revision (cdr_selected request)) + 128 < 2 ^ 64 \<and>
     gtc_publication_id (cdr_head request) = pn_publication_id pn \<and>
     unat (gtc_revision (cdr_head request)) < length us \<and>
     gtc_revision_timestamp_ms (cdr_head request) = view_ts (us ! unat (gtc_revision (cdr_head request))) \<and>
     (\<exists>l. ladder_new (dr_source_revision (cdr_selected request)) (gtc_revision (cdr_head request)) None
            (cdr_active_interval request) = Some l \<and>
          select l (gtc_state (cdr_head request)) = Some (Range (cdr_selected request)))"

definition delivers :: "graph_view list \<Rightarrow> u64 \<Rightarrow> cached_delta \<Rightarrow> bool" where
  "delivers us s d \<longleftrightarrow>
     cd_from_revision_id d = s \<and> s < cd_to_revision_id d \<and> unat (cd_to_revision_id d) < length us \<and>
     fold_opt view_step (us ! unat s) (map he_delta (cd_body d)) = Some (us ! unat (cd_to_revision_id d))"

definition reentry_ok ::
  "graph_view list \<Rightarrow> graph_history \<Rightarrow> graph_cache \<Rightarrow> u64 \<Rightarrow> graph_history_range_error + canonical_delta_reentry \<Rightarrow> bool" where
  "reentry_ok us h cache source result \<longleftrightarrow>
     (case result of
        Inl _ \<Rightarrow> source < oldest_available_revision h
      | Inr ReentrySourceExpired \<Rightarrow> True
      | Inr (ReentryAccess (AccessCompleted d)) \<Rightarrow> delivers us source d
      | Inr (ReentryAccess (AccessJob job)) \<Rightarrow> job |\<in>| fmdom (gc_delta_jobs cache))"

lemma delta_value_delivers:
  "recorded us log \<Longrightarrow> cd_from_revision_id d = s \<Longrightarrow> delta_value log s (cd_to_revision_id d) (cd_body d) \<Longrightarrow> delivers us s d"
  using delta_value_replays[of us log s "cd_to_revision_id d" "cd_body d"]
  by (auto simp: delivers_def delta_value_def recorded_def)

lemma publication_inv_cache:
  assumes "publication_inv us log pn" "cache_inv (slot_time us (pn_history pn)) (delta_value log) (head_value us) c"
    and "builders_ok us (gc_head_builders c)"
  shows "publication_inv us log (pn\<lparr>pn_cache := c\<rparr>)"
  using assms by (simp add: publication_inv_def)

lemma elect_delta_builders:
  assumes "elect_delta c accepting ts b = Some (c', access)"
  shows "gc_head_builders c' = gc_head_builders c"
proof -
  have fin: "gc_head_builders c2 = gc_head_builders c1" if "finish_delta_job c1 s j r = Some c2" for c1 c2 s j r
    using that
    by (auto simp: finish_delta_job_def delta_finish_slot_def bind_eq_Some_conv split: option.splits if_splits sum.splits)
  have sp: "gc_head_builders c2 = gc_head_builders c" if "spawn_delta c accepting t d b = Some (c2, a)" for t d c2 a
    using that fin by (fastforce simp: spawn_delta_def Let_def install_delta_job_def split: if_splits)
  show ?thesis using assms sp by (auto simp: elect_delta_eq split: option.splits if_splits)
qed

lemma elect_from_history_outcome:
  assumes inv: "publication_inv us log pn" and req: "request_ok us pn request"
    and cur: "case current of
        None \<Rightarrow> True
      | Some c \<Rightarrow> c < dr_target_revision (cdr_selected request) \<and>
          (\<exists>body. delta_value log (dr_source_revision (cdr_selected request)) c body)"
  shows "\<exists>cache result. elect_canonical_delta_from_history pn accepting request current = Some (pn\<lparr>pn_cache := cache\<rparr>, result) \<and>
    publication_inv us log (pn\<lparr>pn_cache := cache\<rparr>) \<and>
    reentry_ok us (pn_history pn) cache (dr_source_revision (cdr_selected request)) result"
proof -
  note d = publication_invD[OF inv] and la = publication_last[OF inv]
  let ?h = "pn_history pn" and ?sel = "cdr_selected request" and ?head = "cdr_head request"
  let ?s = "dr_source_revision ?sel" and ?t = "dr_target_revision ?sel" and ?i = "cdr_active_interval request"
  have hinv: "history_inv ?h" using d(2) by (simp add: history_of_def)
  obtain l0 where l0: "ladder_new ?s (gtc_revision ?head) None ?i = Some l0" "select l0 (gtc_state ?head) = Some (Range ?sel)"
    and s128: "unat ?s + 128 < 2 ^ 64" and hrev: "unat (gtc_revision ?head) < length us"
    and hts: "gtc_revision_timestamp_ms ?head = view_ts (us ! unat (gtc_revision ?head))"
    using req by (auto simp: request_ok_def)
  obtain succ where succ: "ordinary_successor ?s = Some succ" using ordinary_successor_total[OF s128] by blast
  from select_outcome[OF l0(1) s128 succ, of "gtc_state ?head"] l0(2) have
    t: "?t \<in> set (dl_targets l0)" "?s < ?t" "?t \<le> gtc_revision ?head" by auto
  note L = ladder_new_SomeD[OF l0(1)]
  define l where "l = l0\<lparr>dl_current_target := current\<rparr>"
  have cc: "?s < c \<and> c \<le> gtc_revision ?head \<and> c \<in> set (dl_targets l0)" if "current = Some c" for c
    using that cur t(3) L(3) by (auto simp: delta_value_def)
  have new: "ladder_new ?s (gtc_revision ?head) current ?i = Some l"
    using l0(1) cc by (cases current) (auto simp: ladder_new_def l_def bind_eq_Some_conv split: if_splits)
  have sel: "select l (gtc_state ?head) = Some (Range ?sel)"
  proof -
    have f: "dl_targets l = dl_targets l0" "dl_head_revision l = dl_head_revision l0" "dl_source_revision l = dl_source_revision l0"
      "dl_active_interval l = dl_active_interval l0" by (simp_all add: l_def)
    have e: "ladder_eligible l = ladder_eligible l0" unfolding ladder_eligible_def f by (intro ext) (rule refl)
    show ?thesis using l0(2) unfolding select_def f e .
  qed
  have le: "c \<le> ?t" if "current = Some c" for c using that cur by auto
  obtain rest where ft: "fitting_targets l ?sel = Some (?t # rest)" "sorted_wrt (>) (?t # rest)" "list_all (\<lambda>t. ?s < t) (?t # rest)"
    using fitting_targets_outcome[OF new s128 sel le] by blast
  have sub: "set (?t # rest) \<subseteq> set (dl_targets l0)"
    and reach: "\<exists>t \<in> set (?t # rest). case current of None \<Rightarrow> unat t = unat ?s + 1 | Some c \<Rightarrow> t = c"
    using fitting_targets_reach[OF new s128 sel le] ft(1) by (auto simp: l_def)
  have hcur: "gtc_revision ?head \<le> gh_current_revision_id ?h"
    using hrev la(3,4,5) by (simp add: word_le_nat_alt)
  have bounded: "x \<le> gtc_revision ?head" if "x \<in> set (?t # rest)" for x using that ft(2) t(3) by auto
  have scur: "?s < gh_current_revision_id ?h" using t hcur by simp
  have slen: "unat ?s < length log" using scur la(4,5) by (simp add: word_less_nat_alt)
  show ?thesis
  proof (cases "oldest_available_revision ?h \<le> ?s")
    case False
    then have "\<exists>e. fitting_range ?h ?s (?t # rest) (\<lambda>estimated. estimated < SOFT_DELTA_ESTIMATED_BYTES) = Some (Inl e)"
      using t(2) by (auto simp: fitting_range_def)
    then show ?thesis using new ft(1) False inv
      by (intro exI[of _ "pn_cache pn"]) (auto simp: elect_canonical_delta_from_history_def Let_def reentry_ok_def)
  next
    case lo: True
    have floor_le: "gh_replay_floor_revision ?h \<le> ?s"
      using hinv lo oldest_available[OF hinv] by (simp add: history_inv_def word_le_nat_alt)
    have cost: "unat (slice_cost ?h ?s x) = entries_cost (take (unat x - unat ?s) (drop (unat ?s) log))" for x
      by (rule slice_cost_record[OF d(2) lo])
    have "\<exists>x \<in> set (?t # rest). slice_cost ?h ?s x < SOFT_DELTA_ESTIMATED_BYTES"
    proof (cases current)
      case None
      then obtain x where x: "x \<in> set (?t # rest)" "unat x = unat ?s + 1" using reach by auto
      have "take (unat x - unat ?s) (drop (unat ?s) log) = [log ! unat ?s]" using x(2) slen by (simp add: Cons_nth_drop_Suc[symmetric])
      then have "unat (slice_cost ?h ?s x) = unat (he_estimated_raw_bytes (log ! unat ?s))" by (simp add: cost)
      moreover have "he_estimated_raw_bytes (log ! unat ?s) < SOFT_DELTA_ESTIMATED_BYTES"
        using d(2) slen floor_le by (simp add: history_of_def word_le_nat_alt)
      ultimately have "slice_cost ?h ?s x < SOFT_DELTA_ESTIMATED_BYTES" by (simp add: word_less_nat_alt)
      then show ?thesis using x(1) by blast
    next
      case (Some c)
      then obtain body where "delta_value log ?s c body" "c \<in> set (?t # rest)" using cur reach by auto
      moreover from this have "slice_cost ?h ?s c < SOFT_DELTA_ESTIMATED_BYTES"
        using cost[of c] unfolding delta_value_def word_less_nat_alt[of "slice_cost ?h ?s c"] by metis
      ultimately show ?thesis by blast
    qed
    then obtain x where x: "List.find (\<lambda>x. slice_cost ?h ?s x < SOFT_DELTA_ESTIMATED_BYTES) (?t # rest) = Some x"
      by (metis (no_types, lifting) find_None_iff not_None_eq)
    then have xm: "x \<in> set (?t # rest)" "slice_cost ?h ?s x < SOFT_DELTA_ESTIMATED_BYTES"
      unfolding find_Some_iff by (metis nth_mem)+
    have run: "fitting_range ?h ?s (?t # rest) (\<lambda>estimated. estimated < SOFT_DELTA_ESTIMATED_BYTES) =
        Some (Inr (Some (fitting_result ?h ?s ?t x)))"
      using fitting_range_outcome[OF hinv lo scur refl ft(2,3), of "\<lambda>estimated. estimated < SOFT_DELTA_ESTIMATED_BYTES"] x t(3) hcur
      by simp
    have sx: "?s < x" using xm(1) ft(3) by (auto simp: list_all_iff)
    have xl: "unat x \<le> length log" using bounded[OF xm(1)] hrev la(3) by (simp add: word_le_nat_alt)
    let ?es = "take (unat x - unat ?s) (drop (unat ?s) log)"
    have es: "gfr_entries (fitting_result ?h ?s ?t x) = ?es"
      using history_slice_record[OF d(2), of "unat ?s"] lo oldest_available[OF hinv]
      by (simp add: fitting_result_def word_le_nat_alt)
    have dv: "delta_value log ?s x ?es"
      using sx xl cost[of x] xm sub L(3) by (auto simp: delta_value_def word_less_nat_alt)
    obtain tl_es where es_cons: "?es = log ! unat ?s # tl_es"
      using sx slen by (cases "unat x - unat ?s") (auto simp: word_less_nat_alt Cons_nth_drop_Suc[symmetric])
    let ?first = "gd_revision_timestamp_ms (he_delta (log ! unat ?s))"
    have first: "?first = view_ts (us ! (unat ?s + 1))" using d(1) slen by (simp add: recorded_def)
    have s1: "unat ?s + 1 \<le> unat (gtc_revision ?head)" using t by (simp add: word_less_nat_alt word_le_nat_alt)
    have "?first \<le> gtc_revision_timestamp_ms ?head"
      unfolding first hts by (rule recorded_ts_mono[OF d(1) s1 hrev])
    then have age: "checked_sub (gtc_revision_timestamp_ms ?head) ?first = Some (gtc_revision_timestamp_ms ?head - ?first)"
      by (simp add: checked_sub_def)
    have st: "slot_time us ?h ?s ?first" using floor_le s1 hrev first by (simp add: slot_time_def)
    let ?b = "\<lparr>dbl_source_revision = ?s, dbl_target_revision = x, dbl_size_limited = gfr_shortened (fitting_result ?h ?s ?t x), dbl_entries = ?es\<rparr>"
    obtain c' access where el: "elect_delta (pn_cache pn) accepting ?first ?b = Some (c', access)"
        "cache_inv (slot_time us ?h) (delta_value log) (head_value us) c'"
        "case access of
           AccessCompleted dd \<Rightarrow> cd_from_revision_id dd = ?s \<and> delta_value log ?s (cd_to_revision_id dd) (cd_body dd)
         | AccessJob job \<Rightarrow> job |\<in>| fmdom (gc_delta_jobs c')"
      using elect_delta_outcome[OF d(6), of ?b ?first accepting] st dv by (fastforce split: cache_access.splits)
    have inv': "publication_inv us log (pn\<lparr>pn_cache := c'\<rparr>)"
      by (rule publication_inv_cache[OF inv el(2)]) (use elect_delta_builders[OF el(1)] d(7) in simp)
    have tgt: "gfr_target_revision (fitting_result ?h ?s ?t x) = x" by (simp add: fitting_result_def)
    show ?thesis
    proof (cases "DELTA_CACHE_MAX_AGE_MS \<le> gtc_revision_timestamp_ms ?head - ?first")
      case True
      then show ?thesis using new ft(1) run es es_cons age inv
        by (intro exI[of _ "pn_cache pn"]) (simp add: elect_canonical_delta_from_history_def Let_def reentry_ok_def)
    next
      case False
      then have "elect_canonical_delta_from_history pn accepting request current = Some (pn\<lparr>pn_cache := c'\<rparr>, Inr (ReentryAccess access))"
        using new ft(1) run es es_cons age el(1) tgt
        by (simp add: elect_canonical_delta_from_history_def Let_def reentry_ok_def)
      then show ?thesis using inv' el(3) delta_value_delivers[OF d(1), where s = ?s]
        by (intro exI[of _ c'] exI[of _ "Inr (ReentryAccess access)"]) (auto simp: reentry_ok_def split: cache_access.splits)
    qed
  qed
qed

section \<open>Selection\<close>

lemma delta_lookup_publication:
  assumes inv: "publication_inv us log pn" and ord: "slots_ordered (gc_deltas (pn_cache pn)) ts"
  shows "\<exists>cache answer. delta_lookup (pn_cache pn) source target ts = Some (cache, answer) \<and>
    publication_inv us log (pn\<lparr>pn_cache := cache\<rparr>) \<and>
    (case answer of
       DeltaCompleted d \<Rightarrow> delivers us source d
     | DeltaRunning job \<Rightarrow> job |\<in>| fmdom (gc_delta_jobs cache)
     | DeltaConstructionRequired None \<Rightarrow> True
     | DeltaConstructionRequired (Some current) \<Rightarrow> current < target \<and> (\<exists>body. delta_value log source current body))"
proof -
  note d = publication_invD[OF inv]
  let ?c = "(pn_cache pn)\<lparr>gc_deltas := fm_keep (\<lambda>slot. \<not> slot_expired ts slot) (gc_deltas (pn_cache pn))\<rparr>"
  obtain answer where a: "delta_lookup (pn_cache pn) source target ts = Some (?c, answer)"
      "cache_inv (slot_time us (pn_history pn)) (delta_value log) (head_value us) ?c"
      "case answer of
         DeltaCompleted d \<Rightarrow> cd_from_revision_id d = source \<and> delta_value log source (cd_to_revision_id d) (cd_body d) \<and> is_adequate_for d target
       | DeltaRunning job \<Rightarrow> fmlookup (gc_delta_jobs (pn_cache pn)) job = Some JobPending
       | DeltaConstructionRequired None \<Rightarrow> True
       | DeltaConstructionRequired (Some current) \<Rightarrow> current < target \<and>
           (\<exists>body slot. delta_value log source current body \<and> fmlookup (gc_deltas (pn_cache pn)) source = Some slot)"
    using delta_lookup_outcome[OF d(6) ord, of source target] by blast
  have "publication_inv us log (pn\<lparr>pn_cache := ?c\<rparr>)" by (rule publication_inv_cache[OF inv a(2)]) (use d(7) in simp)
  then show ?thesis
    using a(1,3) delta_value_delivers[OF d(1), where s = source]
    by (intro exI[of _ ?c] exI[of _ answer]) (auto intro: fmdomI split: delta_cache_lookup.splits option.splits)
qed

lemma validate_frame:
  assumes "registry_validate reg identifier w = (reg', w', valid)"
  shows "reg_publication_id reg' = reg_publication_id reg" "reg_publication_state reg' = reg_publication_state reg"
    "reg_head_revision_id reg' = reg_head_revision_id reg"
  using assms
  by (auto simp: registry_validate_def complete_delta_def drop_registration_def split: option.splits if_splits prod.splits)

lemma validate_inv:
  assumes "registry_inv reg w" "mailboxes_ok (sw_mailboxes w)" "registry_validate reg identifier w = (reg', w', valid)"
  shows "registry_inv reg' w' \<and> mailboxes_ok (sw_mailboxes w')"
proof -
  obtain reg1 w1 result where c: "complete_delta reg identifier ValidateOnly w = (reg1, w1, result)" using prod_cases3 by blast
  then show ?thesis using complete_delta_inv[OF assms(1,2) c] assms(3) by (simp add: registry_validate_def)
qed

definition selection_ok ::
  "graph_view list \<Rightarrow> publication \<Rightarrow> publication \<Rightarrow> u64 \<Rightarrow> u64 option \<Rightarrow>
   graph_history_range_error + canonical_delta_selection \<Rightarrow> bool" where
  "selection_ok us pn pn' source client result \<longleftrightarrow>
     (case result of
        Inl _ \<Rightarrow> source < oldest_available_revision (pn_history pn)
      | Inr SelFutureCursor \<Rightarrow> gv_current_revision_id (pn_view pn) < source
      | Inr SelClientRegistrationMissing \<Rightarrow> client \<noteq> None
      | Inr SelReplayBarrier \<Rightarrow> source < gh_replay_floor_revision (pn_history pn)
      | Inr (SelUpToDate head) \<Rightarrow> source = gv_current_revision_id (pn_view pn) \<and> head = capture_delta_target pn
      | Inr (SelWaitForWakeup head) \<Rightarrow> pn_state pn \<noteq> Stale \<and> head = capture_delta_target pn
      | Inr SelSourceExpired \<Rightarrow> True
      | Inr (SelAccess request access) \<Rightarrow>
          cdr_head request = capture_delta_target pn \<and> dr_source_revision (cdr_selected request) = source \<and>
          request_ok us pn request \<and>
          (case access of
             AccessCompleted d \<Rightarrow> delivers us source d
           | AccessJob job \<Rightarrow> job |\<in>| fmdom (gc_delta_jobs (pn_cache pn'))))"

lemma publication_inv_clients:
  assumes "publication_inv us log pn" "reg_publication_id reg = reg_publication_id (pn_clients pn)"
    "reg_publication_state reg = reg_publication_state (pn_clients pn)"
    "reg_head_revision_id reg = reg_head_revision_id (pn_clients pn)"
  shows "publication_inv us log (pn\<lparr>pn_clients := reg\<rparr>)"
  using assms by (simp add: publication_inv_def)

lemma prune_publication:
  assumes inv: "publication_inv us log pn"
  shows "\<exists>slots. prune_expired (gc_deltas (pn_cache pn)) (view_ts (pn_view pn)) = Some slots \<and>
    publication_inv us log (pn\<lparr>pn_cache := (pn_cache pn)\<lparr>gc_deltas := slots\<rparr>\<rparr>)"
proof -
  obtain cache answer where
    "delta_lookup (pn_cache pn) 0 0 (view_ts (pn_view pn)) = Some (cache, answer)" "publication_inv us log (pn\<lparr>pn_cache := cache\<rparr>)"
    using delta_lookup_publication[OF inv publication_slots_ordered[OF inv], of 0 0] by blast
  then show ?thesis by (auto simp: delta_lookup_def bind_eq_Some_conv)
qed

lemma select_canonical_delta_outcome:
  assumes inv: "publication_inv us log pn" "clients_inv pn w"
    and interval: "interval \<in> set ADAPTIVE_DELTA_INTERVALS" and room: "unat source + 128 < 2 ^ 64"
  shows "\<exists>pn' w' result. select_canonical_delta pn w accepting source client interval = Some (pn', w', result) \<and>
    publication_inv us log pn' \<and> clients_inv pn' w' \<and> pn_view pn' = pn_view pn \<and> pn_history pn' = pn_history pn \<and>
    pn_state pn' = pn_state pn \<and> pn_publication_id pn' = pn_publication_id pn \<and> selection_ok us pn pn' source client result"
proof (cases "gv_current_revision_id (pn_view pn) < source")
  case True
  then show ?thesis using inv by (auto simp: select_canonical_delta_def capture_delta_target_def selection_ok_def)
next
  case le: False
  let ?head = "capture_delta_target pn"
  have hd: "gtc_revision ?head = gv_current_revision_id (pn_view pn)" "gtc_revision_timestamp_ms ?head = view_ts (pn_view pn)"
    "gtc_replay_floor_revision ?head = gh_replay_floor_revision (pn_history pn)" "gtc_state ?head = pn_state pn"
    "gtc_publication_id ?head = pn_publication_id pn"
    by (simp_all add: capture_delta_target_def)
  define step where "step = (case client of None \<Rightarrow> (pn_clients pn, w, True) | Some identifier \<Rightarrow> registry_validate (pn_clients pn) identifier w)"
  obtain clients w1 valid where st: "step = (clients, w1, valid)" using prod_cases3 by blast
  let ?pn1 = "pn\<lparr>pn_clients := clients\<rparr>"
  have fr: "reg_publication_id clients = reg_publication_id (pn_clients pn)" "reg_publication_state clients = reg_publication_state (pn_clients pn)"
      "reg_head_revision_id clients = reg_head_revision_id (pn_clients pn)"
    using st validate_frame by (auto simp: step_def split: option.splits)
  have i1: "publication_inv us log ?pn1" by (rule publication_inv_clients[OF inv(1) fr])
  have ci: "registry_inv clients w1 \<and> mailboxes_ok (sw_mailboxes w1)"
    using st inv(2) validate_inv[of "pn_clients pn" w] by (auto simp: step_def clients_inv_def split: option.splits)
  have some: "client \<noteq> None" if "\<not> valid" using that st by (auto simp: step_def split: option.splits)
  obtain slots where sl: "prune_expired (gc_deltas (pn_cache pn)) (view_ts (pn_view pn)) = Some slots"
      "publication_inv us log (?pn1\<lparr>pn_cache := (pn_cache pn)\<lparr>gc_deltas := slots\<rparr>\<rparr>)"
    using prune_publication[OF i1] by auto
  define pn2 where "pn2 = ?pn1\<lparr>pn_cache := (pn_cache pn)\<lparr>gc_deltas := slots\<rparr>\<rparr>"
  have f2: "pn_view pn2 = pn_view pn" "pn_history pn2 = pn_history pn" "pn_clients pn2 = clients" "pn_state pn2 = pn_state pn"
      "pn_publication_id pn2 = pn_publication_id pn" by (simp_all add: pn2_def)
  have i2: "publication_inv us log pn2" using sl(2) by (simp add: pn2_def)
  note eq = select_canonical_delta_def Let_def hd step_def[symmetric] st
  consider (invalid) "\<not> valid" | (same) "valid" "source = gv_current_revision_id (pn_view pn)"
    | (barrier) "valid" "source < gv_current_revision_id (pn_view pn)" "source < gh_replay_floor_revision (pn_history pn)"
    | (go) "valid" "source < gv_current_revision_id (pn_view pn)" "\<not> source < gh_replay_floor_revision (pn_history pn)"
    using le by (metis linorder_neqE)
  then show ?thesis
  proof cases
    case invalid
    then show ?thesis using le i1 ci some by (simp add: eq selection_ok_def clients_inv_def)
  next
    case same
    then show ?thesis using le i2 ci f2 sl(1) by (simp add: eq selection_ok_def clients_inv_def pn2_def[symmetric])
  next
    case barrier
    then show ?thesis using le i2 ci f2 sl(1) by (auto simp: eq selection_ok_def clients_inv_def pn2_def[symmetric])
  next
    case go
    obtain l where l: "ladder_new source (gv_current_revision_id (pn_view pn)) None interval = Some l"
      using ladder_new_total[OF go(2) interval room] by blast
    obtain succ where succ: "ordinary_successor source = Some succ" using ordinary_successor_total[OF room] by blast
    note so = select_outcome[OF l room succ, of "pn_state pn"]
    have ne: "source \<noteq> gv_current_revision_id (pn_view pn)" using go(2) by simp
    note run = eq l sl(1) pn2_def ne
    show ?thesis
    proof (cases "select l (pn_state pn)")
      case None
      then show ?thesis using so by simp
    next
      case (Some selection)
      show ?thesis
      proof (cases selection)
        case (WaitForWakeup x)
        then have "select_canonical_delta pn w accepting source client interval = Some (pn2, w1, Inr (SelWaitForWakeup ?head))"
          using le go Some by (simp add: run)
        then show ?thesis using WaitForWakeup Some so i2 ci f2 by (simp add: selection_ok_def clients_inv_def)
      next
        case (Range sel)
        let ?req = "\<lparr>cdr_head = ?head, cdr_selected = sel, cdr_active_interval = interval\<rparr>"
        have sr: "dr_source_revision sel = source" using so Some Range by simp
        have "unat (gv_current_revision_id (pn_view pn)) < length us" "us ! unat (gv_current_revision_id (pn_view pn)) = pn_view pn"
          using publication_last[OF inv(1)] by simp_all
        then have ro: "request_ok us pn ?req" using room l Some Range sr hd by (simp add: request_ok_def)
        obtain cache answer where lk: "delta_lookup (pn_cache pn2) source (dr_target_revision sel) (view_ts (pn_view pn)) = Some (cache, answer)"
          and i3: "publication_inv us log (pn2\<lparr>pn_cache := cache\<rparr>)"
          and an: "case answer of
             DeltaCompleted d \<Rightarrow> delivers us source d
           | DeltaRunning job \<Rightarrow> job |\<in>| fmdom (gc_delta_jobs cache)
           | DeltaConstructionRequired None \<Rightarrow> True
           | DeltaConstructionRequired (Some current) \<Rightarrow> current < dr_target_revision sel \<and> (\<exists>body. delta_value log source current body)"
          using delta_lookup_publication[OF i2, of "view_ts (pn_view pn)" source "dr_target_revision sel"]
            publication_slots_ordered[OF i2] f2 by auto
        show ?thesis
        proof (cases answer)
          case (DeltaConstructionRequired cur)
          have ro2: "request_ok us (pn2\<lparr>pn_cache := cache\<rparr>) ?req" using ro f2 by (simp add: request_ok_def)
          obtain cache' result where el: "elect_canonical_delta_from_history (pn2\<lparr>pn_cache := cache\<rparr>) accepting ?req cur =
                Some (pn2\<lparr>pn_cache := cache'\<rparr>, result)" "publication_inv us log (pn2\<lparr>pn_cache := cache'\<rparr>)"
              "reentry_ok us (pn_history pn) cache' source result"
            using elect_from_history_outcome[OF i3 ro2, of cur accepting] an DeltaConstructionRequired sr f2
            by (auto simp del: split_paired_Ex split: option.splits)
          have "select_canonical_delta pn w accepting source client interval = Some (pn2\<lparr>pn_cache := cache'\<rparr>, w1,
              case result of
                Inl error \<Rightarrow> Inl error
              | Inr ReentrySourceExpired \<Rightarrow> Inr SelSourceExpired
              | Inr (ReentryAccess access) \<Rightarrow> Inr (SelAccess ?req access))"
            using le go Some Range lk DeltaConstructionRequired el(1) by (simp add: run)
          moreover have "selection_ok us pn (pn2\<lparr>pn_cache := cache'\<rparr>) source client (case result of
                Inl error \<Rightarrow> Inl error
              | Inr ReentrySourceExpired \<Rightarrow> Inr SelSourceExpired
              | Inr (ReentryAccess access) \<Rightarrow> Inr (SelAccess ?req access))"
            using el(3) ro sr by (auto simp: selection_ok_def reentry_ok_def split: sum.splits canonical_delta_reentry.splits cache_access.splits)
          ultimately show ?thesis using el(2) ci f2 by (auto simp: clients_inv_def)
        next
          case (DeltaCompleted d)
          then have "select_canonical_delta pn w accepting source client interval =
              Some (pn2\<lparr>pn_cache := cache\<rparr>, w1, Inr (SelAccess ?req (AccessCompleted d)))"
            using le go Some Range lk by (simp add: run)
          then show ?thesis using DeltaCompleted i3 an ro sr ci f2 by (simp add: selection_ok_def clients_inv_def)
        next
          case (DeltaRunning job)
          then have "select_canonical_delta pn w accepting source client interval =
              Some (pn2\<lparr>pn_cache := cache\<rparr>, w1, Inr (SelAccess ?req (AccessJob job)))"
            using le go Some Range lk by (simp add: run)
          then show ?thesis using DeltaRunning i3 an ro sr ci f2 by (simp add: selection_ok_def clients_inv_def)
        qed
      qed
    qed
  qed
qed

end
