(* ===== verification/Publication_Reach.thy ===== *)
theory Publication_Reach
  imports Publication_Deltas
begin

text \<open>
  The remaining operations of a publication and its reachable states: building deltas and Head tiers,
  publication transitions, re-entry, and the composition of all of them.
\<close>

section \<open>Delta builds\<close>

lemma build_delta_outcome:
  assumes rec: "recorded us log" and v: "delta_value log (dbl_source_revision b) (dbl_target_revision b) (dbl_entries b)"
  shows "\<exists>result. build_delta b encoded = Some result \<and> delta_result_ok b result"
proof (cases encoded)
  case (Inr n)
  let ?s = "unat (dbl_source_revision b)"
  have len: "?s < length log" and es: "dbl_entries b = take (unat (dbl_target_revision b) - ?s) (drop ?s log)"
    and lt: "?s < unat (dbl_target_revision b)"
    using v by (auto simp: delta_value_def word_less_nat_alt)
  obtain rest where "dbl_entries b = log ! ?s # rest"
    unfolding es using lt len by (cases "unat (dbl_target_revision b) - ?s") (auto simp: Cons_nth_drop_Suc[symmetric])
  moreover have "he_from (log ! ?s) = dbl_source_revision b" using recorded_from[OF rec len] by (simp add: word_unat_eq_iff)
  ultimately show ?thesis using Inr by (simp add: build_delta_def delta_result_ok_def)
qed (simp add: build_delta_def delta_result_ok_def)

lemma finish_delta_build_outcome:
  assumes inv: "publication_inv us log pn" and b: "fmlookup (gc_delta_builders (pn_cache pn)) job = Some b"
  shows "\<exists>cache. finish_delta_build pn job encoded = Some (pn\<lparr>pn_cache := cache\<rparr>) \<and>
    publication_inv us log (pn\<lparr>pn_cache := cache\<rparr>) \<and> fmlookup (gc_delta_builders cache) job = None"
proof -
  note d = publication_invD[OF inv]
  have "delta_value log (dbl_source_revision b) (dbl_target_revision b) (dbl_entries b)"
    using d(6) b by (auto simp: cache_inv_def deltas_inv_def)
  then obtain result where r: "build_delta b encoded = Some result" "delta_result_ok b result"
    using build_delta_outcome[OF d(1)] by blast
  obtain c where c: "finish_delta_job (pn_cache pn) (dbl_source_revision b) job result = Some c"
      "cache_inv (slot_time us (pn_history pn)) (delta_value log) (head_value us) c"
      "gc_delta_builders c = fmdrop job (gc_delta_builders (pn_cache pn))" "gc_head_builders c = gc_head_builders (pn_cache pn)"
    using finish_delta_job_outcome[OF d(6) b r(2)] by blast
  have "publication_inv us log (pn\<lparr>pn_cache := c\<rparr>)" by (rule publication_inv_cache[OF inv c(2)]) (use c(4) d(7) in simp)
  then show ?thesis using b r(1) c(1,3) by (intro exI[of _ c]) (simp add: finish_delta_build_def)
qed

section \<open>Head tiers\<close>

lemma capture_head_tier_outcome:
  assumes inv: "publication_inv us log pn"
  shows "head_tier_extent pn depth = Some (tier_extent (pn_view pn) depth) \<and>
    (\<exists>w. capture_head_tier pn depth = Some (view_capture pn w) \<and> tier_capture us depth w \<and> view_inv w)"
proof -
  note d = publication_invD[OF inv] and l = publication_last[OF inv]
  let ?v = "pn_view pn" and ?e = "tier_extent (pn_view pn) depth"
  have vi: "view_inv ?v" and full: "list_all (\<lambda>l. l |\<in>| fmdom (gv_levels ?v)) (extent_levels (gv_extent ?v))"
    using d(4) by (simp_all add: head_inv_def)
  have ev: "gv_low_level ?v \<le> gv_high_level ?v" "gv_low_level ?v \<noteq> 0" using vi
    by (auto simp: view_inv_def extent_valid_def gv_low_level_def gv_high_level_def)
  have le: "saturating_sub (gv_high_level ?v) (depth - 1) \<le> gv_high_level ?v"
    by (simp add: word_le_nat_alt unat_saturating_sub)
  have nz: "max (saturating_sub (gv_high_level ?v) (depth - 1)) (gv_low_level ?v) \<noteq> 0"
    using ev(2) by (metis max.cobounded2 word_le_0_iff)
  have ext: "head_tier_extent pn depth = Some ?e"
    using ev le nz by (simp add: head_tier_extent_def Let_def level_extent_new_def tier_extent_def not_less)
  have valid: "extent_valid ?e" using ev le nz by (simp add: extent_valid_def tier_extent_def)
  have "sub": "contains_extent (gv_extent ?v) ?e"
    using ev le by (auto simp: contains_extent_def tier_extent_def gv_low_level_def gv_high_level_def)
  obtain w where w: "extract_subview ?v ?e = Some (Inr w)" "view_inv w"
      "view_frame w = (extent_depth ?e, ?e, gv_current_revision_id ?v, gv_current_revision_timestamp_ms ?v, Frozen)"
    using extract_subview_outcome[OF vi full head_child_levels[OF d(4)] d(5) valid "sub"] by blast
  have "tier_capture us depth w"
    unfolding tier_capture_def using w l by (intro exI[of _ "length log"]) (auto simp: view_frame_def)
  then show ?thesis using ext w by (auto simp: capture_head_tier_def capture_subview_def)
qed

lemma head_value_ts:
  assumes inv: "publication_inv us log pn" and v: "head_value us depth v"
  shows "chs_revision_timestamp_ms v \<le> heb_head_revision_timestamp_ms (head_eligibility pn)"
  using v view_ts_le_head[OF inv] by (auto simp: head_value_def tier_capture_def head_eligibility_def)

lemma elect_head_builders:
  assumes "elect_head c accepting boundary b = Some (c', access)" "fmlookup (gc_head_builders c') j = Some b'"
  shows "b' = b \<or> fmlookup (gc_head_builders c) j = Some b'"
proof -
  have fin: "gc_head_builders c2 = fmdrop job (gc_head_builders c1)" if "finish_head_job c1 k job r = Some c2" for c1 c2 k job r
    using that
    by (auto simp: finish_head_job_def head_finish_slot_def bind_eq_Some_conv split: option.splits if_splits sum.splits)
  show ?thesis using assms
    by (auto simp: elect_head_def Let_def bind_eq_Some_conv dest!: fin split: option.splits if_splits)
qed

lemma head_lookup_builders:
  assumes "head_lookup c depth boundary = Some (c', answer)"
  shows "gc_head_builders c' = gc_head_builders c"
  using assms by (auto simp: head_lookup_def bind_eq_Some_conv split: option.splits if_splits)

definition tier_selection_ok :: "graph_view list \<Rightarrow> publication \<Rightarrow> publication \<Rightarrow> u32 \<Rightarrow> (head_etag_input \<Rightarrow> bool) \<Rightarrow> head_tier_selection \<Rightarrow> bool" where
  "tier_selection_ok us pn pn' depth condition_matches sel \<longleftrightarrow>
     (case sel of
        HeadTierConditionMatched etag \<Rightarrow> condition_matches etag \<and>
          etag = (pn_publication_id pn, gv_current_revision_id (pn_view pn), tier_extent (pn_view pn) depth)
      | HeadTierAccess (AccessCompleted v) \<Rightarrow> head_value us depth v \<and> boundary_admits (head_eligibility pn) v = Some True
      | HeadTierAccess (AccessJob job) \<Rightarrow> job |\<in>| fmdom (gc_head_jobs (pn_cache pn')))"

lemma head_tier_outcome:
  assumes inv: "publication_inv us log pn" and depth: "depth \<in> set CACHED_HEAD_WINDOW_DEPTHS"
  shows "\<exists>cache sel. head_tier pn accepting depth condition_matches = Some (pn\<lparr>pn_cache := cache\<rparr>, sel) \<and>
    publication_inv us log (pn\<lparr>pn_cache := cache\<rparr>) \<and>
    tier_selection_ok us pn (pn\<lparr>pn_cache := cache\<rparr>) depth condition_matches sel"
proof -
  note d = publication_invD[OF inv] and ts = head_value_ts[OF inv]
  obtain c answer where lk: "head_lookup (pn_cache pn) depth (head_eligibility pn) = Some (c, answer)"
      "cache_inv (slot_time us (pn_history pn)) (delta_value log) (head_value us) c"
    and an: "case answer of
       HeadCompleted v \<Rightarrow> head_value us depth v \<and> boundary_admits (head_eligibility pn) v = Some True
     | HeadRunning job \<Rightarrow> fmlookup (gc_head_jobs (pn_cache pn)) job = Some JobPending
     | HeadConstructionRequired \<Rightarrow> fmlookup (gc_heads c) depth = None"
    using head_lookup_outcome[OF d(6) depth, of "head_eligibility pn"] ts by blast
  have jobs: "gc_head_jobs c = gc_head_jobs (pn_cache pn)"
    using lk(1) by (auto simp: head_lookup_def bind_eq_Some_conv split: option.splits if_splits)
  have i1: "publication_inv us log (pn\<lparr>pn_cache := c\<rparr>)"
    by (rule publication_inv_cache[OF inv lk(2)]) (use head_lookup_builders[OF lk(1)] d(7) in simp)
  show ?thesis
  proof (cases answer)
    case (HeadCompleted v)
    then show ?thesis using lk an i1 by (intro exI[of _ c]) (simp add: head_tier_def tier_selection_ok_def)
  next
    case (HeadRunning job)
    then show ?thesis using lk an i1 jobs by (intro exI[of _ c]) (auto simp: head_tier_def tier_selection_ok_def intro: fmdomI)
  next
    case HeadConstructionRequired
    let ?etag = "(pn_publication_id pn, gv_current_revision_id (pn_view pn), tier_extent (pn_view pn) depth)"
    let ?p = "pn\<lparr>pn_cache := c\<rparr>"
    obtain w where w: "head_tier_extent ?p depth = Some (tier_extent (pn_view pn) depth)"
        "capture_head_tier ?p depth = Some (view_capture ?p w)" "tier_capture us depth w"
      using capture_head_tier_outcome[OF i1, of depth] by auto
    show ?thesis
    proof (cases "condition_matches ?etag")
      case True
      then show ?thesis using lk i1 w HeadConstructionRequired
        by (intro exI[of _ c]) (simp add: head_tier_def tier_selection_ok_def)
    next
      case False
      let ?b = "\<lparr>hbl_depth = depth, hbl_capture = w\<rparr>"
      obtain c' access where el: "elect_head c accepting (head_eligibility pn) ?b = Some (c', access)"
          "cache_inv (slot_time us (pn_history pn)) (delta_value log) (head_value us) c'"
          "case access of
             AccessCompleted v \<Rightarrow> head_value us depth v \<and> boundary_admits (head_eligibility pn) v = Some True
           | AccessJob job \<Rightarrow> job |\<in>| fmdom (gc_head_jobs c')"
        using elect_head_outcome[OF lk(2), of ?b "head_eligibility pn" accepting, unfolded head_builder.simps, OF depth] ts by blast
      have "builders_ok us (gc_head_builders c')"
        using elect_head_builders[OF el(1)] head_lookup_builders[OF lk(1)] d(7) depth w(3)
        unfolding builders_ok_def by (metis head_builder.select_convs(1,2))
      then have "publication_inv us log (pn\<lparr>pn_cache := c'\<rparr>)" by (rule publication_inv_cache[OF inv el(2)])
      then show ?thesis using lk(1) w HeadConstructionRequired False el(1,3)
        by (intro exI[of _ c'] exI[of _ "HeadTierAccess access"])
          (simp add: head_tier_def tier_selection_ok_def view_capture_def split: cache_access.splits)
    qed
  qed
qed

lemma heads_inv_recapture:
  assumes h: "heads_inv H n slots jobs builders" and b: "fmlookup builders j = Some b"
  shows "heads_inv H n slots jobs (fmupd j (b\<lparr>hbl_capture := x\<rparr>) builders)"
proof (rule heads_invI)
  show "j' < n \<and> delivered_ok (\<lambda>v. H (chs_depth v) v) st" if "fmlookup jobs j' = Some st" for j' st
    by (rule heads_invD(1)[OF h that])
  show "builder_job_ok (fmlookup jobs j')" if "fmlookup (fmupd j (b\<lparr>hbl_capture := x\<rparr>) builders) j' = Some b'" for j' b'
    using that heads_invD(2)[OF h, of j'] b by (auto split: if_splits)
  show "head_slot_ok H jobs (fmupd j (b\<lparr>hbl_capture := x\<rparr>) builders) k slot" if "fmlookup slots k = Some slot" for k slot
    using heads_invD(3)[OF h that] b by (auto simp: head_slot_ok_def split: option.splits)
qed

lemma build_head_tier_round_outcome:
  assumes inv: "publication_inv us log pn" and b: "fmlookup (gc_head_builders (pn_cache pn)) job = Some b"
  shows "\<exists>cache. build_head_tier_round pn job encoded = Some (pn\<lparr>pn_cache := cache\<rparr>) \<and>
    publication_inv us log (pn\<lparr>pn_cache := cache\<rparr>)"
proof -
  note d = publication_invD[OF inv]
  have bo: "hbl_depth b \<in> set CACHED_HEAD_WINDOW_DEPTHS" "tier_capture us (hbl_depth b) (hbl_capture b)"
    using d(7) b by (auto simp: builders_ok_def)
  have fin: "\<exists>cache. finish_head_job (pn_cache pn) (hbl_depth b) job result = Some cache \<and> publication_inv us log (pn\<lparr>pn_cache := cache\<rparr>)"
    if res: "\<And>v. result = Inr v \<Longrightarrow> chs_depth v = hbl_depth b \<and> head_value us (hbl_depth b) v" for result
  proof -
    obtain c where c: "finish_head_job (pn_cache pn) (hbl_depth b) job result = Some c"
        "cache_inv (slot_time us (pn_history pn)) (delta_value log) (head_value us) c"
        "gc_head_builders c = fmdrop job (gc_head_builders (pn_cache pn))"
      using finish_head_job_outcome[OF d(6) b res] by blast
    have "publication_inv us log (pn\<lparr>pn_cache := c\<rparr>)"
      by (rule publication_inv_cache[OF inv c(2)]) (use c(3) d(7) in \<open>auto simp: builders_ok_def split: if_splits\<close>)
    then show ?thesis using c(1) by blast
  qed
  show ?thesis
  proof (cases encoded)
    case (Inl e)
    then show ?thesis using fin[of "Inl e"] b by (auto simp: build_head_tier_round_def)
  next
    case (Inr n)
    let ?v = "head_snapshot_of b n"
    have hv: "head_value us (hbl_depth b) ?v" using bo(2) by (simp add: head_value_def head_snapshot_of_def Let_def)
    obtain ok where ok: "boundary_admits (head_eligibility pn) ?v = Some ok"
      using head_value_ts[OF inv hv] by (auto simp: boundary_admits_def checked_sub_def)
    show ?thesis
    proof (cases ok)
      case True
      then show ?thesis using Inr ok b fin[of "Inr ?v"] hv
        by (auto simp: build_head_tier_round_def head_value_def)
    next
      case False
      obtain w where w: "capture_head_tier pn (hbl_depth b) = Some (view_capture pn w)" "tier_capture us (hbl_depth b) w"
        using capture_head_tier_outcome[OF inv] by blast
      let ?c = "(pn_cache pn)\<lparr>gc_head_builders := fmupd job (b\<lparr>hbl_capture := w\<rparr>) (gc_head_builders (pn_cache pn))\<rparr>"
      have "cache_inv (slot_time us (pn_history pn)) (delta_value log) (head_value us) ?c"
        using d(6) b by (auto simp: cache_inv_def intro: heads_inv_recapture)
      moreover have "builders_ok us (gc_head_builders ?c)" using d(7) bo w(2) by (auto simp: builders_ok_def)
      ultimately have "publication_inv us log (pn\<lparr>pn_cache := ?c\<rparr>)" by (rule publication_inv_cache[OF inv])
      then show ?thesis using Inr ok False b w(1) by (auto simp: build_head_tier_round_def view_capture_def)
    qed
  qed
qed

section \<open>Transitions\<close>

lemma publish_to_clients_outcome:
  assumes inv: "publication_inv us log pn" "clients_inv pn w"
  shows "\<exists>pn' w'. publish_to_clients (pn\<lparr>pn_state := st\<rparr>) w st = Some (pn', w') \<and> publication_inv us log pn' \<and>
    clients_inv pn' w' \<and> pn_state pn' = st \<and> pn_view pn' = pn_view pn \<and> pn_history pn' = pn_history pn \<and>
    pn_publication_id pn' = pn_publication_id pn"
proof -
  note d = publication_invD[OF inv(1)]
  obtain reg' w' where r: "registry_publish_state (pn_clients pn) st (gv_current_revision_id (pn_view pn)) w = Some (reg', w')"
      "reg_publication_id reg' = reg_publication_id (pn_clients pn)" "reg_publication_state reg' = st"
      "reg_head_revision_id reg' = reg_head_revision_id (pn_clients pn)"
    using d(10) by (fastforce simp: registry_publish_state_def Let_def split: prod.splits)
  have "registry_inv reg' w' \<and> mailboxes_ok (sw_mailboxes w')"
    using publish_state_inv[OF _ _ r(1)] inv(2) by (simp add: clients_inv_def)
  then show ?thesis using r inv(1) by (auto simp: publish_to_clients_def publication_inv_def clients_inv_def)
qed

section \<open>Re-entry\<close>

text \<open>Re-entry prunes the cache at the Head of the \<^emph>\<open>request\<close>. It answers as long as no slot has been
  elected for a source that is younger than that Head.\<close>

lemma reenter_outcome:
  assumes inv: "publication_inv us log pn" and req: "request_ok us pn request"
    and ord: "slots_ordered (gc_deltas (pn_cache pn)) (gtc_revision_timestamp_ms (cdr_head request))"
  shows "\<exists>cache result. reenter_canonical_delta pn accepting request = Some (pn\<lparr>pn_cache := cache\<rparr>, result) \<and>
    publication_inv us log (pn\<lparr>pn_cache := cache\<rparr>) \<and>
    reentry_ok us (pn_history pn) cache (dr_source_revision (cdr_selected request)) result"
proof -
  let ?s = "dr_source_revision (cdr_selected request)" and ?t = "dr_target_revision (cdr_selected request)"
  let ?ts = "gtc_revision_timestamp_ms (cdr_head request)"
  obtain l where l: "ladder_new ?s (gtc_revision (cdr_head request)) None (cdr_active_interval request) = Some l"
      "select l (gtc_state (cdr_head request)) = Some (Range (cdr_selected request))" and room: "unat ?s + 128 < 2 ^ 64"
    using req by (auto simp: request_ok_def)
  obtain succ where succ: "ordinary_successor ?s = Some succ" using ordinary_successor_total[OF room] by blast
  have t: "?s < ?t" "?t \<le> gtc_revision (cdr_head request)"
    using select_outcome[OF l(1) room succ, of "gtc_state (cdr_head request)"] l(2) by auto
  have cur: "gtc_revision (cdr_head request) \<le> gv_current_revision_id (pn_view pn)"
    using req publication_last[OF inv] by (simp add: request_ok_def word_le_nat_alt)
  have ident: "gtc_publication_id (cdr_head request) = pn_publication_id pn" using req by (simp add: request_ok_def)
  obtain c answer where lk: "delta_lookup (pn_cache pn) ?s ?t ?ts = Some (c, answer)"
      "publication_inv us log (pn\<lparr>pn_cache := c\<rparr>)"
    and an: "case answer of
       DeltaCompleted d \<Rightarrow> delivers us ?s d
     | DeltaRunning job \<Rightarrow> job |\<in>| fmdom (gc_delta_jobs c)
     | DeltaConstructionRequired None \<Rightarrow> True
     | DeltaConstructionRequired (Some current) \<Rightarrow> current < ?t \<and> (\<exists>body. delta_value log ?s current body)"
    using delta_lookup_publication[OF inv ord, of ?s ?t] by blast
  note go = reenter_canonical_delta_def Let_def
  show ?thesis
  proof (cases answer)
    case (DeltaCompleted d)
    then show ?thesis using lk an t cur ident by (intro exI[of _ c]) (simp add: go reentry_ok_def)
  next
    case (DeltaRunning job)
    then show ?thesis using lk an t cur ident by (intro exI[of _ c]) (simp add: go reentry_ok_def)
  next
    case (DeltaConstructionRequired current)
    have "request_ok us (pn\<lparr>pn_cache := c\<rparr>) request" using req by (simp add: request_ok_def)
    moreover have "case current of None \<Rightarrow> True | Some c \<Rightarrow> c < ?t \<and> (\<exists>body. delta_value log ?s c body)"
      using an DeltaConstructionRequired by (auto split: option.splits)
    ultimately obtain c' result where
      "elect_canonical_delta_from_history (pn\<lparr>pn_cache := c\<rparr>) accepting request current = Some (pn\<lparr>pn_cache := c'\<rparr>, result)"
      "publication_inv us log (pn\<lparr>pn_cache := c'\<rparr>)" "reentry_ok us (pn_history pn) c' ?s result"
      using elect_from_history_outcome[OF lk(2), of request current accepting] by auto
    then show ?thesis using lk(1) t cur ident DeltaConstructionRequired by (intro exI[of _ c'] exI[of _ result]) (simp add: go)
  qed
qed

lemma reenter_panics:
  assumes req: "request_ok us pn request"
    and first: "sorted_list_of_fmap (gc_deltas (pn_cache pn)) = (s, slot) # rest"
    and younger: "gtc_revision_timestamp_ms (cdr_head request) < dcs_first_revision_timestamp_ms slot"
  shows "reenter_canonical_delta pn accepting request = None"
proof -
  have "is_expired slot (gtc_revision_timestamp_ms (cdr_head request)) = None"
    using younger by (auto simp: is_expired_def checked_sub_def)
  then have "delta_lookup (pn_cache pn) source target (gtc_revision_timestamp_ms (cdr_head request)) = None" for source target
    by (simp add: delta_lookup_def prune_expired_def first)
  then show ?thesis by (simp add: reenter_canonical_delta_def Let_def)
qed

section \<open>Reachable publications\<close>

text \<open>The lineage a publication is built on: the database projection at revision 0 with an empty history, and the
  updates applied to it since. The graph it projects is the pipeline's, so the updates are coherent.\<close>

inductive lineage_reachable :: "graph_view \<Rightarrow> graph_history \<Rightarrow> bool" where
  lr_base: "head_inv v \<Longrightarrow> fcard (fmdom (gv_edges v)) < 2 ^ 64 \<Longrightarrow> gv_current_revision_id v = 0 \<Longrightarrow>
    lineage_reachable v history_new"
| lr_apply: "lineage_reachable v h \<Longrightarrow> update_coherent v update \<Longrightarrow> history_room v h update ts \<Longrightarrow> view_ts v \<le> ts \<Longrightarrow>
    lineage_apply v h update ts = Some (v', h', Inr r) \<Longrightarrow> lineage_reachable v' h'"

lemma lineage_reachable_record:
  "lineage_reachable v h \<Longrightarrow> \<exists>us log. recorded us log \<and> history_of log h \<and> last us = v \<and> head_inv v \<and>
     fcard (fmdom (gv_edges v)) < 2 ^ 64"
proof (induction rule: lineage_reachable.induct)
  case (lr_base v)
  have "history_of [] history_new" using history_new_inv by (simp add: history_of_def history_new_def)
  then show ?case using lr_base by (intro exI[of _ "[v]"] exI[of _ "[]"]) (auto simp: recorded_def)
next
  case (lr_apply v h update ts v' h' r)
  then obtain us log where r: "recorded us log" "history_of log h" "last us = v" "head_inv v" "fcard (fmdom (gv_edges v)) < 2 ^ 64" by blast
  have o: "head_inv v' \<and> (case r of None \<Rightarrow> v' = v \<and> h' = h | Some a \<Rightarrow> \<exists>e. recorded (us @ [v']) (log @ [e]) \<and> history_of (log @ [e]) h')"
    using lineage_apply_outcome[OF r(1,2), of update ts, unfolded r(3), OF r(4) lr_apply.hyps(2,3,4)] lr_apply.hyps(5)
    by (auto split: option.splits)
  have e: "fcard (fmdom (gv_edges v')) < 2 ^ 64"
    using update_edges[OF r(4) lr_apply.hyps(2) _ r(5)] lineage_apply_view[OF lr_apply.hyps(5)] by blast
  show ?case
  proof (cases r)
    case None
    then show ?thesis using o r by auto
  next
    case (Some a)
    then obtain x where "recorded (us @ [v']) (log @ [x])" "history_of (log @ [x]) h'" using o by auto
    then show ?thesis using o e by (intro exI[of _ "us @ [v']"] exI[of _ "log @ [x]"]) simp
  qed
qed

text \<open>A publication with the connections around it and the requests that wait for one of its jobs.\<close>

type_synonym publication_system = "publication \<times> sse_world \<times> canonical_delta_request list"

fun waiting_request :: "graph_history_range_error + canonical_delta_selection \<Rightarrow> canonical_delta_request list" where
  "waiting_request (Inr (SelAccess request (AccessJob job))) = [request]"
| "waiting_request _ = []"

inductive publication_step :: "publication_system \<Rightarrow> publication_system \<Rightarrow> bool" where
  ps_apply: "pn_state pn \<noteq> Stale \<Longrightarrow> update_coherent (pn_view pn) update \<Longrightarrow>
    history_room (pn_view pn) (pn_history pn) update ts \<Longrightarrow> view_ts (pn_view pn) \<le> ts \<Longrightarrow>
    apply_original_update pn w update ts = Some (pn', w', result) \<Longrightarrow> publication_step (pn, w, rs) (pn', w', rs)"
| ps_live: "transition_live pn w = Some (pn', w') \<Longrightarrow> publication_step (pn, w, rs) (pn', w', rs)"
| ps_stale: "transition_stale pn w = Some (pn', w', transitioned) \<Longrightarrow> publication_step (pn, w, rs) (pn', w', rs)"
| ps_client: "client_step (pn_clients pn, w) (reg, w') \<Longrightarrow> reg_publication_id reg = reg_publication_id (pn_clients pn) \<Longrightarrow>
    reg_publication_state reg = reg_publication_state (pn_clients pn) \<Longrightarrow>
    reg_head_revision_id reg = reg_head_revision_id (pn_clients pn) \<Longrightarrow>
    publication_step (pn, w, rs) (pn\<lparr>pn_clients := reg\<rparr>, w', rs)"
| ps_select: "interval \<in> set ADAPTIVE_DELTA_INTERVALS \<Longrightarrow> unat source + 128 < 2 ^ 64 \<Longrightarrow>
    select_canonical_delta pn w accepting source client interval = Some (pn', w', result) \<Longrightarrow>
    publication_step (pn, w, rs) (pn', w', waiting_request result @ rs)"
| ps_reenter: "request \<in> set rs \<Longrightarrow> slots_ordered (gc_deltas (pn_cache pn)) (gtc_revision_timestamp_ms (cdr_head request)) \<Longrightarrow>
    reenter_canonical_delta pn accepting request = Some (pn', result) \<Longrightarrow> publication_step (pn, w, rs) (pn', w, rs)"
| ps_finish_delta: "finish_delta_build pn job encoded = Some pn' \<Longrightarrow> publication_step (pn, w, rs) (pn', w, rs)"
| ps_head: "depth \<in> set CACHED_HEAD_WINDOW_DEPTHS \<Longrightarrow> head_tier pn accepting depth condition_matches = Some (pn', sel) \<Longrightarrow>
    publication_step (pn, w, rs) (pn', w, rs)"
| ps_head_round: "build_head_tier_round pn job encoded = Some pn' \<Longrightarrow> publication_step (pn, w, rs) (pn', w, rs)"

inductive publication_reachable :: "publication_system \<Rightarrow> bool" where
  pr_new: "lineage_reachable v h \<Longrightarrow> publication_new p st now_ms v h = Some (Inr pn) \<Longrightarrow>
    publication_reachable (pn, \<lparr>sw_mailboxes = fmempty, sw_notified = [], sw_cancelled = []\<rparr>, [])"
| pr_step: "publication_reachable s \<Longrightarrow> publication_step s s' \<Longrightarrow> publication_reachable s'"

definition system_inv :: "graph_view list \<Rightarrow> graph_history_entry list \<Rightarrow> publication_system \<Rightarrow> bool" where
  "system_inv us log s \<longleftrightarrow>
     (case s of (pn, w, rs) \<Rightarrow> publication_inv us log pn \<and> clients_inv pn w \<and> (\<forall>r \<in> set rs. request_ok us pn r))"

lemma request_ok_frame:
  "request_ok us pn r \<Longrightarrow> pn_publication_id pn' = pn_publication_id pn \<Longrightarrow> request_ok us pn' r"
  by (simp add: request_ok_def)

lemma request_ok_append:
  "request_ok us pn r \<Longrightarrow> pn_publication_id pn' = pn_publication_id pn \<Longrightarrow> request_ok (us @ [v]) pn' r"
  by (auto simp: request_ok_def nth_append)

lemma system_inv_cache:
  assumes "system_inv us log (pn, w, rs)" "publication_inv us log (pn\<lparr>pn_cache := c\<rparr>)"
  shows "system_inv us log (pn\<lparr>pn_cache := c\<rparr>, w, rs)"
  using assms by (auto simp: system_inv_def clients_inv_def request_ok_def)

lemma publication_step_inv:
  assumes step: "publication_step s s'" and inv: "system_inv us log s"
  shows "system_inv us log s' \<or> (\<exists>v e. system_inv (us @ [v]) (log @ [e]) s')"
  using step
proof (cases rule: publication_step.cases)
  case (ps_apply pn update ts w pn' w' result rs)
  then have i: "publication_inv us log pn" "clients_inv pn w" "\<And>r. r \<in> set rs \<Longrightarrow> request_ok us pn r"
    using inv by (auto simp: system_inv_def)
  obtain r where o: "clients_inv pn' w'" "pn_publication_id pn' = pn_publication_id pn"
      "case r of None \<Rightarrow> pn' = pn \<and> w' = w | Some target \<Rightarrow> (\<exists>e. publication_inv (us @ [pn_view pn']) (log @ [e]) pn')"
    using apply_update_outcome[OF i(1,2) ps_apply(3,4,5,6)] ps_apply(7) by (fastforce split: option.splits)
  show ?thesis
  proof (cases r)
    case None
    then show ?thesis using o inv ps_apply(1,2) by (simp add: system_inv_def)
  next
    case (Some target)
    then obtain e where "publication_inv (us @ [pn_view pn']) (log @ [e]) pn'" using o by auto
    then show ?thesis using o(1) request_ok_append[OF i(3) o(2)] ps_apply(2) by (auto simp: system_inv_def)
  qed
next
  case (ps_live pn w pn' w' rs)
  then show ?thesis using inv publish_to_clients_outcome[of us log pn w Live]
    by (auto simp: system_inv_def transition_live_def request_ok_def split: if_splits)
next
  case (ps_stale pn w pn' w' transitioned rs)
  then show ?thesis using inv publish_to_clients_outcome[of us log pn w Stale]
    by (auto simp: system_inv_def transition_stale_def request_ok_def bind_eq_Some_conv split: if_splits)
next
  case (ps_client pn w reg w' rs)
  then show ?thesis using inv client_step_inv[OF ps_client(3)]
    by (auto simp: system_inv_def clients_inv_def request_ok_def intro: publication_inv_clients)
next
  case (ps_select interval source pn w accepting client pn' w' result rs)
  then have i: "publication_inv us log pn" "clients_inv pn w" "\<And>r. r \<in> set rs \<Longrightarrow> request_ok us pn r"
    using inv by (auto simp: system_inv_def)
  have o: "publication_inv us log pn'" "clients_inv pn' w'" "selection_ok us pn pn' source client result"
      and ident: "pn_publication_id pn' = pn_publication_id pn"
    using select_canonical_delta_outcome[OF i(1,2) ps_select(3,4), of accepting client] ps_select(5) by auto
  have "request_ok us pn r" if "r \<in> set (waiting_request result)" for r
    using that o(3) by (cases result rule: waiting_request.cases) (auto simp: selection_ok_def)
  then show ?thesis using o(1,2) i(3) ident ps_select(2) by (auto simp: system_inv_def intro: request_ok_frame)
next
  case (ps_reenter request rs pn accepting pn' result w)
  then have i: "publication_inv us log pn" "clients_inv pn w" "\<And>r. r \<in> set rs \<Longrightarrow> request_ok us pn r"
    using inv by (auto simp: system_inv_def)
  show ?thesis using reenter_outcome[OF i(1) i(3)[OF ps_reenter(3)] ps_reenter(4), of accepting] inv ps_reenter(1,2,5)
    by (auto intro!: disjI1 system_inv_cache)
next
  case (ps_finish_delta pn job encoded pn' w rs)
  then obtain b where "fmlookup (gc_delta_builders (pn_cache pn)) job = Some b" by (auto simp: finish_delta_build_def bind_eq_Some_conv)
  moreover have "publication_inv us log pn" using inv ps_finish_delta(1) by (simp add: system_inv_def)
  ultimately show ?thesis using inv finish_delta_build_outcome[of us log pn job b encoded] ps_finish_delta
    by (auto intro!: disjI1 system_inv_cache)
next
  case (ps_head depth pn accepting condition_matches pn' sel w rs)
  have "publication_inv us log pn" using inv ps_head(1) by (simp add: system_inv_def)
  then show ?thesis using inv ps_head head_tier_outcome[of us log pn depth accepting condition_matches]
    by (auto intro!: disjI1 system_inv_cache)
next
  case (ps_head_round pn job encoded pn' w rs)
  then obtain b where "fmlookup (gc_head_builders (pn_cache pn)) job = Some b" by (auto simp: build_head_tier_round_def bind_eq_Some_conv)
  moreover have "publication_inv us log pn" using inv ps_head_round(1) by (simp add: system_inv_def)
  ultimately show ?thesis using inv build_head_tier_round_outcome[of us log pn job b encoded] ps_head_round
    by (auto intro!: disjI1 system_inv_cache)
qed

lemma publication_reachable_inv: "publication_reachable s \<Longrightarrow> \<exists>us log. system_inv us log s"
proof (induction rule: publication_reachable.induct)
  case (pr_new v h p st now_ms pn)
  then obtain us log where r: "recorded us log" "history_of log h" "last us = v" "head_inv v" "fcard (fmdom (gv_edges v)) < 2 ^ 64"
    using lineage_reachable_record by blast
  then have "publication_inv us log pn" using pr_new(2) cache_new_inv
    by (auto simp: publication_new_def publication_inv_def sse_client_registry_new_def builders_ok_def graph_cache_new_def split: if_splits)
  moreover have "clients_inv pn \<lparr>sw_mailboxes = fmempty, sw_notified = [], sw_cancelled = []\<rparr>"
    using pr_new(2) client_reachable_inv[OF cr_new[of p st "gv_current_revision_id v"]]
    by (auto simp: publication_new_def clients_inv_def split: if_splits)
  ultimately show ?case by (auto simp: system_inv_def)
next
  case (pr_step s s')
  then show ?case using publication_step_inv by blast
qed

end
