(* ===== verification/Delivery_Samples.thy ===== *)
theory Delivery_Samples
  imports Publication_Reach KGI_Samples
begin

text \<open>
  An executable scheduler for the steps of a publication, sound for \<open>publication_step\<close>, and a small
  publication on which the delivery properties are evaluated.
\<close>

datatype publication_command =
  DoApply original_update u64 | DoSelect u64 u64 | DoFinish nat u64

fun exec_command :: "publication_command \<Rightarrow> publication_system \<Rightarrow> publication_system option" where
  "exec_command (DoApply update ts) (pn, w, rs) =
     (if pn_state pn \<noteq> Stale \<and> update_coherent (pn_view pn) update \<and> history_room (pn_view pn) (pn_history pn) update ts \<and>
         view_ts (pn_view pn) \<le> ts
      then map_option (\<lambda>(pn', w', _). (pn', w', rs)) (apply_original_update pn w update ts) else None)"
| "exec_command (DoSelect source interval) (pn, w, rs) =
     (if interval \<in> set ADAPTIVE_DELTA_INTERVALS \<and> unat source + 128 < 2 ^ 64
      then map_option (\<lambda>(pn', w', result). (pn', w', waiting_request result @ rs))
             (select_canonical_delta pn w True source None interval) else None)"
| "exec_command (DoFinish job bytes) (pn, w, rs) =
     map_option (\<lambda>pn'. (pn', w, rs)) (finish_delta_build pn job (Inr bytes))"

lemma exec_command_step: "exec_command c (pn, w, rs) = Some s' \<Longrightarrow> publication_step (pn, w, rs) s'"
  by (cases c) (auto split: if_splits intro: publication_step.intros)

lemma exec_commands_reachable:
  "fold_opt (\<lambda>s c. exec_command c s) s cs = Some s' \<Longrightarrow> publication_reachable s \<Longrightarrow> publication_reachable s'"
proof (induction cs arbitrary: s)
  case (Cons c cs)
  then obtain s1 where s1: "exec_command c s = Some s1" "fold_opt (\<lambda>s c. exec_command c s) s1 cs = Some s'"
    by (auto simp: bind_eq_Some_conv split: option.splits)
  then have "publication_step s s1" using exec_command_step by (cases s) auto
  then show ?case using Cons.IH[OF s1(2)] Cons.prems(2) pr_step by blast
qed simp

definition sample_world :: sse_world where
  "sample_world = \<lparr>sw_mailboxes = fmempty, sw_notified = [], sw_cancelled = []\<rparr>"

definition sample_publication :: publication where
  "sample_publication = (case publication_new 7 Live 0 sample_head history_new of Some (Inr pn) \<Rightarrow> pn | _ \<Rightarrow> undefined)"

definition sample_back :: vspc_committed where
  "sample_back = \<lparr>vc_source = 12, vc_destination = 11, vc_removed = [12], vc_added = [],
     vc_level_snapshots = [\<lparr>lc_level = 2, lc_size = 1, lc_daa_score = Some 8\<rparr>]\<rparr>"

lemma sample_lineage_reachable: "lineage_reachable sample_head history_new"
proof (rule lr_base)
  show "fcard (fmdom (gv_edges sample_head)) < 2 ^ 64" "gv_current_revision_id sample_head = 0" by code_simp+
qed (rule sample_head_inv)

lemma sample_publication_reachable: "publication_reachable (sample_publication, sample_world, [])"
proof -
  have "publication_new 7 Live 0 sample_head history_new \<noteq> None"
    "(case publication_new 7 Live 0 sample_head history_new of Some (Inr _) \<Rightarrow> True | _ \<Rightarrow> False)" by code_simp+
  then have "publication_new 7 Live 0 sample_head history_new = Some (Inr sample_publication)"
    by (auto simp: sample_publication_def split: option.splits sum.splits)
  then show ?thesis using pr_new[OF sample_lineage_reachable] by (simp add: sample_world_def)
qed

definition sample_run :: "publication_command list \<Rightarrow> publication_system option" where
  "sample_run cs = fold_opt (\<lambda>s c. exec_command c s) (sample_publication, sample_world, []) cs"

lemma sample_run_reachable: "sample_run cs = Some s \<Longrightarrow> publication_reachable s"
  unfolding sample_run_def by (rule exec_commands_reachable[OF _ sample_publication_reachable])

text \<open>A request that joins a running job at an old Head; the Head then advances by the whole retention of the
  cache, another request empties the cache and elects a younger source, and the job ends short.\<close>

definition late_commands :: "publication_command list" where
  "late_commands = [DoApply (OriginalBlock sample_commit) 5, DoSelect 0 1, DoApply (OriginalVspc sample_vspc) 6, DoSelect 0 1,
     DoApply (OriginalVspc sample_back) 300006, DoSelect 2 1, DoFinish 0 9]"

definition short_delivery :: "publication \<Rightarrow> canonical_delta_request \<Rightarrow> nat \<Rightarrow> bool" where
  "short_delivery pn request job =
     (case fmlookup (gc_delta_jobs (pn_cache pn)) job of
        Some (JobComplete (Inr d)) \<Rightarrow> \<not> is_adequate_for d (dr_target_revision (cdr_selected request))
      | _ \<Rightarrow> False)"

lemma late_run:
  "case sample_run late_commands of
     Some (pn, w, rs) \<Rightarrow>
       (case rs of
          r1 # r2 # _ \<Rightarrow> short_delivery pn r2 0 \<and> reenter_canonical_delta pn True r2 = None
        | _ \<Rightarrow> False)
   | None \<Rightarrow> False"
  by code_simp

end
