(* ===== verification/Delivery_Properties.thy ===== *)
theory Delivery_Properties
  imports Delivery_Samples
begin

text \<open>
  What a publication promises to the requests it serves: its updates, its canonical deltas, its Head tiers and
  its response cache.
\<close>

section \<open>Publications\<close>











text \<open>C21. There is a reachable publication and a request of it that waits for a job whose delivery falls short, such
  that re-entering with that request panics: the lookup prunes the cache at the Head the request captured, and the
  cache meanwhile holds a source that is younger than that Head.\<close>

theorem late_reentry_panics:
  "\<exists>pn w rs request. publication_reachable (pn, w, rs) \<and> request \<in> set rs \<and> short_delivery pn request 0 \<and>
     reenter_canonical_delta pn True request = None"
proof -
  obtain pn w rs where run: "sample_run late_commands = Some (pn, w, rs)"
    using late_run by (cases "sample_run late_commands") auto
  moreover obtain r1 r2 later where rs: "rs = r1 # r2 # later" using late_run run by (cases rs; cases "tl rs") auto
  ultimately have "short_delivery pn r2 0" "reenter_canonical_delta pn True r2 = None" using late_run by auto
  then show ?thesis using sample_run_reachable[OF run] by (intro exI[of _ pn] exI[of _ w] exI[of _ rs] exI[of _ r2]) (simp add: rs)
qed

section \<open>The response cache\<close>



end
