(* ===== verification/Ingress_Channel.thy ===== *)
theory Ingress_Channel
  imports Block_Processor "HOL-Library.Sublist"
begin

text \<open>
  The graph-update ingress of one processing session, \<open>crates/kgi-api-ingress\<close>: the bounded channel with
  its producer gate, its occupancy counters and its metrics (\<open>channel.rs\<close>), and the gap generation by
  which a dropped update is made known to the receiver (\<open>gap.rs\<close>).

  The \<open>tokio\<close> channel is its queue, the permits reserved but not yet used, and whether the receiver has
  closed it or every producer is gone. \<open>GraphUpdateProducer\<close> and \<open>GraphUpdateReceiver\<close> share the state, so
  each locked section is one operation on it. Receiving has two of them: the value leaves the queue first
  and \<open>record_dequeue\<close> takes the lock afterwards, with producers free to run in between.
\<close>

section \<open>State\<close>

definition GRAPH_UPDATE_CHANNEL_CAPACITY :: nat where "GRAPH_UPDATE_CHANNEL_CAPACITY = 1024"

datatype gate_state = GateAwaitingCatchup | GateOpen

datatype graph_update_observation = ObsUpdate graph_update | ObsGap u64

datatype gate_send_error = TseFull | TseClosed

datatype try_recv_error = TryRecvEmpty | TryRecvDisconnected

record ingress =
  in_gate :: gate_state
  in_queue :: "graph_update list"
  in_permits :: nat
  in_producers_gone :: bool
  in_taken :: bool
  in_current_occupancy :: nat
  in_high_water_mark :: nat
  in_reported_gap_count :: u64
  in_receiver_closed :: bool
  in_receiver_closure_count :: u64
  in_generation :: u64
  in_observed_generation :: u64

record ingress_metrics_snapshot =
  ims_current_occupancy :: nat
  ims_high_water_mark :: nat
  ims_reported_gap_count :: u64
  ims_receiver_closure_count :: u64

definition graph_update_channel :: ingress where
  "graph_update_channel =
     \<lparr>in_gate = GateAwaitingCatchup, in_queue = [], in_permits = 0, in_producers_gone = False, in_taken = False,
      in_current_occupancy = 0, in_high_water_mark = 0, in_reported_gap_count = 0, in_receiver_closed = False,
      in_receiver_closure_count = 0, in_generation = 0, in_observed_generation = 0\<rparr>"

section \<open>Counters\<close>

definition ingress_snapshot :: "ingress \<Rightarrow> ingress_metrics_snapshot" where
  "ingress_snapshot g =
     \<lparr>ims_current_occupancy = in_current_occupancy g, ims_high_water_mark = in_high_water_mark g,
      ims_reported_gap_count = in_reported_gap_count g, ims_receiver_closure_count = in_receiver_closure_count g\<rparr>"

definition record_enqueue :: "ingress \<Rightarrow> ingress" where
  "record_enqueue g =
     (let occupancy = in_current_occupancy g + 1
      in g\<lparr>in_current_occupancy := occupancy, in_high_water_mark := max (in_high_water_mark g) occupancy\<rparr>)"

definition record_dequeue :: "ingress \<Rightarrow> ingress option" where
  "record_dequeue g =
     (if in_current_occupancy g = 0 then None
      else Some (g\<lparr>in_current_occupancy := in_current_occupancy g - 1, in_taken := False\<rparr>))"

definition record_receiver_closed :: "ingress \<Rightarrow> ingress option" where
  "record_receiver_closed g =
     (if in_receiver_closed g then Some g
      else case checked_add (in_receiver_closure_count g) 1 of
        None \<Rightarrow> None
      | Some n \<Rightarrow> Some (g\<lparr>in_receiver_closed := True, in_receiver_closure_count := n\<rparr>))"

definition advance_gap_generation :: "ingress \<Rightarrow> (ingress \<times> u64) option" where
  "advance_gap_generation g =
     (case checked_add (in_reported_gap_count g) 1 of
        None \<Rightarrow> None
      | Some generation \<Rightarrow> Some (g\<lparr>in_reported_gap_count := generation\<rparr>, generation))"

definition report_gap :: "ingress \<Rightarrow> ingress option" where
  "report_gap g =
     (case advance_gap_generation g of
        None \<Rightarrow> None
      | Some (g', next_generation) \<Rightarrow> Some (g'\<lparr>in_generation := next_generation\<rparr>))"

section \<open>Producers\<close>

text \<open>The channel itself: full when its queue and its outstanding permits use up the capacity.\<close>

definition channel_full :: "ingress \<Rightarrow> bool" where
  "channel_full g \<longleftrightarrow> GRAPH_UPDATE_CHANNEL_CAPACITY \<le> length (in_queue g) + in_permits g"

definition ingress_try_send :: "ingress \<Rightarrow> graph_update \<Rightarrow> ingress \<times> (gate_send_error + unit)" where
  "ingress_try_send g update =
     (if in_receiver_closed g then (g, Inl TseClosed)
      else if channel_full g then (g, Inl TseFull)
      else (record_enqueue (g\<lparr>in_queue := in_queue g @ [update]\<rparr>), Inr ()))"

definition offer_ordinary ::
  "ingress \<Rightarrow> graph_update \<Rightarrow> (ingress \<times> (graph_update_producer_error + graph_update_offer_outcome)) option" where
  "offer_ordinary g update =
     (if in_receiver_closed g then Some (g, Inl ReceiverClosed)
      else if in_gate g = GateAwaitingCatchup then Some (g, Inr SuppressedAwaitingCatchup)
      else case ingress_try_send g update of
        (g', Inr _) \<Rightarrow> Some (g', Inr Enqueued)
      | (g', Inl TseFull) \<Rightarrow> (case report_gap g' of None \<Rightarrow> None | Some g'' \<Rightarrow> Some (g'', Inr GapReported))
      | (g', Inl TseClosed) \<Rightarrow> Some (g', Inl ReceiverClosed))"

definition offer_block_committed ::
  "ingress \<Rightarrow> block_committed \<Rightarrow> (ingress \<times> (graph_update_producer_error + graph_update_offer_outcome)) option" where
  "offer_block_committed g update = offer_ordinary g (GuBlockCommitted update)"

definition offer_vspc_committed ::
  "ingress \<Rightarrow> vspc_committed \<Rightarrow> (ingress \<times> (graph_update_producer_error + graph_update_offer_outcome)) option" where
  "offer_vspc_committed g update = offer_ordinary g (GuVspcCommitted update)"

definition publish_catchup :: "ingress \<Rightarrow> (ingress \<times> (graph_update_producer_error + unit)) option" where
  "publish_catchup g =
     (if in_gate g \<noteq> GateAwaitingCatchup then None
      else case ingress_try_send g GuCatchup of
        (g', Inr _) \<Rightarrow> Some (g'\<lparr>in_gate := GateOpen\<rparr>, Inr ())
      | (g', Inl TseClosed) \<Rightarrow> Some (g', Inl ReceiverClosed)
      | (g', Inl TseFull) \<Rightarrow> None)"

text \<open>\<open>publish_live\<close> up to its reservation, and its completion once it holds a permit. The outer option is
  the assertion on the gate; the reservation waits (\<open>Inr None\<close>) while the channel is full.\<close>

datatype live_reservation = LiveWaits | LiveReserved | LiveRefused graph_update_producer_error

definition publish_live_reserve :: "ingress \<Rightarrow> (ingress \<times> live_reservation) option" where
  "publish_live_reserve g =
     (if in_gate g \<noteq> GateOpen then None
      else if in_receiver_closed g then Some (g, LiveRefused ReceiverClosed)
      else if channel_full g then Some (g, LiveWaits)
      else Some (g\<lparr>in_permits := in_permits g + 1\<rparr>, LiveReserved))"

definition send_reserved :: "ingress \<Rightarrow> graph_update \<Rightarrow> ingress \<times> (graph_update_producer_error + unit)" where
  "send_reserved g update =
     (let g = g\<lparr>in_permits := in_permits g - 1\<rparr>
      in if in_receiver_closed g then (g, Inl ReceiverClosed)
         else (record_enqueue (g\<lparr>in_queue := in_queue g @ [update]\<rparr>), Inr ()))"

section \<open>The receiver\<close>

text \<open>The channel has ended when no value can arrive any more.\<close>

definition channel_ended :: "ingress \<Rightarrow> bool" where
  "channel_ended g \<longleftrightarrow> in_producers_gone g \<or> in_receiver_closed g \<and> in_permits g = 0"

definition receive_value :: "ingress \<Rightarrow> (ingress \<times> graph_update) option" where
  "receive_value g =
     (case in_queue g of [] \<Rightarrow> None | u # q \<Rightarrow> Some (g\<lparr>in_queue := q, in_taken := True\<rparr>, u))"

definition try_recv_update :: "ingress \<Rightarrow> (ingress \<times> (try_recv_error + graph_update)) option" where
  "try_recv_update g =
     (case receive_value g of
        None \<Rightarrow> Some (g, Inl (if channel_ended g then TryRecvDisconnected else TryRecvEmpty))
      | Some (g', update) \<Rightarrow> (case record_dequeue g' of None \<Rightarrow> None | Some g'' \<Rightarrow> Some (g'', Inr update)))"

definition acknowledge_current :: "ingress \<Rightarrow> ingress \<times> u64" where
  "acknowledge_current g = (g\<lparr>in_observed_generation := in_generation g\<rparr>, in_generation g)"

definition take_pending_gap :: "ingress \<Rightarrow> ingress \<times> u64 option" where
  "take_pending_gap g =
     (let observed_generation = in_observed_generation g;
          (g', generation) = acknowledge_current g
      in (g', if generation = observed_generation then None else Some generation))"

text \<open>A wait of the receiver either completes with a value, learns that nothing will come, or stays
  pending. The continuity signal of \<open>next_observation\<close> comes before the queue.\<close>

datatype 'a received = Received 'a | ReceiveEnded | ReceiveWaits

definition recv_update :: "ingress \<Rightarrow> (ingress \<times> graph_update received) option" where
  "recv_update g =
     (case receive_value g of
        None \<Rightarrow> Some (g, if channel_ended g then ReceiveEnded else ReceiveWaits)
      | Some (g', update) \<Rightarrow> (case record_dequeue g' of None \<Rightarrow> None | Some g'' \<Rightarrow> Some (g'', Received update)))"

definition wait_for_gap :: "ingress \<Rightarrow> ingress \<times> u64 received" where
  "wait_for_gap g =
     (case take_pending_gap g of
        (g', Some generation) \<Rightarrow> (g', Received generation)
      | (g', None) \<Rightarrow> (g', if in_producers_gone g then ReceiveEnded else ReceiveWaits))"

definition next_observation :: "ingress \<Rightarrow> (ingress \<times> graph_update_observation received) option" where
  "next_observation g =
     (case take_pending_gap g of
        (g', Some generation) \<Rightarrow> Some (g', Received (ObsGap generation))
      | (g', None) \<Rightarrow>
          (case receive_value g' of
             None \<Rightarrow> Some (g', if channel_ended g' then ReceiveEnded else ReceiveWaits)
           | Some (g'', update) \<Rightarrow>
               (case record_dequeue g'' of None \<Rightarrow> None | Some g''' \<Rightarrow> Some (g''', Received (ObsUpdate update)))))"

definition ingress_close :: "ingress \<Rightarrow> ingress option" where
  "ingress_close g = record_receiver_closed g"

definition ingress_drop :: "ingress \<Rightarrow> ingress option" where
  "ingress_drop g =
     (case record_receiver_closed g of
        None \<Rightarrow> None
      | Some g' \<Rightarrow> Some (g'\<lparr>in_queue := [], in_current_occupancy := 0\<rparr>))"

section \<open>Runs\<close>

text \<open>A run interleaves the producers' locked sections with those of the receiver. It records what was
  offered through the open gate and what the receiver took out. Receiving is sequential: the next value
  is taken after the previous one has been recorded.\<close>

datatype ingress_event = Offered graph_update | Taken graph_update

definition ordinary_update :: "graph_update \<Rightarrow> bool" where
  "ordinary_update u = (case u of GuBlockCommitted _ \<Rightarrow> True | GuVspcCommitted _ \<Rightarrow> True | _ \<Rightarrow> False)"

fun offered :: "ingress_event list \<Rightarrow> graph_update list" where
  "offered [] = []"
| "offered (Offered u # es) = u # offered es"
| "offered (Taken u # es) = offered es"

fun taken :: "ingress_event list \<Rightarrow> graph_update list" where
  "taken [] = []"
| "taken (Taken u # es) = u # taken es"
| "taken (Offered u # es) = taken es"

inductive ingress_step :: "ingress \<Rightarrow> ingress_event list \<Rightarrow> ingress \<Rightarrow> bool" where
  step_offer: "ordinary_update u \<Longrightarrow> offer_ordinary g u = Some (g', result) \<Longrightarrow>
    ingress_step g (if result = Inr Enqueued \<or> result = Inr GapReported then [Offered u] else []) g'"
| step_catchup: "publish_catchup g = Some (g', result) \<Longrightarrow>
    ingress_step g (if result = Inr () then [Offered GuCatchup] else []) g'"
| step_live_reserve: "publish_live_reserve g = Some (g', reservation) \<Longrightarrow> ingress_step g [] g'"
| step_live_send: "0 < in_permits g \<Longrightarrow> send_reserved g GuLive = (g', result) \<Longrightarrow>
    ingress_step g (if result = Inr () then [Offered GuLive] else []) g'"
| step_producers_gone: "in_permits g = 0 \<Longrightarrow> ingress_step g [] (g\<lparr>in_producers_gone := True\<rparr>)"
| step_receive: "\<not> in_taken g \<Longrightarrow> receive_value g = Some (g', u) \<Longrightarrow> ingress_step g [Taken u] g'"
| step_record: "in_taken g \<Longrightarrow> record_dequeue g = Some g' \<Longrightarrow> ingress_step g [] g'"
| step_acknowledge: "acknowledge_current g = (g', generation) \<Longrightarrow> ingress_step g [] g'"
| step_close: "ingress_close g = Some g' \<Longrightarrow> ingress_step g [] g'"

inductive ingress_steps :: "ingress \<Rightarrow> ingress_event list \<Rightarrow> ingress \<Rightarrow> bool" for g where
  steps_refl: "ingress_steps g [] g"
| steps_step: "ingress_steps g es g' \<Longrightarrow> ingress_step g' e g'' \<Longrightarrow> ingress_steps g (es @ e) g''"

section \<open>The invariant\<close>

definition ingress_inv :: "ingress \<Rightarrow> bool" where
  "ingress_inv g \<longleftrightarrow>
     in_current_occupancy g = length (in_queue g) + of_bool (in_taken g) \<and>
     length (in_queue g) + in_permits g \<le> GRAPH_UPDATE_CHANNEL_CAPACITY \<and>
     in_current_occupancy g \<le> in_high_water_mark g \<and>
     in_high_water_mark g \<le> GRAPH_UPDATE_CHANNEL_CAPACITY + 1 \<and>
     in_generation g = in_reported_gap_count g \<and>
     in_observed_generation g \<le> in_generation g \<and>
     in_receiver_closure_count g = of_bool (in_receiver_closed g) \<and>
     (in_gate g = GateAwaitingCatchup \<longrightarrow> in_queue g = [] \<and> in_permits g = 0 \<and> in_reported_gap_count g = 0)"

lemma channel_inv: "ingress_inv graph_update_channel"
  by (simp add: ingress_inv_def graph_update_channel_def)

lemmas producer_defs = offer_ordinary_def ingress_try_send_def publish_catchup_def publish_live_reserve_def
  send_reserved_def record_enqueue_def report_gap_def advance_gap_generation_def channel_full_def Let_def

lemmas receiver_defs = receive_value_def record_dequeue_def acknowledge_current_def ingress_close_def
  record_receiver_closed_def

lemma offered_append [simp]: "offered (es @ fs) = offered es @ offered fs"
  by (induction es rule: offered.induct) auto

lemma taken_append [simp]: "taken (es @ fs) = taken es @ taken fs"
  by (induction es rule: taken.induct) auto

lemma gap_increases: "checked_add n (1 :: u64) = Some m \<Longrightarrow> n \<le> m \<and> unat m = unat n + 1"
  by (simp add: unat_checked_add word_le_nat_alt)

text \<open>The three outcomes of an offer through the open gate, and the gate and closure that refuse one.\<close>

lemma offer_cases:
  assumes "offer_ordinary g u = Some (g', result)"
  obtains (closed) "in_receiver_closed g" "g' = g" "result = Inl ReceiverClosed"
  | (suppressed) "\<not> in_receiver_closed g" "in_gate g = GateAwaitingCatchup" "g' = g"
      "result = Inr SuppressedAwaitingCatchup"
  | (enqueued) "\<not> in_receiver_closed g" "in_gate g = GateOpen" "\<not> channel_full g" "result = Inr Enqueued"
      "g' = record_enqueue (g\<lparr>in_queue := in_queue g @ [u]\<rparr>)"
  | (gap) m where "\<not> in_receiver_closed g" "in_gate g = GateOpen" "channel_full g" "result = Inr GapReported"
      "checked_add (in_reported_gap_count g) 1 = Some m" "g' = g\<lparr>in_reported_gap_count := m, in_generation := m\<rparr>"
proof (cases "in_receiver_closed g")
  case True
  show ?thesis by (rule closed) (use assms True in \<open>simp_all add: offer_ordinary_def\<close>)
next
  case open_receiver: False
  show ?thesis
  proof (cases "in_gate g")
    case GateAwaitingCatchup
    show ?thesis
      by (rule suppressed) (use assms open_receiver GateAwaitingCatchup in \<open>simp_all add: offer_ordinary_def\<close>)
  next
    case GateOpen
    show ?thesis
    proof (cases "channel_full g")
      case True
      then obtain m where m: "checked_add (in_reported_gap_count g) 1 = Some m"
        using assms open_receiver GateOpen
        by (cases "checked_add (in_reported_gap_count g) 1")
           (simp_all add: offer_ordinary_def ingress_try_send_def report_gap_def advance_gap_generation_def)
      show ?thesis
        by (rule gap[OF open_receiver GateOpen True _ m])
           (use assms open_receiver GateOpen True m in
             \<open>simp_all add: offer_ordinary_def ingress_try_send_def report_gap_def advance_gap_generation_def\<close>)
    next
      case False
      show ?thesis
        by (rule enqueued)
           (use assms open_receiver GateOpen False in \<open>simp_all add: offer_ordinary_def ingress_try_send_def\<close>)
    qed
  qed
qed

lemma catchup_cases:
  assumes "publish_catchup g = Some (g', result)"
  obtains (closed) "in_receiver_closed g" "g' = g" "result = Inl ReceiverClosed"
  | (opened) "\<not> in_receiver_closed g" "in_gate g = GateAwaitingCatchup" "\<not> channel_full g" "result = Inr ()"
      "g' = (record_enqueue (g\<lparr>in_queue := in_queue g @ [GuCatchup]\<rparr>))\<lparr>in_gate := GateOpen\<rparr>"
  using assms by (auto simp: publish_catchup_def ingress_try_send_def split: if_splits)

lemma close_inv: "ingress_close g = Some g' \<Longrightarrow> ingress_inv g \<Longrightarrow> ingress_inv g'"
  by (cases "in_receiver_closed g")
     (auto simp: ingress_close_def record_receiver_closed_def ingress_inv_def checked_add_def split: if_splits)

lemma step_inv:
  assumes "ingress_step g e g'" "ingress_inv g"
  shows "ingress_inv g'"
  using assms
proof (cases rule: ingress_step.cases)
  case (step_offer u result)
  from step_offer(3) show ?thesis
  proof (cases rule: offer_cases)
    case (gap m)
    then show ?thesis using assms(2) gap_increases[of "in_reported_gap_count g" m] by (auto simp: ingress_inv_def)
  qed (use assms(2) in \<open>auto simp: ingress_inv_def record_enqueue_def Let_def channel_full_def\<close>)
next
  case (step_receive u)
  then show ?thesis using assms(2) by (auto simp: ingress_inv_def receive_value_def split: list.splits)
next
  case (step_catchup result)
  from step_catchup(2) show ?thesis
    by (cases rule: catchup_cases)
      (use assms(2) in \<open>auto simp: ingress_inv_def record_enqueue_def Let_def channel_full_def\<close>)
next
  case (step_live_reserve reservation)
  then show ?thesis using assms(2)
    by (auto simp: publish_live_reserve_def ingress_inv_def channel_full_def split: if_splits)
next
  case (step_live_send result)
  then show ?thesis using assms(2)
    by (cases "in_receiver_closed g") (auto simp: send_reserved_def record_enqueue_def Let_def ingress_inv_def)
next
  case step_record
  then show ?thesis using assms(2) by (auto simp: record_dequeue_def ingress_inv_def split: if_splits)
next
  case (step_acknowledge generation)
  then show ?thesis using assms(2) by (auto simp: acknowledge_current_def ingress_inv_def)
next
  case step_close
  then show ?thesis using assms(2) close_inv by blast
qed (auto simp: ingress_inv_def)

section \<open>Conservation\<close>

text \<open>Between two points of a run, what the receiver took and what still waits is, in order, what waited
  and what was offered, less the updates counted by the gap generation; a marker is never among those.\<close>

definition conserved :: "ingress \<Rightarrow> ingress_event list \<Rightarrow> ingress \<Rightarrow> bool" where
  "conserved g es g' \<longleftrightarrow>
     subseq (taken es @ in_queue g') (in_queue g @ offered es) \<and>
     in_reported_gap_count g \<le> in_reported_gap_count g' \<and>
     length (in_queue g @ offered es) + unat (in_reported_gap_count g) =
       length (taken es @ in_queue g') + unat (in_reported_gap_count g') \<and>
     filter (Not \<circ> ordinary_update) (taken es @ in_queue g') =
       filter (Not \<circ> ordinary_update) (in_queue g @ offered es)"

lemma step_conserved:
  assumes "ingress_step g e g'" "ingress_inv g"
  shows "conserved g e g'"
  using assms
proof (cases rule: ingress_step.cases)
  case (step_offer u result)
  from step_offer(3) show ?thesis
  proof (cases rule: offer_cases)
    case (gap m)
    then show ?thesis using step_offer gap_increases[of "in_reported_gap_count g" m]
      by (auto simp: conserved_def intro: list_emb_append2 subseq_rev_drop_many)
  qed (use step_offer in \<open>auto simp: conserved_def record_enqueue_def Let_def\<close>)
next
  case (step_receive u)
  then show ?thesis by (auto simp: conserved_def receiver_defs split: list.splits)
qed (auto simp: conserved_def producer_defs receiver_defs split: if_splits option.splits)

lemma conserved_trans:
  assumes "conserved g es g'" "conserved g' fs g''"
  shows "conserved g (es @ fs) g''"
proof -
  have "subseq (taken es @ (taken fs @ in_queue g'')) (taken es @ (in_queue g' @ offered fs))"
    using assms(2) by (intro list_emb_append_mono[OF subseq_order.order_refl]) (simp add: conserved_def)
  moreover have "subseq ((taken es @ in_queue g') @ offered fs) ((in_queue g @ offered es) @ offered fs)"
    using assms(1) by (intro list_emb_append_mono[OF _ subseq_order.order_refl]) (simp add: conserved_def)
  ultimately have "subseq (taken es @ taken fs @ in_queue g'') (in_queue g @ offered es @ offered fs)"
    by (metis append_assoc subseq_order.order_trans)
  then show ?thesis using assms by (auto simp: conserved_def)
qed

lemma steps_conserved: "ingress_steps g es g' \<Longrightarrow> ingress_inv g \<Longrightarrow> ingress_inv g' \<and> conserved g es g'"
proof (induction rule: ingress_steps.induct)
  case steps_refl
  then show ?case by (simp add: conserved_def)
next
  case (steps_step es g' e g'')
  then show ?case using step_inv step_conserved conserved_trans by blast
qed

text \<open>The gate lets exactly one \<open>Catchup\<close> through, before everything else.\<close>

definition catchup_first :: "ingress \<Rightarrow> graph_update list \<Rightarrow> bool" where
  "catchup_first g us \<longleftrightarrow>
     (case us of
        [] \<Rightarrow> in_gate g = GateAwaitingCatchup
      | u # rest \<Rightarrow> in_gate g = GateOpen \<and> u = GuCatchup \<and> GuCatchup \<notin> set rest)"

lemma step_catchup_first:
  assumes "ingress_step g e g'" "ingress_inv g" "catchup_first g us"
  shows "catchup_first g' (us @ offered e)"
  using assms
proof (cases rule: ingress_step.cases)
  case (step_offer u result)
  from step_offer(3) show ?thesis
    by (cases rule: offer_cases)
      (use step_offer assms(3) in \<open>auto simp: catchup_first_def record_enqueue_def Let_def ordinary_update_def split: list.splits\<close>)
qed (auto simp: catchup_first_def ingress_inv_def producer_defs receiver_defs split: if_splits option.splits list.splits)

lemma run_catchup_first: "ingress_steps graph_update_channel es g \<Longrightarrow> catchup_first g (offered es)"
proof (induction rule: ingress_steps.induct)
  case steps_refl
  then show ?case by (simp add: catchup_first_def graph_update_channel_def)
next
  case (steps_step es g' e g'')
  then show ?case using step_catchup_first steps_conserved[OF steps_step(1) channel_inv] by auto
qed

section \<open>Totality\<close>

lemma record_dequeue_after_receive:
  "ingress_inv g \<Longrightarrow> \<not> in_taken g \<Longrightarrow> receive_value g = Some (g', u) \<Longrightarrow>
     \<exists>g''. record_dequeue g' = Some g''"
  by (auto simp: ingress_inv_def receive_value_def record_dequeue_def split: list.splits)

lemma ingress_total:
  assumes "ingress_inv g"
  shows "unat (in_reported_gap_count g) + 1 < 2 ^ 64 \<Longrightarrow> offer_ordinary g u \<noteq> None"
    and "in_gate g = GateAwaitingCatchup \<Longrightarrow> publish_catchup g \<noteq> None"
    and "in_gate g = GateOpen \<Longrightarrow> publish_live_reserve g \<noteq> None"
    and "\<not> in_taken g \<Longrightarrow> recv_update g \<noteq> None"
    and "\<not> in_taken g \<Longrightarrow> try_recv_update g \<noteq> None"
    and "\<not> in_taken g \<Longrightarrow> next_observation g \<noteq> None"
    and "ingress_close g \<noteq> None" and "ingress_drop g \<noteq> None"
  using assms
  by (auto simp: ingress_inv_def producer_defs receiver_defs recv_update_def try_recv_update_def next_observation_def
      take_pending_gap_def ingress_drop_def GRAPH_UPDATE_CHANNEL_CAPACITY_def checked_add_def
      split: if_splits option.splits list.splits)

lemma closed_refuses:
  assumes "ingress_close g = Some g' \<or> ingress_drop g = Some g'"
  shows "offer_ordinary g' u = Some (g', Inl ReceiverClosed)"
    and "snd (send_reserved g' u) = Inl ReceiverClosed"
  using assms by (auto simp: producer_defs receiver_defs ingress_drop_def split: if_splits option.splits)

end
