(* ===== verification/Feed_Properties.thy ===== *)
theory Feed_Properties
  imports Client_Wakeups Ingress_Channel
begin

text \<open>
  What the two ends of the graph feed promise: the wakeups of the connected clients, and the channel that
  brings the committed updates in.
\<close>

section \<open>Clients\<close>

text \<open>C6. In every reachable state of a client registry each client either has had its wakeup or waits for a revision
  ahead of the Head. Advancing the Head never fails; every client whose revision has come is then woken, with the
  wakeup of the new Head last in its mailbox, or is told that its connection is over.\<close>

theorem wakeups_are_never_lost:
  assumes "client_reachable (reg, w)" and "reg_head_revision_id reg \<le> revision"
  shows "(\<forall>k r. fmlookup (reg_clients reg) k = Some r \<longrightarrow>
      dws_wake_sent (scr_schedule r) \<or> reg_head_revision_id reg < dws_wake_at_revision_id (scr_schedule r)) \<and>
    (\<exists>reg' w'. registry_advance_head reg revision w = Some (reg', w') \<and> reg_head_revision_id reg' = revision \<and>
      (\<forall>k r. fmlookup (reg_clients reg) k = Some r \<longrightarrow>
        (case fmlookup (reg_clients reg') k of
           None \<Rightarrow> scr_disconnect r \<in> set (sw_cancelled w')
         | Some r' \<Rightarrow> \<not> dws_wake_sent (scr_schedule r) \<and> dws_wake_at_revision_id (scr_schedule r) \<le> revision \<longrightarrow>
             dws_wake_sent (scr_schedule r') \<and> scr_mailbox r \<in> set (sw_notified w') \<and>
             (\<exists>m. fmlookup (sw_mailboxes w') (scr_mailbox r) = Some m \<and> mb_queue m \<noteq> [] \<and>
                last (mb_queue m) = GraphWakeup (PublicationWakeup (reg_publication_id reg) revision)))))"
proof -
  have i: "registry_inv reg w" "mailboxes_ok (sw_mailboxes w)" using client_reachable_inv[OF assms(1)] by simp_all
  then have "\<forall>k r. fmlookup (reg_clients reg) k = Some r \<longrightarrow>
      dws_wake_sent (scr_schedule r) \<or> reg_head_revision_id reg < dws_wake_at_revision_id (scr_schedule r)"
    by (auto simp: registry_inv_def clients_ok_def client_ok_def fmpred_iff)
  then show ?thesis using advance_head_serves[OF i assms(2)] by blast
qed

definition empty_world :: sse_world where
  "empty_world = \<lparr>sw_mailboxes = fmempty, sw_notified = [], sw_cancelled = []\<rparr>"

text \<open>A client that registered at revision 3 and asked to be woken at revision 5.\<close>

definition sample_registry :: "sse_client_registry \<times> sse_world" where
  "sample_registry =
     (let w0 = store_mailbox 0 sse_mailbox_new empty_world
      in case registry_register (sse_client_registry_new 7 Live 3) 3 0 1 [42] w0 of
           Some (reg, w, _) \<Rightarrow> (case complete_delta reg 42 (ReplaceSchedule 5 False) w of (reg', w', _) \<Rightarrow> (reg', w'))
         | None \<Rightarrow> undefined)"

lemma sample_registry_reachable: "client_reachable sample_registry"
proof -
  let ?reg = "sse_client_registry_new 7 Live 3" and ?w0 = "store_mailbox 0 sse_mailbox_new empty_world"
  have "client_reachable (?reg, empty_world)" unfolding empty_world_def by (rule cr_new)
  moreover have "client_step (?reg, empty_world) (?reg, ?w0)" by (rule cs_connect) (simp add: empty_world_def)
  ultimately have r0: "client_reachable (?reg, ?w0)" by (rule cr_step)
  have "registry_register ?reg 3 0 1 [42] ?w0 \<noteq> None" by code_simp
  then obtain reg w result where run: "registry_register ?reg 3 0 1 [42] ?w0 = Some (reg, w, result)" by auto
  have "client_step (?reg, ?w0) (reg, w)"
    by (rule cs_register[OF _ _ run]) (auto simp: owned_mailboxes_def sse_client_registry_new_def store_mailbox_def elim: fmran'E)
  then have r1: "client_reachable (reg, w)" by (rule cr_step[OF r0])
  obtain reg' w' result' where done': "complete_delta reg 42 (ReplaceSchedule 5 False) w = (reg', w', result')" using prod_cases3 by blast
  have "client_reachable (reg', w')" by (rule cr_step[OF r1 cs_complete[OF done']])
  then show ?thesis using run done' by (simp add: sample_registry_def Let_def)
qed

theorem wakeups_are_never_lost_witness:
  "\<exists>reg' w' m. registry_advance_head (fst sample_registry) 5 (snd sample_registry) = Some (reg', w') \<and>
     fmlookup (sw_mailboxes w') 0 = Some m \<and> last (mb_queue m) = GraphWakeup (PublicationWakeup 7 5)"
proof -
  have c: "reg_head_revision_id (fst sample_registry) \<le> 5" "reg_publication_id (fst sample_registry) = 7"
    "map_option (\<lambda>r. (scr_mailbox r, dws_wake_at_revision_id (scr_schedule r), dws_wake_sent (scr_schedule r)))
       (fmlookup (reg_clients (fst sample_registry)) 42) = Some (0, 5, False)"
    "map_option (\<lambda>(reg', _). 42 |\<in>| fmdom (reg_clients reg'))
       (registry_advance_head (fst sample_registry) 5 (snd sample_registry)) = Some True" by code_simp+
  then obtain r where r: "fmlookup (reg_clients (fst sample_registry)) 42 = Some r" "scr_mailbox r = 0"
      "dws_wake_at_revision_id (scr_schedule r) = 5" "\<not> dws_wake_sent (scr_schedule r)" by auto
  obtain reg' w' where a: "registry_advance_head (fst sample_registry) 5 (snd sample_registry) = Some (reg', w')"
      "42 |\<in>| fmdom (reg_clients reg')" using c(4) by auto
  then obtain r' where "fmlookup (reg_clients reg') 42 = Some r'" by (auto simp: fmlookup_dom_iff)
  then show ?thesis
    using wakeups_are_never_lost[of "fst sample_registry" "snd sample_registry" 5] sample_registry_reachable c(1,2) r a(1)
    by (force split: option.splits)
qed

section \<open>The ingress channel\<close>

text \<open>C5. However producers and the receiver are interleaved, nothing that passes the gate is lost silently: what the
  receiver took, followed by what is still queued, is what was offered, in order, short of exactly as many
  ordinary updates as gaps were reported, and of no marker; the first thing offered is the only \<open>Catchup\<close>, and the
  queue stays within its capacity.\<close>

theorem ingress_loses_nothing_silently:
  assumes "ingress_steps graph_update_channel es g"
  shows "subseq (taken es @ in_queue g) (offered es) \<and>
    length (offered es) = length (taken es @ in_queue g) + unat (in_reported_gap_count g) \<and>
    filter (Not \<circ> ordinary_update) (taken es @ in_queue g) = filter (Not \<circ> ordinary_update) (offered es) \<and>
    catchup_first g (offered es) \<and> length (in_queue g) \<le> GRAPH_UPDATE_CHANNEL_CAPACITY"
proof -
  have c: "ingress_inv g" "conserved graph_update_channel es g" using steps_conserved[OF assms channel_inv] by simp_all
  then show ?thesis using run_catchup_first[OF assms]
    by (auto simp: conserved_def graph_update_channel_def ingress_inv_def)
qed

theorem ingress_loses_nothing_silently_witness:
  "\<exists>g. ingress_steps graph_update_channel [Offered GuCatchup, Taken GuCatchup] g \<and> in_queue g = [] \<and> in_reported_gap_count g = 0"
proof -
  obtain g1 where g1: "publish_catchup graph_update_channel = Some (g1, Inr ())"
    by (simp add: producer_defs graph_update_channel_def channel_full_def GRAPH_UPDATE_CHANNEL_CAPACITY_def)
  then have q: "in_queue g1 = [GuCatchup]" "\<not> in_taken g1"
    by (auto simp: producer_defs graph_update_channel_def channel_full_def GRAPH_UPDATE_CHANNEL_CAPACITY_def record_enqueue_def)
  obtain g2 where g2: "receive_value g1 = Some (g2, GuCatchup)" using q by (simp add: receive_value_def)
  have "ingress_steps graph_update_channel ([] @ [Offered GuCatchup]) g1"
    using steps_step[OF steps_refl step_catchup[OF g1]] by simp
  then have run: "ingress_steps graph_update_channel [Offered GuCatchup, Taken GuCatchup] g2"
    using steps_step[OF _ step_receive[OF q(2) g2]] by force
  have "length (in_queue g2) + unat (in_reported_gap_count g2) = 0" using ingress_loses_nothing_silently[OF run] by simp
  then show ?thesis using run by (auto simp: unat_eq_0)
qed

end
