(* ===== verification/Spec2Isabelle.thy ===== *)
theory Spec2Isabelle
  imports Graph_Properties Publication_Properties Vspc_Properties Block_Properties Orphan_Properties Resolution_Properties
    Delivery_Properties Feed_Properties
begin

text \<open>
  \<^bold>\<open>Kaspa Graph Inspector\<close>: a verification development of the Rust workspace under \<open>src/crates\<close>.

  \<^bold>\<open>The program.\<close> The inspector follows a Kaspa node and publishes its block graph. Two workers of
  \<open>kgi-processing\<close> take the node's notifications and the blocks read during synchronization: the block processor
  materializes blocks in the database and parks those whose references are missing with the orphan manager,
  whose dependency resolver fetches them; the VSPC processor follows the selected parent chain, in consensus
  order, over the blocks the block processor has reported as persisted. Both offer what they commit to the
  graph feed. The API side keeps the graph of a window as a \<open>GraphView\<close>, turns each commit into an atomic
  \<open>GraphDelta\<close>, keeps the deltas in a \<open>GraphHistory\<close> and lets clients catch up along a ladder of target
  revisions.

  \<^bold>\<open>Conventions.\<close> Words have the width of the source's integers and \<open>usize\<close> is \<open>nat\<close>. Hash and tree maps are
  finite maps, sets are finite sets, and a loop over one runs in the order of its keys. A result \<open>None\<close> is a
  panic of the source (a failed \<open>expect\<close>, index or checked operation), \<open>Inl\<close> is \<open>Err\<close> and \<open>Inr\<close> is \<open>Ok\<close>; a
  method with \<open>&mut self\<close> returns the new state. A worker has its mailboxes as lists and logs of what it has
  sent; one iteration of its \<open>run\<close> loop is a function, with the branch order of the \<open>biased\<close> select. The
  database, the node and the receivers behind the bounded channels are the source's traits and third-party
  channels; they are records of functions passed to the worker (\<open>vspc_env\<close>, \<open>bp_env\<close>, \<open>om_env\<close>, \<open>dr_env\<close>), and what a
  theorem needs of them is a named predicate (\<open>lawful\<close>, \<open>runtime_ok\<close>). Diagnostic strings are left out.

  \<^bold>\<open>Theories and what they show.\<close>

  \<^item> \<open>KGI_Prelude\<close>, \<open>KGI_Collections\<close>: checked arithmetic, monadic folds, the bucket and span indexes with
    the locale \<open>bucket_index\<close> of their laws and its two interpretations, sorted searches.
  \<^item> \<open>KGI_Model\<close>: \<open>kgi-model\<close>; compact ids, coordinates, consensus order, commit payloads, faults.
  \<^item> \<open>Graph_Types\<close>, \<open>Graph_View\<close>, \<open>Graph_View_Inv\<close>, \<open>Graph_Delta_Apply\<close>, \<open>Graph_Capture\<close>, \<open>Graph_Compose\<close>,
    \<open>Graph_Commit\<close>, \<open>Graph_Prune\<close>, \<open>Graph_Head\<close>, \<open>Graph_Vspc\<close>, \<open>Graph_Build\<close>: \<open>kgi-api-model/src/graph.rs\<close> and
    \<open>delta.rs\<close>. \<open>view_inv\<close> says that the edge indexes and the usage counts of the levels are exactly those of
    the edges; every mutator keeps it, every commit refines an abstract projection of the graph, and every
    delta a commit captures replays. \<open>Graph_Properties\<close> holds the claims.
  \<^item> \<open>Graph_History\<close>, \<open>Graph_Lineage\<close>, \<open>Delta_Ladder\<close>, \<open>Delta_Estimate\<close>: \<open>kgi-api-model/src/history.rs\<close>,
    \<open>kgi-api-core/src/delta.rs\<close> and \<open>publication/estimate.rs\<close>. A lineage is a view and its history advanced
    together; what the history hands out replays on it. The locale \<open>revisioned\<close> is the contract between the
    two, interpreted on graph views. \<open>Publication_Properties\<close> holds the claims.
  \<^item> \<open>Processing_Faults\<close>, \<open>Worker_Loop\<close>: the fault mappings of \<open>kgi-processing\<close>, and the locale
    \<open>loop_contract\<close> of a worker's iteration, from which its loop never panics and comes to rest.
  \<^item> \<open>Vspc_State\<close>, \<open>Vspc_Worker\<close>, \<open>Vspc_Drive\<close>: \<open>kgi-processing/src/vspc_processor.rs\<close>. \<open>vspc_inv\<close> says that each
    index of the pending candidates is exact; \<open>vspc_reachable\<close> are the workers of a run. The claims are in
    \<open>Vspc_Properties\<close>.
  \<^item> \<open>Block_Processor\<close>, \<open>Block_Run\<close>: \<open>block_processor/processor.rs\<close>, with the runs \<open>bp_reachable\<close>; the claims
    are in \<open>Block_Properties\<close>.
  \<^item> \<open>Orphan_Topology\<close>: the topology of \<open>block_processor/orphan.rs\<close>; the claims are in \<open>Orphan_Properties\<close>.
  \<^item> \<open>Dependency_Resolver\<close>, \<open>Resolver_Run\<close>, \<open>Orphan_Manager\<close>, \<open>Orphan_Run\<close>: the resolver of
    \<open>block_processor/dependency.rs\<close>, whose iterations interleave with the steps of its RPC tasks
    (\<open>dr_reachable\<close>) and which refines an abstract table of outstanding requests (\<open>request_step\<close>), and the
    manager's worker of \<open>orphan.rs\<close> (\<open>om_reachable\<close>), which keeps to a protocol with it (\<open>requested_of\<close>). The
    claims are in \<open>Resolution_Properties\<close>; that the two agree is at the end of this theory.

  \<^bold>\<open>Bounds.\<close> Revisions of the ladder are assumed at least 128 below the end of 64 bits, where the source's
  checked operations panic. The VSPC worker's candidate counter has to have room for the changes queued
  (\<open>id_budget\<close>), the orphan manager's threshold counter for its messages (\<open>om_fits\<close>), and the edges of a view are fewer than \<open>2 ^ 64\<close>. The only fuel is that of \<open>run_loop\<close>; the
  termination claims show that some amount of it is enough.

  \<^bold>\<open>Not modelled.\<close> The SQL of \<open>kgi-storage\<close> and the RPC sessions of \<open>kgi-node\<close>, which stand behind the
  workers' traits; the HTTP services, caches, JSON codecs and encoding threads of \<open>kgi-api-core\<close>; the locks,
  timers and wakeups of the publication runtime around the graph view, history and ladder; signals,
  configuration and command line; the web client. These are input and output, rendering, or code of the
  asynchronous runtime. Metrics are modelled where a worker branches on them.
\<close>

section \<open>Manager and resolver together\<close>

definition works_taken :: "request_event list \<Rightarrow> resolver_work list" where
  "works_taken log = concat (map (\<lambda>e. case e of Took x \<Rightarrow> [x] | _ \<Rightarrow> []) log)"

lemma works_taken_snoc [simp]:
  "works_taken (log @ [Took x]) = works_taken log @ [x]" "works_taken (log @ [Answered h]) = works_taken log"
  "works_taken (log @ [Dropped h]) = works_taken log" "works_taken [] = []"
  by (simp_all add: works_taken_def)

lemma requested_prefix: "requested_of (ws @ [x]) = Some p \<Longrightarrow> \<exists>q. requested_of ws = Some q \<and> work_step q x = Some p"
  by (cases "requested_of ws") (simp_all add: requested_snoc)

lemma log_prefix: "fold_opt request_step s (log @ [e]) = Some r \<Longrightarrow> \<exists>q. fold_opt request_step s log = Some q \<and> request_step q e = Some r"
  by (cases "fold_opt request_step s log") (simp_all add: request_log_snoc)

text \<open>A run of the abstract resolver on work that keeps to the protocol: what it is still to answer is
  requested, and what is requested is still to be answered or has been.\<close>

lemma open_iff_requested:
  assumes "fold_opt request_step fmempty log = Some r" "requested_of (works_taken log) = Some p"
  shows "(fmlookup r h = Some False \<longrightarrow> h |\<in>| p) \<and> (h |\<in>| p \<longrightarrow> fmlookup r h = Some False \<or> h \<in> set (answered_hashes log))"
  using assms
proof (induction log arbitrary: r p rule: rev_induct)
  case Nil
  then show ?case by (simp add: requested_of_def)
next
  case (snoc e log)
  obtain q where q: "fold_opt request_step fmempty log = Some q" "request_step q e = Some r" using log_prefix[OF snoc.prems(1)] by blast
  show ?case
  proof (cases e)
    case (Took x)
    obtain p0 where p0: "requested_of (works_taken log) = Some p0" "work_step p0 x = Some p"
      using requested_prefix[of "works_taken log" x p] snoc.prems(2) unfolding Took works_taken_snoc by blast
    show ?thesis using snoc.IH[OF q(1) p0(1)] q(2) p0(2)
      by (cases x) (auto simp: Took request_step_def work_step_def split: if_splits)
  next
    case (Answered k)
    then have "requested_of (works_taken log) = Some p" using snoc.prems(2) by simp
    from snoc.IH[OF q(1) this] show ?thesis using q(2) Answered by (auto simp: request_step_def split: if_splits)
  next
    case (Dropped k)
    then have "requested_of (works_taken log) = Some p" using snoc.prems(2) by simp
    from snoc.IH[OF q(1) this] show ?thesis using q(2) Dropped by (auto simp: request_step_def split: if_splits)
  qed
qed

text \<open>C9. The orphan manager and the dependency resolver agree. When the resolver has taken all the work an
  active manager has sent and has not faulted, every request it is still to answer is for a reference the
  manager has pending, and every pending reference is still to be answered or has been answered; none is
  forgotten between the two.\<close>

theorem manager_and_resolver_agree:
  assumes "om_inv m" and "om_state m = OmActive" and "runtime_ok env" and "dr_reachable env db w" and "\<not> dr_faulted w"
    and "works_taken (dr_log w) = om_work m"
  shows "(fmlookup (open_requests w) h = Some False \<longrightarrow> h |\<in>| ot_resolution_pending (om_topology m)) \<and>
    (h |\<in>| ot_resolution_pending (om_topology m) \<longrightarrow>
       fmlookup (open_requests w) h = Some False \<or> h \<in> set (sent_hashes (dr_sent w)))"
proof -
  have "fold_opt request_step fmempty (dr_log w) = Some (open_requests w)" "sent_hashes (dr_sent w) = answered_hashes (dr_log w)"
    using reachable_dr_inv[OF assms(3,4)] assms(5) by (simp_all add: dr_inv_def requests_ok_def)
  moreover have "requested_of (works_taken (dr_log w)) = Some (ot_resolution_pending (om_topology m))"
    using assms(1,2,6) by (simp add: om_inv_def)
  ultimately show ?thesis using open_iff_requested by metis
qed

theorem manager_and_resolver_agree_witness:
  "ot_resolution_pending (om_topology sample_waiting) = {|1, 2|} \<and> fmlookup (open_requests dr_taken) 2 = Some False"
proof -
  have "om_state sample_waiting = OmActive" "\<not> dr_faulted dr_taken" "works_taken (dr_log dr_taken) = om_work sample_waiting" by code_simp+
  note agree = manager_and_resolver_agree[OF sample_waiting_inv this(1) sample_runtime dr_taken_reachable this(2,3), of 2]
  have p: "ot_resolution_pending (om_topology sample_waiting) = {|1, 2|}" by (simp add: sample_waiting_def)
  have "dr_sent dr_taken = []" by code_simp
  then show ?thesis using agree p by (simp add: sent_hashes_def)
qed

end
